(* ===== verification/Prelude.thy ===== *)
theory Prelude
  imports
    Main
    "HOL-Library.Word"
    "HOL-Library.List_Lexorder"
    "HOL-Library.Char_ord"
    "HOL-Library.Monad_Syntax"
begin

text \<open>
  Shared vocabulary of the development: the machine integers of the C++ code, the
  fixed-size byte arrays \<open>std::array<uint8_t, N>\<close> (block.h: \<open>Hash256\<close>, \<open>Address\<close>,
  \<open>PubKey33\<close>, \<open>Sig64\<close>), the conversion between \<open>std::string\<close> and its bytes, the three
  OpenSSL-backed primitives as a record of functions, and the collections of rewrite
  rules the component theories extend.
\<close>

unbundle bit_operations_syntax

named_theorems wire_simps \<open>reading back what a writer of the wire format appended\<close>
named_theorems length_simps \<open>lengths of encodings\<close>

section \<open>Machine integers and strings\<close>

type_synonym u8 = "8 word"
type_synonym u16 = "16 word"
type_synonym u32 = "32 word"
type_synonym u64 = "64 word"
type_synonym bytes = "u8 list"

definition byte_of_char :: "char \<Rightarrow> u8" where
  "byte_of_char c = word_of_nat (of_char c)"

definition char_of_byte :: "u8 \<Rightarrow> char" where
  "char_of_byte w = char_of (unat w)"

definition str_bytes :: "string \<Rightarrow> bytes" where
  "str_bytes s = map byte_of_char s"

definition bytes_str :: "bytes \<Rightarrow> string" where
  "bytes_str b = map char_of_byte b"

lemma char_of_byte_of_char [simp]: "char_of_byte (byte_of_char c) = c"
proof -
  have "(of_char c :: nat) < 256"
    by simp
  then show ?thesis
    by (simp add: byte_of_char_def char_of_byte_def unat_of_nat)
qed

lemma byte_of_char_of_byte [simp]: "byte_of_char (char_of_byte w) = w"
proof -
  have "unat w < 256"
    using unsigned_less [of w] by simp
  then show ?thesis
    by (simp add: byte_of_char_def char_of_byte_def)
qed

lemma str_bytes_inverse [simp]: "bytes_str (str_bytes s) = s"
  by (simp add: str_bytes_def bytes_str_def o_def map_idI)

lemma bytes_str_inverse [simp]: "str_bytes (bytes_str b) = b"
  by (simp add: str_bytes_def bytes_str_def o_def map_idI)

lemma length_str_bytes [simp, length_simps]: "length (str_bytes s) = length s"
  by (simp add: str_bytes_def)

lemma length_bytes_str [simp]: "length (bytes_str b) = length b"
  by (simp add: bytes_str_def)

lemma str_bytes_inject [simp]: "str_bytes s = str_bytes t \<longleftrightarrow> s = t"
  by (metis str_bytes_inverse)

section \<open>Fixed-size byte arrays\<close>

typedef (overloaded) ('n::len) arr = "{xs :: bytes. length xs = LENGTH('n)}"
  morphisms arr_bytes Abs_arr
  by (rule exI [of _ "replicate LENGTH('n) 0"]) simp

lemma arr_abstype [code abstype]: "Abs_arr (arr_bytes a) = a"
  by (rule arr_bytes_inverse)

text \<open>
  \<open>mk_arr\<close> is \<open>std::copy\<close> of a byte range into a zeroed array: too few bytes leave zeros,
  too many are cut.
\<close>

definition mk_arr :: "bytes \<Rightarrow> ('n::len) arr" where
  "mk_arr xs = Abs_arr (take LENGTH('n) (xs @ replicate LENGTH('n) 0))"

lemma arr_bytes_mk_arr_take [code abstract]:
  "arr_bytes (mk_arr xs :: ('n::len) arr) = take LENGTH('n) (xs @ replicate LENGTH('n) 0)"
  by (simp add: mk_arr_def Abs_arr_inverse)

lemma length_arr_bytes [simp, length_simps]: "length (arr_bytes (a :: ('n::len) arr)) = LENGTH('n)"
  using arr_bytes [of a] by simp

lemma arr_bytes_mk_arr [simp]:
  "length xs = LENGTH('n) \<Longrightarrow> arr_bytes (mk_arr xs :: ('n::len) arr) = xs"
  by (simp add: arr_bytes_mk_arr_take)

lemma arr_eq_iff: "a = b \<longleftrightarrow> arr_bytes a = arr_bytes b"
  by (simp add: arr_bytes_inject)

lemma mk_arr_arr_bytes [simp]: "mk_arr (arr_bytes a) = a"
  by (simp add: arr_eq_iff)

lemma arr_bytes_append_eq [simp]:
  "arr_bytes (a :: ('n::len) arr) @ r = arr_bytes (b :: 'n arr) @ s \<longleftrightarrow> a = b \<and> r = s"
  by (simp add: arr_eq_iff)

instantiation arr :: (len) zero
begin

definition zero_arr_def: "0 = (mk_arr [] :: 'a arr)"

instance ..

end

lemma arr_bytes_zero: "arr_bytes (0 :: ('n::len) arr) = replicate LENGTH('n) 0"
  by (simp add: zero_arr_def arr_bytes_mk_arr_take)

instantiation arr :: (len) equal
begin

definition equal_arr_def: "HOL.equal (a :: 'a arr) b = (arr_bytes a = arr_bytes b)"

instance
  by standard (simp add: equal_arr_def arr_eq_iff)

end

text \<open>
  \<open>std::array\<close> compares lexicographically, byte by byte as unsigned values: the order of
  \<open>std::map<Address, _>\<close>, of \<open>memcmp\<close> and of the fork-choice tie-break.
\<close>

instantiation arr :: (len) linorder
begin

definition less_eq_arr_def: "a \<le> b \<longleftrightarrow> arr_bytes (a :: 'a arr) \<le> arr_bytes b"
definition less_arr_def: "a < b \<longleftrightarrow> arr_bytes (a :: 'a arr) < arr_bytes b"

instance
  by standard (auto simp: less_eq_arr_def less_arr_def arr_eq_iff)

end

instance arr :: (len) finite
proof
  have "range (arr_bytes :: 'a arr \<Rightarrow> bytes) \<subseteq> {xs :: bytes. length xs = LENGTH('a) \<and> set xs \<subseteq> UNIV}"
    by auto
  moreover have "finite {xs :: bytes. set xs \<subseteq> UNIV \<and> length xs = LENGTH('a)}"
    by (rule finite_lists_length_eq) simp
  ultimately have "finite (range (arr_bytes :: 'a arr \<Rightarrow> bytes))"
    by (elim finite_subset [rotated]) auto
  then show "finite (UNIV :: 'a arr set)"
    by (rule finite_imageD) (simp add: inj_on_def arr_bytes_inject)
qed

type_synonym hash256 = "32 arr"
type_synonym address = "20 arr"
type_synonym pubkey33 = "33 arr"
type_synonym sig64 = "64 arr"

section \<open>What the program calls\<close>

text \<open>
  The development is parametric in the code the program only links: OpenSSL's \<open>SHA256\<close>,
  \<open>ECDSA_verify\<close> and the point decompression behind \<open>address_from_pubkey\<close>, chromaprint's
  \<open>chromaprint_decode_fingerprint\<close> (\<open>None\<close> for a failure or an empty result) and
  nlohmann's JSON parser (\<open>None\<close> for the exception it throws). A JSON number is kept as
  \<open>get<int>()\<close> converts it.
\<close>

datatype json = JNull | JBool bool | JNumber int | JString string | JArray "json list"
  | JObject "(string \<times> json) list"

record crypto =
  sha256 :: "bytes \<Rightarrow> hash256"
  verify_ecdsa :: "hash256 \<Rightarrow> sig64 \<Rightarrow> pubkey33 \<Rightarrow> bool"
  address_from_pubkey :: "pubkey33 \<Rightarrow> address"
  chromaprint_decode :: "string \<Rightarrow> u32 list option"
  json_parse :: "string \<Rightarrow> json option"

text \<open>A concrete stand-in, used only to show that hypotheses about these can hold.\<close>

definition toy_crypto :: crypto where
  "toy_crypto = \<lparr>sha256 = (\<lambda>b. mk_arr b),
                 verify_ecdsa = (\<lambda>_ _ _. True),
                 address_from_pubkey = (\<lambda>k. mk_arr (arr_bytes k)),
                 chromaprint_decode = (\<lambda>_. None),
                 json_parse = (\<lambda>_. None)\<rparr>"

lemma toy_crypto_simps [simp]:
  "sha256 toy_crypto b = mk_arr b"
  "verify_ecdsa toy_crypto h s k"
  "address_from_pubkey toy_crypto k = mk_arr (arr_bytes k)"
  "chromaprint_decode toy_crypto t = None"
  "json_parse toy_crypto t = None"
  by (simp_all add: toy_crypto_def)

section \<open>64-bit arithmetic read over the natural numbers\<close>

lemma unat_add_mod: "unat (a + b :: u64) = (unat a + unat b) mod 2 ^ 64"
  by (simp add: unat_word_ariths)

lemma unat_less_u64 [simp]: "unat (a :: u64) < 2 ^ 64"
  using unsigned_less [of a] by simp

lemma unat_less_u32 [simp]: "unat (a :: u32) < 2 ^ 32"
  using unsigned_less [of a] by simp

lemma mod_sum_less_iff:
  assumes "(x :: nat) < m" and "y < m"
  shows "(x + y) mod m < x \<longleftrightarrow> m \<le> x + y"
proof (cases "m \<le> x + y")
  case True
  then have "(x + y) mod m = x + y - m" using assms by (simp add: mod_if)
  with True assms show ?thesis by linarith
qed simp

lemma unat_add_wrap_iff: "a + b < (a :: u64) \<longleftrightarrow> 2 ^ 64 \<le> unat a + unat b"
  unfolding word_less_nat_alt unat_add_mod by (rule mod_sum_less_iff) (rule unat_less_u64)+

lemma unat_add_no_wrap:
  assumes "\<not> a + b < (a :: u64)"
  shows "unat (a + b) = unat a + unat b"
  unfolding unat_add_mod by (rule mod_less) (use assms unat_add_wrap_iff [of a b] in linarith)

lemma unat_ucast_32_64 [simp]: "unat (ucast (x :: u32) :: u64) = unat x"
proof -
  have "unat x < 2 ^ LENGTH(32)" by (rule unsigned_less)
  then show ?thesis by (simp add: unsigned_ucast_eq take_bit_nat_eq_self)
qed

lemma unat_mult_u64: "unat a * unat b < 2 ^ 64 \<Longrightarrow> unat (a * b :: u64) = unat a * unat b"
  by (simp add: unat_word_ariths)

lemma unat_sub_u64: "b \<le> (a :: u64) \<Longrightarrow> unat (a - b) = unat a - unat b"
  by (rule unat_sub)

end
