(* ===== verification/Wire.thy ===== *)
theory Wire
  imports Prelude
begin

text \<open>
  The serialization helpers of \<open>src/bopwire/src/core/block.cpp\<close> (lines 8--64). A writer
  \<open>write_x(buf, v)\<close> appends to a buffer: it is modelled by the bytes it appends. A reader
  \<open>read_x(p, end, v)\<close> advances the cursor \<open>p\<close> or returns false without a value: it is
  modelled by a function from the bytes between \<open>p\<close> and \<open>end\<close> to the value and the
  remaining bytes, or \<open>None\<close>.

  The locale \<open>codec\<close> is the contract between a writer and its reader; every field type of
  the wire format interprets it, and the round trips of the structures rest on it.
\<close>

section \<open>The contract of a writer and its reader\<close>

type_synonym 'a reader = "bytes \<Rightarrow> ('a \<times> bytes) option"

fun read_n :: "'a reader \<Rightarrow> nat \<Rightarrow> 'a list reader" where
  "read_n rd 0 p = Some ([], p)"
| "read_n rd (Suc n) p = do {
     (x, p) \<leftarrow> rd p;
     (xs, p) \<leftarrow> read_n rd n p;
     Some (x # xs, p)
   }"

lemma read_n_Suc_SomeE:
  assumes "read_n rd (Suc n) p = Some (xs, r)"
  obtains x q ys where "rd p = Some (x, q)" and "read_n rd n q = Some (ys, r)" and "xs = x # ys"
  using assms by (auto simp: bind_eq_Some_conv)

lemma length_read_n: "read_n rd n p = Some (xs, r) \<Longrightarrow> length xs = n"
proof (induction n arbitrary: p xs r)
  case 0
  then show ?case by simp
next
  case (Suc n)
  from Suc.prems obtain q x ys where "read_n rd n q = Some (ys, r)" and "xs = x # ys"
    by (rule read_n_Suc_SomeE)
  with Suc.IH show ?case by simp
qed

lemma read_n_mono:
  assumes "\<And>p x q. rd p = Some (x, q) \<Longrightarrow> length q \<le> length p"
    and "read_n rd n p = Some (xs, r)"
  shows "length r \<le> length p"
  using assms(2)
proof (induction n arbitrary: p xs)
  case 0
  then show ?case by simp
next
  case (Suc n)
  from Suc.prems obtain q x ys where "rd p = Some (x, q)" and "read_n rd n q = Some (ys, r)"
    by (rule read_n_Suc_SomeE)
  with Suc.IH assms(1) show ?case by (meson le_trans)
qed

locale codec =
  fixes enc :: "'a \<Rightarrow> bytes"
    and dec :: "'a reader"
    and ok :: "'a \<Rightarrow> bool"
  assumes dec_enc: "ok x \<Longrightarrow> dec (enc x @ r) = Some (x, r)"
begin

lemma dec_enc_nil: "ok x \<Longrightarrow> dec (enc x) = Some (x, [])"
  using dec_enc [of x "[]"] by simp

lemma enc_prefix_free:
  assumes "ok x" and "ok y" and "enc x @ r = enc y @ s"
  shows "x = y \<and> r = s"
proof -
  have "dec (enc x @ r) = Some (x, r)" and "dec (enc y @ s) = Some (y, s)"
    using assms(1,2) by (simp_all only: dec_enc)
  then have "Some (x, r) = Some (y, s)"
    unfolding assms(3) by (rule trans [OF sym])
  then show ?thesis by simp
qed

lemma enc_inj: "ok x \<Longrightarrow> ok y \<Longrightarrow> enc x = enc y \<Longrightarrow> x = y"
  using enc_prefix_free [of x y "[]" "[]"] by simp

lemma read_n_concat:
  "list_all ok xs \<Longrightarrow> read_n dec (length xs) (concat (map enc xs) @ r) = Some (xs, r)"
  by (induction xs) (auto simp: dec_enc)

lemma concat_prefix_free:
  "list_all ok xs \<Longrightarrow> list_all ok ys \<Longrightarrow> length xs = length ys \<Longrightarrow>
   concat (map enc xs) @ r = concat (map enc ys) @ s \<Longrightarrow> xs = ys \<and> r = s"
  by (metis Pair_inject option.inject read_n_concat)

end

text \<open>A reader that accepts nothing but what the writer produces.\<close>

locale exact_codec = codec +
  assumes enc_dec: "dec p = Some (x, r) \<Longrightarrow> p = enc x @ r \<and> ok x"
begin

lemma read_n_exact:
  "read_n dec n p = Some (xs, r) \<Longrightarrow> p = concat (map enc xs) @ r \<and> list_all ok xs"
proof (induction n arbitrary: p xs r)
  case 0
  then show ?case by simp
next
  case (Suc n)
  from Suc.prems obtain x q ys where x: "dec p = Some (x, q)"
    and ys: "read_n dec n q = Some (ys, r)" and xs: "xs = x # ys"
    by (rule read_n_Suc_SomeE)
  from enc_dec [OF x] Suc.IH [OF ys] xs show ?case by simp
qed

lemma dec_suffix: "dec p = Some (x, r) \<Longrightarrow> length r \<le> length p"
  using enc_dec by fastforce

lemma dec_iff: "dec p = Some (x, r) \<longleftrightarrow> p = enc x @ r \<and> ok x"
  using enc_dec dec_enc by auto

end

section \<open>Integers, little endian\<close>

text \<open>The loop \<open>for (i = 0; i < n; ++i) buf.push_back((v >> (8*i)) & 0xFF)\<close>.\<close>

definition le_bytes :: "nat \<Rightarrow> ('w::len) word \<Rightarrow> bytes" where
  "le_bytes n v = map (\<lambda>i. ucast (drop_bit (8 * i) v AND 0xFF)) [0..<n]"

text \<open>The loop \<open>for (i = 0; i < n; ++i) v |= T(p[i]) << (8*i)\<close>.\<close>

definition le_word :: "nat \<Rightarrow> bytes \<Rightarrow> ('w::len) word" where
  "le_word n p = foldl (\<lambda>v i. v OR push_bit (8 * i) (ucast (p ! i))) 0 [0..<n]"

lemma length_le_bytes [simp, length_simps]: "length (le_bytes n v) = n"
  by (simp add: le_bytes_def)

lemma bit_le_word:
  "bit (le_word n p :: ('w::len) word) k \<longleftrightarrow>
     k < LENGTH('w) \<and> (\<exists>i<n. 8 * i \<le> k \<and> k - 8 * i < 8 \<and> bit (p ! i) (k - 8 * i))"
proof (induction n)
  case 0
  show ?case by (simp add: le_word_def)
next
  case (Suc n)
  have step: "le_word (Suc n) p = (le_word n p OR push_bit (8 * n) (ucast (p ! n)) :: 'w word)"
    by (simp add: le_word_def)
  have byte: "bit (p ! n) j \<Longrightarrow> j < 8" for j
    using bit_imp_le_length [of "p ! n" j] by simp
  have len: "bit (le_word n p :: 'w word) k \<Longrightarrow> k < LENGTH('w)"
    by (rule bit_imp_le_length)
  show ?case
    unfolding step using Suc.IH byte by (auto simp: bit_simps less_Suc_eq)
qed

lemma le_word_cong: "(\<And>i. i < n \<Longrightarrow> p ! i = q ! i) \<Longrightarrow> le_word n p = le_word n q"
  by (rule bit_word_eqI) (auto simp: bit_le_word)

lemma nth_le_bytes: "i < n \<Longrightarrow> le_bytes n v ! i = ucast (drop_bit (8 * i) v AND 0xFF)"
  by (simp add: le_bytes_def)

lemma and_255: "w AND 0xFF = (take_bit 8 w :: ('w::len) word)"
  by (simp add: take_bit_eq_mask mask_eq_exp_minus_1)

lemma bit_nth_le_bytes:
  "i < n \<Longrightarrow> bit (le_bytes n v ! i) j \<longleftrightarrow> j < 8 \<and> bit v (8 * i + j)"
  using bit_imp_le_length [of v "8 * i + j"]
  by (auto simp: nth_le_bytes and_255 bit_simps)

lemma le_word_le_bytes:
  assumes "LENGTH('w::len) \<le> 8 * n"
  shows "le_word n (le_bytes n v @ r) = (v :: 'w word)"
proof (rule bit_word_eqI)
  fix k assume k: "k < LENGTH('w)"
  have idx: "k div 8 < n" "8 * (k div 8) \<le> k" "k - 8 * (k div 8) < 8"
    using k assms by auto
  have nth: "(le_bytes n v @ r) ! i = le_bytes n v ! i" if "i < n" for i
    using that by (simp add: nth_append)
  have "(\<exists>i<n. 8 * i \<le> k \<and> k - 8 * i < 8 \<and> bit (le_bytes n v ! i) (k - 8 * i)) \<longleftrightarrow> bit v k"
  proof
    assume "\<exists>i<n. 8 * i \<le> k \<and> k - 8 * i < 8 \<and> bit (le_bytes n v ! i) (k - 8 * i)"
    then show "bit v k" by (elim exE conjE) (simp add: bit_nth_le_bytes)
  next
    assume "bit v k"
    then show "\<exists>i<n. 8 * i \<le> k \<and> k - 8 * i < 8 \<and> bit (le_bytes n v ! i) (k - 8 * i)"
      using idx by (intro exI [of _ "k div 8"]) (simp add: bit_nth_le_bytes)
  qed
  with k nth show "bit (le_word n (le_bytes n v @ r) :: 'w word) k = bit v k"
    by (simp add: bit_le_word cong: conj_cong)
qed

lemma le_bytes_le_word:
  assumes "8 * n = LENGTH('w::len)" and "length p = n"
  shows "le_bytes n (le_word n p :: 'w word) = p"
proof (rule nth_equalityI)
  show "length (le_bytes n (le_word n p :: 'w word)) = length p" using assms by simp
  fix i assume "i < length (le_bytes n (le_word n p :: 'w word))"
  then have i: "i < n" by simp
  show "le_bytes n (le_word n p :: 'w word) ! i = p ! i"
  proof (rule bit_word_eqI)
    fix j assume "j < LENGTH(8)"
    then have j: "j < 8" by simp
    have uniq: "m = i" if "8 * m \<le> 8 * i + j" "8 * i + j - 8 * m < 8" for m
      using that j by linarith
    have "(\<exists>m<n. 8 * m \<le> 8 * i + j \<and> 8 * i + j - 8 * m < 8 \<and> bit (p ! m) (8 * i + j - 8 * m))
        \<longleftrightarrow> bit (p ! i) j"
    proof
      assume "\<exists>m<n. 8 * m \<le> 8 * i + j \<and> 8 * i + j - 8 * m < 8 \<and> bit (p ! m) (8 * i + j - 8 * m)"
      then show "bit (p ! i) j" using uniq by fastforce
    next
      assume "bit (p ! i) j"
      then show "\<exists>m<n. 8 * m \<le> 8 * i + j \<and> 8 * i + j - 8 * m < 8 \<and> bit (p ! m) (8 * i + j - 8 * m)"
        using i j by (intro exI [of _ i]) simp
    qed
    moreover have "8 * i + j < LENGTH('w)" using i j assms by linarith
    ultimately show "bit (le_bytes n (le_word n p :: 'w word) ! i) j = bit (p ! i) j"
      using i j by (simp add: bit_nth_le_bytes bit_le_word)
  qed
qed

definition write_u8 :: "u8 \<Rightarrow> bytes" where
  "write_u8 v = [v]"

definition read_u8 :: "u8 reader" where
  "read_u8 p = (case p of [] \<Rightarrow> None | b # r \<Rightarrow> Some (b, r))"

definition write_u16le :: "u16 \<Rightarrow> bytes" where
  "write_u16le v = [ucast (v AND 0xFF), ucast (drop_bit 8 v AND 0xFF)]"

definition write_u32le :: "u32 \<Rightarrow> bytes" where
  "write_u32le v = le_bytes 4 v"

definition write_u64le :: "u64 \<Rightarrow> bytes" where
  "write_u64le v = le_bytes 8 v"

definition read_u16le :: "u16 reader" where
  "read_u16le p = (if length p < 2 then None
     else Some (ucast (p ! 0) OR push_bit 8 (ucast (p ! 1)), drop 2 p))"

definition read_u32le :: "u32 reader" where
  "read_u32le p = (if length p < 4 then None else Some (le_word 4 p, drop 4 p))"

definition read_u64le :: "u64 reader" where
  "read_u64le p = (if length p < 8 then None else Some (le_word 8 p, drop 8 p))"

lemma u16_le: "write_u16le v = le_bytes 2 v"
  by (simp add: write_u16le_def le_bytes_def upt_rec)

lemma read_u16_le: "read_u16le p = (if length p < 2 then None else Some (le_word 2 p, drop 2 p))"
  by (simp add: read_u16le_def le_word_def upt_rec)

lemma length_write_int [simp, length_simps]:
  "length (write_u8 a) = 1" "length (write_u16le b) = 2"
  "length (write_u32le c) = 4" "length (write_u64le d) = 8"
  by (simp_all add: write_u8_def u16_le write_u32le_def write_u64le_def)

interpretation u8: exact_codec write_u8 read_u8 "\<lambda>_. True"
  by unfold_locales (auto simp: write_u8_def read_u8_def split: list.splits)

interpretation u16: exact_codec write_u16le read_u16le "\<lambda>_. True"
proof unfold_locales
  fix v :: u16 and r
  show "read_u16le (write_u16le v @ r) = Some (v, r)"
    by (simp add: u16_le read_u16_le le_word_le_bytes)
next
  fix p r and v :: u16
  assume "read_u16le p = Some (v, r)"
  then have "2 \<le> length p" "v = le_word 2 (take 2 p)" "r = drop 2 p"
    by (auto simp: read_u16_le intro: le_word_cong split: if_splits)
  then show "p = write_u16le v @ r \<and> True"
    by (simp add: u16_le le_bytes_le_word)
qed

interpretation u32: exact_codec write_u32le read_u32le "\<lambda>_. True"
proof unfold_locales
  fix v :: u32 and r
  show "read_u32le (write_u32le v @ r) = Some (v, r)"
    by (simp add: write_u32le_def read_u32le_def le_word_le_bytes)
next
  fix p r and v :: u32
  assume "read_u32le p = Some (v, r)"
  then have "4 \<le> length p" "v = le_word 4 (take 4 p)" "r = drop 4 p"
    by (auto simp: read_u32le_def intro: le_word_cong split: if_splits)
  then show "p = write_u32le v @ r \<and> True"
    by (simp add: write_u32le_def le_bytes_le_word)
qed

interpretation u64: exact_codec write_u64le read_u64le "\<lambda>_. True"
proof unfold_locales
  fix v :: u64 and r
  show "read_u64le (write_u64le v @ r) = Some (v, r)"
    by (simp add: write_u64le_def read_u64le_def le_word_le_bytes)
next
  fix p r and v :: u64
  assume "read_u64le p = Some (v, r)"
  then have "8 \<le> length p" "v = le_word 8 (take 8 p)" "r = drop 8 p"
    by (auto simp: read_u64le_def intro: le_word_cong split: if_splits)
  then show "p = write_u64le v @ r \<and> True"
    by (simp add: write_u64le_def le_bytes_le_word)
qed

section \<open>Byte runs and strings\<close>

text \<open>
  \<open>write_bytes(buf, a.data(), N)\<close> of an array appends \<open>arr_bytes a\<close>; \<open>read_bytes\<close> into an
  array of size \<open>N\<close> is \<open>read_arr\<close>, and \<open>read_raw n\<close> is a length-checked copy of \<open>n\<close> bytes.
\<close>

definition read_raw :: "nat \<Rightarrow> bytes reader" where
  "read_raw n p = (if length p < n then None else Some (take n p, drop n p))"

definition read_arr :: "('n::len) arr reader" where
  "read_arr p = (if length p < LENGTH('n) then None
     else Some (mk_arr (take LENGTH('n) p), drop LENGTH('n) p))"

definition write_string16 :: "string \<Rightarrow> bytes" where
  "write_string16 s = write_u16le (word_of_nat (length s)) @ str_bytes s"

definition read_string16 :: "string reader" where
  "read_string16 p = do {
     (n, p) \<leftarrow> read_u16le p;
     if length p < unat n then None
     else Some (bytes_str (take (unat n) p), drop (unat n) p)
   }"

interpretation arr: exact_codec arr_bytes "read_arr :: ('n::len) arr reader" "\<lambda>_. True"
  by unfold_locales (auto simp: read_arr_def split: if_splits)

interpretation str16: exact_codec write_string16 read_string16 "\<lambda>s. length s \<le> 0xFFFF"
proof unfold_locales
  fix s :: string and r
  assume "length s \<le> 0xFFFF"
  then have "unat (word_of_nat (length s) :: u16) = length s"
    by (simp add: unat_of_nat)
  then show "read_string16 (write_string16 s @ r) = Some (s, r)"
    by (simp add: read_string16_def write_string16_def u16.dec_enc)
next
  fix p r s
  assume "read_string16 p = Some (s, r)"
  then obtain n q where n: "read_u16le p = Some (n, q)" and len: "unat n \<le> length q"
    and s: "s = bytes_str (take (unat n) q)" and r: "r = drop (unat n) q"
    by (auto simp: read_string16_def bind_eq_Some_conv split: if_splits)
  have "unat n < 2 ^ LENGTH(16)" by (rule unsigned_less)
  then have "unat n \<le> 0xFFFF" by simp
  with u16.enc_dec [OF n] len s r show "p = write_string16 s @ r \<and> length s \<le> 0xFFFF"
    by (simp add: write_string16_def min_def)
qed

lemma length_write_string16 [simp, length_simps]: "length (write_string16 s) = 2 + length s"
  by (simp add: write_string16_def)

lemma read_raw_append [simp]: "length b = n \<Longrightarrow> read_raw n (b @ r) = Some (b, r)"
  by (simp add: read_raw_def)

lemma read_raw_Some: "read_raw n p = Some (b, r) \<longleftrightarrow> p = b @ r \<and> length b = n"
  by (auto simp: read_raw_def split: if_splits)

text \<open>The tag byte every transaction starts with.\<close>

definition read_tag :: "u8 \<Rightarrow> bytes \<Rightarrow> bytes option" where
  "read_tag t p = (case p of [] \<Rightarrow> None | b # r \<Rightarrow> if b = t then Some r else None)"

lemma read_tag_Cons [simp]: "read_tag t (t # p) = Some p"
  by (simp add: read_tag_def)

lemma read_tag_Some: "read_tag t p = Some r \<longleftrightarrow> p = t # r"
  by (auto simp: read_tag_def split: list.splits if_splits)

lemma read_u8_Cons [simp]: "read_u8 (b # r) = Some (b, r)"
  by (simp add: read_u8_def)

lemma read_u8_Some: "read_u8 p = Some (b, r) \<longleftrightarrow> p = b # r"
  by (auto simp: read_u8_def split: list.splits)

lemmas read_back [wire_simps] =
  u8.dec_enc u16.dec_enc u32.dec_enc u64.dec_enc arr.dec_enc str16.dec_enc
  u8.dec_enc_nil u16.dec_enc_nil u32.dec_enc_nil u64.dec_enc_nil arr.dec_enc_nil str16.dec_enc_nil

lemmas read_iff =
  bind_eq_Some_conv read_tag_Some read_u8_Some u16.dec_iff u32.dec_iff u64.dec_iff arr.dec_iff
  str16.dec_iff

end
