(* ===== verification/Transactions.thy ===== *)
theory Transactions
  imports Wire
begin

text \<open>
  The transaction types of \<open>src/bopwire/src/core/transaction.h\<close> and \<open>transaction.cpp\<close>: one
  record per struct, with its \<open>serialize\<close>, \<open>deserialize\<close>, \<open>sign_message\<close> and
  \<open>verify_signature\<close>. A deserializer takes the bytes of a transaction and fills a freshly
  constructed struct, so bytes after the last field it reads are ignored, as in the code.
  The locale \<open>tx_format\<close> states what a pair of \<open>serialize\<close> and \<open>deserialize\<close> promises; every
  transaction type interprets it.
\<close>

section \<open>Tags, codes and the contract of a transaction format\<close>

datatype TxType = TRANSFER | MINT | MODERATOR_OP | MODERATOR_PROPOSAL | USERNAME_REGISTER
  | SLASH | RELAY_REWARD | NODE_AUTH | CHECKPOINT | SETTLEMENT_MINT | RATING

fun tx_tag :: "TxType \<Rightarrow> u8" where
  "tx_tag TRANSFER = 0x01"
| "tx_tag MINT = 0x10"
| "tx_tag MODERATOR_OP = 0x20"
| "tx_tag MODERATOR_PROPOSAL = 0x30"
| "tx_tag USERNAME_REGISTER = 0x40"
| "tx_tag SLASH = 0x50"
| "tx_tag RELAY_REWARD = 0x60"
| "tx_tag NODE_AUTH = 0x70"
| "tx_tag CHECKPOINT = 0x71"
| "tx_tag SETTLEMENT_MINT = 0x72"
| "tx_tag RATING = 0x80"

definition all_tx_types :: "TxType list" where
  "all_tx_types = [TRANSFER, MINT, MODERATOR_OP, MODERATOR_PROPOSAL, USERNAME_REGISTER, SLASH,
     RELAY_REWARD, NODE_AUTH, CHECKPOINT, SETTLEMENT_MINT, RATING]"

lemma set_all_tx_types: "t \<in> set all_tx_types"
  by (cases t) (simp_all add: all_tx_types_def)

text \<open>\<open>static_cast<TxType>(raw[0])\<close>, with \<open>None\<close> for a byte that is no enumerator.\<close>

definition tx_type_of :: "u8 \<Rightarrow> TxType option" where
  "tx_type_of b = List.find (\<lambda>t. tx_tag t = b) all_tx_types"

lemma tx_type_of_tag [simp]: "tx_type_of (tx_tag t) = Some t"
  by (cases t) (simp_all add: tx_type_of_def all_tx_types_def)

lemma tx_type_of_Some: "tx_type_of b = Some t \<longleftrightarrow> b = tx_tag t"
proof
  assume "tx_type_of b = Some t"
  then show "b = tx_tag t" by (auto simp: tx_type_of_def find_Some_iff)
qed simp

definition MC_CHAIN_ID :: u32 where
  "MC_CHAIN_ID = 19780"

definition MAX_BLOCK_SIZE :: nat where
  "MAX_BLOCK_SIZE = 8 * 1024 * 1024"

definition RatingValue_UP :: u8 where "RatingValue_UP = 1"
definition RatingValue_DOWN :: u8 where "RatingValue_DOWN = 2"

definition SlashKind_EQUIVOCATION :: u8 where "SlashKind_EQUIVOCATION = 1"
definition SlashKind_FINGERPRINT_FORGERY :: u8 where "SlashKind_FINGERPRINT_FORGERY = 2"

definition ModOp_GRANT :: u8 where "ModOp_GRANT = 1"
definition ModOp_REVOKE :: u8 where "ModOp_REVOKE = 2"
definition ModOp_TAG_LABEL_EDIT :: u8 where "ModOp_TAG_LABEL_EDIT = 3"

definition ModLevel_VOICE :: u8 where "ModLevel_VOICE = 1"
definition ModLevel_OP :: u8 where "ModLevel_OP = 2"
definition ModLevel_FOUNDER :: u8 where "ModLevel_FOUNDER = 3"

definition Proposal_HIDE_CONTENT :: u8 where "Proposal_HIDE_CONTENT = 1"
definition Proposal_RELEASE_ESCROW :: u8 where "Proposal_RELEASE_ESCROW = 2"
definition Proposal_VOTE_YES :: u8 where "Proposal_VOTE_YES = 3"
definition Proposal_GRANT_MODERATOR :: u8 where "Proposal_GRANT_MODERATOR = 4"
definition Proposal_SET_RATING_THRESHOLD :: u8 where "Proposal_SET_RATING_THRESHOLD = 5"

lemmas code_simps =
  RatingValue_UP_def RatingValue_DOWN_def SlashKind_EQUIVOCATION_def
  SlashKind_FINGERPRINT_FORGERY_def ModOp_GRANT_def ModOp_REVOKE_def ModOp_TAG_LABEL_EDIT_def
  ModLevel_VOICE_def ModLevel_OP_def ModLevel_FOUNDER_def Proposal_HIDE_CONTENT_def
  Proposal_RELEASE_ESCROW_def Proposal_VOTE_YES_def Proposal_GRANT_MODERATOR_def
  Proposal_SET_RATING_THRESHOLD_def

text \<open>
  The contract: a well-formed transaction is read back from its own bytes, whatever
  follows them. Hence two well-formed transactions with the same bytes are equal, and no
  encoding is a proper prefix of another.
\<close>

locale tx_format =
  fixes ser :: "'t \<Rightarrow> bytes"
    and deser :: "bytes \<Rightarrow> 't option"
    and ok :: "'t \<Rightarrow> bool"
    and tag :: u8
  assumes deser_ser: "ok t \<Longrightarrow> deser (ser t @ junk) = Some t"
    and ser_tag: "\<exists>body. ser t = tag # body"
begin

lemma deser_ser_nil: "ok t \<Longrightarrow> deser (ser t) = Some t"
  using deser_ser [of t "[]"] by simp

lemma ser_inj: "ok t \<Longrightarrow> ok u \<Longrightarrow> ser t = ser u \<Longrightarrow> t = u"
  by (metis deser_ser_nil option.inject)

lemma ser_prefix: "ok t \<Longrightarrow> ok u \<Longrightarrow> ser t = ser u @ junk \<Longrightarrow> t = u"
  by (metis deser_ser deser_ser_nil option.inject)

text \<open>
  The hash of the bytes is not determined by the transaction: padded bytes parse to the
  same transaction, and hash apart unless the hash function collides.
\<close>

lemma malleable:
  "ok t \<Longrightarrow> junk \<noteq> [] \<Longrightarrow>
   deser (ser t @ junk) = deser (ser t) \<and> ser t @ junk \<noteq> ser t"
  by (simp add: deser_ser deser_ser_nil)

end

text \<open>A format that additionally refuses every byte string it does not write.\<close>

locale canonical_tx_format =
  fixes ser :: "'t \<Rightarrow> bytes"
    and deser :: "bytes \<Rightarrow> 't option"
  assumes deser_iff: "deser p = Some t \<longleftrightarrow> p = ser t"
begin

lemma deser_ser_exact: "deser (ser t) = Some t"
  by (simp add: deser_iff)

lemma deser_inj: "deser p = Some t \<Longrightarrow> deser q = Some t \<Longrightarrow> p = q"
  by (simp add: deser_iff)

end

text \<open>
  The check every signed transaction makes: the key carried inline hashes to the address
  the transaction acts for, and the signature verifies under that key.
\<close>

definition verify_inline :: "crypto \<Rightarrow> bytes \<Rightarrow> sig64 \<Rightarrow> pubkey33 \<Rightarrow> address \<Rightarrow> bool" where
  "verify_inline c msg sig pk addr \<longleftrightarrow>
     address_from_pubkey c pk = addr \<and> verify_ecdsa c (sha256 c msg) sig pk"

section \<open>TransferTx\<close>

record TransferTx =
  tr_from_address :: address
  tr_to_address :: address
  tr_amount :: u64
  tr_nonce :: u64
  tr_from_pubkey :: pubkey33
  tr_signature :: sig64

definition TransferTx_sign_message :: "TransferTx \<Rightarrow> bytes" where
  "TransferTx_sign_message t =
     write_u32le MC_CHAIN_ID @ arr_bytes (tr_from_address t) @ arr_bytes (tr_to_address t) @
     write_u64le (tr_amount t) @ write_u64le (tr_nonce t) @ arr_bytes (tr_from_pubkey t)"

definition TransferTx_serialize :: "TransferTx \<Rightarrow> bytes" where
  "TransferTx_serialize t =
     tx_tag TRANSFER # arr_bytes (tr_from_address t) @ arr_bytes (tr_to_address t) @
     write_u64le (tr_amount t) @ write_u64le (tr_nonce t) @ arr_bytes (tr_from_pubkey t) @
     arr_bytes (tr_signature t)"

definition TransferTx_deserialize :: "bytes \<Rightarrow> TransferTx option" where
  "TransferTx_deserialize p = do {
     p \<leftarrow> read_tag (tx_tag TRANSFER) p;
     (fa, p) \<leftarrow> read_arr p;
     (ta, p) \<leftarrow> read_arr p;
     (am, p) \<leftarrow> read_u64le p;
     (n, p) \<leftarrow> read_u64le p;
     (pk, p) \<leftarrow> read_arr p;
     (sg, p) \<leftarrow> read_arr p;
     Some \<lparr>tr_from_address = fa, tr_to_address = ta, tr_amount = am, tr_nonce = n,
           tr_from_pubkey = pk, tr_signature = sg\<rparr>
   }"

definition TransferTx_tx_hash :: "crypto \<Rightarrow> TransferTx \<Rightarrow> hash256" where
  "TransferTx_tx_hash c t = sha256 c (TransferTx_serialize t)"

definition TransferTx_verify_signature :: "crypto \<Rightarrow> TransferTx \<Rightarrow> bool" where
  "TransferTx_verify_signature c t =
     verify_inline c (TransferTx_sign_message t) (tr_signature t) (tr_from_pubkey t)
       (tr_from_address t)"

interpretation transfer: tx_format TransferTx_serialize TransferTx_deserialize "\<lambda>_. True"
  "tx_tag TRANSFER"
  by unfold_locales
    (simp_all add: TransferTx_serialize_def TransferTx_deserialize_def wire_simps)

lemma TransferTx_deserialize_iff:
  "TransferTx_deserialize p = Some t \<longleftrightarrow> (\<exists>junk. p = TransferTx_serialize t @ junk)"
  by (cases t) (auto simp: TransferTx_serialize_def TransferTx_deserialize_def read_iff)

section \<open>PlayProof and MintTx\<close>

lemma version_order [simp]:
  "\<not> (2 :: u8) \<le> 1" "\<not> (3 :: u8) \<le> 1" "\<not> (3 :: u8) \<le> 2" "(2 :: u8) \<le> 3"
  "(1 :: u8) < 2" "(1 :: u8) < 3" "(2 :: u8) < 3" "\<not> (3 :: u8) < 2"
  by (simp_all add: word_le_nat_alt word_less_nat_alt)

record PlayProof =
  pp_session_id :: hash256
  pp_content_hash :: hash256
  pp_block_hash :: hash256
  pp_artist_address :: address
  pp_player_address :: address
  pp_serving_node_id :: hash256
  pp_play_start_timestamp :: u64
  pp_play_end_timestamp :: u64
  pp_total_duration_ms :: u32
  pp_heartbeat_count :: u16
  pp_node_signature :: sig64
  pp_seeder_address :: address
  pp_mini_node_address :: address
  pp_serving_node_pubkey :: pubkey33
  pp_player_pubkey :: pubkey33
  pp_player_signature :: sig64
  pp_mini_node_pubkey :: pubkey33
  pp_mini_node_signature :: sig64
  pp_version :: u8

text \<open>The play facts every version signs and carries first.\<close>

definition PlayProof_facts :: "PlayProof \<Rightarrow> bytes" where
  "PlayProof_facts p =
     arr_bytes (pp_session_id p) @ arr_bytes (pp_content_hash p) @ arr_bytes (pp_block_hash p) @
     arr_bytes (pp_artist_address p) @ arr_bytes (pp_player_address p) @
     arr_bytes (pp_serving_node_id p) @ write_u64le (pp_play_start_timestamp p) @
     write_u64le (pp_play_end_timestamp p) @ write_u32le (pp_total_duration_ms p) @
     write_u16le (pp_heartbeat_count p)"

definition PlayProof_sign_message :: "PlayProof \<Rightarrow> bytes" where
  "PlayProof_sign_message p =
     write_u32le MC_CHAIN_ID @ PlayProof_facts p @
     (if 2 \<le> pp_version p
      then arr_bytes (pp_seeder_address p) @ arr_bytes (pp_mini_node_address p) else []) @
     (if 3 \<le> pp_version p
      then arr_bytes (pp_serving_node_pubkey p) @ arr_bytes (pp_player_pubkey p) @
           arr_bytes (pp_mini_node_pubkey p) else [])"

definition PlayProof_serialize :: "PlayProof \<Rightarrow> bytes" where
  "PlayProof_serialize p =
     PlayProof_facts p @ arr_bytes (pp_node_signature p) @
     (if 2 \<le> pp_version p
      then arr_bytes (pp_seeder_address p) @ arr_bytes (pp_mini_node_address p) else []) @
     (if 3 \<le> pp_version p
      then arr_bytes (pp_serving_node_pubkey p) @ arr_bytes (pp_player_pubkey p) @
           arr_bytes (pp_player_signature p) @ arr_bytes (pp_mini_node_pubkey p) @
           arr_bytes (pp_mini_node_signature p) else [])"

text \<open>
  The optional trailers are recognised by the number of bytes left: 40 for the seeder and
  mini-node addresses of version 2, and then 227 for the co-signatures of version 3.
\<close>

definition PlayProof_read_v3 :: "PlayProof \<Rightarrow> bytes \<Rightarrow> PlayProof option" where
  "PlayProof_read_v3 out p =
     (if 227 \<le> length p then do {
        (nk, p) \<leftarrow> read_arr p;
        (pk, p) \<leftarrow> read_arr p;
        (ps, p) \<leftarrow> read_arr p;
        (mk, p) \<leftarrow> read_arr p;
        (ms, p) \<leftarrow> read_arr p;
        Some (out\<lparr>pp_serving_node_pubkey := nk, pp_player_pubkey := pk,
                  pp_player_signature := ps, pp_mini_node_pubkey := mk,
                  pp_mini_node_signature := ms, pp_version := 3\<rparr>)
      } else Some out)"

definition PlayProof_read_v2 :: "PlayProof \<Rightarrow> bytes \<Rightarrow> PlayProof option" where
  "PlayProof_read_v2 out p =
     (if 40 \<le> length p then do {
        (sa, p) \<leftarrow> read_arr p;
        (ma, p) \<leftarrow> read_arr p;
        PlayProof_read_v3
          (out\<lparr>pp_seeder_address := sa, pp_mini_node_address := ma, pp_version := 2\<rparr>) p
      } else Some (out\<lparr>pp_version := 1\<rparr>))"

definition PlayProof_deserialize :: "bytes \<Rightarrow> PlayProof option" where
  "PlayProof_deserialize p = do {
     (sid, p) \<leftarrow> read_arr p;
     (ch, p) \<leftarrow> read_arr p;
     (bh, p) \<leftarrow> read_arr p;
     (aa, p) \<leftarrow> read_arr p;
     (pa, p) \<leftarrow> read_arr p;
     (nid, p) \<leftarrow> read_arr p;
     (t0, p) \<leftarrow> read_u64le p;
     (t1, p) \<leftarrow> read_u64le p;
     (dur, p) \<leftarrow> read_u32le p;
     (hb, p) \<leftarrow> read_u16le p;
     (sg, p) \<leftarrow> read_arr p;
     PlayProof_read_v2
       \<lparr>pp_session_id = sid, pp_content_hash = ch, pp_block_hash = bh, pp_artist_address = aa,
        pp_player_address = pa, pp_serving_node_id = nid, pp_play_start_timestamp = t0,
        pp_play_end_timestamp = t1, pp_total_duration_ms = dur, pp_heartbeat_count = hb,
        pp_node_signature = sg, pp_seeder_address = 0, pp_mini_node_address = 0,
        pp_serving_node_pubkey = 0, pp_player_pubkey = 0, pp_player_signature = 0,
        pp_mini_node_pubkey = 0, pp_mini_node_signature = 0, pp_version = 1\<rparr> p
   }"

text \<open>
  A proof is in normal form when its version is one of the three and the fields its version
  does not carry are zero: the proofs a node builds and every proof it parses.
\<close>

definition PlayProof_normal :: "PlayProof \<Rightarrow> bool" where
  "PlayProof_normal p \<longleftrightarrow>
     pp_version p \<in> {1, 2, 3} \<and>
     (pp_version p < 2 \<longrightarrow> pp_seeder_address p = 0 \<and> pp_mini_node_address p = 0) \<and>
     (pp_version p < 3 \<longrightarrow> pp_serving_node_pubkey p = 0 \<and> pp_player_pubkey p = 0 \<and>
        pp_player_signature p = 0 \<and> pp_mini_node_pubkey p = 0 \<and> pp_mini_node_signature p = 0)"

definition PlayProof_size :: "u8 \<Rightarrow> nat" where
  "PlayProof_size v = 254 + (if 2 \<le> v then 40 else 0) + (if 3 \<le> v then 227 else 0)"

lemma length_PlayProof_facts [length_simps]: "length (PlayProof_facts p) = 190"
  by (simp add: PlayProof_facts_def)

lemma length_PlayProof_serialize [length_simps]:
  "length (PlayProof_serialize p) = PlayProof_size (pp_version p)"
  by (simp add: PlayProof_serialize_def PlayProof_size_def length_PlayProof_facts)

lemma PlayProof_version_cases:
  assumes "PlayProof_normal p"
  obtains "pp_version p = 1" | "pp_version p = 2" | "pp_version p = 3"
  using assms by (auto simp: PlayProof_normal_def)

lemma PlayProof_roundtrip:
  assumes "PlayProof_normal p"
  shows "PlayProof_deserialize (PlayProof_serialize p) = Some p"
  using assms
proof (cases rule: PlayProof_version_cases)
  case 1
  with assms show ?thesis
    by (cases p) (simp add: PlayProof_deserialize_def PlayProof_serialize_def PlayProof_facts_def
        PlayProof_read_v2_def PlayProof_normal_def wire_simps)
next
  case 2
  with assms show ?thesis
    by (cases p) (simp add: PlayProof_deserialize_def PlayProof_serialize_def PlayProof_facts_def
        PlayProof_read_v2_def PlayProof_read_v3_def PlayProof_normal_def wire_simps)
next
  case 3
  with assms show ?thesis
    by (cases p) (simp add: PlayProof_deserialize_def PlayProof_serialize_def PlayProof_facts_def
        PlayProof_read_v2_def PlayProof_read_v3_def PlayProof_normal_def wire_simps)
qed

lemma PlayProof_read_v3_normal:
  assumes "PlayProof_read_v3 out p = Some q" and "PlayProof_normal out" and "pp_version out = 2"
  shows "PlayProof_normal q"
proof (cases "227 \<le> length p")
  case True
  with assms(1) obtain nk pk ps mk ms where
    "q = out\<lparr>pp_serving_node_pubkey := nk, pp_player_pubkey := pk, pp_player_signature := ps,
             pp_mini_node_pubkey := mk, pp_mini_node_signature := ms, pp_version := 3\<rparr>"
    by (auto simp: PlayProof_read_v3_def bind_eq_Some_conv)
  then show ?thesis by (simp add: PlayProof_normal_def)
next
  case False
  with assms show ?thesis by (simp add: PlayProof_read_v3_def)
qed

lemma PlayProof_read_v2_normal:
  assumes "PlayProof_read_v2 out p = Some q" and "PlayProof_normal out" and "pp_version out = 1"
  shows "PlayProof_normal q"
proof (cases "40 \<le> length p")
  case True
  with assms(1) obtain sa ma r where "PlayProof_read_v3
      (out\<lparr>pp_seeder_address := sa, pp_mini_node_address := ma, pp_version := 2\<rparr>) r = Some q"
    by (auto simp: PlayProof_read_v2_def bind_eq_Some_conv)
  then show ?thesis
    by (rule PlayProof_read_v3_normal) (use assms(2,3) in \<open>simp_all add: PlayProof_normal_def\<close>)
next
  case False
  with assms have "q = out\<lparr>pp_version := 1\<rparr>" by (simp add: PlayProof_read_v2_def)
  with assms show ?thesis by (simp add: PlayProof_normal_def)
qed

lemma PlayProof_deserialize_normal:
  assumes "PlayProof_deserialize p = Some q"
  shows "PlayProof_normal q"
proof -
  from assms obtain out rest where "PlayProof_read_v2 out rest = Some q"
    and "PlayProof_normal out" "pp_version out = 1"
    by (auto simp: PlayProof_deserialize_def bind_eq_Some_conv PlayProof_normal_def)
  then show ?thesis by (rule PlayProof_read_v2_normal)
qed

text \<open>The version is read off the length, so a proof of exactly its size determines it.\<close>

lemma PlayProof_read_v2_version:
  "PlayProof_read_v2 out rest = Some q \<Longrightarrow>
   pp_version q = (if length rest < 40 then 1 else if length rest < 267 then 2 else 3)"
  by (auto simp: PlayProof_read_v2_def PlayProof_read_v3_def bind_eq_Some_conv read_arr_def
      split: if_splits)

section \<open>MintTx\<close>

record MintOutput =
  mo_recipient :: address
  mo_amount :: u64

record MintTx =
  mt_proof :: PlayProof
  mt_outputs :: "MintOutput list"
  mt_burn_amount :: u64

definition write_MintOutput :: "MintOutput \<Rightarrow> bytes" where
  "write_MintOutput o' = arr_bytes (mo_recipient o') @ write_u64le (mo_amount o')"

definition read_MintOutput :: "MintOutput reader" where
  "read_MintOutput p = do {
     (r, p) \<leftarrow> read_arr p;
     (a, p) \<leftarrow> read_u64le p;
     Some (\<lparr>mo_recipient = r, mo_amount = a\<rparr>, p)
   }"

interpretation mint_output: exact_codec write_MintOutput read_MintOutput "\<lambda>_. True"
proof unfold_locales
  fix x :: MintOutput and r
  show "read_MintOutput (write_MintOutput x @ r) = Some (x, r)"
    by (simp add: write_MintOutput_def read_MintOutput_def wire_simps)
next
  fix p r and x :: MintOutput
  assume "read_MintOutput p = Some (x, r)"
  then show "p = write_MintOutput x @ r \<and> True"
    by (cases x) (auto simp: write_MintOutput_def read_MintOutput_def read_iff)
qed

definition MintTx_serialize :: "MintTx \<Rightarrow> bytes" where
  "MintTx_serialize m =
     (let proof_bytes = PlayProof_serialize (mt_proof m) in
      tx_tag MINT # write_u32le (word_of_nat (length proof_bytes)) @ proof_bytes @
      write_u32le (word_of_nat (length (mt_outputs m))) @
      concat (map write_MintOutput (mt_outputs m)) @ write_u64le (mt_burn_amount m))"

text \<open>The burn amount is optional: absent or cut short, it stays zero.\<close>

definition MintTx_deserialize :: "bytes \<Rightarrow> MintTx option" where
  "MintTx_deserialize p = do {
     p \<leftarrow> read_tag (tx_tag MINT) p;
     (proof_len, p) \<leftarrow> read_u32le p;
     (proof_bytes, p) \<leftarrow> read_raw (unat proof_len) p;
     pr \<leftarrow> PlayProof_deserialize proof_bytes;
     (out_count, p) \<leftarrow> read_u32le p;
     (outs, p) \<leftarrow> read_n read_MintOutput (unat out_count) p;
     Some \<lparr>mt_proof = pr, mt_outputs = outs,
           mt_burn_amount = (case read_u64le p of Some (b, _) \<Rightarrow> b | None \<Rightarrow> 0)\<rparr>
   }"

definition MintTx_tx_hash :: "crypto \<Rightarrow> MintTx \<Rightarrow> hash256" where
  "MintTx_tx_hash c t = sha256 c (MintTx_serialize t)"

definition MintTx_ok :: "MintTx \<Rightarrow> bool" where
  "MintTx_ok m \<longleftrightarrow> PlayProof_normal (mt_proof m) \<and> length (mt_outputs m) < 2 ^ 32"

lemma list_all_True [simp]: "list_all (\<lambda>_. True) xs"
  by (induction xs) simp_all

lemma unat_word_of_length_u32 [simp]: "n < 2 ^ 32 \<Longrightarrow> unat (word_of_nat n :: u32) = n"
  by (simp add: unat_of_nat)

lemma PlayProof_size_bound [simp]: "PlayProof_size v < 2 ^ 32"
  by (simp add: PlayProof_size_def)

lemma MintTx_roundtrip:
  assumes "MintTx_ok m"
  shows "MintTx_deserialize (MintTx_serialize m @ junk) = Some m"
proof -
  let ?pb = "PlayProof_serialize (mt_proof m)"
  have len: "unat (word_of_nat (length ?pb) :: u32) = length ?pb"
    by (simp only: length_PlayProof_serialize unat_word_of_length_u32 PlayProof_size_bound)
  have pr: "PlayProof_deserialize ?pb = Some (mt_proof m)"
    using assms by (simp add: MintTx_ok_def PlayProof_roundtrip)
  have cnt: "unat (word_of_nat (length (mt_outputs m)) :: u32) = length (mt_outputs m)"
    using assms by (simp add: MintTx_ok_def)
  show ?thesis
    unfolding MintTx_deserialize_def MintTx_serialize_def Let_def
    by (simp add: wire_simps len pr cnt mint_output.read_n_concat)
qed

interpretation mint: tx_format MintTx_serialize MintTx_deserialize MintTx_ok "tx_tag MINT"
  by unfold_locales (rule MintTx_roundtrip, assumption, simp add: MintTx_serialize_def Let_def)

section \<open>ModeratorOpTx\<close>

record ModeratorOpTx =
  mop_op_code :: u8
  mop_level :: u8
  mop_subject :: address
  mop_subject_pubkey :: pubkey33
  mop_proposer :: address
  mop_proposer_pubkey :: pubkey33
  mop_nonce :: u64
  mop_meta_json :: string
  mop_signature :: sig64

definition ModeratorOpTx_body :: "ModeratorOpTx \<Rightarrow> bytes" where
  "ModeratorOpTx_body t =
     write_u8 (mop_op_code t) @ write_u8 (mop_level t) @ arr_bytes (mop_subject t) @
     arr_bytes (mop_subject_pubkey t) @ arr_bytes (mop_proposer t) @
     arr_bytes (mop_proposer_pubkey t) @ write_u64le (mop_nonce t) @
     write_u16le (word_of_nat (length (mop_meta_json t))) @ str_bytes (mop_meta_json t)"

definition ModeratorOpTx_sign_message :: "ModeratorOpTx \<Rightarrow> bytes" where
  "ModeratorOpTx_sign_message t = write_u32le MC_CHAIN_ID @ ModeratorOpTx_body t"

definition ModeratorOpTx_serialize :: "ModeratorOpTx \<Rightarrow> bytes" where
  "ModeratorOpTx_serialize t =
     tx_tag MODERATOR_OP # ModeratorOpTx_body t @ arr_bytes (mop_signature t)"

definition ModeratorOpTx_deserialize :: "bytes \<Rightarrow> ModeratorOpTx option" where
  "ModeratorOpTx_deserialize p = do {
     p \<leftarrow> read_tag (tx_tag MODERATOR_OP) p;
     (op, p) \<leftarrow> read_u8 p;
     (lv, p) \<leftarrow> read_u8 p;
     (su, p) \<leftarrow> read_arr p;
     (spk, p) \<leftarrow> read_arr p;
     (pr, p) \<leftarrow> read_arr p;
     (ppk, p) \<leftarrow> read_arr p;
     (n, p) \<leftarrow> read_u64le p;
     (meta_len, p) \<leftarrow> read_u16le p;
     if unat meta_len > 4096 \<or> length p < unat meta_len + 64 then None
     else do {
       (meta, p) \<leftarrow> read_raw (unat meta_len) p;
       (sg, p) \<leftarrow> read_arr p;
       Some \<lparr>mop_op_code = op, mop_level = lv, mop_subject = su, mop_subject_pubkey = spk,
             mop_proposer = pr, mop_proposer_pubkey = ppk, mop_nonce = n,
             mop_meta_json = bytes_str meta, mop_signature = sg\<rparr>
     }
   }"

definition ModeratorOpTx_tx_hash :: "crypto \<Rightarrow> ModeratorOpTx \<Rightarrow> hash256" where
  "ModeratorOpTx_tx_hash c t = sha256 c (ModeratorOpTx_serialize t)"

definition ModeratorOpTx_verify_signature :: "crypto \<Rightarrow> ModeratorOpTx \<Rightarrow> bool" where
  "ModeratorOpTx_verify_signature c t =
     verify_inline c (ModeratorOpTx_sign_message t) (mop_signature t) (mop_proposer_pubkey t)
       (mop_proposer t)"

lemma unat_word_of_length_u16 [simp]: "n < 2 ^ 16 \<Longrightarrow> unat (word_of_nat n :: u16) = n"
  by (simp add: unat_of_nat)

lemma unat_word_of_length_u8 [simp]: "n < 2 ^ 8 \<Longrightarrow> unat (word_of_nat n :: u8) = n"
  by (simp add: unat_of_nat)

lemma ModeratorOpTx_roundtrip:
  assumes "length (mop_meta_json t) \<le> 4096"
  shows "ModeratorOpTx_deserialize (ModeratorOpTx_serialize t @ junk) = Some t"
proof -
  have len: "unat (word_of_nat (length (mop_meta_json t)) :: u16) = length (mop_meta_json t)"
    using assms by simp
  show ?thesis
    using assms by (simp add: ModeratorOpTx_deserialize_def ModeratorOpTx_serialize_def
        ModeratorOpTx_body_def write_u8_def wire_simps len)
qed

interpretation moderator_op: tx_format ModeratorOpTx_serialize ModeratorOpTx_deserialize
  "\<lambda>t. length (mop_meta_json t) \<le> 4096" "tx_tag MODERATOR_OP"
  by unfold_locales (rule ModeratorOpTx_roundtrip, assumption, simp add: ModeratorOpTx_serialize_def)

section \<open>ProposalTx\<close>

record ProposalTx =
  prop_kind :: u8
  prop_target_hash :: hash256
  prop_target_addr :: address
  prop_amount :: u64
  prop_proposer :: address
  prop_proposer_pubkey :: pubkey33
  prop_nonce :: u64
  prop_subject_pubkey :: pubkey33
  prop_signature :: sig64

definition ProposalTx_body :: "ProposalTx \<Rightarrow> bytes" where
  "ProposalTx_body t =
     write_u8 (prop_kind t) @ arr_bytes (prop_target_hash t) @ arr_bytes (prop_target_addr t) @
     write_u64le (prop_amount t) @ arr_bytes (prop_proposer t) @
     arr_bytes (prop_proposer_pubkey t) @ write_u64le (prop_nonce t) @
     (if prop_kind t = Proposal_GRANT_MODERATOR then arr_bytes (prop_subject_pubkey t) else [])"

definition ProposalTx_sign_message :: "ProposalTx \<Rightarrow> bytes" where
  "ProposalTx_sign_message t = write_u32le MC_CHAIN_ID @ ProposalTx_body t"

definition ProposalTx_serialize :: "ProposalTx \<Rightarrow> bytes" where
  "ProposalTx_serialize t =
     tx_tag MODERATOR_PROPOSAL # ProposalTx_body t @ arr_bytes (prop_signature t)"

definition ProposalTx_deserialize :: "bytes \<Rightarrow> ProposalTx option" where
  "ProposalTx_deserialize p = do {
     p \<leftarrow> read_tag (tx_tag MODERATOR_PROPOSAL) p;
     (k, p) \<leftarrow> read_u8 p;
     (th, p) \<leftarrow> read_arr p;
     (ta, p) \<leftarrow> read_arr p;
     (am, p) \<leftarrow> read_u64le p;
     (pr, p) \<leftarrow> read_arr p;
     (ppk, p) \<leftarrow> read_arr p;
     (n, p) \<leftarrow> read_u64le p;
     (spk, p) \<leftarrow> (if k = Proposal_GRANT_MODERATOR then read_arr p else Some (0, p));
     (sg, p) \<leftarrow> read_arr p;
     Some \<lparr>prop_kind = k, prop_target_hash = th, prop_target_addr = ta, prop_amount = am,
           prop_proposer = pr, prop_proposer_pubkey = ppk, prop_nonce = n,
           prop_subject_pubkey = spk, prop_signature = sg\<rparr>
   }"

definition ProposalTx_tx_hash :: "crypto \<Rightarrow> ProposalTx \<Rightarrow> hash256" where
  "ProposalTx_tx_hash c t = sha256 c (ProposalTx_serialize t)"

definition ProposalTx_verify_signature :: "crypto \<Rightarrow> ProposalTx \<Rightarrow> bool" where
  "ProposalTx_verify_signature c t \<longleftrightarrow>
     address_from_pubkey c (prop_proposer_pubkey t) = prop_proposer t \<and>
     (prop_kind t = Proposal_GRANT_MODERATOR \<longrightarrow>
        address_from_pubkey c (prop_subject_pubkey t) = prop_target_addr t) \<and>
     verify_ecdsa c (sha256 c (ProposalTx_sign_message t)) (prop_signature t)
       (prop_proposer_pubkey t)"

definition ProposalTx_ok :: "ProposalTx \<Rightarrow> bool" where
  "ProposalTx_ok t \<longleftrightarrow>
     (prop_kind t \<noteq> Proposal_GRANT_MODERATOR \<longrightarrow> prop_subject_pubkey t = 0)"

interpretation proposal: tx_format ProposalTx_serialize ProposalTx_deserialize ProposalTx_ok
  "tx_tag MODERATOR_PROPOSAL"
proof unfold_locales
  fix t junk
  assume "ProposalTx_ok t"
  then show "ProposalTx_deserialize (ProposalTx_serialize t @ junk) = Some t"
    by (cases "prop_kind t = Proposal_GRANT_MODERATOR")
      (simp_all add: ProposalTx_deserialize_def ProposalTx_serialize_def ProposalTx_body_def
        ProposalTx_ok_def write_u8_def wire_simps)
qed (simp add: ProposalTx_serialize_def)

lemma ProposalTx_deserialize_ok: "ProposalTx_deserialize p = Some t \<Longrightarrow> ProposalTx_ok t"
  by (auto simp: ProposalTx_deserialize_def ProposalTx_ok_def bind_eq_Some_conv split: if_splits)

end
