(* ===== verification/Tx_Registry.thy ===== *)
theory Tx_Registry
  imports Transactions
begin

text \<open>
  The registry and authority transactions of \<open>transaction.h\<close>: \<open>UsernameTx\<close>,
  \<open>RelayRewardTx\<close>, \<open>NodeAuthTx\<close>, \<open>CheckpointTx\<close> and \<open>SlashTx\<close>, with their round trips as
  interpretations of \<open>tx_format\<close>.
\<close>

section \<open>UsernameTx\<close>

record UsernameTx =
  un_name :: string
  un_owner :: address
  un_owner_pubkey :: pubkey33
  un_nonce :: u64
  un_signature :: sig64

definition UsernameTx_body :: "UsernameTx \<Rightarrow> bytes" where
  "UsernameTx_body t =
     write_u8 (word_of_nat (length (un_name t))) @ str_bytes (un_name t) @
     arr_bytes (un_owner t) @ arr_bytes (un_owner_pubkey t) @ write_u64le (un_nonce t)"

definition UsernameTx_sign_message :: "UsernameTx \<Rightarrow> bytes" where
  "UsernameTx_sign_message t = write_u32le MC_CHAIN_ID @ UsernameTx_body t"

definition UsernameTx_serialize :: "UsernameTx \<Rightarrow> bytes" where
  "UsernameTx_serialize t =
     tx_tag USERNAME_REGISTER # UsernameTx_body t @ arr_bytes (un_signature t)"

definition UsernameTx_deserialize :: "bytes \<Rightarrow> UsernameTx option" where
  "UsernameTx_deserialize p = do {
     p \<leftarrow> read_tag (tx_tag USERNAME_REGISTER) p;
     (name_len, p) \<leftarrow> read_u8 p;
     if unat name_len < 3 \<or> unat name_len > 30 \<or>
        length p < unat name_len + 20 + 33 + 8 + 64 then None
     else do {
       (name, p) \<leftarrow> read_raw (unat name_len) p;
       (ow, p) \<leftarrow> read_arr p;
       (opk, p) \<leftarrow> read_arr p;
       (n, p) \<leftarrow> read_u64le p;
       (sg, p) \<leftarrow> read_arr p;
       Some \<lparr>un_name = bytes_str name, un_owner = ow, un_owner_pubkey = opk, un_nonce = n,
             un_signature = sg\<rparr>
     }
   }"

definition UsernameTx_tx_hash :: "crypto \<Rightarrow> UsernameTx \<Rightarrow> hash256" where
  "UsernameTx_tx_hash c t = sha256 c (UsernameTx_serialize t)"

definition UsernameTx_verify_signature :: "crypto \<Rightarrow> UsernameTx \<Rightarrow> bool" where
  "UsernameTx_verify_signature c t =
     verify_inline c (UsernameTx_sign_message t) (un_signature t) (un_owner_pubkey t) (un_owner t)"

definition UsernameTx_ok :: "UsernameTx \<Rightarrow> bool" where
  "UsernameTx_ok t \<longleftrightarrow> 3 \<le> length (un_name t) \<and> length (un_name t) \<le> 30"

lemma UsernameTx_roundtrip:
  assumes "UsernameTx_ok t"
  shows "UsernameTx_deserialize (UsernameTx_serialize t @ junk) = Some t"
proof -
  have len: "unat (word_of_nat (length (un_name t)) :: u8) = length (un_name t)"
    using assms by (simp add: UsernameTx_ok_def)
  show ?thesis
    using assms by (simp add: UsernameTx_deserialize_def UsernameTx_serialize_def
        UsernameTx_body_def UsernameTx_ok_def write_u8_def wire_simps len)
qed

interpretation username: tx_format UsernameTx_serialize UsernameTx_deserialize UsernameTx_ok
  "tx_tag USERNAME_REGISTER"
  by unfold_locales (rule UsernameTx_roundtrip, assumption, simp add: UsernameTx_serialize_def)

lemma UsernameTx_deserialize_ok: "UsernameTx_deserialize p = Some t \<Longrightarrow> UsernameTx_ok t"
  by (auto simp: UsernameTx_deserialize_def UsernameTx_ok_def bind_eq_Some_conv read_raw_Some
      split: if_splits)

section \<open>RelayRewardTx\<close>

record RelayRewardTx =
  rr_target_address :: address
  rr_count :: u64
  rr_issuer_address :: address
  rr_issuer_pubkey :: pubkey33
  rr_nonce :: u64
  rr_signature :: sig64

definition RelayRewardTx_body :: "RelayRewardTx \<Rightarrow> bytes" where
  "RelayRewardTx_body t =
     arr_bytes (rr_target_address t) @ write_u64le (rr_count t) @
     arr_bytes (rr_issuer_address t) @ arr_bytes (rr_issuer_pubkey t) @ write_u64le (rr_nonce t)"

definition RelayRewardTx_sign_message :: "RelayRewardTx \<Rightarrow> bytes" where
  "RelayRewardTx_sign_message t = write_u32le MC_CHAIN_ID @ RelayRewardTx_body t"

definition RelayRewardTx_serialize :: "RelayRewardTx \<Rightarrow> bytes" where
  "RelayRewardTx_serialize t =
     tx_tag RELAY_REWARD # RelayRewardTx_body t @ arr_bytes (rr_signature t)"

definition RelayRewardTx_deserialize :: "bytes \<Rightarrow> RelayRewardTx option" where
  "RelayRewardTx_deserialize p = do {
     p \<leftarrow> read_tag (tx_tag RELAY_REWARD) p;
     (ta, p) \<leftarrow> read_arr p;
     (ct, p) \<leftarrow> read_u64le p;
     (ia, p) \<leftarrow> read_arr p;
     (ipk, p) \<leftarrow> read_arr p;
     (n, p) \<leftarrow> read_u64le p;
     (sg, p) \<leftarrow> read_arr p;
     Some \<lparr>rr_target_address = ta, rr_count = ct, rr_issuer_address = ia,
           rr_issuer_pubkey = ipk, rr_nonce = n, rr_signature = sg\<rparr>
   }"

definition RelayRewardTx_tx_hash :: "crypto \<Rightarrow> RelayRewardTx \<Rightarrow> hash256" where
  "RelayRewardTx_tx_hash c t = sha256 c (RelayRewardTx_serialize t)"

definition RelayRewardTx_verify_signature :: "crypto \<Rightarrow> RelayRewardTx \<Rightarrow> bool" where
  "RelayRewardTx_verify_signature c t =
     verify_inline c (RelayRewardTx_sign_message t) (rr_signature t) (rr_issuer_pubkey t)
       (rr_issuer_address t)"

interpretation relay_reward: tx_format RelayRewardTx_serialize RelayRewardTx_deserialize
  "\<lambda>_. True" "tx_tag RELAY_REWARD"
  by unfold_locales (simp_all add: RelayRewardTx_serialize_def RelayRewardTx_deserialize_def
      RelayRewardTx_body_def wire_simps)

section \<open>NodeAuthTx\<close>

record NodeAuthTx =
  na_node_id :: hash256
  na_node_pubkey :: pubkey33
  na_authorize :: u8
  na_issuer_address :: address
  na_issuer_pubkey :: pubkey33
  na_nonce :: u64
  na_signature :: sig64

definition NodeAuthTx_body :: "NodeAuthTx \<Rightarrow> bytes" where
  "NodeAuthTx_body t =
     arr_bytes (na_node_id t) @ arr_bytes (na_node_pubkey t) @ write_u8 (na_authorize t) @
     arr_bytes (na_issuer_address t) @ arr_bytes (na_issuer_pubkey t) @ write_u64le (na_nonce t)"

definition NodeAuthTx_sign_message :: "NodeAuthTx \<Rightarrow> bytes" where
  "NodeAuthTx_sign_message t = write_u32le MC_CHAIN_ID @ NodeAuthTx_body t"

definition NodeAuthTx_serialize :: "NodeAuthTx \<Rightarrow> bytes" where
  "NodeAuthTx_serialize t = tx_tag NODE_AUTH # NodeAuthTx_body t @ arr_bytes (na_signature t)"

definition NodeAuthTx_deserialize :: "bytes \<Rightarrow> NodeAuthTx option" where
  "NodeAuthTx_deserialize p = do {
     p \<leftarrow> read_tag (tx_tag NODE_AUTH) p;
     (nid, p) \<leftarrow> read_arr p;
     (npk, p) \<leftarrow> read_arr p;
     (au, p) \<leftarrow> read_u8 p;
     (ia, p) \<leftarrow> read_arr p;
     (ipk, p) \<leftarrow> read_arr p;
     (n, p) \<leftarrow> read_u64le p;
     (sg, p) \<leftarrow> read_arr p;
     Some \<lparr>na_node_id = nid, na_node_pubkey = npk, na_authorize = au, na_issuer_address = ia,
           na_issuer_pubkey = ipk, na_nonce = n, na_signature = sg\<rparr>
   }"

definition NodeAuthTx_tx_hash :: "crypto \<Rightarrow> NodeAuthTx \<Rightarrow> hash256" where
  "NodeAuthTx_tx_hash c t = sha256 c (NodeAuthTx_serialize t)"

definition NodeAuthTx_verify_signature :: "crypto \<Rightarrow> NodeAuthTx \<Rightarrow> bool" where
  "NodeAuthTx_verify_signature c t =
     verify_inline c (NodeAuthTx_sign_message t) (na_signature t) (na_issuer_pubkey t)
       (na_issuer_address t)"

interpretation node_auth: tx_format NodeAuthTx_serialize NodeAuthTx_deserialize
  "\<lambda>_. True" "tx_tag NODE_AUTH"
  by unfold_locales (simp_all add: NodeAuthTx_serialize_def NodeAuthTx_deserialize_def
      NodeAuthTx_body_def write_u8_def wire_simps)

section \<open>CheckpointTx\<close>

record CheckpointTx =
  cp_height :: u32
  cp_block_hash :: hash256
  cp_issuer_address :: address
  cp_issuer_pubkey :: pubkey33
  cp_nonce :: u64
  cp_signature :: sig64

definition CheckpointTx_body :: "CheckpointTx \<Rightarrow> bytes" where
  "CheckpointTx_body t =
     write_u32le (cp_height t) @ arr_bytes (cp_block_hash t) @ arr_bytes (cp_issuer_address t) @
     arr_bytes (cp_issuer_pubkey t) @ write_u64le (cp_nonce t)"

definition CheckpointTx_sign_message :: "CheckpointTx \<Rightarrow> bytes" where
  "CheckpointTx_sign_message t = write_u32le MC_CHAIN_ID @ CheckpointTx_body t"

definition CheckpointTx_serialize :: "CheckpointTx \<Rightarrow> bytes" where
  "CheckpointTx_serialize t =
     tx_tag CHECKPOINT # CheckpointTx_body t @ arr_bytes (cp_signature t)"

definition CheckpointTx_deserialize :: "bytes \<Rightarrow> CheckpointTx option" where
  "CheckpointTx_deserialize p = do {
     p \<leftarrow> read_tag (tx_tag CHECKPOINT) p;
     (h, p) \<leftarrow> read_u32le p;
     (bh, p) \<leftarrow> read_arr p;
     (ia, p) \<leftarrow> read_arr p;
     (ipk, p) \<leftarrow> read_arr p;
     (n, p) \<leftarrow> read_u64le p;
     (sg, p) \<leftarrow> read_arr p;
     Some \<lparr>cp_height = h, cp_block_hash = bh, cp_issuer_address = ia, cp_issuer_pubkey = ipk,
           cp_nonce = n, cp_signature = sg\<rparr>
   }"

definition CheckpointTx_tx_hash :: "crypto \<Rightarrow> CheckpointTx \<Rightarrow> hash256" where
  "CheckpointTx_tx_hash c t = sha256 c (CheckpointTx_serialize t)"

definition CheckpointTx_verify_signature :: "crypto \<Rightarrow> CheckpointTx \<Rightarrow> bool" where
  "CheckpointTx_verify_signature c t =
     verify_inline c (CheckpointTx_sign_message t) (cp_signature t) (cp_issuer_pubkey t)
       (cp_issuer_address t)"

interpretation checkpoint: tx_format CheckpointTx_serialize CheckpointTx_deserialize
  "\<lambda>_. True" "tx_tag CHECKPOINT"
  by unfold_locales (simp_all add: CheckpointTx_serialize_def CheckpointTx_deserialize_def
      CheckpointTx_body_def wire_simps)

section \<open>SlashTx\<close>

record SlashTx =
  sl_kind :: u8
  sl_target_address :: address
  sl_target_pubkey :: pubkey33
  sl_evidence :: bytes
  sl_nonce :: u64
  sl_reporter_address :: address
  sl_reporter_pubkey :: pubkey33
  sl_signature :: sig64

definition SlashTx_body :: "SlashTx \<Rightarrow> bytes" where
  "SlashTx_body t =
     write_u8 (sl_kind t) @ arr_bytes (sl_target_address t) @ arr_bytes (sl_target_pubkey t) @
     write_u32le (word_of_nat (length (sl_evidence t))) @ sl_evidence t @
     write_u64le (sl_nonce t) @ arr_bytes (sl_reporter_address t) @
     arr_bytes (sl_reporter_pubkey t)"

definition SlashTx_sign_message :: "SlashTx \<Rightarrow> bytes" where
  "SlashTx_sign_message t = write_u32le MC_CHAIN_ID @ SlashTx_body t"

definition SlashTx_serialize :: "SlashTx \<Rightarrow> bytes" where
  "SlashTx_serialize t = tx_tag SLASH # SlashTx_body t @ arr_bytes (sl_signature t)"

text \<open>
  The sum \<open>elen + 8 + 20 + 33 + 64\<close> is unsigned 32-bit in the code; the cap on \<open>elen\<close> keeps
  it from wrapping, so it is written on naturals here.
\<close>

definition SlashTx_deserialize :: "bytes \<Rightarrow> SlashTx option" where
  "SlashTx_deserialize p = do {
     p \<leftarrow> read_tag (tx_tag SLASH) p;
     (k, p) \<leftarrow> read_u8 p;
     (ta, p) \<leftarrow> read_arr p;
     (tpk, p) \<leftarrow> read_arr p;
     (elen, p) \<leftarrow> read_u32le p;
     if unat elen > MAX_BLOCK_SIZE then None
     else if length p < unat elen + 8 + 20 + 33 + 64 then None
     else do {
       (ev, p) \<leftarrow> read_raw (unat elen) p;
       (n, p) \<leftarrow> read_u64le p;
       (ra, p) \<leftarrow> read_arr p;
       (rpk, p) \<leftarrow> read_arr p;
       (sg, p) \<leftarrow> read_arr p;
       Some \<lparr>sl_kind = k, sl_target_address = ta, sl_target_pubkey = tpk, sl_evidence = ev,
             sl_nonce = n, sl_reporter_address = ra, sl_reporter_pubkey = rpk,
             sl_signature = sg\<rparr>
     }
   }"

definition SlashTx_tx_hash :: "crypto \<Rightarrow> SlashTx \<Rightarrow> hash256" where
  "SlashTx_tx_hash c t = sha256 c (SlashTx_serialize t)"

definition SlashTx_verify_signature :: "crypto \<Rightarrow> SlashTx \<Rightarrow> bool" where
  "SlashTx_verify_signature c t =
     verify_inline c (SlashTx_sign_message t) (sl_signature t) (sl_reporter_pubkey t)
       (sl_reporter_address t)"

lemma SlashTx_roundtrip:
  assumes "length (sl_evidence t) \<le> MAX_BLOCK_SIZE"
  shows "SlashTx_deserialize (SlashTx_serialize t @ junk) = Some t"
proof -
  have len: "unat (word_of_nat (length (sl_evidence t)) :: u32) = length (sl_evidence t)"
    using assms by (simp add: MAX_BLOCK_SIZE_def)
  show ?thesis
    using assms by (simp add: SlashTx_deserialize_def SlashTx_serialize_def
        SlashTx_body_def write_u8_def wire_simps len)
qed

interpretation slash: tx_format SlashTx_serialize SlashTx_deserialize
  "\<lambda>t. length (sl_evidence t) \<le> MAX_BLOCK_SIZE" "tx_tag SLASH"
  by unfold_locales (rule SlashTx_roundtrip, assumption, simp add: SlashTx_serialize_def)

end
