(* ===== verification/Tx_Rating.thy ===== *)
theory Tx_Rating
  imports Tx_Registry
begin

text \<open>
  \<open>RatingTx\<close>, the rating auto-hide policy of \<open>transaction.h\<close> (the packing of a policy in
  \<open>ProposalTx::amount\<close>, its bounds and the hide predicate). The lemmas relate the
  word-level predicate, with its wrap and overflow guards, to the inequality over the
  natural numbers it stands for.
\<close>

section \<open>RatingTx\<close>

record RatingTx =
  rt_content_hash :: hash256
  rt_value :: u8
  rt_rater :: address
  rt_rater_pubkey :: pubkey33
  rt_nonce :: u64
  rt_signature :: sig64

definition RatingTx_body :: "RatingTx \<Rightarrow> bytes" where
  "RatingTx_body t =
     arr_bytes (rt_content_hash t) @ write_u8 (rt_value t) @ arr_bytes (rt_rater t) @
     arr_bytes (rt_rater_pubkey t) @ write_u64le (rt_nonce t)"

definition RatingTx_sign_message :: "RatingTx \<Rightarrow> bytes" where
  "RatingTx_sign_message t = write_u32le MC_CHAIN_ID @ tx_tag RATING # RatingTx_body t"

definition RatingTx_serialize :: "RatingTx \<Rightarrow> bytes" where
  "RatingTx_serialize t = tx_tag RATING # RatingTx_body t @ arr_bytes (rt_signature t)"

definition RatingTx_deserialize :: "bytes \<Rightarrow> RatingTx option" where
  "RatingTx_deserialize p = do {
     p \<leftarrow> read_tag (tx_tag RATING) p;
     (ch, p) \<leftarrow> read_arr p;
     (v, p) \<leftarrow> read_u8 p;
     (ra, p) \<leftarrow> read_arr p;
     (rpk, p) \<leftarrow> read_arr p;
     (n, p) \<leftarrow> read_u64le p;
     (sg, p) \<leftarrow> read_arr p;
     if p \<noteq> [] then None
     else Some \<lparr>rt_content_hash = ch, rt_value = v, rt_rater = ra, rt_rater_pubkey = rpk,
                rt_nonce = n, rt_signature = sg\<rparr>
   }"

definition RatingTx_tx_hash :: "crypto \<Rightarrow> RatingTx \<Rightarrow> hash256" where
  "RatingTx_tx_hash c t = sha256 c (RatingTx_serialize t)"

definition RatingTx_verify_signature :: "crypto \<Rightarrow> RatingTx \<Rightarrow> bool" where
  "RatingTx_verify_signature c t \<longleftrightarrow>
     (rt_value t = RatingValue_UP \<or> rt_value t = RatingValue_DOWN) \<and>
     rt_content_hash t \<noteq> 0 \<and>
     verify_inline c (RatingTx_sign_message t) (rt_signature t) (rt_rater_pubkey t) (rt_rater t)"

interpretation rating: canonical_tx_format RatingTx_serialize RatingTx_deserialize
proof unfold_locales
  fix p t
  show "RatingTx_deserialize p = Some t \<longleftrightarrow> p = RatingTx_serialize t"
    by (cases t) (auto simp: RatingTx_deserialize_def RatingTx_serialize_def RatingTx_body_def
        write_u8_def read_iff)
qed

section \<open>The auto-hide policy\<close>

definition RATING_DEFAULT_MIN_RATINGS :: u32 where "RATING_DEFAULT_MIN_RATINGS = 25"
definition RATING_DEFAULT_DOWN_RATIO_BPS :: u32 where "RATING_DEFAULT_DOWN_RATIO_BPS = 8000"
definition RATING_MIN_RATINGS_FLOOR :: u32 where "RATING_MIN_RATINGS_FLOOR = 10"
definition RATING_MIN_RATINGS_CEIL :: u32 where "RATING_MIN_RATINGS_CEIL = 1000000"
definition RATING_DOWN_RATIO_BPS_FLOOR :: u32 where "RATING_DOWN_RATIO_BPS_FLOOR = 5001"
definition RATING_DOWN_RATIO_BPS_CEIL :: u32 where "RATING_DOWN_RATIO_BPS_CEIL = 10000"

lemmas rating_consts =
  RATING_DEFAULT_MIN_RATINGS_def RATING_DEFAULT_DOWN_RATIO_BPS_def RATING_MIN_RATINGS_FLOOR_def
  RATING_MIN_RATINGS_CEIL_def RATING_DOWN_RATIO_BPS_FLOOR_def RATING_DOWN_RATIO_BPS_CEIL_def

definition pack_rating_policy :: "u32 \<Rightarrow> u32 \<Rightarrow> u64" where
  "pack_rating_policy min_ratings bps = push_bit 32 (ucast bps) OR ucast min_ratings"

definition unpack_rating_policy :: "u64 \<Rightarrow> u32 \<times> u32" where
  "unpack_rating_policy amount = (ucast (amount AND 0xFFFFFFFF), ucast (drop_bit 32 amount))"

definition rating_policy_in_bounds :: "u32 \<Rightarrow> u32 \<Rightarrow> bool" where
  "rating_policy_in_bounds min_ratings bps \<longleftrightarrow>
     RATING_MIN_RATINGS_FLOOR \<le> min_ratings \<and> min_ratings \<le> RATING_MIN_RATINGS_CEIL \<and>
     RATING_DOWN_RATIO_BPS_FLOOR \<le> bps \<and> bps \<le> RATING_DOWN_RATIO_BPS_CEIL"

definition rating_hide_triggers :: "u64 \<Rightarrow> u64 \<Rightarrow> u32 \<Rightarrow> u32 \<Rightarrow> bool" where
  "rating_hide_triggers up down min_ratings bps =
     (let total = up + down; kGuard = 0xFFFFFFFFFFFFFFFF div 10000 in
      if total < up then False
      else if total = 0 \<or> total < ucast min_ratings then False
      else if kGuard < down \<or> kGuard < total then False
      else total * ucast bps \<le> down * 10000)"

lemma unpack_pack_rating_policy [simp]:
  "unpack_rating_policy (pack_rating_policy m b) = (m, b)"
proof -
  have "(push_bit 32 (ucast b) OR ucast m :: u64) AND 0xFFFFFFFF = ucast m"
  proof (rule bit_word_eqI)
    fix n assume "n < LENGTH(64)"
    have "(0xFFFFFFFF :: u64) = mask 32" by (simp add: mask_eq_exp_minus_1)
    then have "bit (0xFFFFFFFF :: u64) n \<longleftrightarrow> n < 32 \<and> n < 64"
      by (simp only: bit_mask_iff possible_bit_word) auto
    then show "bit ((push_bit 32 (ucast b) OR ucast m :: u64) AND 0xFFFFFFFF) n =
        bit (ucast m :: u64) n"
      using bit_imp_le_length [of m n] by (auto simp: bit_simps simp del: bit_numeral_simps)
  qed
  moreover have "(ucast (drop_bit 32 (push_bit 32 (ucast b) OR ucast m :: u64)) :: u32) = b"
    by (rule bit_word_eqI) (auto simp: bit_simps dest: bit_imp_le_length)
  moreover have "(ucast (ucast m :: u64) :: u32) = m"
    by (rule bit_word_eqI) (auto simp: bit_simps dest: bit_imp_le_length)
  ultimately show ?thesis
    by (simp add: unpack_rating_policy_def pack_rating_policy_def)
qed

text \<open>
  The predicate over the natural numbers: enough ratings, and the share of DOWN ratings at
  or above the threshold. The \<open>kGuard\<close> bound keeps both products below \<open>2 ^ 64\<close>.
\<close>

definition kGuard :: nat where
  "kGuard = (2 ^ 64 - 1) div 10000"

definition hide_spec :: "nat \<Rightarrow> nat \<Rightarrow> nat \<Rightarrow> nat \<Rightarrow> bool" where
  "hide_spec up down min_ratings bps \<longleftrightarrow>
     0 < up + down \<and> min_ratings \<le> up + down \<and> up + down \<le> kGuard \<and>
     (up + down) * bps \<le> down * 10000"

lemma kGuard_eq: "kGuard = 1844674407370955"
  by (simp add: kGuard_def)

lemma unat_mult_guarded:
  assumes "unat (a :: u64) \<le> kGuard" and "unat b \<le> 10000"
  shows "unat (a * b) = unat a * unat b"
proof -
  have "unat a * unat b \<le> kGuard * 10000" using assms by (rule mult_le_mono)
  also have "\<dots> < 2 ^ LENGTH(64)" by (simp add: kGuard_def)
  finally show ?thesis by (simp add: unat_word_ariths)
qed

lemma rating_hide_triggers_iff:
  assumes "unat bps \<le> 10000"
  shows "rating_hide_triggers up down min_ratings bps \<longleftrightarrow>
    hide_spec (unat up) (unat down) (unat min_ratings) (unat bps)"
proof (cases "up + down < up")
  case True
  then have "\<not> unat up + unat down \<le> kGuard"
    unfolding unat_add_wrap_iff by (simp add: kGuard_def)
  with True show ?thesis
    by (simp add: rating_hide_triggers_def hide_spec_def)
next
  case False
  let ?t = "unat up + unat down"
  have t: "unat (up + down) = ?t" using False by (rule unat_add_no_wrap)
  have zero: "up + down = 0 \<longleftrightarrow> ?t = 0" by (metis t unat_0_iff)
  have b: "unat (ucast bps :: u64) \<le> 10000" using assms by simp
  show ?thesis
  proof (cases "?t \<le> kGuard")
    case guard: True
    have le: "(up + down) * ucast bps \<le> down * 10000 \<longleftrightarrow> ?t * unat bps \<le> unat down * 10000"
      using unat_mult_guarded [of "up + down" "ucast bps"] unat_mult_guarded [of down 10000]
        guard b t by (simp add: word_le_nat_alt)
    have "\<not> kGuard < unat down" "\<not> kGuard < unat (up + down)" using guard t by simp_all
    with False t zero le guard show ?thesis
      by (auto simp: rating_hide_triggers_def hide_spec_def Let_def word_less_nat_alt kGuard_eq)
  next
    case guard: False
    then have "kGuard < unat (up + down)" using t by simp
    with guard show ?thesis
      by (simp add: rating_hide_triggers_def hide_spec_def Let_def word_less_nat_alt kGuard_eq)
  qed
qed

lemma rating_policy_bps: 
  "rating_policy_in_bounds m b \<Longrightarrow> 5001 \<le> unat b \<and> unat b \<le> 10000 \<and> 10 \<le> unat m"
  by (simp add: rating_policy_in_bounds_def rating_consts word_le_nat_alt)

lemma hide_spec_majority:
  assumes "hide_spec up down m b" and "5000 < b"
  shows "up < down"
proof (rule ccontr)
  assume "\<not> up < down"
  then have "2 * down \<le> up + down" by simp
  then have "down * 10000 \<le> (up + down) * 5000" by simp
  moreover have "0 < up + down" and "(up + down) * b \<le> down * 10000"
    using assms(1) by (simp_all add: hide_spec_def)
  moreover have "(up + down) * 5000 < (up + down) * b"
    by (rule mult_strict_left_mono) (use assms(2) \<open>0 < up + down\<close> in simp_all)
  ultimately show False by linarith
qed

end
