(* ===== verification/Tx_Settlement.thy ===== *)
theory Tx_Settlement
  imports Tx_Rating
begin

text \<open>
  \<open>SettlementMintTx\<close>, its companion body of constituent proofs, and the \<open>Transaction\<close>
  wrapper (\<open>transaction.cpp\<close>, lines 598--669 and 816--862). The lemmas are the round trips,
  the reading of a whole body, and what the messages signed for the different transaction
  types have in common: a signature is bound to its type by the length of the message it
  signs, except where two types sign messages of the same length.
\<close>

section \<open>SettlementMintTx\<close>

record SettlementMintTx =
  sm_serving_node_id :: hash256
  sm_serving_node_wallet :: address
  sm_epoch_id :: u64
  sm_constituents_merkle_root :: hash256
  sm_constituent_count :: u32
  sm_node_signature :: sig64

definition SettlementMintTx_sign_message :: "SettlementMintTx \<Rightarrow> bytes" where
  "SettlementMintTx_sign_message t =
     write_u32le MC_CHAIN_ID @ arr_bytes (sm_serving_node_id t) @
     arr_bytes (sm_serving_node_wallet t) @ write_u64le (sm_epoch_id t) @
     arr_bytes (sm_constituents_merkle_root t) @ write_u32le (sm_constituent_count t)"

definition SettlementMintTx_serialize :: "SettlementMintTx \<Rightarrow> bytes" where
  "SettlementMintTx_serialize t =
     tx_tag SETTLEMENT_MINT # arr_bytes (sm_serving_node_id t) @
     arr_bytes (sm_serving_node_wallet t) @ write_u64le (sm_epoch_id t) @
     arr_bytes (sm_constituents_merkle_root t) @ write_u32le (sm_constituent_count t) @
     arr_bytes (sm_node_signature t)"

definition SettlementMintTx_deserialize :: "bytes \<Rightarrow> SettlementMintTx option" where
  "SettlementMintTx_deserialize p = do {
     p \<leftarrow> read_tag (tx_tag SETTLEMENT_MINT) p;
     (nid, p) \<leftarrow> read_arr p;
     (nw, p) \<leftarrow> read_arr p;
     (ep, p) \<leftarrow> read_u64le p;
     (mr, p) \<leftarrow> read_arr p;
     (n, p) \<leftarrow> read_u32le p;
     (sg, p) \<leftarrow> read_arr p;
     Some \<lparr>sm_serving_node_id = nid, sm_serving_node_wallet = nw, sm_epoch_id = ep,
           sm_constituents_merkle_root = mr, sm_constituent_count = n, sm_node_signature = sg\<rparr>
   }"

definition SettlementMintTx_tx_hash :: "crypto \<Rightarrow> SettlementMintTx \<Rightarrow> hash256" where
  "SettlementMintTx_tx_hash c t = sha256 c (SettlementMintTx_serialize t)"

interpretation settlement: tx_format SettlementMintTx_serialize SettlementMintTx_deserialize
  "\<lambda>_. True" "tx_tag SETTLEMENT_MINT"
  by unfold_locales
    (simp_all add: SettlementMintTx_serialize_def SettlementMintTx_deserialize_def wire_simps)

section \<open>The companion body\<close>

definition MAX_SETTLE_BODY_PROOFS :: nat where
  "MAX_SETTLE_BODY_PROOFS = 4096"

definition write_settle_item :: "PlayProof \<Rightarrow> bytes" where
  "write_settle_item pr =
     (let s = PlayProof_serialize pr in write_u32le (word_of_nat (length s)) @ s)"

definition serialize_settle_body :: "PlayProof list \<Rightarrow> bytes" where
  "serialize_settle_body proofs =
     write_u32le (word_of_nat (length proofs)) @ concat (map write_settle_item proofs)"

definition read_settle_item :: "PlayProof reader" where
  "read_settle_item p = do {
     (l, p) \<leftarrow> read_u32le p;
     (b, p) \<leftarrow> read_raw (unat l) p;
     pr \<leftarrow> PlayProof_deserialize b;
     Some (pr, p)
   }"

definition deserialize_settle_body :: "bytes \<Rightarrow> PlayProof list option" where
  "deserialize_settle_body p = do {
     (n, p) \<leftarrow> read_u32le p;
     if MAX_SETTLE_BODY_PROOFS < unat n then None
     else do {
       (prs, p) \<leftarrow> read_n read_settle_item (unat n) p;
       Some prs
     }
   }"

interpretation settle_item: codec write_settle_item read_settle_item PlayProof_normal
proof unfold_locales
  fix x r
  assume ok: "PlayProof_normal x"
  have len: "unat (word_of_nat (length (PlayProof_serialize x)) :: u32) =
      length (PlayProof_serialize x)"
    by (simp only: length_PlayProof_serialize unat_word_of_length_u32 PlayProof_size_bound)
  show "read_settle_item (write_settle_item x @ r) = Some (x, r)"
    unfolding read_settle_item_def write_settle_item_def Let_def
    by (simp add: wire_simps len PlayProof_roundtrip [OF ok])
qed

lemma deserialize_serialize_settle_body:
  assumes "list_all PlayProof_normal ps" and "length ps \<le> MAX_SETTLE_BODY_PROOFS"
  shows "deserialize_settle_body (serialize_settle_body ps @ junk) = Some ps"
proof -
  have n: "unat (word_of_nat (length ps) :: u32) = length ps"
    by (rule unat_word_of_length_u32) (use assms(2) in \<open>simp add: MAX_SETTLE_BODY_PROOFS_def\<close>)
  show ?thesis
    using assms(2) unfolding deserialize_settle_body_def serialize_settle_body_def append_assoc
    by (simp add: wire_simps n settle_item.read_n_concat [OF assms(1)])
qed

lemma read_settle_item_normal: "read_settle_item p = Some (pr, r) \<Longrightarrow> PlayProof_normal pr"
  by (auto simp: read_settle_item_def bind_eq_Some_conv dest: PlayProof_deserialize_normal)

lemma read_n_list_all:
  assumes "\<And>p x r. rd p = Some (x, r) \<Longrightarrow> P x"
  shows "read_n rd n p = Some (xs, r) \<Longrightarrow> list_all P xs"
proof (induction n arbitrary: p xs r)
  case (Suc n)
  from Suc.prems show ?case
    by (rule read_n_Suc_SomeE) (use assms Suc.IH in fastforce)
qed simp

lemma deserialize_settle_body_bounds:
  assumes "deserialize_settle_body p = Some ps"
  shows "list_all PlayProof_normal ps \<and> length ps \<le> MAX_SETTLE_BODY_PROOFS"
proof -
  from assms obtain n r q where "read_n read_settle_item (unat (n :: u32)) q = Some (ps, r)"
    and "unat n \<le> MAX_SETTLE_BODY_PROOFS"
    by (auto simp: deserialize_settle_body_def bind_eq_Some_conv split: if_splits)
  then show ?thesis
    by (metis length_read_n read_n_list_all read_settle_item_normal)
qed

section \<open>The Transaction wrapper\<close>

record Transaction =
  txn_type :: TxType
  txn_raw :: bytes

definition Transaction_from_transfer :: "TransferTx \<Rightarrow> Transaction" where
  "Transaction_from_transfer t = \<lparr>txn_type = TRANSFER, txn_raw = TransferTx_serialize t\<rparr>"

definition Transaction_from_mint :: "MintTx \<Rightarrow> Transaction" where
  "Transaction_from_mint t = \<lparr>txn_type = MINT, txn_raw = MintTx_serialize t\<rparr>"

definition Transaction_from_moderator_op :: "ModeratorOpTx \<Rightarrow> Transaction" where
  "Transaction_from_moderator_op t =
     \<lparr>txn_type = MODERATOR_OP, txn_raw = ModeratorOpTx_serialize t\<rparr>"

definition Transaction_from_proposal :: "ProposalTx \<Rightarrow> Transaction" where
  "Transaction_from_proposal t =
     \<lparr>txn_type = MODERATOR_PROPOSAL, txn_raw = ProposalTx_serialize t\<rparr>"

definition Transaction_parse_transfer :: "Transaction \<Rightarrow> TransferTx option" where
  "Transaction_parse_transfer t = TransferTx_deserialize (txn_raw t)"

definition Transaction_parse_mint :: "Transaction \<Rightarrow> MintTx option" where
  "Transaction_parse_mint t = MintTx_deserialize (txn_raw t)"

definition Transaction_parse_moderator_op :: "Transaction \<Rightarrow> ModeratorOpTx option" where
  "Transaction_parse_moderator_op t = ModeratorOpTx_deserialize (txn_raw t)"

definition Transaction_parse_proposal :: "Transaction \<Rightarrow> ProposalTx option" where
  "Transaction_parse_proposal t = ProposalTx_deserialize (txn_raw t)"

definition Transaction_tx_hash :: "crypto \<Rightarrow> Transaction \<Rightarrow> hash256" where
  "Transaction_tx_hash c t = sha256 c (txn_raw t)"

section \<open>What is signed\<close>

lemma length_sign_messages [length_simps]:
  "length (TransferTx_sign_message a) = 93"
  "length (RelayRewardTx_sign_message b) = 93"
  "length (NodeAuthTx_sign_message d) = 131"
  "length (CheckpointTx_sign_message e) = 101"
  "length (SettlementMintTx_sign_message f) = 100"
  "length (RatingTx_sign_message g) = 99"
  "length (UsernameTx_sign_message h) = 66 + length (un_name h)"
  "length (ModeratorOpTx_sign_message i) = 122 + length (mop_meta_json i)"
  "length (SlashTx_sign_message j) = 123 + length (sl_evidence j)"
  "length (ProposalTx_sign_message k) =
     (if prop_kind k = Proposal_GRANT_MODERATOR then 159 else 126)"
  "length (PlayProof_sign_message l) =
     194 + (if 2 \<le> pp_version l then 40 else 0) + (if 3 \<le> pp_version l then 99 else 0)"
  by (simp_all add: TransferTx_sign_message_def RelayRewardTx_sign_message_def
      RelayRewardTx_body_def NodeAuthTx_sign_message_def NodeAuthTx_body_def
      CheckpointTx_sign_message_def CheckpointTx_body_def SettlementMintTx_sign_message_def
      RatingTx_sign_message_def RatingTx_body_def UsernameTx_sign_message_def UsernameTx_body_def
      ModeratorOpTx_sign_message_def ModeratorOpTx_body_def SlashTx_sign_message_def SlashTx_body_def
      ProposalTx_sign_message_def ProposalTx_body_def PlayProof_sign_message_def
      length_PlayProof_facts)

text \<open>
  A message is the chain id and a body; \<open>reread\<close> parses the same bytes under the layout of
  the other type.
\<close>

lemma take_drop_arr [simp]:
  "n + LENGTH('n) \<le> length b \<Longrightarrow>
   arr_bytes (mk_arr (take LENGTH('n) (drop n b)) :: ('n::len) arr) = take LENGTH('n) (drop n b)"
  by simp

definition relay_message_as_transfer :: "RelayRewardTx \<Rightarrow> TransferTx" where
  "relay_message_as_transfer r =
     (let b = RelayRewardTx_body r in
      \<lparr>tr_from_address = mk_arr (take 20 b), tr_to_address = mk_arr (take 20 (drop 20 b)),
       tr_amount = le_word 8 (take 8 (drop 40 b)), tr_nonce = le_word 8 (take 8 (drop 48 b)),
       tr_from_pubkey = mk_arr (take 33 (drop 56 b)), tr_signature = rr_signature r\<rparr>)"

lemma le_bytes_8_le_word: "length p = 8 \<Longrightarrow> write_u64le (le_word 8 p) = p"
  by (simp add: write_u64le_def le_bytes_le_word)

lemma drop_split: "drop k b = take n (drop k b) @ drop (n + k) b"
  by (metis append_take_drop_id drop_drop)

lemma split_89:
  assumes "length b = 89"
  shows "b = take 20 b @ take 20 (drop 20 b) @ take 8 (drop 40 b) @ take 8 (drop 48 b) @
             take 33 (drop 56 b)"
proof -
  have "take 33 (drop 56 b) = drop 56 b" using assms by simp
  moreover have "drop 48 b = take 8 (drop 48 b) @ drop 56 b" using drop_split [of 48 b 8] by simp
  moreover have "drop 40 b = take 8 (drop 40 b) @ drop 48 b" using drop_split [of 40 b 8] by simp
  moreover have "drop 20 b = take 20 (drop 20 b) @ drop 40 b" using drop_split [of 20 b 20] by simp
  ultimately show ?thesis using append_take_drop_id [of 20 b] by metis
qed

lemma length_RelayRewardTx_body: "length (RelayRewardTx_body r) = 89"
  by (simp add: RelayRewardTx_body_def)

lemma relay_message_as_transfer_same:
  "TransferTx_sign_message (relay_message_as_transfer r) = RelayRewardTx_sign_message r"
proof -
  let ?b = "RelayRewardTx_body r"
  have "TransferTx_sign_message (relay_message_as_transfer r) = write_u32le MC_CHAIN_ID @
      take 20 ?b @ take 20 (drop 20 ?b) @ take 8 (drop 40 ?b) @ take 8 (drop 48 ?b) @
      take 33 (drop 56 ?b)"
    by (simp add: TransferTx_sign_message_def relay_message_as_transfer_def Let_def
        length_RelayRewardTx_body le_bytes_8_le_word)
  also have "\<dots> = write_u32le MC_CHAIN_ID @ ?b"
    using split_89 [OF length_RelayRewardTx_body] by metis
  finally show ?thesis by (simp add: RelayRewardTx_sign_message_def)
qed

end
