(* ===== verification/Block.thy ===== *)
theory Block
  imports Tx_Settlement
begin

text \<open>
  \<open>src/bopwire/src/core/block.h\<close>, \<open>block.cpp\<close> and \<open>merkle.cpp\<close>: the song section, the
  header, the block and its serialization, the Merkle root over the raw transactions and
  \<open>Block::validate\<close>. The lemmas are the round trip of every block that \<open>validate\<close> accepts,
  what the block hash binds and what it does not: the Merkle root of an odd number of
  transactions is also the root of the list with its last one repeated.
\<close>

section \<open>Constants and the song section\<close>

definition BLOCK_VERSION :: u32 where "BLOCK_VERSION = 4"
definition SEPARATOR_BYTE :: u8 where "SEPARATOR_BYTE = 0xFF"
definition SEPARATOR_LENGTH :: nat where "SEPARATOR_LENGTH = 8"
definition MAX_TXS_PER_BLOCK :: nat where "MAX_TXS_PER_BLOCK = 20000"

datatype AudioFormat = OGG | MP3 | FLAC | M4A | AAC | OPUS | WAV | AIFF | WMA | APE | MKA | UNKNOWN

fun audio_format_code :: "AudioFormat \<Rightarrow> u8" where
  "audio_format_code OGG = 0x00"
| "audio_format_code MP3 = 0x01"
| "audio_format_code FLAC = 0x02"
| "audio_format_code M4A = 0x03"
| "audio_format_code AAC = 0x04"
| "audio_format_code OPUS = 0x05"
| "audio_format_code WAV = 0x06"
| "audio_format_code AIFF = 0x07"
| "audio_format_code WMA = 0x08"
| "audio_format_code APE = 0x09"
| "audio_format_code MKA = 0x0A"
| "audio_format_code UNKNOWN = 0xFF"

text \<open>
  The enum has \<open>uint8_t\<close> for its underlying type, so a value read off the wire may be any
  byte: a field of the type is a byte, and the enumerators are \<open>audio_format_code\<close>.
\<close>

definition audio_format_to_string :: "u8 \<Rightarrow> string" where
  "audio_format_to_string f =
     (if f = audio_format_code OGG then ''ogg''
      else if f = audio_format_code MP3 then ''mp3''
      else if f = audio_format_code FLAC then ''flac''
      else if f = audio_format_code M4A then ''m4a''
      else if f = audio_format_code AAC then ''aac''
      else if f = audio_format_code OPUS then ''opus''
      else if f = audio_format_code WAV then ''wav''
      else if f = audio_format_code AIFF then ''aiff''
      else if f = audio_format_code WMA then ''wma''
      else if f = audio_format_code APE then ''ape''
      else if f = audio_format_code MKA then ''mka''
      else ''unknown'')"

definition audio_format_from_string :: "string \<Rightarrow> AudioFormat" where
  "audio_format_from_string s =
     (if s = ''mp3'' then MP3
      else if s = ''ogg'' then OGG
      else if s = ''flac'' then FLAC
      else if s = ''m4a'' then M4A
      else if s = ''aac'' then AAC
      else if s = ''opus'' then OPUS
      else if s = ''wav'' then WAV
      else if s = ''aif'' \<or> s = ''aiff'' then AIFF
      else if s = ''wma'' then WMA
      else if s = ''ape'' then APE
      else if s = ''mka'' then MKA
      else OGG)"

record RoyaltySplit =
  rs_address :: address
  rs_basis_points :: u16

record SongSection =
  song_audio_format :: u8
  song_content_hash :: hash256
  song_compressed_fingerprint :: string
  song_duration_ms :: u32
  song_title :: string
  song_artist :: string
  song_artist_address :: address
  song_genre :: string
  song_album :: string
  song_year :: u16
  song_track_number :: u16
  song_royalty_splits :: "RoyaltySplit list"

definition write_RoyaltySplit :: "RoyaltySplit \<Rightarrow> bytes" where
  "write_RoyaltySplit r = arr_bytes (rs_address r) @ write_u16le (rs_basis_points r)"

definition read_RoyaltySplit :: "RoyaltySplit reader" where
  "read_RoyaltySplit p = do {
     (a, p) \<leftarrow> read_arr p;
     (b, p) \<leftarrow> read_u16le p;
     Some (\<lparr>rs_address = a, rs_basis_points = b\<rparr>, p)
   }"

definition write_song_body :: "SongSection \<Rightarrow> bytes" where
  "write_song_body s =
     write_u8 (song_audio_format s) @ arr_bytes (song_content_hash s) @
     write_string16 (song_compressed_fingerprint s) @ write_u32le (song_duration_ms s) @
     write_string16 (song_title s) @ write_string16 (song_artist s) @
     arr_bytes (song_artist_address s) @ write_string16 (song_genre s) @
     write_string16 (song_album s) @ write_u16le (song_year s) @
     write_u16le (song_track_number s) @
     write_u8 (word_of_nat (length (song_royalty_splits s))) @
     concat (map write_RoyaltySplit (song_royalty_splits s))"

definition read_song_body :: "SongSection reader" where
  "read_song_body p = do {
     (af, p) \<leftarrow> read_u8 p;
     (ch, p) \<leftarrow> read_arr p;
     (fp, p) \<leftarrow> read_string16 p;
     (dur, p) \<leftarrow> read_u32le p;
     (ti, p) \<leftarrow> read_string16 p;
     (ar, p) \<leftarrow> read_string16 p;
     (aa, p) \<leftarrow> read_arr p;
     (ge, p) \<leftarrow> read_string16 p;
     (al, p) \<leftarrow> read_string16 p;
     (ye, p) \<leftarrow> read_u16le p;
     (tn, p) \<leftarrow> read_u16le p;
     (rs_count, p) \<leftarrow> read_u8 p;
     (rs, p) \<leftarrow> read_n read_RoyaltySplit (unat rs_count) p;
     Some (\<lparr>song_audio_format = af, song_content_hash = ch, song_compressed_fingerprint = fp,
            song_duration_ms = dur, song_title = ti, song_artist = ar,
            song_artist_address = aa, song_genre = ge, song_album = al, song_year = ye,
            song_track_number = tn, song_royalty_splits = rs\<rparr>, p)
   }"

text \<open>The bounds \<open>validate\<close> checks before it hashes the body.\<close>

definition song_fields_ok :: "SongSection \<Rightarrow> bool" where
  "song_fields_ok s \<longleftrightarrow>
     length (song_compressed_fingerprint s) \<le> 0xFFFF \<and> length (song_title s) \<le> 0xFFFF \<and>
     length (song_artist s) \<le> 0xFFFF \<and> length (song_genre s) \<le> 0xFFFF \<and>
     length (song_album s) \<le> 0xFFFF \<and> length (song_royalty_splits s) \<le> 255"

interpretation royalty_split: exact_codec write_RoyaltySplit read_RoyaltySplit "\<lambda>_. True"
proof unfold_locales
  fix x :: RoyaltySplit and r
  show "read_RoyaltySplit (write_RoyaltySplit x @ r) = Some (x, r)"
    by (simp add: write_RoyaltySplit_def read_RoyaltySplit_def wire_simps)
next
  fix p r and x :: RoyaltySplit
  assume "read_RoyaltySplit p = Some (x, r)"
  then show "p = write_RoyaltySplit x @ r \<and> True"
    by (cases x) (auto simp: write_RoyaltySplit_def read_RoyaltySplit_def read_iff)
qed

interpretation song_body: exact_codec write_song_body read_song_body song_fields_ok
proof unfold_locales
  fix s :: SongSection and r
  assume ok: "song_fields_ok s"
  have n: "unat (word_of_nat (length (song_royalty_splits s)) :: u8) =
      length (song_royalty_splits s)"
    by (rule unat_word_of_length_u8) (use ok in \<open>simp add: song_fields_ok_def\<close>)
  show "read_song_body (write_song_body s @ r) = Some (s, r)"
    using ok unfolding read_song_body_def write_song_body_def append_assoc
    by (simp add: wire_simps song_fields_ok_def n royalty_split.read_n_concat)
next
  fix p r and s :: SongSection
  assume "read_song_body p = Some (s, r)"
  then obtain n q where body: "p = write_u8 (song_audio_format s) @
      arr_bytes (song_content_hash s) @ write_string16 (song_compressed_fingerprint s) @
      write_u32le (song_duration_ms s) @ write_string16 (song_title s) @
      write_string16 (song_artist s) @ arr_bytes (song_artist_address s) @
      write_string16 (song_genre s) @ write_string16 (song_album s) @
      write_u16le (song_year s) @ write_u16le (song_track_number s) @ write_u8 n @ q"
    and strs: "length (song_compressed_fingerprint s) \<le> 0xFFFF" "length (song_title s) \<le> 0xFFFF"
      "length (song_artist s) \<le> 0xFFFF" "length (song_genre s) \<le> 0xFFFF"
      "length (song_album s) \<le> 0xFFFF"
    and rs: "read_n read_RoyaltySplit (unat n) q = Some (song_royalty_splits s, r)"
    by (auto simp: read_song_body_def read_iff write_u8_def)
  have "length (song_royalty_splits s) = unat n" using length_read_n [OF rs] .
  moreover have "unat n < 256" using unsigned_less [of n] by simp
  moreover have "q = concat (map write_RoyaltySplit (song_royalty_splits s)) @ r"
    using royalty_split.read_n_exact [OF rs] by simp
  ultimately show "p = write_song_body s @ r \<and> song_fields_ok s"
    using body strs by (simp add: write_song_body_def song_fields_ok_def)
qed

lemma audio_format_code_inject [simp]: "audio_format_code f = audio_format_code g \<longleftrightarrow> f = g"
  by (cases f; cases g) simp_all

lemma audio_format_round_trip:
  "audio_format_from_string (audio_format_to_string (audio_format_code f)) =
   (if f = UNKNOWN then OGG else f)"
  by (cases f) (simp_all add: audio_format_to_string_def audio_format_from_string_def)

section \<open>Header and block\<close>

record BlockHeader =
  hd_version :: u32
  hd_prev_hash :: hash256
  hd_merkle_root :: hash256
  hd_fingerprint_hash :: hash256
  hd_content_hash :: hash256
  hd_timestamp_ms :: u64
  hd_state_root :: hash256
  hd_song_body_hash :: hash256

definition BlockHeader_serialize :: "BlockHeader \<Rightarrow> bytes" where
  "BlockHeader_serialize h =
     write_u32le (hd_version h) @ arr_bytes (hd_prev_hash h) @ arr_bytes (hd_merkle_root h) @
     arr_bytes (hd_fingerprint_hash h) @ arr_bytes (hd_content_hash h) @
     write_u64le (hd_timestamp_ms h) @
     (if 4 \<le> hd_version h then arr_bytes (hd_state_root h) @ arr_bytes (hd_song_body_hash h)
      else [])"

definition BlockHeader_hash :: "crypto \<Rightarrow> BlockHeader \<Rightarrow> hash256" where
  "BlockHeader_hash c h = sha256 c (BlockHeader_serialize h)"

text \<open>\<open>has_song\<close> and the \<open>song\<close> it guards are one optional value.\<close>

record Block =
  blk_header :: BlockHeader
  blk_song :: "SongSection option"
  blk_transactions :: "bytes list"

definition Block_has_song :: "Block \<Rightarrow> bool" where
  "Block_has_song b \<longleftrightarrow> blk_song b \<noteq> None"

definition Block_compute_song_body_hash :: "crypto \<Rightarrow> Block \<Rightarrow> hash256" where
  "Block_compute_song_body_hash c b =
     (case blk_song b of None \<Rightarrow> 0 | Some s \<Rightarrow> sha256 c (write_song_body s))"

definition write_raw_tx :: "bytes \<Rightarrow> bytes" where
  "write_raw_tx tx = write_u32le (word_of_nat (length tx)) @ tx"

definition separator :: bytes where
  "separator = replicate SEPARATOR_LENGTH SEPARATOR_BYTE"

definition Block_serialize :: "Block \<Rightarrow> bytes" where
  "Block_serialize b =
     BlockHeader_serialize (blk_header b) @
     (case blk_song b of None \<Rightarrow> [0x00] | Some s \<Rightarrow> 0x01 # write_song_body s) @
     separator @
     write_u32le (word_of_nat (length (blk_transactions b))) @
     concat (map write_raw_tx (blk_transactions b))"

definition read_BlockHeader :: "BlockHeader reader" where
  "read_BlockHeader p = do {
     (v, p) \<leftarrow> read_u32le p;
     (ph, p) \<leftarrow> read_arr p;
     (mr, p) \<leftarrow> read_arr p;
     (fh, p) \<leftarrow> read_arr p;
     (ch, p) \<leftarrow> read_arr p;
     (ts, p) \<leftarrow> read_u64le p;
     (sr, p) \<leftarrow> (if 4 \<le> v then read_arr p else Some (0, p));
     (sb, p) \<leftarrow> (if 4 \<le> v then read_arr p else Some (0, p));
     Some (\<lparr>hd_version = v, hd_prev_hash = ph, hd_merkle_root = mr, hd_fingerprint_hash = fh,
            hd_content_hash = ch, hd_timestamp_ms = ts, hd_state_root = sr,
            hd_song_body_hash = sb\<rparr>, p)
   }"

definition read_raw_tx :: "bytes reader" where
  "read_raw_tx p = do {
     (tx_len, p) \<leftarrow> read_u32le p;
     read_raw (unat tx_len) p
   }"

definition read_optional_song :: "SongSection option reader" where
  "read_optional_song p = do {
     (flag, p) \<leftarrow> read_u8 p;
     if flag \<noteq> 0 then do { (s, p) \<leftarrow> read_song_body p; Some (Some s, p) } else Some (None, p)
   }"

definition Block_deserialize :: "bytes \<Rightarrow> Block option" where
  "Block_deserialize p = do {
     (h, p) \<leftarrow> read_BlockHeader p;
     (song, p) \<leftarrow> read_optional_song p;
     (sep, p) \<leftarrow> read_raw SEPARATOR_LENGTH p;
     if sep \<noteq> separator then None
     else do {
       (tx_count, p) \<leftarrow> read_u32le p;
       (txs, p) \<leftarrow> read_n read_raw_tx (unat tx_count) p;
       Some \<lparr>blk_header = h, blk_song = song, blk_transactions = txs\<rparr>
     }
   }"

definition Block_full_hash :: "crypto \<Rightarrow> bytes \<Rightarrow> hash256" where
  "Block_full_hash c serialized = sha256 c serialized"

definition Block_hash :: "crypto \<Rightarrow> Block \<Rightarrow> hash256" where
  "Block_hash c b = BlockHeader_hash c (blk_header b)"

section \<open>The Merkle root\<close>

definition merkle_node :: "crypto \<Rightarrow> hash256 \<Rightarrow> hash256 \<Rightarrow> hash256" where
  "merkle_node c l r = sha256 c (arr_bytes l @ arr_bytes r)"

definition merkle_pad :: "hash256 list \<Rightarrow> hash256 list" where
  "merkle_pad hs = (if length hs mod 2 \<noteq> 0 then hs @ [last hs] else hs)"

fun merkle_pairs :: "crypto \<Rightarrow> hash256 list \<Rightarrow> hash256 list" where
  "merkle_pairs c (l # r # hs) = merkle_node c l r # merkle_pairs c hs"
| "merkle_pairs c hs = []"

lemma length_merkle_pairs [simp]: "length (merkle_pairs c hs) = length hs div 2"
  by (induction c hs rule: merkle_pairs.induct) simp_all

lemma length_merkle_pad: "length (merkle_pad hs) = 2 * ((length hs + 1) div 2)"
  unfolding merkle_pad_def by auto presburger+

text \<open>The loop \<open>while (hashes.size() > 1)\<close>; the result is \<open>hashes[0]\<close>.\<close>

function merkle_loop :: "crypto \<Rightarrow> hash256 list \<Rightarrow> hash256" where
  "merkle_loop c hs =
     (if 1 < length hs then merkle_loop c (merkle_pairs c (merkle_pad hs)) else hd hs)"
  by pat_completeness auto
termination
  by (relation "measure (\<lambda>(c, hs). length hs)") (auto simp: length_merkle_pad)

declare merkle_loop.simps [simp del]

definition Block_compute_merkle_root :: "crypto \<Rightarrow> bytes list \<Rightarrow> hash256" where
  "Block_compute_merkle_root c txs =
     (if txs = [] then 0 else merkle_loop c (map (sha256 c) txs))"

definition merkle_root :: "crypto \<Rightarrow> hash256 list \<Rightarrow> hash256" where
  "merkle_root c leaves = (if leaves = [] then 0 else merkle_loop c leaves)"

definition merkle_root_bytes :: "crypto \<Rightarrow> bytes list \<Rightarrow> hash256" where
  "merkle_root_bytes c items = merkle_root c (map (sha256 c) items)"

section \<open>Validation\<close>

definition Block_validate :: "crypto \<Rightarrow> Block \<Rightarrow> bool" where
  "Block_validate c b =
     (let h = blk_header b in
      if hd_version h \<noteq> BLOCK_VERSION then False
      else if MAX_TXS_PER_BLOCK < length (blk_transactions b) then False
      else if MAX_BLOCK_SIZE < length (Block_serialize b) then False
      else if (case blk_song b of
          None \<Rightarrow> hd_fingerprint_hash h \<noteq> 0 \<or> hd_content_hash h \<noteq> 0 \<or> hd_song_body_hash h \<noteq> 0
        | Some s \<Rightarrow> \<not> song_fields_ok s \<or> hd_content_hash h \<noteq> song_content_hash s \<or>
            hd_fingerprint_hash h \<noteq> sha256 c (str_bytes (song_compressed_fingerprint s)))
        then False
      else if hd_song_body_hash h \<noteq> Block_compute_song_body_hash c b then False
      else if Block_compute_merkle_root c (blk_transactions b) \<noteq> hd_merkle_root h then False
      else True)"

section \<open>Round trip\<close>

definition BlockHeader_ok :: "BlockHeader \<Rightarrow> bool" where
  "BlockHeader_ok h \<longleftrightarrow> (\<not> 4 \<le> hd_version h \<longrightarrow> hd_state_root h = 0 \<and> hd_song_body_hash h = 0)"

interpretation header: exact_codec BlockHeader_serialize read_BlockHeader BlockHeader_ok
proof unfold_locales
  fix h :: BlockHeader and r
  assume "BlockHeader_ok h"
  then show "read_BlockHeader (BlockHeader_serialize h @ r) = Some (h, r)"
    by (cases "4 \<le> hd_version h")
      (simp_all add: BlockHeader_serialize_def read_BlockHeader_def BlockHeader_ok_def wire_simps)
next
  fix p r and h :: BlockHeader
  assume "read_BlockHeader p = Some (h, r)"
  then show "p = BlockHeader_serialize h @ r \<and> BlockHeader_ok h"
    by (cases h) (auto simp: BlockHeader_serialize_def read_BlockHeader_def BlockHeader_ok_def
        read_iff split: if_splits)
qed

interpretation raw_tx: exact_codec write_raw_tx read_raw_tx "\<lambda>tx. length tx < 2 ^ 32"
proof unfold_locales
  fix tx :: bytes and r
  assume "length tx < 2 ^ 32"
  then have "unat (word_of_nat (length tx) :: u32) = length tx" by (rule unat_word_of_length_u32)
  then show "read_raw_tx (write_raw_tx tx @ r) = Some (tx, r)"
    by (simp add: write_raw_tx_def read_raw_tx_def wire_simps)
next
  fix p r and tx :: bytes
  assume "read_raw_tx p = Some (tx, r)"
  then obtain n :: u32 where "p = write_u32le n @ tx @ r" and n: "length tx = unat n"
    by (auto simp: read_raw_tx_def read_iff read_raw_Some)
  moreover have "unat n < 2 ^ 32" using unsigned_less [of n] by simp
  ultimately show "p = write_raw_tx tx @ r \<and> length tx < 2 ^ 32"
    by (simp add: write_raw_tx_def n)
qed

definition Block_ok :: "Block \<Rightarrow> bool" where
  "Block_ok b \<longleftrightarrow>
     BlockHeader_ok (blk_header b) \<and>
     (case blk_song b of None \<Rightarrow> True | Some s \<Rightarrow> song_fields_ok s) \<and>
     length (blk_transactions b) < 2 ^ 32 \<and>
     list_all (\<lambda>tx. length tx < 2 ^ 32) (blk_transactions b)"

lemma length_separator [simp]: "length separator = SEPARATOR_LENGTH"
  by (simp add: separator_def)

lemma read_optional_song_ok:
  "read_optional_song p = Some (song, r) \<Longrightarrow>
   (case song of None \<Rightarrow> True | Some s \<Rightarrow> song_fields_ok s)"
  by (auto simp: read_optional_song_def bind_eq_Some_conv song_body.dec_iff split: if_splits)

lemma Block_roundtrip:
  assumes "Block_ok b"
  shows "Block_deserialize (Block_serialize b @ junk) = Some b"
proof -
  have n: "unat (word_of_nat (length (blk_transactions b)) :: u32) = length (blk_transactions b)"
    by (rule unat_word_of_length_u32) (use assms in \<open>simp add: Block_ok_def\<close>)
  have txs: "list_all (\<lambda>tx. length tx < 2 ^ 32) (blk_transactions b)"
    and hd: "BlockHeader_ok (blk_header b)"
    using assms by (simp_all add: Block_ok_def)
  show ?thesis
    using assms unfolding Block_deserialize_def Block_serialize_def append_assoc
    by (cases "blk_song b")
      (simp_all add: header.dec_enc [OF hd] song_body.dec_enc Block_ok_def wire_simps n
        raw_tx.read_n_concat [OF txs] read_optional_song_def)
qed

lemma Block_deserialize_ok:
  assumes "Block_deserialize p = Some b"
  shows "Block_ok b"
proof -
  from assms obtain song n h q1 q2 q5 txs r where
    h: "read_BlockHeader p = Some (h, q1)"
    and song: "read_optional_song q1 = Some (song, q2)"
    and txs: "read_n read_raw_tx (unat (n :: u32)) q5 = Some (txs, r)"
    and b: "b = \<lparr>blk_header = h, blk_song = song, blk_transactions = txs\<rparr>"
    by (auto simp: Block_deserialize_def bind_eq_Some_conv split: if_splits)
  have "BlockHeader_ok h" using header.enc_dec [OF h] by simp
  moreover have "length txs < 2 ^ 32"
    using length_read_n [OF txs] unsigned_less [of n] by simp
  moreover have "list_all (\<lambda>tx. length tx < 2 ^ 32) txs"
    using raw_tx.read_n_exact [OF txs] by simp
  ultimately show ?thesis
    using read_optional_song_ok [OF song] by (simp add: b Block_ok_def)
qed

lemma length_tx_le_serialize:
  "tx \<in> set (blk_transactions b) \<Longrightarrow> length tx \<le> length (Block_serialize b)"
proof -
  assume "tx \<in> set (blk_transactions b)"
  then have "length (write_raw_tx tx) \<le> length (concat (map write_raw_tx (blk_transactions b)))"
    by (auto simp: length_concat o_def intro: member_le_sum_list)
  then show ?thesis by (simp add: write_raw_tx_def Block_serialize_def)
qed

lemma Block_validate_ok:
  assumes "Block_validate c b"
  shows "Block_ok b"
proof -
  have "hd_version (blk_header b) = 4" and n: "length (blk_transactions b) \<le> 20000"
    and size: "length (Block_serialize b) \<le> MAX_BLOCK_SIZE"
    using assms by (auto simp: Block_validate_def Let_def BLOCK_VERSION_def
        MAX_TXS_PER_BLOCK_def split: if_splits)
  moreover have "case blk_song b of None \<Rightarrow> True | Some s \<Rightarrow> song_fields_ok s"
    using assms by (auto simp: Block_validate_def Let_def split: if_splits option.splits)
  moreover have "list_all (\<lambda>tx. length tx < 2 ^ 32) (blk_transactions b)"
    using size length_tx_le_serialize [of _ b]
    by (fastforce simp: list_all_iff MAX_BLOCK_SIZE_def)
  ultimately show ?thesis by (simp add: Block_ok_def BlockHeader_ok_def)
qed

section \<open>What the Merkle root binds\<close>

text \<open>The byte strings hashed on the way from a list of hashes to the root.\<close>

function merkle_preimages :: "crypto \<Rightarrow> hash256 list \<Rightarrow> bytes list" where
  "merkle_preimages c hs =
     (if 1 < length hs then
        (let q = merkle_pad hs in
         map (\<lambda>i. arr_bytes (q ! (2 * i)) @ arr_bytes (q ! (2 * i + 1))) [0..<length q div 2] @
         merkle_preimages c (merkle_pairs c q))
      else [])"
  by pat_completeness auto
termination
  by (relation "measure (\<lambda>(c, hs). length hs)") (auto simp: length_merkle_pad)

declare merkle_preimages.simps [simp del]

lemma nth_merkle_pairs:
  "i < length hs div 2 \<Longrightarrow> merkle_pairs c hs ! i = merkle_node c (hs ! (2 * i)) (hs ! (2 * i + 1))"
  by (induction c hs arbitrary: i rule: merkle_pairs.induct)
    (auto simp: nth_Cons split: nat.splits)

lemma merkle_pairs_inj:
  assumes len: "length q = length q'" and even: "even (length q)"
    and inj: "inj_on (sha256 c)
      ((\<lambda>i. arr_bytes (q ! (2 * i)) @ arr_bytes (q ! (2 * i + 1))) ` {..<length q div 2} \<union>
       (\<lambda>i. arr_bytes (q' ! (2 * i)) @ arr_bytes (q' ! (2 * i + 1))) ` {..<length q div 2})"
    and eq: "merkle_pairs c q = merkle_pairs c q'"
  shows "q = q'"
proof (rule nth_equalityI [OF len])
  fix j assume j: "j < length q"
  let ?i = "j div 2"
  have i: "?i < length q div 2" using j even by (auto elim!: evenE)
  have "merkle_pairs c q ! ?i = merkle_pairs c q' ! ?i" by (simp add: eq)
  then have "sha256 c (arr_bytes (q ! (2 * ?i)) @ arr_bytes (q ! (2 * ?i + 1))) =
      sha256 c (arr_bytes (q' ! (2 * ?i)) @ arr_bytes (q' ! (2 * ?i + 1)))"
    using i len by (simp add: nth_merkle_pairs merkle_node_def)
  then have "arr_bytes (q ! (2 * ?i)) @ arr_bytes (q ! (2 * ?i + 1)) =
      arr_bytes (q' ! (2 * ?i)) @ arr_bytes (q' ! (2 * ?i + 1))"
    by (rule inj_onD [OF inj]) (use i in blast)+
  then have "q ! (2 * ?i) = q' ! (2 * ?i) \<and> q ! (2 * ?i + 1) = q' ! (2 * ?i + 1)"
    by (simp add: arr_eq_iff)
  then show "q ! j = q' ! j" by (cases "even j") (auto elim: evenE oddE)
qed

lemma merkle_pad_inj: "length hs = length hs' \<Longrightarrow> merkle_pad hs = merkle_pad hs' \<Longrightarrow> hs = hs'"
  by (auto simp: merkle_pad_def split: if_splits)

lemma even_length_merkle_pad [simp]: "even (length (merkle_pad hs))"
  by (simp add: length_merkle_pad)

lemma merkle_loop_inj:
  "length hs = length hs' \<Longrightarrow> hs \<noteq> [] \<Longrightarrow>
   inj_on (sha256 c) (set (merkle_preimages c hs) \<union> set (merkle_preimages c hs')) \<Longrightarrow>
   merkle_loop c hs = merkle_loop c hs' \<Longrightarrow> hs = hs'"
proof (induction c hs arbitrary: hs' rule: merkle_loop.induct)
  case (1 c hs)
  show ?case
  proof (cases "1 < length hs")
    case False
    with "1.prems" obtain a b where "hs = [a]" "hs' = [b]"
      by (metis length_0_conv length_Suc_conv less_one linorder_neqE_nat One_nat_def)
    with "1.prems"(4) show ?thesis by (simp add: merkle_loop.simps)
  next
    case True
    let ?q = "merkle_pad hs" and ?q' = "merkle_pad hs'"
    have lq: "length ?q = length ?q'" using "1.prems"(1) by (simp add: length_merkle_pad)
    have pre: "set (merkle_preimages c hs) = (\<lambda>i. arr_bytes (?q ! (2 * i)) @ arr_bytes (?q ! (2 * i + 1))) ` {..<length ?q div 2} \<union> set (merkle_preimages c (merkle_pairs c ?q))"
      "set (merkle_preimages c hs') = (\<lambda>i. arr_bytes (?q' ! (2 * i)) @ arr_bytes (?q' ! (2 * i + 1))) ` {..<length ?q div 2} \<union> set (merkle_preimages c (merkle_pairs c ?q'))"
      using True "1.prems"(1) lq
      by (simp_all add: merkle_preimages.simps [of c hs] merkle_preimages.simps [of c hs'] Let_def
          atLeast_upt lessThan_atLeast0)
    have "merkle_pairs c ?q = merkle_pairs c ?q'"
    proof (rule "1.IH" [OF True])
      show "length (merkle_pairs c ?q) = length (merkle_pairs c ?q')" by (simp add: lq)
      show "merkle_pairs c ?q \<noteq> []"
        using True by (simp flip: length_0_conv) (simp add: length_merkle_pad)
      show "inj_on (sha256 c) (set (merkle_preimages c (merkle_pairs c ?q)) \<union>
          set (merkle_preimages c (merkle_pairs c ?q')))"
        by (rule inj_on_subset [OF "1.prems"(3)]) (auto simp: pre)
      show "merkle_loop c (merkle_pairs c ?q) = merkle_loop c (merkle_pairs c ?q')"
        using True "1.prems"(1,4) by (simp add: merkle_loop.simps [of c hs] merkle_loop.simps [of c hs'])
    qed
    then have "?q = ?q'"
      by (intro merkle_pairs_inj [OF lq])
        (auto intro!: inj_on_subset [OF "1.prems"(3)] simp: pre)
    with "1.prems"(1) show ?thesis by (rule merkle_pad_inj)
  qed
qed

definition root_preimages :: "crypto \<Rightarrow> bytes list \<Rightarrow> bytes list" where
  "root_preimages c txs = txs @ merkle_preimages c (map (sha256 c) txs)"

lemma map_sha256_inj:
  "length xs = length ys \<Longrightarrow> inj_on (sha256 c) (set xs \<union> set ys) \<Longrightarrow>
   map (sha256 c) xs = map (sha256 c) ys \<Longrightarrow> xs = ys"
proof (induction xs ys rule: list_induct2)
  case (Cons x xs y ys)
  have "x = y" by (rule inj_onD [OF Cons.prems(1)]) (use Cons.prems(2) in simp_all)
  moreover have "xs = ys"
    by (rule Cons.IH) (use Cons.prems in \<open>auto intro: inj_on_subset\<close>)
  ultimately show ?case by simp
qed simp

lemma Block_merkle_root_inj:
  assumes len: "length xs = length ys"
    and inj: "inj_on (sha256 c) (set (root_preimages c xs) \<union> set (root_preimages c ys))"
    and eq: "Block_compute_merkle_root c xs = Block_compute_merkle_root c ys"
  shows "xs = ys"
proof (cases "xs = []")
  case True
  with len show ?thesis by simp
next
  case False
  have "map (sha256 c) xs = map (sha256 c) ys"
  proof (rule merkle_loop_inj)
    show "inj_on (sha256 c) (set (merkle_preimages c (map (sha256 c) xs)) \<union>
        set (merkle_preimages c (map (sha256 c) ys)))"
      by (rule inj_on_subset [OF inj]) (auto simp: root_preimages_def)
    show "merkle_loop c (map (sha256 c) xs) = merkle_loop c (map (sha256 c) ys)"
      using eq False len by (auto simp: Block_compute_merkle_root_def)
  qed (use len False in simp_all)
  then show ?thesis
    by (rule map_sha256_inj [OF len, rotated])
      (rule inj_on_subset [OF inj], auto simp: root_preimages_def)
qed

text \<open>
  The number of transactions is not part of what is hashed. An odd list and the same list
  with its last entry repeated have one root; so do two transactions and the single
  transaction made of their two hashes.
\<close>

lemma merkle_loop_pad:
  "1 < length hs \<Longrightarrow> merkle_loop c (merkle_pad hs) = merkle_loop c hs"
proof -
  assume "1 < length hs"
  moreover from this have "1 < length (merkle_pad hs)" by (auto simp: merkle_pad_def)
  moreover have "merkle_pad (merkle_pad hs) = merkle_pad hs"
    by (auto simp: merkle_pad_def) presburger+
  ultimately show ?thesis
    by (simp add: merkle_loop.simps [of c hs] merkle_loop.simps [of c "merkle_pad hs"])
qed

lemma merkle_root_repeat_last:
  assumes "1 < length txs" and "odd (length txs)"
  shows "Block_compute_merkle_root c (txs @ [last txs]) = Block_compute_merkle_root c txs"
proof -
  have "merkle_pad (map (sha256 c) txs) = map (sha256 c) (txs @ [last txs])"
    using assms by (cases txs rule: rev_cases) (auto simp: merkle_pad_def)
  with merkle_loop_pad [of "map (sha256 c) txs" c] assms show ?thesis
    by (auto simp: Block_compute_merkle_root_def)
qed

lemma merkle_root_of_two:
  "Block_compute_merkle_root c [a, b] =
   Block_compute_merkle_root c [arr_bytes (sha256 c a) @ arr_bytes (sha256 c b)]"
  by (simp add: Block_compute_merkle_root_def merkle_loop.simps merkle_pad_def merkle_node_def)

lemma merkle_root_bytes_eq: "merkle_root_bytes c txs = Block_compute_merkle_root c txs"
  by (simp add: merkle_root_bytes_def merkle_root_def Block_compute_merkle_root_def)

section \<open>What the block hash binds\<close>

definition block_preimages :: "crypto \<Rightarrow> Block \<Rightarrow> bytes list" where
  "block_preimages c b =
     BlockHeader_serialize (blk_header b) # root_preimages c (blk_transactions b) @
     (case blk_song b of None \<Rightarrow> []
      | Some s \<Rightarrow> [write_song_body s, str_bytes (song_compressed_fingerprint s)])"

lemma Block_validate_facts:
  assumes "Block_validate c b"
  shows "hd_version (blk_header b) = BLOCK_VERSION"
    and "length (blk_transactions b) \<le> MAX_TXS_PER_BLOCK"
    and "length (Block_serialize b) \<le> MAX_BLOCK_SIZE"
    and "hd_merkle_root (blk_header b) = Block_compute_merkle_root c (blk_transactions b)"
    and "hd_song_body_hash (blk_header b) = Block_compute_song_body_hash c b"
    and "blk_song b = None \<Longrightarrow> hd_content_hash (blk_header b) = 0 \<and>
           hd_fingerprint_hash (blk_header b) = 0 \<and> hd_song_body_hash (blk_header b) = 0"
    and "blk_song b = Some s \<Longrightarrow> song_fields_ok s \<and>
           hd_content_hash (blk_header b) = song_content_hash s \<and>
           hd_fingerprint_hash (blk_header b) =
             sha256 c (str_bytes (song_compressed_fingerprint s))"
  using assms by (auto simp: Block_validate_def Let_def split: if_splits option.splits)

lemma Block_validate_iff:
  "Block_validate c b \<longleftrightarrow>
     hd_version (blk_header b) = BLOCK_VERSION \<and>
     length (blk_transactions b) \<le> MAX_TXS_PER_BLOCK \<and>
     length (Block_serialize b) \<le> MAX_BLOCK_SIZE \<and>
     hd_merkle_root (blk_header b) = Block_compute_merkle_root c (blk_transactions b) \<and>
     hd_song_body_hash (blk_header b) = Block_compute_song_body_hash c b \<and>
     (case blk_song b of None \<Rightarrow> hd_content_hash (blk_header b) = 0 \<and>
           hd_fingerprint_hash (blk_header b) = 0 \<and> hd_song_body_hash (blk_header b) = 0
      | Some s \<Rightarrow> song_fields_ok s \<and> hd_content_hash (blk_header b) = song_content_hash s \<and>
           hd_fingerprint_hash (blk_header b) =
             sha256 c (str_bytes (song_compressed_fingerprint s)))"
  by (auto simp: Block_validate_def Let_def split: option.splits)

lemma Block_hash_inj:
  assumes v: "Block_validate c b" "Block_validate c b'"
    and hash: "Block_hash c b = Block_hash c b'"
    and inj: "inj_on (sha256 c) (set (block_preimages c b) \<union> set (block_preimages c b'))"
    and song: "Block_has_song b = Block_has_song b'"
    and len: "length (blk_transactions b) = length (blk_transactions b')"
  shows "b = b'"
proof -
  have "BlockHeader_serialize (blk_header b) = BlockHeader_serialize (blk_header b')"
    by (rule inj_onD [OF inj])
      (use hash in \<open>simp_all add: Block_hash_def BlockHeader_hash_def block_preimages_def\<close>)
  then have hdr: "blk_header b = blk_header b'"
    by (rule header.enc_inj [rotated -1])
      (use v [THEN Block_validate_ok] in \<open>simp_all add: Block_ok_def\<close>)
  have txs: "blk_transactions b = blk_transactions b'"
  proof (rule Block_merkle_root_inj [OF len])
    show "inj_on (sha256 c)
        (set (root_preimages c (blk_transactions b)) \<union> set (root_preimages c (blk_transactions b')))"
      by (rule inj_on_subset [OF inj]) (auto simp: block_preimages_def)
    show "Block_compute_merkle_root c (blk_transactions b) =
        Block_compute_merkle_root c (blk_transactions b')"
      using Block_validate_facts(4) [OF v(1)] Block_validate_facts(4) [OF v(2)] hdr by simp
  qed
  have "blk_song b = blk_song b'"
  proof (cases "blk_song b")
    case None
    with song show ?thesis by (simp add: Block_has_song_def)
  next
    case (Some s)
    with song obtain s' where s': "blk_song b' = Some s'" by (auto simp: Block_has_song_def)
    have "sha256 c (write_song_body s) = sha256 c (write_song_body s')"
      using Block_validate_facts(5) [OF v(1)] Block_validate_facts(5) [OF v(2)] hdr Some s'
      by (simp add: Block_compute_song_body_hash_def)
    then have "write_song_body s = write_song_body s'"
      by (rule inj_onD [OF inj]) (simp_all add: block_preimages_def Some s')
    then have "s = s'"
      by (rule song_body.enc_inj [rotated -1])
        (use Block_validate_facts(7) [OF v(1) Some] Block_validate_facts(7) [OF v(2) s'] in simp_all)
    with Some s' show ?thesis by simp
  qed
  with hdr txs show ?thesis by (cases b; cases b') simp
qed

lemma Block_repeat_last:
  assumes "Block_validate c b" and "1 < length (blk_transactions b)"
    and "odd (length (blk_transactions b))"
    and "b' = b\<lparr>blk_transactions := blk_transactions b @ [last (blk_transactions b)]\<rparr>"
    and "length (Block_serialize b') \<le> MAX_BLOCK_SIZE"
  shows "Block_validate c b' \<and> Block_hash c b' = Block_hash c b \<and> b' \<noteq> b"
proof -
  have "length (blk_transactions b) \<noteq> MAX_TXS_PER_BLOCK"
    using assms(3) by (auto simp: MAX_TXS_PER_BLOCK_def)
  moreover have "b' \<noteq> b"
    unfolding assms(4) by (metis Block.simps(3) Block.surjective Block.update_convs(3) append_self_conv not_Cons_self2)
  ultimately show ?thesis
    using assms(1,5) merkle_root_repeat_last [OF assms(2,3), of c]
    unfolding Block_validate_iff assms(4)
    by (cases "blk_song b")
      (simp_all add: Block_hash_def Block_compute_song_body_hash_def Suc_le_eq)
qed

end
