(* ===== verification/Samples.thy ===== *)
theory Samples
  imports Tx_Settlement Block
begin

text \<open>
  Concrete values at which the properties are applied: a play proof and blocks whose header
  carries the Merkle root of their transactions, under the stand-in primitives of
  \<open>toy_crypto\<close>.
\<close>

definition sample_play :: PlayProof where
  "sample_play =
     \<lparr>pp_session_id = mk_arr [1], pp_content_hash = mk_arr [2], pp_block_hash = mk_arr [3],
      pp_artist_address = mk_arr [4], pp_player_address = mk_arr [5],
      pp_serving_node_id = mk_arr [6], pp_play_start_timestamp = 1000,
      pp_play_end_timestamp = 31000, pp_total_duration_ms = 30000, pp_heartbeat_count = 3,
      pp_node_signature = mk_arr [7], pp_seeder_address = mk_arr [8],
      pp_mini_node_address = mk_arr [9], pp_serving_node_pubkey = 0, pp_player_pubkey = 0,
      pp_player_signature = 0, pp_mini_node_pubkey = 0, pp_mini_node_signature = 0,
      pp_version = 2\<rparr>"

lemma sample_play_normal: "PlayProof_normal sample_play"
  by (simp add: PlayProof_normal_def sample_play_def)

definition sample_block :: "bytes list \<Rightarrow> Block" where
  "sample_block txs =
     \<lparr>blk_header = \<lparr>hd_version = 4, hd_prev_hash = 0,
        hd_merkle_root = Block_compute_merkle_root toy_crypto txs, hd_fingerprint_hash = 0,
        hd_content_hash = 0, hd_timestamp_ms = 0, hd_state_root = 0, hd_song_body_hash = 0\<rparr>,
      blk_song = None, blk_transactions = txs\<rparr>"

lemma length_sample_block:
  "length (Block_serialize (sample_block txs)) \<le> 221 + length (concat (map write_raw_tx txs))"
  by (simp add: Block_serialize_def sample_block_def BlockHeader_serialize_def length_simps
      SEPARATOR_LENGTH_def)

lemma sample_block_valid:
  "length txs \<le> 3 \<Longrightarrow> length (concat (map write_raw_tx txs)) \<le> 1000 \<Longrightarrow>
   Block_validate toy_crypto (sample_block txs)"
  using length_sample_block [of txs]
  by (simp add: Block_validate_iff MAX_BLOCK_SIZE_def)
    (simp add: sample_block_def BLOCK_VERSION_def MAX_TXS_PER_BLOCK_def
      Block_compute_song_body_hash_def)

end
