(* ===== verification/Hash.thy ===== *)
theory Hash
  imports Block
begin

text \<open>
  \<open>src/bopwire/src/crypto/hash.cpp\<close>: the hexadecimal form in which hashes and addresses
  appear in database keys and in the API, and the escrow address of an artist. The lemmas
  are the round trips and the injectivity of \<open>to_hex\<close>, on which the separation of the
  database records rests.
\<close>

definition sha256d :: "crypto \<Rightarrow> bytes \<Rightarrow> hash256" where
  "sha256d c b = sha256 c (arr_bytes (sha256 c b))"

definition hex_digit :: "nat \<Rightarrow> char" where
  "hex_digit n = ''0123456789abcdef'' ! n"

definition to_hex :: "bytes \<Rightarrow> string" where
  "to_hex b = concat (map (\<lambda>w. [hex_digit (unat w div 16), hex_digit (unat w mod 16)]) b)"

text \<open>The lambda \<open>h\<close> of \<open>from_hex\<close>, with \<open>None\<close> for its -1.\<close>

definition nibble :: "char \<Rightarrow> nat option" where
  "nibble ch = (let n = (of_char ch :: nat) in
     if 48 \<le> n \<and> n \<le> 57 then Some (n - 48)
     else if 97 \<le> n \<and> n \<le> 102 then Some (n - 97 + 10)
     else if 65 \<le> n \<and> n \<le> 70 then Some (n - 65 + 10)
     else None)"

fun from_hex_loop :: "string \<Rightarrow> bytes option" where
  "from_hex_loop (hi # lo # r) = do {
     hv \<leftarrow> nibble hi;
     lv \<leftarrow> nibble lo;
     b \<leftarrow> from_hex_loop r;
     Some (word_of_nat (push_bit 4 hv OR lv) # b)
   }"
| "from_hex_loop _ = Some []"

definition from_hex :: "string \<Rightarrow> bytes" where
  "from_hex s = (if length s mod 2 \<noteq> 0 then []
     else case from_hex_loop s of None \<Rightarrow> [] | Some b \<Rightarrow> b)"

definition parse_hash256 :: "string \<Rightarrow> hash256 option" where
  "parse_hash256 s = (let b = from_hex s in if length b \<noteq> 32 then None else Some (mk_arr b))"

definition parse_address :: "string \<Rightarrow> address option" where
  "parse_address s =
     (let h = (if length s = 42 \<and> s ! 0 = CHR ''0'' \<and> (s ! 1 = CHR ''x'' \<or> s ! 1 = CHR ''X'')
               then drop 2 s else s);
          b = from_hex h
      in if length b \<noteq> 20 then None else Some (mk_arr b))"

definition escrow_address_for :: "crypto \<Rightarrow> address \<Rightarrow> address" where
  "escrow_address_for c artist =
     mk_arr (take 20 (arr_bytes (sha256 c (str_bytes ''escrow:'' @ arr_bytes artist))))"

section \<open>Round trips\<close>

lemma nibble_hex_digit: "n < 16 \<Longrightarrow> nibble (hex_digit n) = Some n"
proof -
  assume "n < 16"
  then have "n \<in> set [0..<16]" by simp
  moreover have "list_all (\<lambda>n. nibble (hex_digit n) = Some n) [0..<16]"
    by code_simp
  ultimately show ?thesis unfolding list_all_iff by blast
qed

lemma hex_byte: "lv < 16 \<Longrightarrow> push_bit 4 hv OR lv = hv * 16 + (lv :: nat)"
proof -
  assume lv: "lv < 16"
  have "push_bit 4 hv + lv = push_bit 4 hv OR lv"
  proof (rule disjunctive_add)
    fix n
    have "bit lv n \<Longrightarrow> n < 4"
    proof (rule ccontr)
      assume b: "bit lv n" and "\<not> n < 4"
      then have "(2 :: nat) ^ 4 \<le> 2 ^ n" by (intro power_increasing) auto
      with lv have "lv div 2 ^ n = 0" by simp
      with b show False by (simp add: bit_iff_odd)
    qed
    then show "\<not> bit (push_bit 4 hv) n \<or> \<not> bit lv n" by (auto simp: bit_push_bit_iff)
  qed
  then show ?thesis by (simp add: push_bit_eq_mult)
qed

lemma from_hex_loop_to_hex: "from_hex_loop (to_hex b) = Some b"
proof (induction b)
  case (Cons w b)
  have w: "unat w < 256" using unsigned_less [of w] by simp
  have "unat w div 16 < 16" and "unat w mod 16 < 16" using w by simp_all
  moreover have "word_of_nat (unat w div 16 * 16 + unat w mod 16) = w" by simp
  ultimately show ?case
    using Cons by (simp add: to_hex_def nibble_hex_digit hex_byte del: of_nat_add of_nat_mult)
qed (simp add: to_hex_def)

lemma length_to_hex [simp]: "length (to_hex b) = 2 * length b"
  by (induction b) (simp_all add: to_hex_def)

lemma from_hex_to_hex [simp]: "from_hex (to_hex b) = b"
  by (simp add: from_hex_def from_hex_loop_to_hex)

lemma to_hex_inject [simp]: "to_hex a = to_hex b \<longleftrightarrow> a = b"
  by (metis from_hex_to_hex)

lemma to_hex_append: "to_hex (a @ b) = to_hex a @ to_hex b"
  by (simp add: to_hex_def)

lemma parse_hash256_to_hex: "parse_hash256 (to_hex (arr_bytes h)) = Some h"
  by (simp add: parse_hash256_def)

lemma parse_address_to_hex:
  "parse_address (to_hex (arr_bytes a)) = Some a"
  "parse_address (''0x'' @ to_hex (arr_bytes a)) = Some a"
  "parse_address (''0X'' @ to_hex (arr_bytes a)) = Some a"
  by (simp_all add: parse_address_def Let_def)

lemma hex_digit_not_colon: "n < 16 \<Longrightarrow> hex_digit n \<noteq> CHR '':''"
proof -
  assume "n < 16"
  then have "n \<in> set [0..<16]" by simp
  moreover have "list_all (\<lambda>n. hex_digit n \<noteq> CHR '':'') [0..<16]" by code_simp
  ultimately show ?thesis unfolding list_all_iff by blast
qed

lemma colon_not_in_to_hex: "CHR '':'' \<notin> set (to_hex b)"
proof
  assume "CHR '':'' \<in> set (to_hex b)"
  then obtain w :: u8 where
    "CHR '':'' = hex_digit (unat w div 16) \<or> CHR '':'' = hex_digit (unat w mod 16)"
    by (auto simp: to_hex_def)
  moreover have "unat w < 256" using unsigned_less [of w] by simp
  then have small: "unat w div 16 < 16" by (intro less_mult_imp_div_less) simp
  ultimately show False
    using hex_digit_not_colon [of "unat w div 16"] hex_digit_not_colon [of "unat w mod 16"]
    by (metis small mod_less_divisor zero_less_numeral)
qed

end
