(* ===== verification/Kv_Store.thy ===== *)
theory Kv_Store
  imports Hash
begin

text \<open>
  The key-value store under \<open>src/bopwire/src/storage/database.cpp\<close>. LevelDB is an ordered
  map from byte strings to byte strings with atomic write batches and iterators: its
  contents are the list of its entries in key order. The locale \<open>kv_store\<close> is the part of
  its contract the program relies on; the lemmas about batches are proved from it once.
  \<open>for_each_with_prefix\<close> is the program's own loop over an iterator.
\<close>

type_synonym kv = "(string \<times> bytes) list"

datatype write_op = Put string bytes | Del string

fun kv_put :: "kv \<Rightarrow> string \<Rightarrow> bytes \<Rightarrow> kv" where
  "kv_put [] k v = [(k, v)]"
| "kv_put ((k', v') # db) k v =
     (if k < k' then (k, v) # (k', v') # db
      else if k = k' then (k, v) # db
      else (k', v') # kv_put db k v)"

definition kv_del :: "kv \<Rightarrow> string \<Rightarrow> kv" where
  "kv_del db k = filter (\<lambda>(k', _). k' \<noteq> k) db"

definition kv_get :: "kv \<Rightarrow> string \<Rightarrow> bytes option" where
  "kv_get db k = map_of db k"

definition kv_ok :: "kv \<Rightarrow> bool" where
  "kv_ok db \<longleftrightarrow> sorted_wrt (<) (map fst db)"

section \<open>The contract and what follows for write batches\<close>

locale kv_store =
  fixes get :: "'db \<Rightarrow> string \<Rightarrow> bytes option"
    and put :: "'db \<Rightarrow> string \<Rightarrow> bytes \<Rightarrow> 'db"
    and del :: "'db \<Rightarrow> string \<Rightarrow> 'db"
    and ok :: "'db \<Rightarrow> bool"
  assumes get_put: "ok db \<Longrightarrow> get (put db k v) k' = (if k' = k then Some v else get db k')"
    and get_del: "ok db \<Longrightarrow> get (del db k) k' = (if k' = k then None else get db k')"
    and ok_put: "ok db \<Longrightarrow> ok (put db k v)"
    and ok_del: "ok db \<Longrightarrow> ok (del db k)"
begin

fun apply_op :: "'db \<Rightarrow> write_op \<Rightarrow> 'db" where
  "apply_op db (Put k v) = put db k v"
| "apply_op db (Del k) = del db k"

definition commit :: "'db \<Rightarrow> write_op list \<Rightarrow> 'db" where
  "commit db ops = foldl apply_op db ops"

lemma commit_Nil [simp]: "commit db [] = db"
  by (simp add: commit_def)

lemma commit_snoc [simp]: "commit db (ops @ [x]) = apply_op (commit db ops) x"
  by (simp add: commit_def)

lemma commit_append: "commit db (xs @ ys) = commit (commit db xs) ys"
  by (simp add: commit_def)

lemma ok_apply_op: "ok db \<Longrightarrow> ok (apply_op db x)"
  by (cases x) (simp_all add: ok_put ok_del)

lemma ok_commit: "ok db \<Longrightarrow> ok (commit db ops)"
  by (induction ops rule: rev_induct) (simp_all add: ok_apply_op)

text \<open>Last write wins: what a batch leaves under a key.\<close>

fun op_key :: "write_op \<Rightarrow> string" where
  "op_key (Put k _) = k"
| "op_key (Del k) = k"

fun op_value :: "write_op \<Rightarrow> bytes option" where
  "op_value (Put _ v) = Some v"
| "op_value (Del _) = None"

lemma get_apply_op:
  "ok db \<Longrightarrow> get (apply_op db x) k = (if k = op_key x then op_value x else get db k)"
  by (cases x) (simp_all add: get_put get_del)

lemma get_commit:
  "ok db \<Longrightarrow> get (commit db ops) k =
     (case List.find (\<lambda>x. op_key x = k) (rev ops) of None \<Rightarrow> get db k | Some x \<Rightarrow> op_value x)"
  by (induction ops rule: rev_induct) (auto simp: get_apply_op ok_commit)

lemma get_commit_other: "ok db \<Longrightarrow> k \<notin> op_key ` set ops \<Longrightarrow> get (commit db ops) k = get db k"
  by (induction ops rule: rev_induct) (auto simp: get_apply_op ok_commit)

end

section \<open>The entry list satisfies the contract\<close>

lemma set_kv_put: "fst ` set (kv_put db k v) = insert k (fst ` set db)"
  by (induction db k v rule: kv_put.induct) auto

lemma kv_ok_put: "kv_ok db \<Longrightarrow> kv_ok (kv_put db k v)"
proof (induction db k v rule: kv_put.induct)
  case (2 k' v' db k v)
  then show ?case
    using set_kv_put [of db k v] by (auto simp: kv_ok_def)
qed (simp add: kv_ok_def)

lemma kv_get_put: "kv_ok db \<Longrightarrow> kv_get (kv_put db k v) k' = (if k' = k then Some v else kv_get db k')"
proof (induction db k v rule: kv_put.induct)
  case (2 j w db k v)
  have "kv_ok db" using "2.prems" by (simp add: kv_ok_def)
  with 2 show ?case by (auto simp: kv_get_def)
qed (simp add: kv_get_def)

lemma kv_get_del: "kv_get (kv_del db k) k' = (if k' = k then None else kv_get db k')"
  by (induction db) (auto simp: kv_get_def kv_del_def)

lemma kv_ok_del: "kv_ok db \<Longrightarrow> kv_ok (kv_del db k)"
  by (auto simp: kv_ok_def kv_del_def sorted_wrt_map intro: sorted_wrt_filter)

interpretation kvs: kv_store kv_get kv_put kv_del kv_ok
  by unfold_locales (auto simp: kv_get_put kv_get_del kv_ok_put kv_ok_del)

text \<open>\<open>Database::write\<close>: the batch is applied in order, atomically.\<close>

fun kv_apply_op :: "kv \<Rightarrow> write_op \<Rightarrow> kv" where
  "kv_apply_op db (Put k v) = kv_put db k v"
| "kv_apply_op db (Del k) = kv_del db k"

definition kv_write :: "kv \<Rightarrow> write_op list \<Rightarrow> kv" where
  "kv_write db ops = foldl kv_apply_op db ops"

lemma kv_apply_op_eq: "kv_apply_op = kvs.apply_op"
proof (intro ext)
  fix db x
  show "kv_apply_op db x = kvs.apply_op db x" by (cases x) simp_all
qed

lemma kv_write_eq: "kv_write = kvs.commit"
  by (intro ext) (simp add: kv_write_def kvs.commit_def kv_apply_op_eq)

lemma kv_write_Nil [simp]: "kv_write db [] = db"
  by (simp add: kv_write_def)

lemma kv_write_snoc [simp]: "kv_write db (ops @ [x]) = kv_apply_op (kv_write db ops) x"
  by (simp add: kv_write_def)

lemma kv_ok_write: "kv_ok db \<Longrightarrow> kv_ok (kv_write db ops)"
  unfolding kv_write_eq by (rule kvs.ok_commit)

lemma kv_ok_Nil [simp]: "kv_ok []"
  by (simp add: kv_ok_def)

lemma kv_get_Nil [simp]: "kv_get [] k = None"
  by (simp add: kv_get_def)

section \<open>Prefix iteration\<close>

definition starts_with :: "string \<Rightarrow> string \<Rightarrow> bool" where
  "starts_with key prefix \<longleftrightarrow> take (length prefix) key = prefix"

lemma starts_with_iff: "starts_with key prefix \<longleftrightarrow> (\<exists>r. key = prefix @ r)"
  by (metis append_eq_conv_conj starts_with_def)

text \<open>
  \<open>for (it->Seek(prefix); it->Valid() && it->key().starts_with(prefix); it->Next())\<close>: the
  entries visited.
\<close>

definition kv_scan :: "kv \<Rightarrow> string \<Rightarrow> kv" where
  "kv_scan db prefix =
     takeWhile (\<lambda>(k, _). starts_with k prefix) (dropWhile (\<lambda>(k, _). k < prefix) db)"

lemma starts_with_ge: "starts_with k p \<Longrightarrow> \<not> k < (p :: string)"
proof (induction p arbitrary: k)
  case (Cons c p)
  then obtain r where "k = c # p @ r" by (auto simp: starts_with_iff)
  with Cons.IH [of "p @ r"] show ?case by (simp add: starts_with_iff)
qed simp

lemma starts_with_between:
  "\<not> k < p \<Longrightarrow> k < k' \<Longrightarrow> starts_with k' p \<Longrightarrow> starts_with k (p :: string)"
proof (induction p arbitrary: k k')
  case Nil
  then show ?case by (simp add: starts_with_def)
next
  case (Cons c p)
  then obtain r where k': "k' = c # p @ r" by (auto simp: starts_with_iff)
  with Cons.prems obtain d l where k: "k = d # l" by (cases k) auto
  with Cons.prems k' have "d = c" by auto
  with Cons k k' have "starts_with l p" by (auto simp: starts_with_iff)
  with k \<open>d = c\<close> show ?case by (auto simp: starts_with_iff)
qed

lemma takeWhile_eq_filter: "list_all P xs \<Longrightarrow> takeWhile P xs = filter P xs"
  by (induction xs) auto

text \<open>On ordered entries the loop visits every entry with the prefix, and no other.\<close>

lemma takeWhile_prefix_filter:
  "kv_ok db \<Longrightarrow> list_all (\<lambda>(k, _). \<not> k < p) db \<Longrightarrow>
   takeWhile (\<lambda>(k, _). starts_with k p) db = filter (\<lambda>(k, _). starts_with k p) db"
proof (induction db)
  case (Cons e db)
  obtain k v where e: "e = (k, v)" by (cases e)
  show ?case
  proof (cases "starts_with k p")
    case True
    with Cons e show ?thesis by (simp add: kv_ok_def)
  next
    case False
    have "\<not> starts_with k' p" if "(k', v') \<in> set db" for k' v'
    proof -
      have "k < k'" using Cons.prems(1) e that by (force simp: kv_ok_def)
      with False Cons.prems(2) e starts_with_between show ?thesis by fastforce
    qed
    then have "filter (\<lambda>(k, _). starts_with k p) db = []" by (auto simp: filter_empty_conv)
    with False e show ?thesis by simp
  qed
qed simp

lemma kv_scan_eq_filter:
  "kv_ok db \<Longrightarrow> kv_scan db p = filter (\<lambda>(k, _). starts_with k p) db"
proof (induction db)
  case (Cons e db)
  obtain k v where e: "e = (k, v)" by (cases e)
  have ok: "kv_ok db" using Cons.prems e by (simp add: kv_ok_def)
  show ?case
  proof (cases "k < p")
    case True
    with starts_with_ge have "\<not> starts_with k p" by blast
    with True Cons.IH [OF ok] e show ?thesis by (simp add: kv_scan_def)
  next
    case False
    have "list_all (\<lambda>(k, _). \<not> k < p) (e # db)"
      using Cons.prems e False by (force simp: kv_ok_def list_all_iff)
    with False e takeWhile_prefix_filter [OF Cons.prems, of p] show ?thesis
      by (simp add: kv_scan_def)
  qed
qed (simp add: kv_scan_def)

end
