(* ===== verification/Accumulator.thy ===== *)
theory Accumulator
  imports Kv_Store
begin

text \<open>
  \<open>storage/state_prefixes.h\<close> and \<open>storage/accumulator.cpp\<close>: which keys belong to the
  committed state, and the additive lattice hash over them. Lane vectors form a commutative
  group, so the accumulator of a set of entries is the sum of their leaves. The main lemma is
  that the accumulator fed write by write inside a block equals a scan of the store the
  block's batch leaves behind.
\<close>

section \<open>The committed state\<close>

definition kStatePrefixes :: "string list" where
  "kStatePrefixes = [
    ''a:'', ''s:'', ''f:'', ''i:'', ''u:'', ''us:'', ''va:'', ''v:'', ''bh:'',
    ''nv:'', ''sm:'', ''ia:'', ''ig:'',
    ''founder:'', ''mlvl:'', ''mpub:'', ''mact:'', ''slashed:'',
    ''un:'', ''addrun:'',
    ''prop:'', ''propstatus:'', ''propvote:'',
    ''label:'', ''art_label:'',
    ''rv:'', ''ra:'', ''rc:'', ''rt:'', ''rh:'']"

definition supply_key :: string where
  "supply_key = ''c:total_supply''"

definition has_state_prefix :: "string \<Rightarrow> bool" where
  "has_state_prefix key \<longleftrightarrow>
     key = supply_key \<or> list_ex (\<lambda>p. starts_with key p) kStatePrefixes"

section \<open>Lane vectors\<close>

typedef lanes = "{xs :: u16 list. length xs = 1024}"
  morphisms lane_list Abs_lanes
  by (rule exI [of _ "replicate 1024 0"]) simp

lemma lanes_abstype [code abstype]: "Abs_lanes (lane_list a) = a"
  by (rule lane_list_inverse)

lemma length_lane_list [simp]: "length (lane_list a) = 1024"
  using lane_list [of a] by simp

lemma lanes_eq_iff: "a = b \<longleftrightarrow> lane_list a = lane_list b"
  by (simp add: lane_list_inject)

definition mk_lanes :: "u16 list \<Rightarrow> lanes" where
  "mk_lanes xs = Abs_lanes (take 1024 (xs @ replicate 1024 0))"

lemma lane_list_mk_lanes_take [code abstract]:
  "lane_list (mk_lanes xs) = take 1024 (xs @ replicate 1024 0)"
  by (simp add: mk_lanes_def Abs_lanes_inverse)

lemma lane_list_mk_lanes [simp]: "length xs = 1024 \<Longrightarrow> lane_list (mk_lanes xs) = xs"
  by (simp add: lane_list_mk_lanes_take)

instantiation lanes :: ab_group_add
begin

definition zero_lanes_def: "0 = mk_lanes []"
definition plus_lanes_def: "a + b = mk_lanes (map2 (+) (lane_list a) (lane_list b))"
definition minus_lanes_def: "a - b = mk_lanes (map2 (-) (lane_list a) (lane_list b))"
definition uminus_lanes_def: "- a = mk_lanes (map uminus (lane_list a))"

instance
proof
  fix a b c :: lanes
  show "a + b + c = a + (b + c)"
    by (simp add: lanes_eq_iff plus_lanes_def list_eq_iff_nth_eq algebra_simps)
  show "a + b = b + a"
    by (simp add: lanes_eq_iff plus_lanes_def list_eq_iff_nth_eq algebra_simps)
  show "0 + a = a"
    by (simp add: lanes_eq_iff plus_lanes_def zero_lanes_def list_eq_iff_nth_eq
        lane_list_mk_lanes_take)
  show "- a + a = 0"
    by (simp add: lanes_eq_iff plus_lanes_def zero_lanes_def uminus_lanes_def list_eq_iff_nth_eq
        lane_list_mk_lanes_take)
  show "a - b = a + - b"
    by (simp add: lanes_eq_iff plus_lanes_def minus_lanes_def uminus_lanes_def
        list_eq_iff_nth_eq)
qed

end

instantiation lanes :: equal
begin

definition equal_lanes_def: "HOL.equal a b = (lane_list a = lane_list b)"

instance
  by standard (simp add: equal_lanes_def lanes_eq_iff)

end

lemma lane_list_plus [code abstract]: "lane_list (a + b) = map2 (+) (lane_list a) (lane_list b)"
  by (simp add: plus_lanes_def)

lemma lane_list_minus [code abstract]: "lane_list (a - b) = map2 (-) (lane_list a) (lane_list b)"
  by (simp add: minus_lanes_def)

lemma lane_list_uminus [code abstract]: "lane_list (- a) = map uminus (lane_list a)"
  by (simp add: uminus_lanes_def)

section \<open>Leaves and the accumulator\<close>

definition leaf_preimage :: "string \<Rightarrow> bytes \<Rightarrow> bytes" where
  "leaf_preimage k v =
     write_u32le (word_of_nat (length k)) @ str_bytes k @
     write_u32le (word_of_nat (length v)) @ v"

definition expand_block :: "hash256 \<Rightarrow> u16 list" where
  "expand_block h = map (\<lambda>j. ucast (arr_bytes h ! (2 * j)) OR
     push_bit 8 (ucast (arr_bytes h ! (2 * j + 1)))) [0..<16]"

definition leaf :: "crypto \<Rightarrow> string \<Rightarrow> bytes \<Rightarrow> lanes" where
  "leaf c k v =
     (let seed = sha256 c (leaf_preimage k v) in
      mk_lanes (concat (map (\<lambda>i. expand_block
        (sha256 c (arr_bytes seed @ write_u32le (word_of_nat i)))) [0..<64])))"

record StateAccumulator =
  ac_vec :: lanes
  ac_overlay :: "string \<Rightarrow> bytes option option"

definition copy_from :: "lanes \<Rightarrow> StateAccumulator" where
  "copy_from committed = \<lparr>ac_vec = committed, ac_overlay = Map.empty\<rparr>"

definition old_value :: "kv \<Rightarrow> StateAccumulator \<Rightarrow> string \<Rightarrow> bytes option" where
  "old_value db a k = (case ac_overlay a k of Some old \<Rightarrow> old | None \<Rightarrow> kv_get db k)"

definition on_put :: "crypto \<Rightarrow> kv \<Rightarrow> string \<Rightarrow> bytes \<Rightarrow> StateAccumulator \<Rightarrow> StateAccumulator" where
  "on_put c db k v a =
     (let old = old_value db a k;
          vec = ac_vec a + leaf c k v;
          vec = (case old of Some o' \<Rightarrow> vec - leaf c k o' | None \<Rightarrow> vec)
      in \<lparr>ac_vec = vec, ac_overlay = (ac_overlay a)(k \<mapsto> Some v)\<rparr>)"

definition on_del :: "crypto \<Rightarrow> kv \<Rightarrow> string \<Rightarrow> StateAccumulator \<Rightarrow> StateAccumulator" where
  "on_del c db k a =
     (let old = old_value db a k;
          vec = (case old of Some o' \<Rightarrow> ac_vec a - leaf c k o' | None \<Rightarrow> ac_vec a)
      in \<lparr>ac_vec = vec, ac_overlay = (ac_overlay a)(k \<mapsto> None)\<rparr>)"

definition serialize_vec :: "lanes \<Rightarrow> bytes" where
  "serialize_vec v = concat (map (\<lambda>w. [ucast (w AND 0xFF), ucast (drop_bit 8 w AND 0xFF)])
     (lane_list v))"

definition deserialize_vec :: "bytes \<Rightarrow> lanes" where
  "deserialize_vec b =
     (if 2048 \<le> length b
      then mk_lanes (map (\<lambda>i. ucast (b ! (2 * i)) OR push_bit 8 (ucast (b ! (2 * i + 1)))) [0..<1024])
      else 0)"

definition state_root :: "crypto \<Rightarrow> lanes \<Rightarrow> hash256" where
  "state_root c v = sha256 c (serialize_vec v)"

text \<open>
  \<open>Database::scan_state_accumulator\<close>: one iterator per prefix, then the supply key.
\<close>

definition scan_state_accumulator :: "crypto \<Rightarrow> kv \<Rightarrow> lanes" where
  "scan_state_accumulator c db =
     (let vec = foldl (\<lambda>vec p. foldl (\<lambda>vec (k, v). vec + leaf c k v) vec (kv_scan db p))
                  0 kStatePrefixes
      in case kv_get db supply_key of Some v \<Rightarrow> vec + leaf c supply_key v | None \<Rightarrow> vec)"

section \<open>The scan is the sum over the committed state\<close>

definition state_sum :: "crypto \<Rightarrow> kv \<Rightarrow> lanes" where
  "state_sum c db =
     sum_list (map (\<lambda>(k, v). leaf c k v) (filter (\<lambda>(k, _). has_state_prefix k) db))"

lemma foldl_lanes: "foldl (\<lambda>acc (k, v). acc + leaf c k v) a xs = a + sum_list (map (\<lambda>(k, v). leaf c k v) xs)"
  by (induction xs arbitrary: a) (auto simp: algebra_simps)

text \<open>
  Every prefix ends at its only colon, so a key has at most one of them; the supply key has
  none.
\<close>

definition key_class :: "string \<Rightarrow> string option" where
  "key_class k = (if CHR '':'' \<in> set k
     then Some (takeWhile (\<lambda>ch. ch \<noteq> CHR '':'') k @ [CHR '':'']) else None)"

lemma key_class_append: "CHR '':'' \<notin> set q \<Longrightarrow> key_class (q @ CHR '':'' # r) = Some (q @ [CHR '':''])"
  by (simp add: key_class_def takeWhile_append)

lemma starts_with_key_class:
  assumes "CHR '':'' \<notin> set q"
  shows "starts_with k (q @ [CHR '':'']) \<longleftrightarrow> key_class k = Some (q @ [CHR '':''])"
proof
  assume "starts_with k (q @ [CHR '':''])"
  then show "key_class k = Some (q @ [CHR '':''])"
    using assms by (auto simp: starts_with_iff key_class_append)
next
  assume k: "key_class k = Some (q @ [CHR '':''])"
  then have col: "CHR '':'' \<in> set k" and q: "takeWhile (\<lambda>ch. ch \<noteq> CHR '':'') k = q"
    by (auto simp: key_class_def split: if_splits)
  from col obtain l r where lr: "k = l @ CHR '':'' # r" "CHR '':'' \<notin> set l"
    by (meson split_list_first)
  with q have "q = l" by (auto simp: takeWhile_append)
  with lr show "starts_with k (q @ [CHR '':''])" by (simp add: starts_with_iff)
qed

definition colon_terminated :: "string \<Rightarrow> bool" where
  "colon_terminated p \<longleftrightarrow> p \<noteq> [] \<and> last p = CHR '':'' \<and> CHR '':'' \<notin> set (butlast p)"

lemma starts_with_colon_terminated:
  "colon_terminated p \<Longrightarrow> starts_with k p \<longleftrightarrow> key_class k = Some p"
  using starts_with_key_class [of "butlast p" k] by (simp add: colon_terminated_def) (metis append_butlast_last_id)

lemma kStatePrefixes_colon: "list_all colon_terminated kStatePrefixes"
  by code_simp

lemma distinct_kStatePrefixes: "distinct kStatePrefixes"
  by code_simp

lemma starts_with_state_prefix:
  "p \<in> set kStatePrefixes \<Longrightarrow> starts_with k p \<longleftrightarrow> key_class k = Some p"
  using kStatePrefixes_colon by (simp add: list_all_iff starts_with_colon_terminated)

lemma supply_key_class: "key_class supply_key = Some ''c:''"
  by code_simp

lemma supply_class_not_prefix: "''c:'' \<notin> set kStatePrefixes"
  by code_simp

lemma has_state_prefix_class:
  "has_state_prefix k \<longleftrightarrow> k = supply_key \<or> (\<exists>p \<in> set kStatePrefixes. key_class k = Some p)"
  by (auto simp: has_state_prefix_def list_ex_iff starts_with_state_prefix)

lemma has_state_prefix_by_class:
  "key_class k = Some p \<Longrightarrow> p \<in> set kStatePrefixes \<Longrightarrow> has_state_prefix k"
  by (auto simp: has_state_prefix_class)

lemma not_state_prefix_by_class:
  "key_class k = Some p \<Longrightarrow> p \<notin> set kStatePrefixes \<Longrightarrow> p \<noteq> ''c:'' \<Longrightarrow> \<not> has_state_prefix k"
  by (auto simp: has_state_prefix_class supply_key_class)

lemma foldl_group_add: "foldl (\<lambda>a x. a + f x) (z :: lanes) xs = z + sum_list (map f xs)"
  by (induction xs arbitrary: z) (simp_all add: algebra_simps)

lemma sum_list_classes:
  "distinct ps \<Longrightarrow>
   sum_list (map (\<lambda>p. sum_list (map f (filter (\<lambda>(k, _). cl k = Some p) db))) ps) =
   (sum_list (map f (filter (\<lambda>(k, _). \<exists>p \<in> set ps. cl k = Some p) db)) :: lanes)"
proof (induction ps)
  case (Cons p ps)
  have "sum_list (map f (filter (\<lambda>(k, _). \<exists>q \<in> set (p # ps). cl k = Some q) db)) =
    sum_list (map f (filter (\<lambda>(k, _). cl k = Some p) db)) +
    sum_list (map f (filter (\<lambda>(k, _). \<exists>q \<in> set ps. cl k = Some q) db))"
    using Cons.prems by (induction db) (auto simp: algebra_simps)
  with Cons show ?case by simp
qed (simp add: filter_empty_conv)

lemma sum_list_key:
  "kv_ok db \<Longrightarrow> sum_list (map (\<lambda>(k, v). f k v) (filter (\<lambda>(k, _). k = k0) db)) =
     (case kv_get db k0 of Some v \<Rightarrow> f k0 v | None \<Rightarrow> (0 :: lanes))"
proof (induction db)
  case (Cons e db)
  obtain k v where e: "e = (k, v)" by (cases e)
  have ok: "kv_ok db" using Cons.prems e by (simp add: kv_ok_def)
  show ?case
  proof (cases "k = k0")
    case True
    have "filter (\<lambda>(k, _). k = k0) db = []"
      using Cons.prems e True by (force simp: kv_ok_def filter_empty_conv)
    with True e show ?thesis by (simp add: kv_get_def)
  next
    case False
    with Cons.IH [OF ok] e show ?thesis by (simp add: kv_get_def)
  qed
qed (simp add: kv_get_def)

lemma scan_eq_state_sum:
  assumes "kv_ok db"
  shows "scan_state_accumulator c db = state_sum c db"
proof -
  let ?f = "\<lambda>(k, v). leaf c k v"
  have scan: "kv_scan db p = filter (\<lambda>(k, _). key_class k = Some p) db" if "p \<in> set kStatePrefixes" for p
    using that by (simp add: kv_scan_eq_filter [OF assms] starts_with_state_prefix)
  have inner: "foldl (\<lambda>vec (k, v). vec + leaf c k v) z xs = z + sum_list (map ?f xs)" for z xs
    by (rule foldl_lanes)
  have "foldl (\<lambda>vec p. foldl (\<lambda>vec (k, v). vec + leaf c k v) vec (kv_scan db p)) 0 kStatePrefixes =
      sum_list (map (\<lambda>p. sum_list (map ?f (kv_scan db p))) kStatePrefixes)"
    by (simp only: inner foldl_group_add add_0)
  also have "\<dots> = sum_list (map (\<lambda>p. sum_list (map ?f (filter (\<lambda>(k, _). key_class k = Some p) db))) kStatePrefixes)"
    by (intro arg_cong [of _ _ sum_list] map_cong refl) (simp add: scan)
  also have "\<dots> = sum_list (map ?f (filter (\<lambda>(k, _). \<exists>p \<in> set kStatePrefixes. key_class k = Some p) db))"
    by (rule sum_list_classes [OF distinct_kStatePrefixes])
  finally have prefixes: "foldl (\<lambda>vec p. foldl (\<lambda>vec (k, v). vec + leaf c k v) vec (kv_scan db p)) 0 kStatePrefixes = \<dots>" .
  have "sum_list (map ?f (filter (\<lambda>(k, _). has_state_prefix k) xs)) =
      sum_list (map ?f (filter (\<lambda>(k, _). \<exists>p \<in> set kStatePrefixes. key_class k = Some p) xs)) +
      sum_list (map ?f (filter (\<lambda>(k, _). k = supply_key) xs))" for xs
    using supply_class_not_prefix
    by (induction xs) (auto simp: has_state_prefix_class supply_key_class algebra_simps)
  then show ?thesis
    unfolding scan_state_accumulator_def Let_def prefixes state_sum_def
    by (simp add: sum_list_key [OF assms, of "leaf c" supply_key] split: option.splits)
qed

section \<open>The incremental accumulator\<close>

definition leaf_of :: "crypto \<Rightarrow> string \<Rightarrow> bytes option \<Rightarrow> lanes" where
  "leaf_of c k v = (case v of Some w \<Rightarrow> leaf c k w | None \<Rightarrow> 0)"

lemma leaf_of_simps [simp]: "leaf_of c k None = 0" "leaf_of c k (Some w) = leaf c k w"
  by (simp_all add: leaf_of_def)

lemma state_sum_Cons:
  "state_sum c ((k, v) # db) = (if has_state_prefix k then leaf c k v else 0) + state_sum c db"
  by (simp add: state_sum_def)

lemma kv_get_less: "kv_ok ((k', v') # db) \<Longrightarrow> k < k' \<Longrightarrow> kv_get ((k', v') # db) k = None"
  by (force simp: kv_get_def kv_ok_def map_of_eq_None_iff)

lemma state_sum_put:
  "kv_ok db \<Longrightarrow> state_sum c (kv_put db k v) =
     (if has_state_prefix k then state_sum c db + leaf c k v - leaf_of c k (kv_get db k)
      else state_sum c db)"
proof (induction db k v rule: kv_put.induct)
  case (1 k v)
  then show ?case by (simp add: state_sum_def)
next
  case (2 k' v' db k v)
  have ok: "kv_ok db" using "2.prems" by (simp add: kv_ok_def)
  consider "k < k'" | "k = k'" | "k' < k" by (rule linorder_cases)
  then show ?case
  proof cases
    case 1
    with kv_get_less [OF "2.prems" 1] show ?thesis by (simp add: state_sum_Cons)
  next
    case 2
    then show ?thesis by (simp add: state_sum_Cons kv_get_def)
  next
    case 3
    then have "\<not> k < k'" "k \<noteq> k'" by auto
    with "2.IH" [OF this ok] show ?thesis by (simp add: state_sum_Cons kv_get_def)
  qed
qed

lemma state_sum_del:
  "kv_ok db \<Longrightarrow> state_sum c (kv_del db k) =
     (if has_state_prefix k then state_sum c db - leaf_of c k (kv_get db k) else state_sum c db)"
proof (induction db)
  case Nil
  then show ?case by (simp add: kv_del_def)
next
  case (Cons e db)
  obtain k' v' where e: "e = (k', v')" by (cases e)
  have ok: "kv_ok db" using Cons.prems e by (simp add: kv_ok_def)
  show ?case
  proof (cases "k' = k")
    case True
    have "kv_get db k = None"
      using Cons.prems e True by (force simp: kv_ok_def kv_get_def map_of_eq_None_iff)
    moreover have "kv_del (e # db) k = kv_del db k" using e True by (simp add: kv_del_def)
    ultimately show ?thesis using Cons.IH [OF ok] e True by (simp add: state_sum_Cons kv_get_def)
  next
    case False
    then have "kv_del (e # db) k = e # kv_del db k" using e by (simp add: kv_del_def)
    with Cons.IH [OF ok] e False show ?thesis by (simp add: state_sum_Cons kv_get_def)
  qed
qed

text \<open>
  What the accumulator must know while a batch is being collected: its vector is the sum
  over the store the batch would leave, and its overlay knows what that store holds under
  every state key written so far.
\<close>

definition acc_tracks :: "crypto \<Rightarrow> kv \<Rightarrow> write_op list \<Rightarrow> StateAccumulator \<Rightarrow> bool" where
  "acc_tracks c db ops a \<longleftrightarrow>
     ac_vec a = state_sum c (kv_write db ops) \<and>
     (\<forall>k. has_state_prefix k \<longrightarrow> old_value db a k = kv_get (kv_write db ops) k)"

lemma acc_tracks_start: "acc_tracks c db [] (copy_from (state_sum c db))"
  by (simp add: acc_tracks_def copy_from_def old_value_def)

lemma acc_tracks_put:
  assumes "acc_tracks c db ops a" and "kv_ok db"
  shows "acc_tracks c db (ops @ [Put k v]) (if has_state_prefix k then on_put c db k v a else a)"
  using assms(1) kv_ok_write [OF assms(2), of ops]
  by (auto simp: acc_tracks_def on_put_def old_value_def state_sum_put kv_get_put Let_def
      split: option.splits)

lemma acc_tracks_del:
  assumes "acc_tracks c db ops a" and "kv_ok db"
  shows "acc_tracks c db (ops @ [Del k]) (if has_state_prefix k then on_del c db k a else a)"
  using assms(1) kv_ok_write [OF assms(2), of ops]
  by (auto simp: acc_tracks_def on_del_def old_value_def state_sum_del kv_get_del Let_def
      split: option.splits)

section \<open>Serialization of the vector\<close>

lemma nth_concat_pairs:
  "i < length xs \<Longrightarrow> concat (map (\<lambda>w. [f w, g w]) xs) ! (2 * i) = f (xs ! i)"
  "i < length xs \<Longrightarrow> concat (map (\<lambda>w. [f w, g w]) xs) ! (2 * i + 1) = g (xs ! i)"
  by (induction xs arbitrary: i) (auto simp: nth_Cons split: nat.splits)

lemma length_concat_pairs: "length (concat (map (\<lambda>w. [f w, g w]) xs)) = 2 * length xs"
  by (induction xs) simp_all

lemma u16_split: "ucast (ucast (w AND 0xFF) :: u8) OR push_bit 8 (ucast (ucast (drop_bit 8 w AND 0xFF) :: u8)) = (w :: u16)"
  using u16.dec_enc [of w "[]"] by (simp add: read_u16le_def write_u16le_def)

lemma deserialize_serialize_vec: "deserialize_vec (serialize_vec v) = v"
proof -
  have "map (\<lambda>i. ucast (serialize_vec v ! (2 * i)) OR
      push_bit 8 (ucast (serialize_vec v ! (2 * i + 1)))) [0..<1024] = lane_list v"
    by (rule nth_equalityI) (simp_all add: serialize_vec_def nth_concat_pairs [simplified] u16_split)
  then show ?thesis
    by (simp add: deserialize_vec_def lanes_eq_iff)
      (simp add: serialize_vec_def length_concat_pairs)
qed

lemma serialize_vec_inject [simp]: "serialize_vec a = serialize_vec b \<longleftrightarrow> a = b"
  by (metis deserialize_serialize_vec)

end
