(* ===== verification/Wire_Properties.thy ===== *)
theory Wire_Properties
  imports Samples Tx_Rating Accumulator
begin

text \<open>
  Properties of the byte formats: \<open>core/transaction.cpp\<close>, \<open>core/block.cpp\<close> and the
  serialized accumulator of \<open>storage/accumulator.cpp\<close>. They collect what the format
  interpretations of the component theories give, over the definitions of the model.
\<close>

section \<open>Transactions\<close>

text \<open>C35. Every transaction type reads back what it writes, for all values whose
  variable-length fields fit their length prefix; any bytes after the transaction are ignored
  by the readers of these ten types.\<close>

theorem transactions_round_trip:
  assumes "MintTx_ok mint" and "length (mop_meta_json op) \<le> 4096" and "ProposalTx_ok motion"
    and "UsernameTx_ok name" and "length (sl_evidence slash) \<le> MAX_BLOCK_SIZE"
  shows "TransferTx_deserialize (TransferTx_serialize transfer @ junk) = Some transfer \<and>
    MintTx_deserialize (MintTx_serialize mint @ junk) = Some mint \<and>
    ModeratorOpTx_deserialize (ModeratorOpTx_serialize op @ junk) = Some op \<and>
    ProposalTx_deserialize (ProposalTx_serialize motion @ junk) = Some motion \<and>
    UsernameTx_deserialize (UsernameTx_serialize name @ junk) = Some name \<and>
    RelayRewardTx_deserialize (RelayRewardTx_serialize relay @ junk) = Some relay \<and>
    NodeAuthTx_deserialize (NodeAuthTx_serialize auth @ junk) = Some auth \<and>
    CheckpointTx_deserialize (CheckpointTx_serialize cp @ junk) = Some cp \<and>
    SettlementMintTx_deserialize (SettlementMintTx_serialize settle @ junk) = Some settle \<and>
    SlashTx_deserialize (SlashTx_serialize slash @ junk) = Some slash"
  using assms
  by (auto intro: transfer.deser_ser mint.deser_ser moderator_op.deser_ser proposal.deser_ser
      username.deser_ser relay_reward.deser_ser node_auth.deser_ser checkpoint.deser_ser
      settlement.deser_ser slash.deser_ser)
theorem transactions_round_trip_witness:
  "MintTx_deserialize (MintTx_serialize \<lparr>mt_proof = sample_play,
       mt_outputs = [\<lparr>mo_recipient = mk_arr [4], mo_amount = 7\<rparr>], mt_burn_amount = 1\<rparr> @ [0xFF]) =
     Some \<lparr>mt_proof = sample_play, mt_outputs = [\<lparr>mo_recipient = mk_arr [4], mo_amount = 7\<rparr>],
           mt_burn_amount = 1\<rparr> \<and>
   UsernameTx_deserialize (UsernameTx_serialize \<lparr>un_name = ''alice'', un_owner = mk_arr [1],
       un_owner_pubkey = mk_arr [1], un_nonce = 0, un_signature = 0\<rparr> @ [0xFF]) =
     Some \<lparr>un_name = ''alice'', un_owner = mk_arr [1], un_owner_pubkey = mk_arr [1],
           un_nonce = 0, un_signature = 0\<rparr>"
proof -
  let ?mint = "\<lparr>mt_proof = sample_play,
    mt_outputs = [\<lparr>mo_recipient = mk_arr [4], mo_amount = 7\<rparr>], mt_burn_amount = 1\<rparr>"
  let ?op = "\<lparr>mop_op_code = 1, mop_level = 2, mop_subject = 0, mop_subject_pubkey = 0,
    mop_proposer = 0, mop_proposer_pubkey = 0, mop_nonce = 0, mop_meta_json = [],
    mop_signature = 0\<rparr>"
  let ?motion = "\<lparr>prop_kind = 1, prop_target_hash = 0, prop_target_addr = 0, prop_amount = 0,
    prop_proposer = 0, prop_proposer_pubkey = 0, prop_nonce = 0, prop_subject_pubkey = 0,
    prop_signature = 0\<rparr>"
  let ?name = "\<lparr>un_name = ''alice'', un_owner = mk_arr [1], un_owner_pubkey = mk_arr [1],
    un_nonce = 0, un_signature = 0\<rparr>"
  let ?slash = "\<lparr>sl_kind = 1, sl_target_address = 0, sl_target_pubkey = 0, sl_evidence = [],
    sl_nonce = 0, sl_reporter_address = 0, sl_reporter_pubkey = 0, sl_signature = 0\<rparr>"
  show ?thesis
    using transactions_round_trip [of ?mint ?op ?motion ?name ?slash _ "[0xFF]"]
    by (simp add: MintTx_ok_def ProposalTx_ok_def UsernameTx_ok_def sample_play_normal
        MAX_BLOCK_SIZE_def)
qed

text \<open>\<open>RatingTx\<close> alone is canonical: exactly the bytes it writes are accepted, so a
  rating has one encoding and one hash.\<close>

theorem rating_wire_canonical:
  "RatingTx_deserialize p = Some t \<longleftrightarrow> p = RatingTx_serialize t"
  by (rule rating.deser_iff)

text \<open>Whatever bytes a play proof was read from, its fields are those of one of the three
  layouts, and writing it and reading it back gives the same proof: reading is a retraction
  onto the normal form.\<close>

theorem play_proof_normal_form:
  assumes "PlayProof_deserialize p = Some q"
  shows "PlayProof_normal q \<and> PlayProof_deserialize (PlayProof_serialize q) = Some q"
  using PlayProof_deserialize_normal [OF assms] by (simp add: PlayProof_roundtrip)

theorem play_proof_normal_form_witness:
  "PlayProof_deserialize (PlayProof_serialize sample_play) = Some sample_play \<and>
   PlayProof_normal sample_play"
  using play_proof_normal_form [OF PlayProof_roundtrip [OF sample_play_normal]] by simp

text \<open>A settlement body of normal proofs, no more of them than the reader's bound, reads
  back as the same list of proofs, whatever bytes follow it.\<close>

theorem settle_body_round_trip:
  assumes "list_all PlayProof_normal ps" and "length ps \<le> MAX_SETTLE_BODY_PROOFS"
  shows "deserialize_settle_body (serialize_settle_body ps @ junk) = Some ps"
  using assms by (rule deserialize_serialize_settle_body)

theorem settle_body_round_trip_witness:
  "deserialize_settle_body (serialize_settle_body [sample_play, sample_play] @ [1]) =
   Some [sample_play, sample_play]"
  by (rule settle_body_round_trip) (simp_all add: sample_play_normal MAX_SETTLE_BODY_PROOFS_def)

text \<open>The signed messages of a relay reward and of a transfer are not kept apart: for every
  relay reward there is a transfer, with the same signature, whose signed bytes are the same.\<close>

theorem relay_message_is_a_transfer_message:
  "TransferTx_sign_message (relay_message_as_transfer r) = RelayRewardTx_sign_message r \<and>
   tr_signature (relay_message_as_transfer r) = rr_signature r"
  by (simp add: relay_message_as_transfer_same) (simp add: relay_message_as_transfer_def Let_def)

section \<open>Blocks\<close>

text \<open>C36. A block that passes its own validation reads back from its bytes, whatever follows
  them; and every block read from bytes writes bytes that read back as that block.\<close>

theorem block_round_trip:
  assumes "Block_validate c b \<or> Block_deserialize p = Some b"
  shows "Block_deserialize (Block_serialize b @ junk) = Some b"
  using assms Block_validate_ok Block_deserialize_ok by (blast intro: Block_roundtrip)

theorem block_round_trip_witness:
  "Block_deserialize (Block_serialize (sample_block [[1], [2, 3]]) @ [9]) =
   Some (sample_block [[1], [2, 3]])"
  by (rule block_round_trip [where c = toy_crypto])
    (simp add: sample_block_valid write_raw_tx_def length_simps)

text \<open>C37. The hash of the header binds the block: two valid blocks of one shape with one hash are
  the same block, unless SHA-256 collides on the byte strings hashed for them. The shape (the
  number of transactions, the presence of a song) is a hypothesis because it is not hashed.\<close>

theorem block_hash_binds_block:
  assumes "Block_validate c b" and "Block_validate c b'" and "Block_hash c b = Block_hash c b'"
    and "inj_on (sha256 c) (set (block_preimages c b) \<union> set (block_preimages c b'))"
    and "Block_has_song b = Block_has_song b'"
    and "length (blk_transactions b) = length (blk_transactions b')"
  shows "b = b'"
  using assms by (rule Block_hash_inj)

text \<open>A hash that keeps apart what is hashed for three blocks of one shape, with a song and two
  transactions: one has the transactions in the other order, one another song.\<close>

definition spread :: "bytes \<Rightarrow> bytes" where
  "spread b = take 32 ((if length b = 64 then take 8 b @ take 8 (drop 32 b) @ [64]
     else if length b = 204 then take 12 (drop 36 b) @ take 12 (drop 172 b) @ [204] else take 31 b) @ replicate 32 0)"

definition spread_crypto :: crypto where
  "spread_crypto = toy_crypto\<lparr>sha256 := (\<lambda>b. mk_arr (spread b))\<rparr>"

definition shaped_song :: "u8 \<Rightarrow> SongSection" where
  "shaped_song format = \<lparr>song_audio_format = format, song_content_hash = mk_arr [7],
     song_compressed_fingerprint = ''f'', song_duration_ms = 30000, song_title = ''t'',
     song_artist = ''a'', song_artist_address = mk_arr [4], song_genre = ''g'', song_album = ''b'',
     song_year = 2024, song_track_number = 1, song_royalty_splits = []\<rparr>"

definition shaped_block :: "bytes list \<Rightarrow> u8 \<Rightarrow> Block" where
  "shaped_block txs format =
     \<lparr>blk_header = \<lparr>hd_version = 4, hd_prev_hash = 0,
        hd_merkle_root = Block_compute_merkle_root spread_crypto txs,
        hd_fingerprint_hash = sha256 spread_crypto (str_bytes ''f''),
        hd_content_hash = mk_arr [7], hd_timestamp_ms = 0, hd_state_root = 0,
        hd_song_body_hash = sha256 spread_crypto (write_song_body (shaped_song format))\<rparr>,
      blk_song = Some (shaped_song format), blk_transactions = txs\<rparr>"

lemma shaped_valid:
  "length txs \<le> 3 \<Longrightarrow> length (concat (map write_raw_tx txs)) \<le> 1000 \<Longrightarrow> Block_validate spread_crypto (shaped_block txs f)"
  by (simp add: Block_validate_iff shaped_block_def BLOCK_VERSION_def MAX_TXS_PER_BLOCK_def Block_compute_song_body_hash_def
      shaped_song_def song_fields_ok_def)
   (simp add: Block_serialize_def BlockHeader_serialize_def length_simps write_song_body_def write_string16_def SEPARATOR_LENGTH_def MAX_BLOCK_SIZE_def)

lemma spread_apart:
  "inj_on (sha256 spread_crypto) (set (block_preimages spread_crypto (shaped_block [[1], [2]] 0) @
     block_preimages spread_crypto (shaped_block [[2], [1]] 0) @
     block_preimages spread_crypto (shaped_block [[1], [2]] 1)))"
proof -
  have inj: "inj_on f (set xs)" if "distinct (map (\<lambda>x. arr_bytes (f x :: hash256)) (remdups xs))" for f and xs :: "bytes list"
    using that by (fastforce simp: distinct_map inj_on_def)
  show ?thesis by (rule inj) code_simp
qed

theorem block_hash_binds_block_witness:
  "Block_hash spread_crypto (shaped_block [[1], [2]] 0) \<noteq> Block_hash spread_crypto (shaped_block [[2], [1]] 0) \<and>
   Block_hash spread_crypto (shaped_block [[1], [2]] 0) \<noteq> Block_hash spread_crypto (shaped_block [[1], [2]] 1)"
proof -
  have valid: "Block_validate spread_crypto (shaped_block [[x], [y]] f)" for x y f
    by (rule shaped_valid) (simp_all add: write_raw_tx_def length_simps)
  have shape: "Block_has_song (shaped_block txs f)" "length (blk_transactions (shaped_block txs f)) = length txs" for txs f
    by (simp_all add: shaped_block_def Block_has_song_def)
  have differ: "shaped_block [[1], [2]] 0 \<noteq> shaped_block [[2], [1]] 0" "shaped_block [[1], [2]] 0 \<noteq> shaped_block [[1], [2]] 1"
    by (simp_all add: shaped_block_def shaped_song_def)
  have "inj_on (sha256 spread_crypto) (set (block_preimages spread_crypto (shaped_block [[1], [2]] 0)) \<union>
      set (block_preimages spread_crypto b))" if "b \<in> {shaped_block [[2], [1]] 0, shaped_block [[1], [2]] 1}" for b
    by (rule inj_on_subset [OF spread_apart]) (use that in auto)
  from block_hash_binds_block [OF valid valid _ this] differ show ?thesis by (auto simp: shape)
qed

text \<open>C38. The Merkle root does not bind the number of transactions: a valid block with an odd
  number of transactions, more than one, and the same block with its last transaction repeated
  are both valid and have one hash.\<close>

theorem block_hash_malleable:
  assumes "Block_validate c b" and "1 < length (blk_transactions b)"
    and "odd (length (blk_transactions b))"
    and "b' = b\<lparr>blk_transactions := blk_transactions b @ [last (blk_transactions b)]\<rparr>"
    and "length (Block_serialize b') \<le> MAX_BLOCK_SIZE"
  shows "Block_validate c b' \<and> Block_hash c b' = Block_hash c b \<and> b' \<noteq> b"
  using assms by (rule Block_repeat_last)

theorem block_hash_malleable_witness:
  "Block_hash toy_crypto
     ((sample_block [[1], [2], [3]])\<lparr>blk_transactions := [[1], [2], [3], [3]]\<rparr>) =
   Block_hash toy_crypto (sample_block [[1], [2], [3]])"
  using block_hash_malleable [where c = toy_crypto and b = "sample_block [[1], [2], [3]]", OF _ _ _ refl]
  by (simp add: sample_block_valid write_raw_tx_def length_simps)
    (simp add: sample_block_def Block_serialize_def BlockHeader_serialize_def length_simps
      SEPARATOR_LENGTH_def MAX_BLOCK_SIZE_def write_raw_tx_def)

end
