(* ===== verification/Database.thy ===== *)
theory Database
  imports Accumulator
begin

text \<open>
  \<open>src/bopwire/src/storage/database.cpp\<close>, the part the consensus code reads and writes:
  batch writes through the accumulator hook, and the accessors of song state, balances,
  nonces, moderators, labels, usernames, proposals and ratings. Reads see the committed
  store only: a \<open>WriteBatch\<close> cannot be read. \<open>tracks\<close> is the invariant every writer keeps:
  the accumulator follows the store the batch will leave.
\<close>

named_theorems tracked \<open>writers keep the accumulator in step with the batch\<close>

section \<open>The batch under construction\<close>

record dbst =
  db_store :: kv
  db_batch :: "write_op list"
  db_acc :: "StateAccumulator option"

definition db_get :: "'a dbst_scheme \<Rightarrow> string \<Rightarrow> bytes option" where
  "db_get s k = kv_get (db_store s) k"

definition put_batch :: "crypto \<Rightarrow> string \<Rightarrow> bytes \<Rightarrow> 'a dbst_scheme \<Rightarrow> 'a dbst_scheme" where
  "put_batch c k v s =
     s\<lparr>db_acc := (case db_acc s of None \<Rightarrow> None
                  | Some a \<Rightarrow> Some (if has_state_prefix k then on_put c (db_store s) k v a else a)),
       db_batch := db_batch s @ [Put k v]\<rparr>"

definition del_batch :: "crypto \<Rightarrow> string \<Rightarrow> 'a dbst_scheme \<Rightarrow> 'a dbst_scheme" where
  "del_batch c k s =
     s\<lparr>db_acc := (case db_acc s of None \<Rightarrow> None
                  | Some a \<Rightarrow> Some (if has_state_prefix k then on_del c (db_store s) k a else a)),
       db_batch := db_batch s @ [Del k]\<rparr>"

text \<open>\<open>b.Put\<close> and \<open>b.Delete\<close> on the batch itself bypass the accumulator.\<close>

definition raw_put :: "string \<Rightarrow> bytes \<Rightarrow> 'a dbst_scheme \<Rightarrow> 'a dbst_scheme" where
  "raw_put k v s = s\<lparr>db_batch := db_batch s @ [Put k v]\<rparr>"

definition raw_del :: "string \<Rightarrow> 'a dbst_scheme \<Rightarrow> 'a dbst_scheme" where
  "raw_del k s = s\<lparr>db_batch := db_batch s @ [Del k]\<rparr>"

definition put_batch_u32 :: "crypto \<Rightarrow> string \<Rightarrow> u32 \<Rightarrow> 'a dbst_scheme \<Rightarrow> 'a dbst_scheme" where
  "put_batch_u32 c k v s = put_batch c k (le_bytes 4 v) s"

definition put_batch_u64 :: "crypto \<Rightarrow> string \<Rightarrow> u64 \<Rightarrow> 'a dbst_scheme \<Rightarrow> 'a dbst_scheme" where
  "put_batch_u64 c k v s = put_batch c k (le_bytes 8 v) s"

definition get_u32 :: "'a dbst_scheme \<Rightarrow> string \<Rightarrow> u32 option" where
  "get_u32 s k = (case db_get s k of None \<Rightarrow> None
     | Some v \<Rightarrow> if length v < 4 then None else Some (le_word 4 v))"

definition get_u64 :: "'a dbst_scheme \<Rightarrow> string \<Rightarrow> u64 option" where
  "get_u64 s k = (case db_get s k of None \<Rightarrow> None
     | Some v \<Rightarrow> if length v < 8 then None else Some (le_word 8 v))"

definition value_or :: "'a option \<Rightarrow> 'a \<Rightarrow> 'a" where
  "value_or x d = (case x of None \<Rightarrow> d | Some y \<Rightarrow> y)"

definition hex_hash :: "hash256 \<Rightarrow> string" where
  "hex_hash h = to_hex (arr_bytes h)"

definition hex_addr :: "address \<Rightarrow> string" where
  "hex_addr a = to_hex (arr_bytes a)"

text \<open>\<open>for_each_with_prefix\<close> with a callback that never stops is the list it visits.\<close>

definition for_each_with_prefix :: "'a dbst_scheme \<Rightarrow> string \<Rightarrow> (string \<times> bytes) list" where
  "for_each_with_prefix s prefix = kv_scan (db_store s) prefix"

text \<open>\<open>std::to_string\<close> of an unsigned integer.\<close>

function to_dec :: "nat \<Rightarrow> string" where
  "to_dec n = (if n < 10 then [hex_digit n] else to_dec (n div 10) @ [hex_digit (n mod 10)])"
  by pat_completeness auto
termination by (relation "measure id") auto

declare to_dec.simps [simp del]

definition lower_char :: "char \<Rightarrow> char" where
  "lower_char ch = (let n = (of_char ch :: nat) in
     if 65 \<le> n \<and> n \<le> 90 then char_of (n + 32) else ch)"

definition lower :: "string \<Rightarrow> string" where
  "lower s = map lower_char s"

section \<open>Song state\<close>

record SongState =
  ss_play_count :: u64
  ss_discoverer_address :: address
  ss_first_play_block :: u32
  ss_first_play_timestamp :: u64

definition SongState_default :: SongState where
  "SongState_default = \<lparr>ss_play_count = 0, ss_discoverer_address = 0, ss_first_play_block = 0,
     ss_first_play_timestamp = 0\<rparr>"

definition SongState_serialize :: "SongState \<Rightarrow> bytes" where
  "SongState_serialize st =
     le_bytes 8 (ss_play_count st) @ arr_bytes (ss_discoverer_address st) @
     le_bytes 4 (ss_first_play_block st) @ le_bytes 8 (ss_first_play_timestamp st)"

definition SongState_deserialize :: "bytes \<Rightarrow> SongState option" where
  "SongState_deserialize d =
     (if length d < 40 then None
      else Some \<lparr>ss_play_count = le_word 8 d,
                 ss_discoverer_address = mk_arr (take 20 (drop 8 d)),
                 ss_first_play_block = le_word 4 (drop 28 d),
                 ss_first_play_timestamp = le_word 8 (drop 32 d)\<rparr>)"

definition get_song_state :: "'a dbst_scheme \<Rightarrow> hash256 \<Rightarrow> SongState" where
  "get_song_state s ch = (case db_get s (''s:'' @ hex_hash ch) of None \<Rightarrow> SongState_default
     | Some v \<Rightarrow> value_or (SongState_deserialize v) SongState_default)"

definition set_song_state :: "crypto \<Rightarrow> hash256 \<Rightarrow> SongState \<Rightarrow> 'a dbst_scheme \<Rightarrow> 'a dbst_scheme" where
  "set_song_state c ch st s = put_batch c (''s:'' @ hex_hash ch) (SongState_serialize st) s"

definition get_play_count :: "'a dbst_scheme \<Rightarrow> hash256 \<Rightarrow> u64" where
  "get_play_count s ch = ss_play_count (get_song_state s ch)"

definition play_credit_key :: "hash256 \<Rightarrow> address \<Rightarrow> string" where
  "play_credit_key ch a = ''pp:'' @ hex_hash ch @ '':'' @ hex_addr a"

definition has_play_credit :: "'a dbst_scheme \<Rightarrow> hash256 \<Rightarrow> address \<Rightarrow> bool" where
  "has_play_credit s ch a \<longleftrightarrow> db_get s (play_credit_key ch a) \<noteq> None"

definition mark_play_credit :: "crypto \<Rightarrow> hash256 \<Rightarrow> address \<Rightarrow> 'a dbst_scheme \<Rightarrow> 'a dbst_scheme" where
  "mark_play_credit c ch a s = put_batch c (play_credit_key ch a) [] s"

definition update_song_state :: "crypto \<Rightarrow> PlayProof \<Rightarrow> u64 \<Rightarrow> 'a dbst_scheme \<Rightarrow> 'a dbst_scheme" where
  "update_song_state c pr play_count_before s =
     (let st = get_song_state s (pp_content_hash pr);
          st = st\<lparr>ss_play_count := play_count_before + 1\<rparr>;
          st = (if play_count_before = 0
                then st\<lparr>ss_discoverer_address := pp_player_address pr, ss_first_play_block := 0,
                        ss_first_play_timestamp := pp_play_start_timestamp pr\<rparr>
                else st)
      in mark_play_credit c (pp_content_hash pr) (pp_player_address pr)
           (set_song_state c (pp_content_hash pr) st s))"

section \<open>Balances, supply, nonces and sessions\<close>

definition balance_key :: "address \<Rightarrow> string" where
  "balance_key a = ''a:'' @ hex_addr a"

definition get_balance :: "'a dbst_scheme \<Rightarrow> address \<Rightarrow> u64" where
  "get_balance s a = value_or (get_u64 s (balance_key a)) 0"

definition set_balance :: "crypto \<Rightarrow> address \<Rightarrow> u64 \<Rightarrow> 'a dbst_scheme \<Rightarrow> 'a dbst_scheme" where
  "set_balance c a v s = put_batch_u64 c (balance_key a) v s"

definition get_total_supply :: "'a dbst_scheme \<Rightarrow> u64" where
  "get_total_supply s = value_or (get_u64 s supply_key) 0"

definition set_total_supply :: "crypto \<Rightarrow> u64 \<Rightarrow> 'a dbst_scheme \<Rightarrow> 'a dbst_scheme" where
  "set_total_supply c v s = put_batch_u64 c supply_key v s"

definition session_key :: "hash256 \<Rightarrow> string" where
  "session_key h = ''u:'' @ hex_hash h"

definition is_session_used :: "'a dbst_scheme \<Rightarrow> hash256 \<Rightarrow> bool" where
  "is_session_used s h \<longleftrightarrow> db_get s (session_key h) \<noteq> None"

definition mark_session_used :: "crypto \<Rightarrow> hash256 \<Rightarrow> 'a dbst_scheme \<Rightarrow> 'a dbst_scheme" where
  "mark_session_used c h s = put_batch c (session_key h) [] s"

definition get_nonce :: "'a dbst_scheme \<Rightarrow> address \<Rightarrow> u64" where
  "get_nonce s a = value_or (get_u64 s (''nv:'' @ hex_addr a)) 0"

definition set_nonce :: "crypto \<Rightarrow> address \<Rightarrow> u64 \<Rightarrow> 'a dbst_scheme \<Rightarrow> 'a dbst_scheme" where
  "set_nonce c a n s = put_batch_u64 c (''nv:'' @ hex_addr a) n s"

section \<open>Moderators\<close>

definition is_moderator :: "'a dbst_scheme \<Rightarrow> address \<Rightarrow> bool" where
  "is_moderator s a \<longleftrightarrow> db_get s (''m:'' @ hex_addr a) \<noteq> None"

definition add_moderator :: "crypto \<Rightarrow> address \<Rightarrow> 'a dbst_scheme \<Rightarrow> 'a dbst_scheme" where
  "add_moderator c a s = put_batch c (''m:'' @ hex_addr a) [] s"

definition is_song_deleted :: "'a dbst_scheme \<Rightarrow> hash256 \<Rightarrow> bool" where
  "is_song_deleted s ch \<longleftrightarrow> db_get s (''d:'' @ hex_hash ch) \<noteq> None"

definition mark_song_deleted :: "crypto \<Rightarrow> hash256 \<Rightarrow> 'a dbst_scheme \<Rightarrow> 'a dbst_scheme" where
  "mark_song_deleted c ch s = put_batch c (''d:'' @ hex_hash ch) [] s"

definition unmark_song_deleted :: "hash256 \<Rightarrow> 'a dbst_scheme \<Rightarrow> 'a dbst_scheme" where
  "unmark_song_deleted ch s = raw_del (''d:'' @ hex_hash ch) s"

definition get_founder :: "'a dbst_scheme \<Rightarrow> address option" where
  "get_founder s = (case db_get s ''founder:'' of None \<Rightarrow> None
     | Some v \<Rightarrow> if length v \<noteq> 20 then None else Some (mk_arr v))"

definition set_founder :: "crypto \<Rightarrow> address \<Rightarrow> 'a dbst_scheme \<Rightarrow> 'a dbst_scheme" where
  "set_founder c a s = put_batch c ''founder:'' (arr_bytes a) s"

definition get_mod_level :: "'a dbst_scheme \<Rightarrow> address \<Rightarrow> u8" where
  "get_mod_level s a = (case db_get s (''mlvl:'' @ hex_addr a) of None \<Rightarrow> 0
     | Some [] \<Rightarrow> 0 | Some (b # _) \<Rightarrow> b)"

definition set_mod_level :: "crypto \<Rightarrow> address \<Rightarrow> u8 \<Rightarrow> 'a dbst_scheme \<Rightarrow> 'a dbst_scheme" where
  "set_mod_level c a level s =
     (if level = 0 then raw_del (''m:'' @ hex_addr a) (del_batch c (''mlvl:'' @ hex_addr a) s)
      else put_batch c (''m:'' @ hex_addr a) [] (put_batch c (''mlvl:'' @ hex_addr a) [level] s))"

definition get_mod_pubkey :: "'a dbst_scheme \<Rightarrow> address \<Rightarrow> pubkey33 option" where
  "get_mod_pubkey s a = (case db_get s (''mpub:'' @ hex_addr a) of None \<Rightarrow> None
     | Some v \<Rightarrow> if length v \<noteq> 33 then None else Some (mk_arr v))"

definition set_mod_pubkey :: "crypto \<Rightarrow> address \<Rightarrow> pubkey33 \<Rightarrow> 'a dbst_scheme \<Rightarrow> 'a dbst_scheme" where
  "set_mod_pubkey c a pk s = put_batch c (''mpub:'' @ hex_addr a) (arr_bytes pk) s"

definition get_mod_active_block :: "'a dbst_scheme \<Rightarrow> address \<Rightarrow> u32 option" where
  "get_mod_active_block s a = get_u32 s (''mact:'' @ hex_addr a)"

definition set_mod_active_block :: "crypto \<Rightarrow> address \<Rightarrow> u32 \<Rightarrow> 'a dbst_scheme \<Rightarrow> 'a dbst_scheme" where
  "set_mod_active_block c a h s = put_batch_u32 c (''mact:'' @ hex_addr a) h s"

definition list_active_moderators :: "'a dbst_scheme \<Rightarrow> address list" where
  "list_active_moderators s = List.map_filter (\<lambda>(k, v).
     if v = [] \<or> hd v = 0 then None
     else if length k \<noteq> 5 + 40 then None
     else map_option mk_arr (from_hex_loop (drop 5 k))) (for_each_with_prefix s ''mlvl:'')"

section \<open>Record labels\<close>

record LabelDef =
  lb_display_name :: string
  lb_splits :: "RoyaltySplit list"

definition set_label :: "crypto \<Rightarrow> string \<Rightarrow> LabelDef \<Rightarrow> 'a dbst_scheme \<Rightarrow> 'a dbst_scheme" where
  "set_label c name df s =
     (let nl = min (length (lb_display_name df)) 64; sc = min (length (lb_splits df)) 16 in
      put_batch c (''label:'' @ lower name)
        (word_of_nat nl # str_bytes (take nl (lb_display_name df)) @ word_of_nat sc #
         concat (map write_RoyaltySplit (take sc (lb_splits df)))) s)"

definition parse_label :: "bytes \<Rightarrow> LabelDef option" where
  "parse_label p = do {
     (nl, p) \<leftarrow> read_u8 p;
     (name, p) \<leftarrow> read_raw (unat nl) p;
     (sc, p) \<leftarrow> read_u8 p;
     (splits, p) \<leftarrow> read_n read_RoyaltySplit (unat sc) p;
     Some \<lparr>lb_display_name = bytes_str name, lb_splits = splits\<rparr>
   }"

definition get_label :: "'a dbst_scheme \<Rightarrow> string \<Rightarrow> LabelDef option" where
  "get_label s name = Option.bind (db_get s (''label:'' @ lower name)) parse_label"

definition list_labels :: "'a dbst_scheme \<Rightarrow> string list" where
  "list_labels s = map (\<lambda>(k, _). drop 6 k)
     (filter (\<lambda>(k, _). length k > 6) (for_each_with_prefix s ''label:''))"

definition assign_artist_label :: "crypto \<Rightarrow> address \<Rightarrow> string \<Rightarrow> 'a dbst_scheme \<Rightarrow> 'a dbst_scheme" where
  "assign_artist_label c artist label_name s =
     (if label_name = [] then del_batch c (''art_label:'' @ hex_addr artist) s
      else put_batch c (''art_label:'' @ hex_addr artist) (str_bytes (lower label_name)) s)"

definition get_artist_label :: "'a dbst_scheme \<Rightarrow> address \<Rightarrow> string option" where
  "get_artist_label s artist = map_option bytes_str (db_get s (''art_label:'' @ hex_addr artist))"

section \<open>Usernames\<close>

definition username_taken :: "'a dbst_scheme \<Rightarrow> string \<Rightarrow> bool" where
  "username_taken s name \<longleftrightarrow> db_get s (''un:'' @ lower name) \<noteq> None"

definition set_username :: "crypto \<Rightarrow> string \<Rightarrow> address \<Rightarrow> 'a dbst_scheme \<Rightarrow> 'a dbst_scheme" where
  "set_username c name a s =
     put_batch c (''addrun:'' @ hex_addr a) (str_bytes (lower name))
       (put_batch c (''un:'' @ lower name) (arr_bytes a) s)"

definition lookup_username :: "'a dbst_scheme \<Rightarrow> string \<Rightarrow> address option" where
  "lookup_username s name = (case db_get s (''un:'' @ lower name) of None \<Rightarrow> None
     | Some v \<Rightarrow> if length v \<noteq> 20 then None else Some (mk_arr v))"

definition get_addr_username :: "'a dbst_scheme \<Rightarrow> address \<Rightarrow> string option" where
  "get_addr_username s a = map_option bytes_str (db_get s (''addrun:'' @ hex_addr a))"

section \<open>Proposals\<close>

definition PROP_PENDING :: u8 where "PROP_PENDING = 0"
definition PROP_EXECUTED :: u8 where "PROP_EXECUTED = 1"

definition has_proposal :: "'a dbst_scheme \<Rightarrow> hash256 \<Rightarrow> bool" where
  "has_proposal s h \<longleftrightarrow> db_get s (''prop:'' @ hex_hash h) \<noteq> None"

definition put_proposal :: "crypto \<Rightarrow> hash256 \<Rightarrow> bytes \<Rightarrow> 'a dbst_scheme \<Rightarrow> 'a dbst_scheme" where
  "put_proposal c h raw s = put_batch c (''prop:'' @ hex_hash h) raw s"

definition get_proposal :: "'a dbst_scheme \<Rightarrow> hash256 \<Rightarrow> bytes option" where
  "get_proposal s h = db_get s (''prop:'' @ hex_hash h)"

definition get_proposal_status :: "'a dbst_scheme \<Rightarrow> hash256 \<Rightarrow> u8" where
  "get_proposal_status s h = (case db_get s (''propstatus:'' @ hex_hash h) of None \<Rightarrow> PROP_PENDING
     | Some [] \<Rightarrow> PROP_PENDING | Some (b # _) \<Rightarrow> b)"

definition set_proposal_status :: "crypto \<Rightarrow> hash256 \<Rightarrow> u8 \<Rightarrow> 'a dbst_scheme \<Rightarrow> 'a dbst_scheme" where
  "set_proposal_status c h status s = put_batch c (''propstatus:'' @ hex_hash h) [status] s"

definition vote_prefix :: "hash256 \<Rightarrow> string" where
  "vote_prefix h = ''propvote:'' @ hex_hash h @ '':''"

definition has_proposal_vote :: "'a dbst_scheme \<Rightarrow> hash256 \<Rightarrow> address \<Rightarrow> bool" where
  "has_proposal_vote s h voter \<longleftrightarrow> db_get s (vote_prefix h @ hex_addr voter) \<noteq> None"

definition add_proposal_vote :: "crypto \<Rightarrow> hash256 \<Rightarrow> address \<Rightarrow> 'a dbst_scheme \<Rightarrow> 'a dbst_scheme" where
  "add_proposal_vote c h voter s = put_batch c (vote_prefix h @ hex_addr voter) [] s"

definition count_proposal_votes :: "'a dbst_scheme \<Rightarrow> hash256 \<Rightarrow> nat" where
  "count_proposal_votes s h = length (for_each_with_prefix s (vote_prefix h))"

definition list_pending_proposals :: "'a dbst_scheme \<Rightarrow> hash256 list" where
  "list_pending_proposals s = List.map_filter (\<lambda>(k, _).
     if length k \<noteq> 5 + 64 then None
     else case from_hex_loop (drop 5 k) of None \<Rightarrow> None
       | Some b \<Rightarrow> if get_proposal_status s (mk_arr b) = PROP_PENDING then Some (mk_arr b) else None)
     (for_each_with_prefix s ''prop:'')"

end
