(* ===== verification/Db_Ratings.thy ===== *)
theory Db_Ratings
  imports Database
begin

text \<open>
  The rating tables of \<open>database.cpp\<close> (\<open>rv:\<close>, \<open>ra:\<close>, \<open>rc:\<close>, \<open>rt:cur\<close>, \<open>rh:\<close>, \<open>rx:\<close>), the
  forgery-report tally, the moderation log and the hide lists, with the round trips of their
  records.
\<close>

record RatingCounts =
  rco_up :: u64
  rco_down :: u64

record RatingPolicy =
  rp_min_ratings :: u32
  rp_down_ratio_bps :: u32
  rp_set_height :: u32
  rp_set_by :: address
  rp_proposal_hash :: hash256

record RatingHide =
  rh_height :: u32
  rh_up :: u64
  rh_down :: u64
  rh_min_ratings :: u32
  rh_down_ratio_bps :: u32
  rh_policy_set_height :: u32
  rh_policy_set_by :: address
  rh_trigger_tx :: hash256

definition RatingPolicy_default :: RatingPolicy where
  "RatingPolicy_default = \<lparr>rp_min_ratings = RATING_DEFAULT_MIN_RATINGS,
     rp_down_ratio_bps = RATING_DEFAULT_DOWN_RATIO_BPS, rp_set_height = 0, rp_set_by = 0,
     rp_proposal_hash = 0\<rparr>"

definition rating_key :: "hash256 \<Rightarrow> address \<Rightarrow> string" where
  "rating_key ch a = ''rv:'' @ hex_hash ch @ '':'' @ hex_addr a"

definition get_rating :: "'a dbst_scheme \<Rightarrow> hash256 \<Rightarrow> address \<Rightarrow> u8" where
  "get_rating s ch a = (case db_get s (rating_key ch a) of None \<Rightarrow> 0
     | Some [] \<Rightarrow> 0 | Some (b # _) \<Rightarrow> b)"

definition set_rating :: "crypto \<Rightarrow> hash256 \<Rightarrow> address \<Rightarrow> u8 \<Rightarrow> 'a dbst_scheme \<Rightarrow> 'a dbst_scheme" where
  "set_rating c ch a value s =
     put_batch c (''ra:'' @ hex_addr a @ '':'' @ hex_hash ch) [value]
       (put_batch c (rating_key ch a) [value] s)"

definition parse_rating_counts :: "bytes \<Rightarrow> RatingCounts option" where
  "parse_rating_counts v = (if length v < 16 then None
     else Some \<lparr>rco_up = le_word 8 v, rco_down = le_word 8 (drop 8 v)\<rparr>)"

definition get_rating_counts :: "'a dbst_scheme \<Rightarrow> hash256 \<Rightarrow> RatingCounts" where
  "get_rating_counts s ch =
     value_or (Option.bind (db_get s (''rc:'' @ hex_hash ch)) parse_rating_counts)
       \<lparr>rco_up = 0, rco_down = 0\<rparr>"

definition serialize_rating_counts :: "RatingCounts \<Rightarrow> bytes" where
  "serialize_rating_counts rc = le_bytes 8 (rco_up rc) @ le_bytes 8 (rco_down rc)"

definition set_rating_counts :: "crypto \<Rightarrow> hash256 \<Rightarrow> RatingCounts \<Rightarrow> 'a dbst_scheme \<Rightarrow> 'a dbst_scheme" where
  "set_rating_counts c ch rc s = put_batch c (''rc:'' @ hex_hash ch) (serialize_rating_counts rc) s"

definition list_ratings_by_address :: "'a dbst_scheme \<Rightarrow> address \<Rightarrow> (hash256 \<times> u8) list" where
  "list_ratings_by_address s a =
     (let prefix = ''ra:'' @ hex_addr a @ '':'' in
      List.map_filter (\<lambda>(key, val).
        if length key \<noteq> length prefix + 64 \<or> val = [] then None
        else map_option (\<lambda>ch. (ch, hd val)) (parse_hash256 (drop (length prefix) key)))
      (for_each_with_prefix s prefix))"

definition parse_rating_policy :: "bytes \<Rightarrow> RatingPolicy option" where
  "parse_rating_policy v = (if length v < 4 + 4 + 4 + 20 + 32 then None
     else Some \<lparr>rp_min_ratings = le_word 4 v, rp_down_ratio_bps = le_word 4 (drop 4 v),
        rp_set_height = le_word 4 (drop 8 v), rp_set_by = mk_arr (take 20 (drop 12 v)),
        rp_proposal_hash = mk_arr (take 32 (drop 32 v))\<rparr>)"

definition get_rating_policy :: "'a dbst_scheme \<Rightarrow> RatingPolicy" where
  "get_rating_policy s =
     value_or (Option.bind (db_get s ''rt:cur'') parse_rating_policy) RatingPolicy_default"

definition serialize_rating_policy :: "RatingPolicy \<Rightarrow> bytes" where
  "serialize_rating_policy p =
     le_bytes 4 (rp_min_ratings p) @ le_bytes 4 (rp_down_ratio_bps p) @
     le_bytes 4 (rp_set_height p) @ arr_bytes (rp_set_by p) @ arr_bytes (rp_proposal_hash p)"

definition set_rating_policy :: "crypto \<Rightarrow> RatingPolicy \<Rightarrow> 'a dbst_scheme \<Rightarrow> 'a dbst_scheme" where
  "set_rating_policy c p s = put_batch c ''rt:cur'' (serialize_rating_policy p) s"

definition parse_rating_hide :: "bytes \<Rightarrow> RatingHide option" where
  "parse_rating_hide v = (if length v < 4 + 8 + 8 + 4 + 4 + 4 + 20 + 32 then None
     else Some \<lparr>rh_height = le_word 4 v, rh_up = le_word 8 (drop 4 v),
        rh_down = le_word 8 (drop 12 v), rh_min_ratings = le_word 4 (drop 20 v),
        rh_down_ratio_bps = le_word 4 (drop 24 v), rh_policy_set_height = le_word 4 (drop 28 v),
        rh_policy_set_by = mk_arr (take 20 (drop 32 v)),
        rh_trigger_tx = mk_arr (take 32 (drop 52 v))\<rparr>)"

definition get_rating_hide :: "'a dbst_scheme \<Rightarrow> hash256 \<Rightarrow> RatingHide option" where
  "get_rating_hide s ch = Option.bind (db_get s (''rh:'' @ hex_hash ch)) parse_rating_hide"

definition serialize_rating_hide :: "RatingHide \<Rightarrow> bytes" where
  "serialize_rating_hide h =
     le_bytes 4 (rh_height h) @ le_bytes 8 (rh_up h) @ le_bytes 8 (rh_down h) @
     le_bytes 4 (rh_min_ratings h) @ le_bytes 4 (rh_down_ratio_bps h) @
     le_bytes 4 (rh_policy_set_height h) @ arr_bytes (rh_policy_set_by h) @
     arr_bytes (rh_trigger_tx h)"

definition set_rating_hide :: "crypto \<Rightarrow> hash256 \<Rightarrow> RatingHide \<Rightarrow> 'a dbst_scheme \<Rightarrow> 'a dbst_scheme" where
  "set_rating_hide c ch h s = put_batch c (''rh:'' @ hex_hash ch) (serialize_rating_hide h) s"

definition is_rating_hide_exempt :: "'a dbst_scheme \<Rightarrow> hash256 \<Rightarrow> bool" where
  "is_rating_hide_exempt s ch \<longleftrightarrow> db_get s (''rx:'' @ hex_hash ch) \<noteq> None"

definition set_rating_hide_exempt :: "hash256 \<Rightarrow> 'a dbst_scheme \<Rightarrow> 'a dbst_scheme" where
  "set_rating_hide_exempt ch s = raw_put (''rx:'' @ hex_hash ch) [] s"

definition clear_rating_hide_exempt :: "hash256 \<Rightarrow> 'a dbst_scheme \<Rightarrow> 'a dbst_scheme" where
  "clear_rating_hide_exempt ch s = raw_del (''rx:'' @ hex_hash ch) s"

section \<open>Hide lists, moderation log, forgery reports\<close>

definition is_hidden_artist :: "'a dbst_scheme \<Rightarrow> string \<Rightarrow> bool" where
  "is_hidden_artist s x \<longleftrightarrow> db_get s (''ha:'' @ lower x) \<noteq> None"
definition is_hidden_album :: "'a dbst_scheme \<Rightarrow> string \<Rightarrow> bool" where
  "is_hidden_album s x \<longleftrightarrow> db_get s (''hb:'' @ lower x) \<noteq> None"
definition is_hidden_title :: "'a dbst_scheme \<Rightarrow> string \<Rightarrow> bool" where
  "is_hidden_title s x \<longleftrightarrow> db_get s (''ht:'' @ lower x) \<noteq> None"
definition add_hidden_artist :: "crypto \<Rightarrow> string \<Rightarrow> 'a dbst_scheme \<Rightarrow> 'a dbst_scheme" where
  "add_hidden_artist c x s = put_batch c (''ha:'' @ lower x) (str_bytes x) s"
definition add_hidden_album :: "crypto \<Rightarrow> string \<Rightarrow> 'a dbst_scheme \<Rightarrow> 'a dbst_scheme" where
  "add_hidden_album c x s = put_batch c (''hb:'' @ lower x) (str_bytes x) s"
definition add_hidden_title :: "crypto \<Rightarrow> string \<Rightarrow> 'a dbst_scheme \<Rightarrow> 'a dbst_scheme" where
  "add_hidden_title c x s = put_batch c (''ht:'' @ lower x) (str_bytes x) s"
definition remove_hidden_artist :: "string \<Rightarrow> 'a dbst_scheme \<Rightarrow> 'a dbst_scheme" where
  "remove_hidden_artist x s = raw_del (''ha:'' @ lower x) s"
definition remove_hidden_album :: "string \<Rightarrow> 'a dbst_scheme \<Rightarrow> 'a dbst_scheme" where
  "remove_hidden_album x s = raw_del (''hb:'' @ lower x) s"
definition remove_hidden_title :: "string \<Rightarrow> 'a dbst_scheme \<Rightarrow> 'a dbst_scheme" where
  "remove_hidden_title x s = raw_del (''ht:'' @ lower x) s"

text \<open>\<open>snprintf("%016llx", ts)\<close>: sixteen digits, most significant first.\<close>

definition be16_ts :: "u64 \<Rightarrow> string" where
  "be16_ts ts = map (\<lambda>i. hex_digit (unat (drop_bit (4 * i) ts AND 0xF))) (rev [0..<16])"

definition ml_key :: "u64 \<Rightarrow> string \<Rightarrow> string" where
  "ml_key ts sig_hex = ''ml:'' @ be16_ts ts @ '':'' @ take 16 sig_hex"

definition ms_key :: "string \<Rightarrow> string" where
  "ms_key sig_hex = ''ms:'' @ take 16 sig_hex"

definition append_mod_log_entry :: "crypto \<Rightarrow> u64 \<Rightarrow> string \<Rightarrow> string \<Rightarrow> 'a dbst_scheme \<Rightarrow> 'a dbst_scheme" where
  "append_mod_log_entry c ts sig_hex payload s =
     put_batch c (ms_key sig_hex) [] (put_batch c (ml_key ts sig_hex) (str_bytes payload) s)"

definition mod_log_has_sig :: "'a dbst_scheme \<Rightarrow> string \<Rightarrow> bool" where
  "mod_log_has_sig s sig_hex \<longleftrightarrow> db_get s (ms_key sig_hex) \<noteq> None"

definition record_forgery_report :: "crypto \<Rightarrow> hash256 \<Rightarrow> address \<Rightarrow> 'a dbst_scheme \<Rightarrow> 'a dbst_scheme" where
  "record_forgery_report c ch reporter s =
     put_batch c (''fr:'' @ hex_hash ch @ '':'' @ hex_addr reporter) [] s"

definition forgery_report_count :: "'a dbst_scheme \<Rightarrow> hash256 \<Rightarrow> nat" where
  "forgery_report_count s ch =
     length (for_each_with_prefix s (''fr:'' @ hex_hash ch @ '':''))"

section \<open>Round trips\<close>

lemma le_word_append: "n \<le> length p \<Longrightarrow> le_word n (p @ r) = le_word n p"
  by (rule le_word_cong) (simp add: nth_append)

lemma le_word_8 [simp]: "le_word 8 (le_bytes 8 v @ r) = (v :: u64)" "le_word 8 (le_bytes 8 v) = v"
  using le_word_le_bytes [of 8 v r] le_word_le_bytes [of 8 v "[]"] by simp_all

lemma le_word_4 [simp]: "le_word 4 (le_bytes 4 v @ r) = (v :: u32)" "le_word 4 (le_bytes 4 v) = v"
  using le_word_le_bytes [of 4 v r] le_word_le_bytes [of 4 v "[]"] by simp_all

lemma SongState_roundtrip: "SongState_deserialize (SongState_serialize st) = Some st"
  by (cases st) (simp add: SongState_serialize_def SongState_deserialize_def)

lemma rating_counts_roundtrip: "parse_rating_counts (serialize_rating_counts rc) = Some rc"
  by (cases rc) (simp add: parse_rating_counts_def serialize_rating_counts_def)

lemma rating_policy_roundtrip: "parse_rating_policy (serialize_rating_policy p) = Some p"
  by (cases p) (simp add: parse_rating_policy_def serialize_rating_policy_def)

lemma rating_hide_roundtrip: "parse_rating_hide (serialize_rating_hide h) = Some h"
  by (cases h) (simp add: parse_rating_hide_def serialize_rating_hide_def)

lemma parse_label_roundtrip:
  assumes "length (lb_display_name df) \<le> 64" and "length (lb_splits df) \<le> 16"
  shows "parse_label (word_of_nat (length (lb_display_name df)) # str_bytes (lb_display_name df) @
      word_of_nat (length (lb_splits df)) # concat (map write_RoyaltySplit (lb_splits df))) = Some df"
proof -
  have nl: "unat (word_of_nat (length (lb_display_name df)) :: u8) = length (lb_display_name df)"
    by (rule unat_word_of_length_u8) (use assms in simp)
  have sc: "unat (word_of_nat (length (lb_splits df)) :: u8) = length (lb_splits df)"
    by (rule unat_word_of_length_u8) (use assms in simp)
  show ?thesis
    using royalty_split.read_n_concat [of "lb_splits df" "[]"]
    by (simp add: parse_label_def nl sc)
qed

end
