(* ===== verification/Db_Frame.thy ===== *)
theory Db_Frame
  imports Db_Ratings
begin

text \<open>
  The invariants of batch construction. \<open>pending\<close> is the store the batch would leave;
  \<open>tracks\<close> says that the accumulator hook is in step with it. Every writer of
  \<open>database.cpp\<close> keeps \<open>tracks\<close>: those that bypass the hook touch no committed-state key.
\<close>

section \<open>The store the batch leaves\<close>

definition pending :: "'a dbst_scheme \<Rightarrow> kv" where
  "pending s = kv_write (db_store s) (db_batch s)"

definition tracks :: "crypto \<Rightarrow> 'a dbst_scheme \<Rightarrow> bool" where
  "tracks c s \<longleftrightarrow> kv_ok (db_store s) \<and>
     (case db_acc s of None \<Rightarrow> True | Some a \<Rightarrow> acc_tracks c (db_store s) (db_batch s) a)"

lemma tracks_store: "tracks c s \<Longrightarrow> kv_ok (db_store s)"
  by (simp add: tracks_def)

lemma tracks_root:
  "tracks c s \<Longrightarrow> db_acc s = Some a \<Longrightarrow> ac_vec a = scan_state_accumulator c (pending s)"
  by (simp add: tracks_def acc_tracks_def pending_def scan_eq_state_sum kv_ok_write)

lemma tracks_put_batch [tracked]: "tracks c s \<Longrightarrow> tracks c (put_batch c k v s)"
  using acc_tracks_put [of c "db_store s" "db_batch s" _ k v]
  by (auto simp: tracks_def put_batch_def split: option.splits)

lemma tracks_del_batch [tracked]: "tracks c s \<Longrightarrow> tracks c (del_batch c k s)"
  using acc_tracks_del [of c "db_store s" "db_batch s" _ k]
  by (auto simp: tracks_def del_batch_def split: option.splits)

lemma tracks_raw_put: "tracks c s \<Longrightarrow> \<not> has_state_prefix k \<Longrightarrow> tracks c (raw_put k v s)"
  using acc_tracks_put [of c "db_store s" "db_batch s" _ k v]
  by (auto simp: tracks_def raw_put_def split: option.splits)

lemma tracks_raw_del: "tracks c s \<Longrightarrow> \<not> has_state_prefix k \<Longrightarrow> tracks c (raw_del k s)"
  using acc_tracks_del [of c "db_store s" "db_batch s" _ k]
  by (auto simp: tracks_def raw_del_def split: option.splits)

lemma store_put_batch [simp]: "db_store (put_batch c k v s) = db_store s"
  by (simp add: put_batch_def)

lemma store_del_batch [simp]: "db_store (del_batch c k s) = db_store s"
  by (simp add: del_batch_def)

lemma store_raw [simp]: "db_store (raw_put k v s) = db_store s" "db_store (raw_del k s) = db_store s"
  by (simp_all add: raw_put_def raw_del_def)

lemma pending_put_batch [simp]: "pending (put_batch c k v s) = kv_put (pending s) k v"
  by (simp add: pending_def put_batch_def)

lemma pending_del_batch [simp]: "pending (del_batch c k s) = kv_del (pending s) k"
  by (simp add: pending_def del_batch_def)

lemma pending_raw [simp]:
  "pending (raw_put k v s) = kv_put (pending s) k v" "pending (raw_del k s) = kv_del (pending s) k"
  by (simp_all add: pending_def raw_put_def raw_del_def)

lemma kv_ok_pending: "kv_ok (db_store s) \<Longrightarrow> kv_ok (pending s)"
  by (simp add: pending_def kv_ok_write)

section \<open>Keys by class\<close>

lemma not_state_keys:
  "\<not> has_state_prefix (''m:'' @ r)" "\<not> has_state_prefix (''d:'' @ r)"
  "\<not> has_state_prefix (''rx:'' @ r)" "\<not> has_state_prefix (''ha:'' @ r)"
  "\<not> has_state_prefix (''hb:'' @ r)" "\<not> has_state_prefix (''ht:'' @ r)"
  "\<not> has_state_prefix (''sp:'' @ r)" "\<not> has_state_prefix (''p:'' @ r)"
  "\<not> has_state_prefix (''pt:'' @ r)" "\<not> has_state_prefix (''pp:'' @ r)"
  by (simp_all add: has_state_prefix_def kStatePrefixes_def starts_with_def supply_key_def)

lemmas not_state_keys_simp [simp] = not_state_keys [simplified]

section \<open>The writers of the database keep the invariant\<close>

lemma tracks_writers [tracked]:
  assumes "tracks c s"
  shows "tracks c (put_batch_u32 c k a s)" "tracks c (put_batch_u64 c k b s)"
    "tracks c (set_song_state c ch st s)" "tracks c (mark_play_credit c ch ad s)"
    "tracks c (update_song_state c pr n s)" "tracks c (set_balance c ad b s)"
    "tracks c (set_total_supply c b s)" "tracks c (mark_session_used c ch s)"
    "tracks c (set_nonce c ad b s)" "tracks c (mark_song_deleted c ch s)"
    "tracks c (unmark_song_deleted ch s)" "tracks c (set_founder c ad s)"
    "tracks c (set_mod_level c ad lv s)" "tracks c (set_mod_pubkey c ad pk s)"
    "tracks c (set_mod_active_block c ad a s)" "tracks c (set_label c nm df s)"
    "tracks c (assign_artist_label c ad nm s)" "tracks c (set_username c nm ad s)"
    "tracks c (put_proposal c ch raw s)" "tracks c (set_proposal_status c ch lv s)"
    "tracks c (add_proposal_vote c ch ad s)" "tracks c (set_rating c ch ad lv s)"
    "tracks c (set_rating_counts c ch rc s)" "tracks c (set_rating_policy c po s)"
    "tracks c (set_rating_hide c ch hi s)" "tracks c (set_rating_hide_exempt ch s)"
    "tracks c (clear_rating_hide_exempt ch s)" "tracks c (remove_hidden_artist nm s)"
    "tracks c (remove_hidden_album nm s)" "tracks c (remove_hidden_title nm s)"
  using assms
  by (simp_all add: put_batch_u32_def put_batch_u64_def set_song_state_def mark_play_credit_def
      update_song_state_def set_balance_def set_total_supply_def mark_session_used_def
      set_nonce_def mark_song_deleted_def unmark_song_deleted_def set_founder_def
      set_mod_level_def set_mod_pubkey_def set_mod_active_block_def set_label_def
      assign_artist_label_def set_username_def put_proposal_def set_proposal_status_def
      add_proposal_vote_def set_rating_def set_rating_counts_def set_rating_policy_def
      set_rating_hide_def set_rating_hide_exempt_def clear_rating_hide_exempt_def
      remove_hidden_artist_def remove_hidden_album_def remove_hidden_title_def Let_def
      tracks_put_batch tracks_del_batch tracks_raw_del tracks_raw_put)

end
