(* ===== verification/Ledger.thy ===== *)
theory Ledger
  imports Db_Frame
begin

text \<open>
  \<open>src/bopwire/src/tokens/ledger.h\<close> and \<open>ledger.cpp\<close>: the burn curve, the block-scoped
  balance and supply overlay, and the textual form of amounts. The overlay is part of the
  state a block is applied in; reading through it fills a cache in the code, which is not
  modelled: a filled entry equals what the store holds.

  \<open>ledger_inv\<close> is the conservation law: the balances of all addresses sum to the total
  supply, which the cap bounds. \<open>coherent\<close> says that the batch will leave the balances and
  the supply the overlay shows.
\<close>

definition TOKEN_DECIMALS :: u64 where "TOKEN_DECIMALS = 100000000"
definition FULL_REWARD_THRESHOLD :: u64 where "FULL_REWARD_THRESHOLD = 10000"
definition FULL_ARTIST_REWARD :: u64 where "FULL_ARTIST_REWARD = 100000000"
definition FULL_NODE_REWARD :: u64 where "FULL_NODE_REWARD = 100000000"
definition FULL_DISCOVERER_REWARD :: u64 where "FULL_DISCOVERER_REWARD = 100000000"
definition FULL_SEEDER_REWARD :: u64 where "FULL_SEEDER_REWARD = 100000000"
definition FULL_MININODE_REWARD :: u64 where "FULL_MININODE_REWARD = 100000000"
definition SUPPLY_FLOOR :: u64 where "SUPPLY_FLOOR = 1000000000 * 100000000"
definition SUPPLY_CAP :: u64 where "SUPPLY_CAP = 2000000000 * 100000000"

section \<open>The burn curve\<close>

definition muldiv_u128 :: "u64 \<Rightarrow> u64 \<Rightarrow> u64 \<Rightarrow> u64" where
  "muldiv_u128 a b d = ucast ((ucast a * ucast b :: 128 word) div ucast d)"

definition compute_burn_rate :: "u64 \<Rightarrow> u64" where
  "compute_burn_rate total_supply =
     (if total_supply < SUPPLY_FLOOR then 0
      else if SUPPLY_CAP \<le> total_supply then 0xFFFFFFFFFFFFFFFF
      else let num = total_supply - SUPPLY_FLOOR;
               den = SUPPLY_CAP - SUPPLY_FLOOR;
               m1 = muldiv_u128 num num den;
               m2 = muldiv_u128 m1 num den
           in muldiv_u128 m2 (1000 * TOKEN_DECIMALS) den)"

text \<open>The curve over the natural numbers.\<close>

definition burn_spec :: "nat \<Rightarrow> nat" where
  "burn_spec n = n * n div 10 ^ 17 * n div 10 ^ 17 * 10 ^ 11 div 10 ^ 17"

lemma unat_muldiv:
  assumes "unat a * unat b div unat d < 2 ^ 64"
  shows "unat (muldiv_u128 a b d) = unat a * unat b div unat d"
proof -
  have up: "unat (ucast x :: 128 word) = unat x" for x :: u64
  proof -
    have "unat x < 2 ^ LENGTH(64)" by (rule unsigned_less)
    then show ?thesis by (simp add: unsigned_ucast_eq take_bit_nat_eq_self)
  qed
  have "unat a * unat b < 2 ^ 64 * 2 ^ 64"
    by (rule mult_strict_mono') (simp_all only: unat_less_u64 zero_le)
  then have m: "unat (ucast a * ucast b :: 128 word) = unat a * unat b"
    by (simp add: unat_word_ariths up)
  have "unat ((ucast a * ucast b :: 128 word) div ucast d) = unat a * unat b div unat d"
    by (simp add: unat_div m up)
  with assms show ?thesis
    by (simp add: muldiv_u128_def unsigned_ucast_eq take_bit_nat_eq_self)
qed

lemma burn_consts:
  "unat SUPPLY_FLOOR = 10 ^ 17" "unat SUPPLY_CAP = 2 * 10 ^ 17" "unat TOKEN_DECIMALS = 10 ^ 8"
  "unat (SUPPLY_CAP - SUPPLY_FLOOR) = 10 ^ 17" "unat (1000 * TOKEN_DECIMALS) = 10 ^ 11"
  by (simp_all add: SUPPLY_FLOOR_def SUPPLY_CAP_def TOKEN_DECIMALS_def)

lemma div_step: "(a :: nat) < 10 ^ 17 \<Longrightarrow> b < 10 ^ 17 \<Longrightarrow> a * b div 10 ^ 17 < 10 ^ 17"
  by (rule less_mult_imp_div_less) (rule mult_strict_mono', simp_all)

lemma compute_burn_rate_between:
  assumes "SUPPLY_FLOOR \<le> t" and "t < SUPPLY_CAP"
  shows "unat (compute_burn_rate t) = burn_spec (unat t - 10 ^ 17)"
proof -
  let ?num = "t - SUPPLY_FLOOR" and ?den = "SUPPLY_CAP - SUPPLY_FLOOR"
  have num: "unat ?num = unat t - 10 ^ 17"
    using unat_sub_u64 [OF assms(1)] by (simp add: burn_consts)
  have lt: "unat ?num < 10 ^ 17"
    using assms(2) unfolding num word_less_nat_alt burn_consts by simp
  let ?m1 = "muldiv_u128 ?num ?num ?den"
  have b1: "unat ?num * unat ?num div 10 ^ 17 < 10 ^ 17" by (rule div_step [OF lt lt])
  then have m1: "unat ?m1 = unat ?num * unat ?num div 10 ^ 17"
    using unat_muldiv [of ?num ?num ?den] by (simp add: burn_consts)
  let ?m2 = "muldiv_u128 ?m1 ?num ?den"
  have b2: "unat ?m1 * unat ?num div 10 ^ 17 < 10 ^ 17"
    using div_step [OF b1 lt] by (simp add: m1)
  then have m2: "unat ?m2 = unat ?m1 * unat ?num div 10 ^ 17"
    using unat_muldiv [of ?m1 ?num ?den] by (simp add: burn_consts)
  have "unat ?m2 * 10 ^ 11 div 10 ^ 17 < 10 ^ 17"
    using div_step [of "unat ?m2" "10 ^ 11"] b2 m2 by simp
  then have "unat (muldiv_u128 ?m2 (1000 * TOKEN_DECIMALS) ?den) = unat ?m2 * 10 ^ 11 div 10 ^ 17"
    using unat_muldiv [of ?m2 "1000 * TOKEN_DECIMALS" ?den] by (simp add: burn_consts)
  moreover have "\<not> t < SUPPLY_FLOOR" and "\<not> SUPPLY_CAP \<le> t"
    using assms by (simp_all add: leD leI not_le)
  then have "compute_burn_rate t = muldiv_u128 ?m2 (1000 * TOKEN_DECIMALS) ?den"
    by (simp add: compute_burn_rate_def Let_def)
  ultimately show ?thesis by (simp add: burn_spec_def m1 m2 num)
qed

lemma burn_spec_mono: "m \<le> n \<Longrightarrow> burn_spec m \<le> burn_spec n"
  unfolding burn_spec_def by (intro div_le_mono mult_le_mono) auto

lemma burn_spec_bound: "n < 10 ^ 17 \<Longrightarrow> burn_spec n < 10 ^ 11"
proof -
  assume n: "n < 10 ^ 17"
  have "n * n div 10 ^ 17 * n div 10 ^ 17 < 10 ^ 17" by (intro div_step n)
  then show ?thesis unfolding burn_spec_def by (intro less_mult_imp_div_less) simp
qed

section \<open>The block-scoped overlay\<close>

record ledger_st = dbst +
  lg_bal :: "address \<Rightarrow> u64 option"
  lg_supply :: "u64 option"

definition rd_bal :: "'a ledger_st_scheme \<Rightarrow> address \<Rightarrow> u64" where
  "rd_bal s a = (case lg_bal s a of Some v \<Rightarrow> v | None \<Rightarrow> get_balance s a)"

definition rd_supply :: "'a ledger_st_scheme \<Rightarrow> u64" where
  "rd_supply s = (case lg_supply s of Some v \<Rightarrow> v | None \<Rightarrow> get_total_supply s)"

definition wr_bal :: "crypto \<Rightarrow> address \<Rightarrow> u64 \<Rightarrow> 'a ledger_st_scheme \<Rightarrow> 'a ledger_st_scheme" where
  "wr_bal c a v s = set_balance c a v (s\<lparr>lg_bal := (lg_bal s)(a \<mapsto> v)\<rparr>)"

definition wr_supply :: "crypto \<Rightarrow> u64 \<Rightarrow> 'a ledger_st_scheme \<Rightarrow> 'a ledger_st_scheme" where
  "wr_supply c v s = set_total_supply c v (s\<lparr>lg_supply := Some v\<rparr>)"

definition Ledger_credit :: "crypto \<Rightarrow> address \<Rightarrow> u64 \<Rightarrow> 'a ledger_st_scheme \<Rightarrow> 'a ledger_st_scheme" where
  "Ledger_credit c a amount s =
     (if amount = 0 then s
      else let s = wr_bal c a (rd_bal s a + amount) s in wr_supply c (rd_supply s + amount) s)"

text \<open>\<open>std::map<Address, uint64_t>\<close>: \<open>m[addr] += amount\<close>, entries in address order.\<close>

fun amap_add :: "address \<Rightarrow> u64 \<Rightarrow> (address \<times> u64) list \<Rightarrow> (address \<times> u64) list" where
  "amap_add a v [] = [(a, v)]"
| "amap_add a v ((b, w) # m) =
     (if a < b then (a, v) # (b, w) # m
      else if a = b then (b, w + v) # m
      else (b, w) # amap_add a v m)"

definition per_addr :: "(address \<times> u64) list \<Rightarrow> (address \<times> u64) list" where
  "per_addr outs = foldl (\<lambda>m (a, v). if v = 0 then m else amap_add a v m) [] outs"

definition total_minted :: "(address \<times> u64) list \<Rightarrow> u64" where
  "total_minted outs = foldl (\<lambda>t (a, v). if v = 0 then t else t + v) 0 outs"

definition Ledger_credit_many ::
    "crypto \<Rightarrow> (address \<times> u64) list \<Rightarrow> 'a ledger_st_scheme \<Rightarrow> 'a ledger_st_scheme" where
  "Ledger_credit_many c outs s =
     (let s = foldl (\<lambda>s (a, v). wr_bal c a (rd_bal s a + v) s) s (per_addr outs) in
      if 0 < total_minted outs then wr_supply c (rd_supply s + total_minted outs) s else s)"

definition Ledger_debit :: "crypto \<Rightarrow> address \<Rightarrow> u64 \<Rightarrow> 'a ledger_st_scheme \<Rightarrow> bool \<times> 'a ledger_st_scheme" where
  "Ledger_debit c a amount s =
     (if amount = 0 then (True, s)
      else if rd_bal s a < amount then (False, s)
      else (True, wr_bal c a (rd_bal s a - amount) s))"

definition Ledger_transfer ::
    "crypto \<Rightarrow> address \<Rightarrow> address \<Rightarrow> u64 \<Rightarrow> 'a ledger_st_scheme \<Rightarrow> bool \<times> 'a ledger_st_scheme" where
  "Ledger_transfer c from to amount s =
     (if amount = 0 then (True, s)
      else if from = to then (True, s)
      else if rd_bal s from < amount then (False, s)
      else let from_bal = rd_bal s from; to_bal = rd_bal s to in
           (True, wr_bal c to (to_bal + amount) (wr_bal c from (from_bal - amount) s)))"

definition Ledger_reset :: "'a ledger_st_scheme \<Rightarrow> 'a ledger_st_scheme" where
  "Ledger_reset s = s\<lparr>lg_bal := Map.empty, lg_supply := None\<rparr>"

definition Ledger_decrement_supply :: "crypto \<Rightarrow> u64 \<Rightarrow> 'a ledger_st_scheme \<Rightarrow> 'a ledger_st_scheme" where
  "Ledger_decrement_supply c amount s =
     (let t = rd_supply s in wr_supply c (if amount \<le> t then t - amount else 0) s)"

section \<open>Amounts as text\<close>

definition pad0 :: "nat \<Rightarrow> string \<Rightarrow> string" where
  "pad0 n s = replicate (n - length s) CHR ''0'' @ s"

definition format_balance :: "u64 \<Rightarrow> string" where
  "format_balance units =
     to_dec (unat (units div TOKEN_DECIMALS)) @ ''.'' @ pad0 8 (to_dec (unat (units mod TOKEN_DECIMALS)))"

text \<open>
  \<open>std::stoull\<close>: leading white space, an optional sign, then decimal digits up to the first
  other character; no digits or a value beyond 64 bits throws. A minus sign negates the
  unsigned result.
\<close>

definition is_space :: "char \<Rightarrow> bool" where
  "is_space ch = (let n = (of_char ch :: nat) in n = 32 \<or> (9 \<le> n \<and> n \<le> 13))"

definition digit_val :: "char \<Rightarrow> nat option" where
  "digit_val ch = (let n = (of_char ch :: nat) in if 48 \<le> n \<and> n \<le> 57 then Some (n - 48) else None)"

fun digits_value :: "nat \<Rightarrow> string \<Rightarrow> nat" where
  "digits_value acc [] = acc"
| "digits_value acc (ch # s) =
     (case digit_val ch of None \<Rightarrow> acc | Some d \<Rightarrow> digits_value (10 * acc + d) s)"

definition stoull_digits :: "string \<Rightarrow> nat option" where
  "stoull_digits s = (case s of [] \<Rightarrow> None
     | ch # _ \<Rightarrow> if digit_val ch = None then None
        else let v = digits_value 0 s in if 2 ^ 64 \<le> v then None else Some v)"

definition stoull :: "string \<Rightarrow> u64 option" where
  "stoull str =
     (let s = dropWhile is_space str in
      case s of [] \<Rightarrow> None
      | ch # r \<Rightarrow> if ch = CHR ''-'' then map_option (\<lambda>v. - word_of_nat v) (stoull_digits r)
                 else if ch = CHR ''+'' then map_option word_of_nat (stoull_digits r)
                 else map_option word_of_nat (stoull_digits s))"

definition parse_balance :: "string \<Rightarrow> u64 option" where
  "parse_balance s =
     (let whole_str = takeWhile (\<lambda>ch. ch \<noteq> CHR ''.'') s;
          frac_str = (if CHR ''.'' \<in> set s then drop (Suc (length whole_str)) s else ''0'')
      in if CHR ''.'' \<in> set s \<and> 8 < length frac_str then None
         else do {
           let frac_str = (if CHR ''.'' \<in> set s
                           then frac_str @ replicate (8 - length frac_str) CHR ''0'' else frac_str);
           whole \<leftarrow> stoull whole_str;
           decimal \<leftarrow> stoull frac_str;
           Some (whole * TOKEN_DECIMALS + decimal)
         })"

end
