(* ===== verification/Ledger_Laws.thy ===== *)
theory Ledger_Laws
  imports Ledger
begin

text \<open>
  The laws of the ledger. The locale \<open>token_ledger\<close> is what the transaction handlers rely
  on: reading back a written balance or supply, and what a sequence of reads and writes does
  to the sum of all balances. It is interpreted on the overlay of \<open>Ledger.thy\<close>, and gives
  conservation for every operation of \<open>ledger.cpp\<close>.
\<close>

section \<open>The contract\<close>

locale token_ledger =
  fixes bal :: "'s \<Rightarrow> address \<Rightarrow> u64"
    and sply :: "'s \<Rightarrow> u64"
    and set_bal :: "address \<Rightarrow> u64 \<Rightarrow> 's \<Rightarrow> 's"
    and set_supply :: "u64 \<Rightarrow> 's \<Rightarrow> 's"
  assumes bal_set_bal: "bal (set_bal a v s) b = (if b = a then v else bal s b)"
    and supply_set_bal: "sply (set_bal a v s) = sply s"
    and bal_set_supply: "bal (set_supply v s) b = bal s b"
    and supply_set_supply: "sply (set_supply v s) = v"
begin

definition total :: "'s \<Rightarrow> nat" where
  "total s = (\<Sum>a\<in>UNIV. unat (bal s a))"

definition conserved :: "'s \<Rightarrow> bool" where
  "conserved s \<longleftrightarrow> total s = unat (sply s) \<and> unat (sply s) \<le> 2 * 10 ^ 17"

lemma bal_le_total: "unat (bal s a) \<le> total s"
  unfolding total_def by (rule member_le_sum) simp_all

lemma two_bal_le_total: "a \<noteq> b \<Longrightarrow> unat (bal s a) + unat (bal s b) \<le> total s"
  using sum_mono2 [of UNIV "{a, b}" "\<lambda>x. unat (bal s x)"] by (simp add: total_def)

lemma total_set_bal: "total (set_bal a v s) + unat (bal s a) = total s + unat v"
proof -
  have "total t = unat (bal t a) + (\<Sum>b\<in>UNIV - {a}. unat (bal t b))" for t
    unfolding total_def by (rule sum.remove) simp_all
  moreover have "(\<Sum>b\<in>UNIV - {a}. unat (bal (set_bal a v s) b)) = (\<Sum>b\<in>UNIV - {a}. unat (bal s b))"
    by (rule sum.cong) (simp_all add: bal_set_bal)
  ultimately show ?thesis by (simp add: bal_set_bal)
qed

lemma total_set_supply [simp]: "total (set_supply v s) = total s"
  by (simp add: total_def bal_set_supply)

text \<open>Adding to one balance, with no room for a wrap below the cap.\<close>

lemma total_add:
  assumes "total s + unat v < 2 ^ 64"
  shows "total (set_bal a (bal s a + v) s) = total s + unat v"
proof -
  have "unat (bal s a) + unat v < 2 ^ 64"
    using assms bal_le_total [of s a] by linarith
  then have "unat (bal s a + v) = unat (bal s a) + unat v"
    unfolding unat_add_mod by (rule mod_less)
  with total_set_bal [of a "bal s a + v" s] show ?thesis by linarith
qed

lemma total_sub:
  assumes "v \<le> bal s a"
  shows "total (set_bal a (bal s a - v) s) + unat v = total s"
  using total_set_bal [of a "bal s a - v" s] unat_sub_u64 [OF assms] assms
    bal_le_total [of s a] by (simp add: word_le_nat_alt)

lemma total_move:
  assumes "v \<le> bal s a" and "a \<noteq> b" and "total s < 2 ^ 64"
  shows "total (set_bal b (bal s b + v) (set_bal a (bal s a - v) s)) = total s"
proof -
  let ?t = "set_bal a (bal s a - v) s"
  have t: "total ?t + unat v = total s" by (rule total_sub [OF assms(1)])
  have "bal ?t b = bal s b" using assms(2) by (simp add: bal_set_bal)
  with total_add [of ?t v b] t assms(3) show ?thesis by simp
qed

lemma conserved_move:
  "conserved s \<Longrightarrow> v \<le> bal s a \<Longrightarrow> a \<noteq> b \<Longrightarrow>
   conserved (set_bal b (bal s b + v) (set_bal a (bal s a - v) s))"
  using total_move [of v s a b] by (simp add: conserved_def supply_set_bal)

lemma conserved_mint:
  assumes "conserved s" and "unat (sply s) + unat v \<le> 2 * 10 ^ 17"
  shows "conserved (set_supply (sply s + v) (set_bal a (bal s a + v) s))"
proof -
  have "unat (sply s + v) = unat (sply s) + unat v"
    unfolding unat_add_mod by (rule mod_less) (use assms(2) in simp)
  moreover have "total (set_bal a (bal s a + v) s) = total s + unat v"
    by (rule total_add) (use assms in \<open>simp add: conserved_def\<close>)
  ultimately show ?thesis
    using assms by (simp add: conserved_def supply_set_supply)
qed

lemma conserved_burn:
  assumes "conserved s" and "v \<le> bal s a"
  shows "conserved (set_supply (sply s - v) (set_bal a (bal s a - v) s))"
proof -
  have "unat v \<le> unat (sply s)"
    using assms bal_le_total [of s a] by (simp add: conserved_def word_le_nat_alt)
  then have "unat (sply s - v) = unat (sply s) - unat v"
    by (simp add: unat_sub_u64 word_le_nat_alt)
  with total_sub [OF assms(2)] assms(1) show ?thesis
    by (simp add: conserved_def supply_set_supply) linarith
qed

text \<open>A list of credits to distinct accounts, followed by one sply update.\<close>

lemma foldl_credits:
  assumes "total s + (\<Sum>(a, v)\<leftarrow>xs. unat v) < 2 ^ 64"
  shows "total (foldl (\<lambda>s (a, v). set_bal a (bal s a + v) s) s xs) = total s + (\<Sum>(a, v)\<leftarrow>xs. unat v)"
    and "sply (foldl (\<lambda>s (a, v). set_bal a (bal s a + v) s) s xs) = sply s"
  using assms
proof (induction xs arbitrary: s)
  case (Cons x xs)
  obtain a v where x: "x = (a, v)" by (cases x)
  { case 1
    then have "total (set_bal a (bal s a + v) s) = total s + unat v"
      by (intro total_add) (simp add: x)
    with 1 Cons.IH(1) [of "set_bal a (bal s a + v) s"] show ?case by (simp add: x) }
  { case 2
    then have "total (set_bal a (bal s a + v) s) = total s + unat v"
      by (intro total_add) (simp add: x)
    with 2 Cons.IH(2) [of "set_bal a (bal s a + v) s"] show ?case by (simp add: x supply_set_bal) }
qed simp_all

end

section \<open>The overlay is a ledger\<close>

definition kv_u64 :: "kv \<Rightarrow> string \<Rightarrow> u64" where
  "kv_u64 db k = (case kv_get db k of None \<Rightarrow> 0
     | Some v \<Rightarrow> if length v < 8 then 0 else le_word 8 v)"

lemma get_balance_store: "get_balance s a = kv_u64 (db_store s) (balance_key a)"
  by (simp add: get_balance_def get_u64_def db_get_def kv_u64_def value_or_def split: option.splits)

lemma get_total_supply_store: "get_total_supply s = kv_u64 (db_store s) supply_key"
  by (simp add: get_total_supply_def get_u64_def db_get_def kv_u64_def value_or_def
      split: option.splits)

lemma store_u64 [simp]:
  "db_store (put_batch_u64 c k v s) = db_store s" "db_store (put_batch_u32 c k w s) = db_store s"
  by (simp_all add: put_batch_u64_def put_batch_u32_def)

lemma overlay_put_batch [simp]:
  "lg_bal (put_batch c k v s) = lg_bal s" "lg_supply (put_batch c k v s) = lg_supply s"
  "lg_bal (del_batch c k s) = lg_bal s" "lg_supply (del_batch c k s) = lg_supply s"
  "lg_bal (raw_put k v s) = lg_bal s" "lg_supply (raw_put k v s) = lg_supply s"
  "lg_bal (raw_del k s) = lg_bal s" "lg_supply (raw_del k s) = lg_supply s"
  by (simp_all add: put_batch_def del_batch_def raw_put_def raw_del_def)

lemma wr_parts [simp]:
  "lg_bal (wr_bal c a v s) = (lg_bal s)(a \<mapsto> v)" "lg_supply (wr_bal c a v s) = lg_supply s"
  "lg_bal (wr_supply c v s) = lg_bal s" "lg_supply (wr_supply c v s) = Some v"
  "db_store (wr_bal c a v s) = db_store s" "db_store (wr_supply c v s) = db_store s"
  by (simp_all add: wr_bal_def wr_supply_def set_balance_def set_total_supply_def
      put_batch_u64_def)

lemma rd_bal_cong:
  "lg_bal s = lg_bal t \<Longrightarrow> db_store s = db_store t \<Longrightarrow> rd_bal s a = rd_bal t a"
  by (simp add: rd_bal_def get_balance_store split: option.split)

lemma rd_supply_cong:
  "lg_supply s = lg_supply t \<Longrightarrow> db_store s = db_store t \<Longrightarrow> rd_supply s = rd_supply t"
  by (simp add: rd_supply_def get_total_supply_store split: option.split)

interpretation lg: token_ledger rd_bal rd_supply "wr_bal c" "wr_supply c" for c
  by unfold_locales (simp_all add: rd_bal_def rd_supply_def get_balance_store
      get_total_supply_store split: option.split)

section \<open>What the batch leaves\<close>

definition ledger_key :: "string \<Rightarrow> bool" where
  "ledger_key k \<longleftrightarrow> starts_with k ''a:'' \<or> k = supply_key"

lemma ledger_key_balance: "ledger_key (balance_key a)"
  by (simp add: ledger_key_def balance_key_def starts_with_def)

lemma balance_key_inject [simp]: "balance_key a = balance_key b \<longleftrightarrow> a = b"
  by (simp add: balance_key_def hex_addr_def arr_eq_iff)

lemma balance_key_not_supply [simp]: "balance_key a \<noteq> supply_key" "supply_key \<noteq> balance_key a"
  by (simp_all add: balance_key_def supply_key_def)

definition coherent :: "'a ledger_st_scheme \<Rightarrow> bool" where
  "coherent s \<longleftrightarrow> (\<forall>a. kv_u64 (pending s) (balance_key a) = rd_bal s a) \<and>
     kv_u64 (pending s) supply_key = rd_supply s"

lemma kv_u64_put:
  "kv_ok db \<Longrightarrow> kv_u64 (kv_put db k (le_bytes 8 v)) k' = (if k' = k then v else kv_u64 db k')"
  by (simp add: kv_u64_def kv_get_put)

lemma kv_u64_other:
  "kv_ok db \<Longrightarrow> k' \<noteq> k \<Longrightarrow> kv_u64 (kv_put db k v) k' = kv_u64 db k'"
  "k' \<noteq> k \<Longrightarrow> kv_u64 (kv_del db k) k' = kv_u64 db k'"
  by (simp_all add: kv_u64_def kv_get_put kv_get_del)

text \<open>The invariant of a block under application.\<close>

definition sound :: "crypto \<Rightarrow> 'a ledger_st_scheme \<Rightarrow> bool" where
  "sound c s \<longleftrightarrow> tracks c s \<and> coherent s \<and> lg.conserved s"

lemma sound_parts:
  assumes "sound c s"
  shows "tracks c s" "coherent s" "lg.conserved s" "kv_ok (pending s)"
  using assms by (auto simp: sound_def intro: kv_ok_pending tracks_store)

text \<open>Whatever writes no balance and no supply keeps the invariant if it keeps the accumulator.\<close>

lemma sound_frame:
  assumes "sound c s" and "tracks c t"
    and "lg_bal t = lg_bal s" "lg_supply t = lg_supply s" "db_store t = db_store s"
    and "\<And>k. ledger_key k \<Longrightarrow> kv_u64 (pending t) k = kv_u64 (pending s) k"
  shows "sound c t"
proof -
  have "rd_bal t a = rd_bal s a" for a using assms(3,5) by (rule rd_bal_cong)
  moreover have "rd_supply t = rd_supply s" using assms(4,5) by (rule rd_supply_cong)
  moreover have "ledger_key supply_key" by (simp add: ledger_key_def)
  ultimately show ?thesis
    using assms(1,2,6) ledger_key_balance
    by (simp add: sound_def coherent_def lg.conserved_def lg.total_def)
qed

named_theorems sound_intros \<open>writers keep the invariant of a block under application\<close>

lemma sound_put_batch [sound_intros]:
  assumes "sound c s" and "\<not> ledger_key k"
  shows "sound c (put_batch c k v s)"
  by (rule sound_frame [OF assms(1)])
    (use assms sound_parts [OF assms(1)] in
      \<open>auto simp: tracks_put_batch intro!: kv_u64_other\<close>)

lemma sound_del_batch [sound_intros]:
  assumes "sound c s" and "\<not> ledger_key k"
  shows "sound c (del_batch c k s)"
  by (rule sound_frame [OF assms(1)])
    (use assms sound_parts [OF assms(1)] in
      \<open>auto simp: tracks_del_batch intro!: kv_u64_other\<close>)

lemma ledger_key_state: "ledger_key k \<Longrightarrow> has_state_prefix k"
  by (auto simp: ledger_key_def has_state_prefix_def kStatePrefixes_def)

lemma sound_raw_put [sound_intros]:
  assumes "sound c s" and "\<not> has_state_prefix k"
  shows "sound c (raw_put k v s)"
  by (rule sound_frame [OF assms(1)])
    (use assms sound_parts [OF assms(1)] ledger_key_state in
      \<open>auto simp: tracks_raw_put intro!: kv_u64_other\<close>)

lemma sound_raw_del [sound_intros]:
  assumes "sound c s" and "\<not> has_state_prefix k"
  shows "sound c (raw_del k s)"
  by (rule sound_frame [OF assms(1)])
    (use assms sound_parts [OF assms(1)] ledger_key_state in
      \<open>auto simp: tracks_raw_del intro!: kv_u64_other\<close>)

lemma not_ledger_keys:
  "\<not> ledger_key (''s:'' @ r)" "\<not> ledger_key (''pp:'' @ r)" "\<not> ledger_key (''u:'' @ r)"
  "\<not> ledger_key (''us:'' @ r)" "\<not> ledger_key (''nv:'' @ r)" "\<not> ledger_key (''m:'' @ r)"
  "\<not> ledger_key (''d:'' @ r)" "\<not> ledger_key (''founder:'' @ r)" "\<not> ledger_key (''mlvl:'' @ r)"
  "\<not> ledger_key (''mpub:'' @ r)" "\<not> ledger_key (''mact:'' @ r)" "\<not> ledger_key (''label:'' @ r)"
  "\<not> ledger_key (''art_label:'' @ r)" "\<not> ledger_key (''un:'' @ r)" "\<not> ledger_key (''addrun:'' @ r)"
  "\<not> ledger_key (''prop:'' @ r)" "\<not> ledger_key (''propstatus:'' @ r)"
  "\<not> ledger_key (''propvote:'' @ r)" "\<not> ledger_key (''rv:'' @ r)" "\<not> ledger_key (''ra:'' @ r)"
  "\<not> ledger_key (''rc:'' @ r)" "\<not> ledger_key (''rt:'' @ r)" "\<not> ledger_key (''rh:'' @ r)"
  "\<not> ledger_key (''v:'' @ r)" "\<not> ledger_key (''va:'' @ r)" "\<not> ledger_key (''cp:'' @ r)"
  "\<not> ledger_key (''slashed:'' @ r)" "\<not> ledger_key (''f:'' @ r)" "\<not> ledger_key (''fph:'' @ r)"
  "\<not> ledger_key (''i:'' @ r)" "\<not> ledger_key (''sm:'' @ r)" "\<not> ledger_key (''ia:'' @ r)"
  "\<not> ledger_key (''ig:'' @ r)" "\<not> ledger_key (''bh:'' @ r)" "\<not> ledger_key (''b:'' @ r)"
  "\<not> ledger_key (''h:'' @ r)" "\<not> ledger_key (''cw:'' @ r)" "\<not> ledger_key (''n:'' @ r)"
  "\<not> ledger_key (''k:'' @ r)" "\<not> ledger_key (''t:'' @ r)" "\<not> ledger_key (''sp:'' @ r)"
  "\<not> ledger_key (''sr:'' @ r)" "\<not> ledger_key (''p:'' @ r)" "\<not> ledger_key (''pt:'' @ r)"
  by (simp_all add: ledger_key_def starts_with_def supply_key_def)

lemmas not_ledger_keys_simp [simp] = not_ledger_keys [simplified]

lemma not_ledger_keys_exact [simp]: "\<not> ledger_key ''founder:''" "\<not> ledger_key ''rt:cur''"
  by (simp_all add: ledger_key_def starts_with_def supply_key_def)

lemma sound_writers [sound_intros]:
  assumes "sound c s"
  shows "sound c (set_song_state c ch st s)" "sound c (mark_play_credit c ch ad s)"
    "sound c (update_song_state c pr n s)" "sound c (mark_session_used c ch s)"
    "sound c (set_nonce c ad b s)" "sound c (mark_song_deleted c ch s)"
    "sound c (set_founder c ad s)" "sound c (set_mod_level c ad lv s)"
    "sound c (set_mod_pubkey c ad pk s)" "sound c (set_mod_active_block c ad a s)"
    "sound c (set_label c nm df s)" "sound c (assign_artist_label c ad nm s)"
    "sound c (set_username c nm ad s)" "sound c (put_proposal c ch raw s)"
    "sound c (set_proposal_status c ch lv s)" "sound c (add_proposal_vote c ch ad s)"
    "sound c (set_rating c ch ad lv s)" "sound c (set_rating_counts c ch rc s)"
    "sound c (set_rating_policy c po s)" "sound c (set_rating_hide c ch hi s)"
  using assms
  by (simp_all add: put_batch_u32_def put_batch_u64_def set_song_state_def mark_play_credit_def
      update_song_state_def mark_session_used_def set_nonce_def mark_song_deleted_def
      set_founder_def set_mod_level_def set_mod_pubkey_def set_mod_active_block_def set_label_def
      assign_artist_label_def set_username_def put_proposal_def set_proposal_status_def
      add_proposal_vote_def set_rating_def set_rating_counts_def set_rating_policy_def
      set_rating_hide_def play_credit_key_def session_key_def vote_prefix_def rating_key_def
      Let_def sound_put_batch sound_del_batch sound_raw_del)

section \<open>Conservation of the operations\<close>

lemma pending_wr [simp]:
  "pending (wr_bal c a v s) = kv_put (pending s) (balance_key a) (le_bytes 8 v)"
  "pending (wr_supply c w s) = kv_put (pending s) supply_key (le_bytes 8 w)"
  by (simp_all add: wr_bal_def wr_supply_def set_balance_def set_total_supply_def
      put_batch_u64_def) (simp_all add: pending_def)

lemma coherent_wr:
  assumes "coherent s" and "kv_ok (pending s)"
  shows "coherent (wr_bal c a v s)" "coherent (wr_supply c w s)"
  using assms by (auto simp: coherent_def lg.bal_set_bal lg.supply_set_bal lg.bal_set_supply
      lg.supply_set_supply kv_u64_put)

lemma tracks_wr:
  assumes "tracks c s"
  shows "tracks c (wr_bal c a v s)" "tracks c (wr_supply c w s)"
proof -
  have "tracks c (s\<lparr>lg_bal := b\<rparr>)" "tracks c (s\<lparr>lg_supply := t\<rparr>)" for b t
    using assms by (simp_all add: tracks_def split: option.splits)
  then show "tracks c (wr_bal c a v s)" "tracks c (wr_supply c w s)"
    by (simp_all add: wr_bal_def wr_supply_def tracks_writers)
qed

definition in_step :: "crypto \<Rightarrow> 'a ledger_st_scheme \<Rightarrow> bool" where
  "in_step c s \<longleftrightarrow> tracks c s \<and> coherent s"

lemma in_step_wr:
  assumes "in_step c s"
  shows "in_step c (wr_bal c a v s)" "in_step c (wr_supply c w s)"
proof -
  have t: "tracks c s" and co: "coherent s" using assms by (simp_all add: in_step_def)
  have "kv_ok (pending s)" by (rule kv_ok_pending [OF tracks_store [OF t]])
  with t co show "in_step c (wr_bal c a v s)" "in_step c (wr_supply c w s)"
    by (simp_all add: in_step_def tracks_wr coherent_wr)
qed

lemma sound_in_step: "sound c s \<longleftrightarrow> in_step c s \<and> lg.conserved s"
  by (auto simp: sound_def in_step_def)

lemma sound_transfer:
  assumes "sound c s"
  shows "sound c (snd (Ledger_transfer c a b amount s))"
  using assms lg.conserved_move [of s amount a b c]
  by (auto simp: Ledger_transfer_def Let_def sound_in_step in_step_wr not_less)

lemma sound_credit:
  assumes "sound c s" and "unat (rd_supply s) + unat amount \<le> 2 * 10 ^ 17"
  shows "sound c (Ledger_credit c a amount s)"
  using assms lg.conserved_mint [of s amount c a]
  by (auto simp: Ledger_credit_def Let_def sound_in_step in_step_wr lg.supply_set_bal)

lemma sound_debit_burn:
  assumes "sound c s" and "amount \<le> rd_bal s a"
  shows "sound c (Ledger_decrement_supply c amount (snd (Ledger_debit c a amount s)))"
proof (cases "amount = 0")
  case True
  have "wr_supply c (rd_supply s) s = wr_supply c (rd_supply s - 0) s" by simp
  moreover have "lg.conserved (wr_supply c (rd_supply s) s)"
    using assms(1) by (simp add: sound_in_step lg.conserved_def lg.supply_set_supply)
  ultimately show ?thesis
    using True assms(1) by (simp add: Ledger_decrement_supply_def Ledger_debit_def sound_in_step
        in_step_wr Let_def)
next
  case False
  have "amount \<le> rd_supply s"
    using assms lg.bal_le_total [of s a] by (simp add: sound_in_step lg.conserved_def word_le_nat_alt)
  with False assms lg.conserved_burn [of s amount a c] show ?thesis
    by (simp add: Ledger_decrement_supply_def Ledger_debit_def sound_in_step in_step_wr Let_def
        lg.supply_set_bal leD)
qed

section \<open>Batched credits\<close>

definition sum_units :: "(address \<times> u64) list \<Rightarrow> nat" where
  "sum_units xs = (\<Sum>(a, v)\<leftarrow>xs. unat v)"

lemma sum_units_simps [simp]:
  "sum_units [] = 0" "sum_units ((a, v) # xs) = unat v + sum_units xs"
  "sum_units (xs @ ys) = sum_units xs + sum_units ys"
  by (simp_all add: sum_units_def)

lemma sum_units_amap_add:
  "sum_units m + unat v < 2 ^ 64 \<Longrightarrow> sum_units (amap_add a v m) = sum_units m + unat v"
proof (induction a v m rule: amap_add.induct)
  case (2 a v b w m)
  have "unat (w + v) = unat w + unat v"
    unfolding unat_add_mod by (rule mod_less) (use "2.prems" in simp)
  with 2 show ?case by simp
qed simp

lemma per_addr_snoc:
  "per_addr (xs @ [(a, v)]) = (if v = 0 then per_addr xs else amap_add a v (per_addr xs))"
  by (simp add: per_addr_def)

lemma total_minted_snoc: "total_minted (xs @ [(a, v)]) = total_minted xs + v"
  by (simp add: total_minted_def)

lemma sum_units_per_addr: "sum_units outs < 2 ^ 64 \<Longrightarrow> sum_units (per_addr outs) = sum_units outs"
proof (induction outs rule: rev_induct)
  case (snoc x xs)
  then show ?case by (cases x) (auto simp: per_addr_snoc sum_units_amap_add)
qed (simp add: per_addr_def)

lemma unat_total_minted: "sum_units outs < 2 ^ 64 \<Longrightarrow> unat (total_minted outs) = sum_units outs"
proof (induction outs rule: rev_induct)
  case (snoc x xs)
  obtain a v where x: "x = (a, v)" by (cases x)
  from snoc x have "unat (total_minted xs) = sum_units xs" and "sum_units xs + unat v < 2 ^ 64"
    by simp_all
  then have "unat (total_minted xs + v) = sum_units xs + unat v"
    unfolding unat_add_mod by simp
  with x show ?case by (simp add: total_minted_snoc)
qed (simp add: total_minted_def)

lemma in_step_foldl_wr:
  "in_step c s \<Longrightarrow> in_step c (foldl (\<lambda>s (a, v). wr_bal c a (rd_bal s a + v) s) s xs)"
  by (induction xs arbitrary: s) (auto simp: in_step_wr)

lemma sound_credit_many:
  assumes "sound c s" and "unat (rd_supply s) + sum_units outs \<le> 2 * 10 ^ 17"
  shows "sound c (Ledger_credit_many c outs s)"
proof -
  let ?t = "foldl (\<lambda>s (a, v). wr_bal c a (rd_bal s a + v) s) s (per_addr outs)"
  have bound: "sum_units outs < 2 ^ 64" using assms(2) by simp
  have total: "lg.total s = unat (rd_supply s)"
    using assms(1) by (simp add: sound_in_step lg.conserved_def)
  have room: "lg.total s + (\<Sum>(a, v)\<leftarrow>per_addr outs. unat v) < 2 ^ 64"
    using assms(2) total sum_units_per_addr [OF bound] by (simp add: sum_units_def)
  have t: "lg.total ?t = lg.total s + sum_units outs" "rd_supply ?t = rd_supply s"
    using lg.foldl_credits [OF room, of c] sum_units_per_addr [OF bound]
    by (simp_all add: sum_units_def)
  have step: "in_step c ?t" using assms(1) by (simp add: sound_in_step in_step_foldl_wr)
  have sum: "unat (rd_supply s + total_minted outs) = unat (rd_supply s) + sum_units outs"
    unfolding unat_add_mod unat_total_minted [OF bound] by (rule mod_less) (use assms(2) in simp)
  show ?thesis
  proof (cases "0 < total_minted outs")
    case True
    have "lg.conserved (wr_supply c (rd_supply ?t + total_minted outs) ?t)"
      using t total sum assms(2) by (simp add: lg.conserved_def lg.supply_set_supply)
    with True step show ?thesis
      by (simp add: Ledger_credit_many_def Let_def sound_in_step in_step_wr)
  next
    case False
    then have "sum_units outs = 0" using unat_total_minted [OF bound] by (simp add: word_gt_0)
    with t total step assms(1) False show ?thesis
      by (simp add: Ledger_credit_many_def sound_in_step lg.conserved_def)
  qed
qed

end
