(* ===== verification/Fingerprint.thy ===== *)
theory Fingerprint
  imports Prelude
begin

text \<open>
  \<open>src/bopwire/src/audio/fingerprint.cpp\<close>: the integer part of fingerprint comparison that
  consensus depends on. A fingerprint is its list of 32-bit frames. The lemmas say what the
  offset search finds (an overlap whose match ratio no other offset exceeds), when a
  fingerprint matches itself, and that short self-similar ones do not.
\<close>

section \<open>Definitions\<close>

definition popcount :: "u32 \<Rightarrow> nat" where
  "popcount w = length (filter (bit w) [0..<32])"

definition fp_char_ok :: "char \<Rightarrow> bool" where
  "fp_char_ok ch = (let n = (of_char ch :: nat) in
     (65 \<le> n \<and> n \<le> 90) \<or> (97 \<le> n \<and> n \<le> 122) \<or> (48 \<le> n \<and> n \<le> 57) \<or>
     ch = CHR ''-'' \<or> ch = CHR ''_'')"

definition Fingerprint_from_compressed :: "crypto \<Rightarrow> string \<Rightarrow> u32 list option" where
  "Fingerprint_from_compressed c encoded =
     (if encoded = [] \<or> 4 * 1024 * 1024 < length encoded then None
      else if \<not> list_all fp_char_ok encoded then None
      else case chromaprint_decode c encoded of None \<Rightarrow> None
        | Some fp \<Rightarrow> if fp = [] then None else Some fp)"

definition offset_range :: "nat \<Rightarrow> nat \<Rightarrow> nat" where
  "offset_range la lb = (let r = min la lb div 4 in if r < 1 then 1 else r)"

text \<open>The overlap at an offset: its length and the number of frames within two bits.\<close>

definition overlap_len :: "u32 list \<Rightarrow> u32 list \<Rightarrow> int \<Rightarrow> nat" where
  "overlap_len a b off = min (length a - nat (max 0 (- off))) (length b - nat (max 0 off))"

definition overlap_matching :: "u32 list \<Rightarrow> u32 list \<Rightarrow> int \<Rightarrow> nat" where
  "overlap_matching a b off =
     (let ai_start = nat (max 0 (- off)); bi_start = nat (max 0 off) in
      length (filter (\<lambda>i. popcount ((a ! (ai_start + i)) XOR (b ! (bi_start + i))) \<le> 2)
        [0..<overlap_len a b off]))"

definition overlap_step :: "u32 list \<Rightarrow> u32 list \<Rightarrow> nat \<times> nat \<Rightarrow> int \<Rightarrow> nat \<times> nat" where
  "overlap_step a b best off =
     (let best_matching = fst best; best_len = snd best;
          len = overlap_len a b off; matching = overlap_matching a b off
      in if len = 0 then best
         else if best_len = 0 \<or> best_matching * len < matching * best_len then (matching, len)
         else best)"

definition compute_best_overlap :: "u32 list \<Rightarrow> u32 list \<Rightarrow> nat \<times> nat" where
  "compute_best_overlap a b =
     (if a = [] \<or> b = [] then (0, 0)
      else let r = int (offset_range (length a) (length b));
               best = foldl (overlap_step a b) (0, 0) [- r .. r];
               shorter = min (length a) (length b);
               min_overlap = max 256 (shorter * 3 div 10)
           in if snd best < min_overlap then (0, 0) else best)"

definition same_song :: "u32 list \<Rightarrow> u32 list \<Rightarrow> bool" where
  "same_song a b =
     (let (best_matching, best_len) = compute_best_overlap a b in
      if best_len = 0 then False else best_len * 70 \<le> best_matching * 100)"

definition bucket_ids :: "u32 list \<Rightarrow> u16 list" where
  "bucket_ids raw =
     (if raw = [] then []
      else let n = length raw; count = min n 100 in
           remdups_adj (sort (map (\<lambda>i. ucast (drop_bit 16 (raw ! (i * n div count)))) [0..<count])))"

section \<open>What the offset search finds\<close>

lemma overlap_matching_le: "overlap_matching a b off \<le> overlap_len a b off"
  unfolding overlap_matching_def Let_def
  by (rule le_trans [OF length_filter_le]) simp

lemma ratio_trans:
  assumes "(a :: nat) * d \<le> c * b" and "c * f \<le> e * d" and "0 < d"
  shows "a * f \<le> e * b"
proof -
  have "a * f * d \<le> c * b * f" using assms(1) by (metis mult.assoc mult.commute mult_le_mono1)
  also have "\<dots> \<le> e * d * b" using assms(2) by (metis mult.assoc mult.commute mult_le_mono1)
  finally have "a * f * d \<le> e * b * d" by (simp add: ac_simps)
  with assms(3) show ?thesis by simp
qed

definition best_of :: "u32 list \<Rightarrow> u32 list \<Rightarrow> int list \<Rightarrow> nat \<times> nat \<Rightarrow> bool" where
  "best_of a b offs best \<longleftrightarrow>
     (snd best = 0 \<longrightarrow> best = (0, 0) \<and> (\<forall>off \<in> set offs. overlap_len a b off = 0)) \<and>
     (0 < snd best \<longrightarrow>
        (\<exists>off \<in> set offs. best = (overlap_matching a b off, overlap_len a b off)) \<and>
        (\<forall>off \<in> set offs. 0 < overlap_len a b off \<longrightarrow>
           overlap_matching a b off * snd best \<le> fst best * overlap_len a b off))"

lemma best_of_step:
  assumes "best_of a b offs best"
  shows "best_of a b (offs @ [off]) (overlap_step a b best off)"
proof -
  let ?m = "overlap_matching a b" and ?l = "overlap_len a b"
  obtain bm bl where best: "best = (bm, bl)" by (cases best)
  consider (empty) "?l off = 0" | (first) "0 < ?l off" "bl = 0"
    | (better) "0 < ?l off" "0 < bl" "bm * ?l off < ?m off * bl"
    | (keep) "0 < ?l off" "0 < bl" "?m off * bl \<le> bm * ?l off"
    by linarith
  then show ?thesis
  proof cases
    case empty
    with assms best show ?thesis by (auto simp: best_of_def overlap_step_def)
  next
    case first
    with assms best show ?thesis by (auto simp: best_of_def overlap_step_def)
  next
    case better
    then have step: "overlap_step a b best off = (?m off, ?l off)"
      by (simp add: overlap_step_def best)
    have "?m o' * ?l off \<le> ?m off * ?l o'" if "o' \<in> set offs" "0 < ?l o'" for o'
    proof (rule ratio_trans)
      show "?m o' * bl \<le> bm * ?l o'" using assms best better that by (simp add: best_of_def)
      show "bm * ?l off \<le> ?m off * bl" using better by simp
    qed (use better in simp)
    with better step show ?thesis by (auto simp: best_of_def)
  next
    case keep
    then have "overlap_step a b best off = best" by (simp add: overlap_step_def best)
    with keep assms best show ?thesis by (auto simp: best_of_def)
  qed
qed

lemma best_of_foldl: "best_of a b offs (foldl (overlap_step a b) (0, 0) offs)"
proof (induction offs rule: rev_induct)
  case Nil
  then show ?case by (simp add: best_of_def)
next
  case (snoc off offs)
  then show ?case using best_of_step by simp
qed

text \<open>
  The overlap compared against the threshold is one of the offsets searched, no offset has
  a better ratio, and the verdict is the ratio against 70 percent.
\<close>

lemma same_song_iff:
  assumes "a \<noteq> []" and "b \<noteq> []"
  obtains bm bl where "best_of a b [- int (offset_range (length a) (length b)) ..
      int (offset_range (length a) (length b))] (bm, bl)"
    and "same_song a b \<longleftrightarrow>
      max 256 (min (length a) (length b) * 3 div 10) \<le> bl \<and> bl * 70 \<le> bm * 100"
proof -
  let ?r = "int (offset_range (length a) (length b))"
  obtain bm bl where best: "foldl (overlap_step a b) (0, 0) [- ?r .. ?r] = (bm, bl)"
    by (cases "foldl (overlap_step a b) (0, 0) [- ?r .. ?r]")
  have "same_song a b \<longleftrightarrow>
      max 256 (min (length a) (length b) * 3 div 10) \<le> bl \<and> bl * 70 \<le> bm * 100"
    using assms by (auto simp: same_song_def compute_best_overlap_def Let_def best)
  moreover have "best_of a b [- ?r .. ?r] (bm, bl)" using best_of_foldl [of a b] best by metis
  ultimately show thesis by (rule that [rotated])
qed

lemma popcount_0 [simp]: "popcount 0 = 0"
  by (simp add: popcount_def)

lemma overlap_self: "overlap_matching a a 0 = length a" "overlap_len a a 0 = length a"
  by (simp_all add: overlap_matching_def overlap_len_def)

lemma same_song_self:
  assumes "341 \<le> length a"
  shows "same_song a a"
proof -
  let ?n = "length a" and ?r = "offset_range (length a) (length a)"
  have r: "?r = ?n div 4" using assms by (simp add: offset_range_def Let_def)
  have ne: "a \<noteq> []" using assms by auto
  obtain bm bl where best: "best_of a a [- int ?r .. int ?r] (bm, bl)"
    and verdict: "same_song a a \<longleftrightarrow> max 256 (min ?n ?n * 3 div 10) \<le> bl \<and> bl * 70 \<le> bm * 100"
    using same_song_iff [OF ne ne] by blast
  have zero: "(0 :: int) \<in> set [- int ?r .. int ?r]" by simp
  have "bl \<noteq> 0"
  proof
    assume "bl = 0"
    with best zero have "overlap_len a a 0 = 0" unfolding best_of_def by auto
    with assms show False by (simp add: overlap_self)
  qed
  then have pos: "0 < snd (bm, bl)" by simp
  with best have ex: "\<exists>off \<in> set [- int ?r .. int ?r].
      (bm, bl) = (overlap_matching a a off, overlap_len a a off)"
    and all: "\<forall>off \<in> set [- int ?r .. int ?r]. 0 < overlap_len a a off \<longrightarrow>
      overlap_matching a a off * snd (bm, bl) \<le> fst (bm, bl) * overlap_len a a off"
    unfolding best_of_def by blast+
  have ratio: "?n * bl \<le> bm * ?n"
    using bspec [OF all zero] assms by (simp add: overlap_self)
  from ex obtain off where off: "off \<in> set [- int ?r .. int ?r]" "bl = overlap_len a a off"
    by blast
  have "nat (max 0 (- off)) \<le> ?r" "nat (max 0 off) \<le> ?r" using off(1) by auto
  then have "?n - ?r \<le> bl" unfolding off(2) overlap_len_def
    by (auto simp del: nat_le_iff intro: diff_le_mono2)
  moreover have "max 256 (?n * 3 div 10) \<le> ?n - ?n div 4" using assms by linarith
  moreover have "0 < ?n" using assms by linarith
  with ratio have "bl \<le> bm" by (metis mult.commute mult_le_cancel1)
  ultimately show ?thesis unfolding verdict r by simp
qed

section \<open>Short self-similar fingerprints\<close>

text \<open>
  A strict comparison keeps the first of several equal ratios, and the search starts at the
  most negative offset. Two constant fingerprints match perfectly at every offset, so the
  overlap kept is the shortest one, which below 341 frames is under the floor of 256.
\<close>

lemma overlap_matching_replicate:
  "overlap_matching (replicate n x) (replicate n x) off = overlap_len (replicate n x) (replicate n x) off"
proof -
  have "filter (\<lambda>i. popcount (replicate n x ! (nat (max 0 (- off)) + i) XOR
      replicate n x ! (nat (max 0 off) + i)) \<le> 2)
      [0..<overlap_len (replicate n x) (replicate n x) off] =
      [0..<overlap_len (replicate n x) (replicate n x) off]"
    by (rule filter_True) (auto simp: overlap_len_def)
  then show ?thesis by (simp add: overlap_matching_def)
qed

lemma foldl_keep_first:
  "0 < l \<Longrightarrow> foldl (overlap_step (replicate n x) (replicate n x)) (l, l) offs = (l, l)"
  by (induction offs) (auto simp: overlap_step_def overlap_matching_replicate Let_def)

lemma same_song_constant:
  assumes "256 \<le> n" and "n < 341"
  shows "\<not> same_song (replicate n x) (replicate n x)"
proof -
  let ?a = "replicate n x" and ?r = "int (n div 4)"
  have r: "offset_range n n = n div 4"
    using assms(1) by (simp add: offset_range_def Let_def)
  have first: "overlap_len ?a ?a (- ?r) = n - n div 4"
    by (simp add: overlap_len_def)
  have offs: "[- ?r .. ?r] = - ?r # [- ?r + 1 .. ?r]" by (rule upto_rec1) simp
  have pos: "0 < n - n div 4" using assms by linarith
  have "foldl (overlap_step ?a ?a) (0, 0) [- ?r .. ?r] = (n - n div 4, n - n div 4)"
    using pos foldl_keep_first [OF pos, of n x]
    by (simp add: offs overlap_step_def first overlap_matching_replicate Let_def)
  moreover have "n - n div 4 < 256" using assms by linarith
  ultimately show ?thesis
    using assms by (simp add: same_song_def compute_best_overlap_def r Let_def)
qed

end
