(* ===== verification/Catalog.thy ===== *)
theory Catalog
  imports Ledger_Laws Fingerprint
begin

text \<open>
  The song tables of \<open>database.cpp\<close> (fingerprint and bucket index, metadata, artist and genre
  index, content height, resolution of a \<open>SongSection\<close>), the mempool rows, and
  \<open>song_on_chain\<close> of \<open>chain.cpp\<close>. The lemmas: what the fingerprint row holds after it is
  written, and when a song counts as being on chain.
\<close>

section \<open>Hash lists and buckets\<close>

definition parse_hash_list :: "bytes \<Rightarrow> hash256 list" where
  "parse_hash_list data = map (\<lambda>i. mk_arr (take 32 (drop (32 * i) data))) [0..<length data div 32]"

definition pack_hash_list :: "hash256 list \<Rightarrow> bytes" where
  "pack_hash_list hs = concat (map arr_bytes hs)"

definition bucket_key :: "u16 \<Rightarrow> string" where
  "bucket_key bid = ''i:'' @ map (\<lambda>i. hex_digit (unat (drop_bit (4 * i) bid AND 0xF))) [3, 2, 1, 0]"

definition get_bucket :: "'a dbst_scheme \<Rightarrow> u16 \<Rightarrow> hash256 list" where
  "get_bucket s bid = (case db_get s (bucket_key bid) of None \<Rightarrow> [] | Some v \<Rightarrow> parse_hash_list v)"

definition add_to_bucket :: "crypto \<Rightarrow> u16 \<Rightarrow> hash256 \<Rightarrow> 'a dbst_scheme \<Rightarrow> 'a dbst_scheme" where
  "add_to_bucket c bid ch s =
     (let existing = get_bucket s bid in
      if ch \<in> set existing then s
      else put_batch c (bucket_key bid) (pack_hash_list (existing @ [ch])) s)"

definition remove_from_bucket :: "crypto \<Rightarrow> u16 \<Rightarrow> hash256 \<Rightarrow> 'a dbst_scheme \<Rightarrow> 'a dbst_scheme" where
  "remove_from_bucket c bid ch s =
     (let data = pack_hash_list (filter (\<lambda>h. h \<noteq> ch) (get_bucket s bid)) in
      if data = [] then del_batch c (bucket_key bid) s else put_batch c (bucket_key bid) data s)"

section \<open>Fingerprint index\<close>

record FingerprintEntry =
  fe_compressed_fingerprint :: string
  fe_block_hash :: hash256

definition put_fingerprint :: "crypto \<Rightarrow> SongSection \<Rightarrow> 'a dbst_scheme \<Rightarrow> 'a dbst_scheme" where
  "put_fingerprint c song s =
     (case Fingerprint_from_compressed c (song_compressed_fingerprint song) of None \<Rightarrow> s
      | Some fp \<Rightarrow>
          let comp = song_compressed_fingerprint song;
              flen = (word_of_nat (length comp) :: u16);
              entry = write_u16le flen @ str_bytes comp @ arr_bytes (song_content_hash song);
              s = put_batch c (''f:'' @ hex_hash (song_content_hash song)) entry s;
              s = put_batch c (''fph:'' @ hex_hash (sha256 c (str_bytes comp)))
                    (arr_bytes (song_content_hash song)) s
          in foldl (\<lambda>s b. add_to_bucket c b (song_content_hash song) s) s (bucket_ids fp))"

definition parse_fingerprint_entry :: "bytes \<Rightarrow> FingerprintEntry option" where
  "parse_fingerprint_entry v =
     (if length v < 34 then None
      else let flen = unat (ucast (v ! 0) OR push_bit 8 (ucast (v ! 1)) :: u16) in
           if length v < 2 + flen + 32 then None
           else Some \<lparr>fe_compressed_fingerprint = bytes_str (take flen (drop 2 v)),
                      fe_block_hash = mk_arr (take 32 (drop (2 + flen) v))\<rparr>)"

definition get_fingerprint :: "'a dbst_scheme \<Rightarrow> hash256 \<Rightarrow> FingerprintEntry option" where
  "get_fingerprint s ch = Option.bind (db_get s (''f:'' @ hex_hash ch)) parse_fingerprint_entry"

definition del_fingerprint :: "crypto \<Rightarrow> hash256 \<Rightarrow> 'a dbst_scheme \<Rightarrow> 'a dbst_scheme" where
  "del_fingerprint c ch s =
     (case get_fingerprint s ch of None \<Rightarrow> s
      | Some entry \<Rightarrow>
          let s = (case Fingerprint_from_compressed c (fe_compressed_fingerprint entry) of
                     None \<Rightarrow> s
                   | Some fp \<Rightarrow> foldl (\<lambda>s b. remove_from_bucket c b ch s) s (bucket_ids fp));
              s = del_batch c (''f:'' @ hex_hash ch) s
          in del_batch c
               (''fph:'' @ hex_hash (sha256 c (str_bytes (fe_compressed_fingerprint entry)))) s)"

definition get_content_hash_for_fingerprint :: "'a dbst_scheme \<Rightarrow> hash256 \<Rightarrow> hash256 option" where
  "get_content_hash_for_fingerprint s fh = (case db_get s (''fph:'' @ hex_hash fh) of None \<Rightarrow> None
     | Some v \<Rightarrow> if length v \<noteq> 32 then None else Some (mk_arr v))"

section \<open>Metadata and indexes\<close>

definition put_song_meta :: "crypto \<Rightarrow> hash256 \<Rightarrow> SongSection \<Rightarrow> 'a dbst_scheme \<Rightarrow> 'a dbst_scheme" where
  "put_song_meta c ch song s =
     (let nul = [CHR 0x00];
          entry = song_title song @ nul @ song_artist song @ nul @ song_genre song @ nul @
            song_album song @ nul @ to_dec (unat (song_duration_ms song)) @ nul @
            to_dec (unat (song_year song)) @ nul @ to_dec (unat (song_track_number song))
      in put_batch c (''sm:'' @ hex_hash ch) (str_bytes entry) s)"

definition get_all_song_hashes :: "'a dbst_scheme \<Rightarrow> hash256 list" where
  "get_all_song_hashes s =
     List.map_filter (\<lambda>(k, _). parse_hash256 (drop 3 k)) (for_each_with_prefix s ''sm:'')"

definition add_to_index :: "crypto \<Rightarrow> string \<Rightarrow> hash256 \<Rightarrow> 'a dbst_scheme \<Rightarrow> 'a dbst_scheme" where
  "add_to_index c key ch s =
     (let existing = (case db_get s key of Some v \<Rightarrow> parse_hash_list v | None \<Rightarrow> []) in
      if ch \<in> set existing then s else put_batch c key (pack_hash_list (existing @ [ch])) s)"

definition add_to_artist_index :: "crypto \<Rightarrow> string \<Rightarrow> hash256 \<Rightarrow> 'a dbst_scheme \<Rightarrow> 'a dbst_scheme" where
  "add_to_artist_index c artist ch s = add_to_index c (''ia:'' @ lower artist) ch s"

definition add_to_genre_index :: "crypto \<Rightarrow> string \<Rightarrow> hash256 \<Rightarrow> 'a dbst_scheme \<Rightarrow> 'a dbst_scheme" where
  "add_to_genre_index c genre ch s = add_to_index c (''ig:'' @ lower genre) ch s"

definition get_songs_by_artist :: "'a dbst_scheme \<Rightarrow> string \<Rightarrow> hash256 list" where
  "get_songs_by_artist s artist =
     (case db_get s (''ia:'' @ lower artist) of Some v \<Rightarrow> parse_hash_list v | None \<Rightarrow> [])"

definition get_songs_by_genre :: "'a dbst_scheme \<Rightarrow> string \<Rightarrow> hash256 list" where
  "get_songs_by_genre s genre =
     (case db_get s (''ig:'' @ lower genre) of Some v \<Rightarrow> parse_hash_list v | None \<Rightarrow> [])"

definition set_content_height :: "crypto \<Rightarrow> hash256 \<Rightarrow> u32 \<Rightarrow> 'a dbst_scheme \<Rightarrow> 'a dbst_scheme" where
  "set_content_height c ch h s = put_batch_u32 c (''bh:'' @ hex_hash ch) h s"

definition get_content_height :: "'a dbst_scheme \<Rightarrow> hash256 \<Rightarrow> u32 option" where
  "get_content_height s ch = get_u32 s (''bh:'' @ hex_hash ch)"

definition height_key :: "u32 \<Rightarrow> string" where
  "height_key h = ''n:'' @ to_dec (unat h)"

definition block_key :: "hash256 \<Rightarrow> string" where
  "block_key h = ''b:'' @ hex_hash h"

definition get_song_section :: "'a dbst_scheme \<Rightarrow> hash256 \<Rightarrow> SongSection option" where
  "get_song_section s ch = do {
     h \<leftarrow> get_content_height s ch;
     hraw \<leftarrow> db_get s (height_key h);
     if length hraw \<noteq> 32 then None
     else do {
       braw \<leftarrow> db_get s (block_key (mk_arr hraw));
       blk \<leftarrow> Block_deserialize braw;
       blk_song blk
     }
   }"

section \<open>Mempool rows\<close>

definition put_pending_tx :: "hash256 \<Rightarrow> bytes \<Rightarrow> kv \<Rightarrow> kv" where
  "put_pending_tx h tx db = kv_put db (''p:'' @ hex_hash h) tx"

definition del_pending_tx :: "hash256 \<Rightarrow> kv \<Rightarrow> kv" where
  "del_pending_tx h db = kv_del (kv_del db (''pt:'' @ hex_hash h)) (''p:'' @ hex_hash h)"

definition get_all_pending_txs :: "kv \<Rightarrow> (hash256 \<times> bytes) list" where
  "get_all_pending_txs db = List.map_filter
     (\<lambda>(k, v). map_option (\<lambda>h. (h, v)) (parse_hash256 (drop 2 k))) (kv_scan db ''p:'')"

definition has_pending_tx :: "kv \<Rightarrow> hash256 \<Rightarrow> bool" where
  "has_pending_tx db h \<longleftrightarrow> kv_get db (''p:'' @ hex_hash h) \<noteq> None"

definition put_pending_tx_submit_ms :: "hash256 \<Rightarrow> u64 \<Rightarrow> kv \<Rightarrow> kv" where
  "put_pending_tx_submit_ms h ms db = kv_put db (''pt:'' @ hex_hash h) (le_bytes 8 ms)"

definition get_pending_tx_submit_ms :: "kv \<Rightarrow> hash256 \<Rightarrow> u64 option" where
  "get_pending_tx_submit_ms db h = (case kv_get db (''pt:'' @ hex_hash h) of None \<Rightarrow> None
     | Some v \<Rightarrow> if length v < 8 then None else Some (le_word 8 v))"

definition put_pending_song :: "hash256 \<Rightarrow> string \<Rightarrow> kv \<Rightarrow> kv" where
  "put_pending_song ch payload db = kv_put db (''sp:'' @ hex_hash ch) (str_bytes payload)"

definition get_pending_song :: "kv \<Rightarrow> hash256 \<Rightarrow> string option" where
  "get_pending_song db ch = map_option bytes_str (kv_get db (''sp:'' @ hex_hash ch))"

definition del_pending_song :: "hash256 \<Rightarrow> kv \<Rightarrow> kv" where
  "del_pending_song ch db = kv_del db (''sp:'' @ hex_hash ch)"

definition get_all_pending_songs :: "kv \<Rightarrow> (hash256 \<times> string) list" where
  "get_all_pending_songs db = List.map_filter
     (\<lambda>(k, v). map_option (\<lambda>h. (h, bytes_str v)) (parse_hash256 (drop 3 k))) (kv_scan db ''sp:'')"

section \<open>Is a song on chain\<close>

text \<open>The inner loops of \<open>song_on_chain\<close>: candidates in bucket order, each looked at once.\<close>

fun probe_candidates :: "crypto \<Rightarrow> 'a dbst_scheme \<Rightarrow> hash256 \<Rightarrow> u32 list \<Rightarrow> string list \<Rightarrow>
    hash256 list \<Rightarrow> bool" where
  "probe_candidates c s ch fp seen [] = False"
| "probe_candidates c s ch fp seen (cand # cands) =
     (if cand = ch then probe_candidates c s ch fp seen cands
      else if hex_hash cand \<in> set seen then probe_candidates c s ch fp seen cands
      else case get_fingerprint s cand of
          None \<Rightarrow> probe_candidates c s ch fp (hex_hash cand # seen) cands
        | Some entry \<Rightarrow>
            (case Fingerprint_from_compressed c (fe_compressed_fingerprint entry) of
               None \<Rightarrow> probe_candidates c s ch fp (hex_hash cand # seen) cands
             | Some other \<Rightarrow> if same_song fp other then True
                 else probe_candidates c s ch fp (hex_hash cand # seen) cands))"

definition song_on_chain :: "crypto \<Rightarrow> 'a dbst_scheme \<Rightarrow> hash256 \<Rightarrow> string \<Rightarrow> bool" where
  "song_on_chain c s ch compressed \<longleftrightarrow>
     (if get_content_height s ch \<noteq> None then True
      else if get_fingerprint s ch \<noteq> None then True
      else if compressed = [] then False
      else case Fingerprint_from_compressed c compressed of
          None \<Rightarrow> False
        | Some fp \<Rightarrow> probe_candidates c s ch fp [] (concat (map (get_bucket s) (bucket_ids fp))))"

section \<open>Lemmas\<close>

definition matches_fp :: "crypto \<Rightarrow> 'a dbst_scheme \<Rightarrow> u32 list \<Rightarrow> hash256 \<Rightarrow> bool" where
  "matches_fp c s fp cand \<longleftrightarrow> (\<exists>entry other. get_fingerprint s cand = Some entry \<and>
     Fingerprint_from_compressed c (fe_compressed_fingerprint entry) = Some other \<and>
     same_song fp other)"

lemma hex_hash_inject [simp]: "hex_hash a = hex_hash b \<longleftrightarrow> a = b"
  by (simp add: hex_hash_def arr_eq_iff)

lemma hex_addr_inject [simp]: "hex_addr a = hex_addr b \<longleftrightarrow> a = b"
  by (simp add: hex_addr_def arr_eq_iff)

text \<open>The \<open>seen\<close> set only saves work: the verdict is whether some candidate matches.\<close>

lemma probe_candidates_iff:
  "(\<And>h. h \<in> set hs \<Longrightarrow> \<not> matches_fp c s fp h) \<Longrightarrow>
   probe_candidates c s ch fp (map hex_hash hs) cands \<longleftrightarrow>
     (\<exists>cand \<in> set cands. cand \<noteq> ch \<and> matches_fp c s fp cand)"
proof (induction cands arbitrary: hs)
  case (Cons cand cands)
  have seen: "hex_hash cand \<in> set (map hex_hash hs) \<longleftrightarrow> cand \<in> set hs" by auto
  show ?case
  proof (cases "cand = ch \<or> cand \<in> set hs")
    case True
    with Cons.IH [of hs] Cons.prems seen show ?thesis by auto
  next
    case new: False
    show ?thesis
    proof (cases "matches_fp c s fp cand")
      case True
      with new seen show ?thesis by (auto simp: matches_fp_def)
    next
      case False
      have "probe_candidates c s ch fp (map hex_hash hs) (cand # cands) =
          probe_candidates c s ch fp (map hex_hash (cand # hs)) cands"
        using False new seen by (auto simp: matches_fp_def split: option.splits)
      moreover have "\<And>h. h \<in> set (cand # hs) \<Longrightarrow> \<not> matches_fp c s fp h"
        using Cons.prems False by auto
      ultimately show ?thesis using Cons.IH [of "cand # hs"] False by auto
    qed
  qed
qed simp

lemma song_on_chain_iff:
  "song_on_chain c s ch compressed \<longleftrightarrow>
     get_content_height s ch \<noteq> None \<or> get_fingerprint s ch \<noteq> None \<or>
     (\<exists>fp b cand. Fingerprint_from_compressed c compressed = Some fp \<and> b \<in> set (bucket_ids fp) \<and>
        cand \<in> set (get_bucket s b) \<and> cand \<noteq> ch \<and> matches_fp c s fp cand)"
proof (cases "Fingerprint_from_compressed c compressed")
  case None
  then show ?thesis by (simp add: song_on_chain_def)
next
  case (Some fp)
  then have "compressed \<noteq> []" by (auto simp: Fingerprint_from_compressed_def)
  with Some have "song_on_chain c s ch compressed \<longleftrightarrow>
      get_content_height s ch \<noteq> None \<or> get_fingerprint s ch \<noteq> None \<or>
      probe_candidates c s ch fp [] (concat (map (get_bucket s) (bucket_ids fp)))"
    by (simp add: song_on_chain_def)
  also have "probe_candidates c s ch fp [] (concat (map (get_bucket s) (bucket_ids fp))) \<longleftrightarrow>
      (\<exists>cand \<in> set (concat (map (get_bucket s) (bucket_ids fp))).
         cand \<noteq> ch \<and> matches_fp c s fp cand)"
    using probe_candidates_iff [of "[]" c s fp ch] by simp
  finally show ?thesis using Some by auto
qed

lemma parse_pack_hash_list: "parse_hash_list (pack_hash_list hs) = hs"
proof -
  have len: "length (pack_hash_list hs) = 32 * length hs"
    by (induction hs) (simp_all add: pack_hash_list_def)
  have "take 32 (drop (32 * i) (pack_hash_list hs)) = arr_bytes (hs ! i)" if "i < length hs" for i
    using that
  proof (induction hs arbitrary: i)
    case (Cons h hs)
    then show ?case by (cases i) (simp_all add: pack_hash_list_def)
  qed simp
  then show ?thesis
    by (intro nth_equalityI) (simp_all add: parse_hash_list_def len)
qed

lemma parse_fingerprint_entry_written:
  assumes "length cfp \<le> 0xFFFF"
  shows "parse_fingerprint_entry (write_u16le (word_of_nat (length cfp)) @ str_bytes cfp @
      arr_bytes ch) = Some \<lparr>fe_compressed_fingerprint = cfp, fe_block_hash = ch\<rparr>"
proof -
  have n: "unat (word_of_nat (length cfp) :: u16) = length cfp"
    by (rule unat_word_of_length_u16) (use assms in simp)
  have "read_u16le (write_u16le (word_of_nat (length cfp)) @ str_bytes cfp @ arr_bytes ch) =
      Some (word_of_nat (length cfp), str_bytes cfp @ arr_bytes ch)"
    by (rule u16.dec_enc) simp
  then have "ucast ((write_u16le (word_of_nat (length cfp)) @ str_bytes cfp @ arr_bytes ch) ! 0) OR
      push_bit 8 (ucast ((write_u16le (word_of_nat (length cfp)) @ str_bytes cfp @ arr_bytes ch) ! 1)) =
      (word_of_nat (length cfp) :: u16)"
    by (simp add: read_u16le_def)
  with n show ?thesis by (simp add: parse_fingerprint_entry_def Let_def)
qed

lemma pt_not_scanned: "\<not> starts_with (''pt:'' @ r) ''p:''"
  by (simp add: starts_with_def)

lemma db_get_store_cong: "db_store s = db_store t \<Longrightarrow> db_get s k = db_get t k"
  by (simp add: db_get_def)

lemma add_to_bucket_keeps [sound_intros]:
  "sound c s \<Longrightarrow> sound c (add_to_bucket c bid ch s)"
  by (simp add: add_to_bucket_def Let_def sound_put_batch bucket_key_def)

lemma add_to_index_sound:
  "sound c s \<Longrightarrow> sound c (add_to_artist_index c artist ch s)"
  "sound c s \<Longrightarrow> sound c (add_to_genre_index c genre ch s)"
  by (simp_all add: add_to_artist_index_def add_to_genre_index_def add_to_index_def Let_def
      sound_put_batch)

lemma foldl_bucket_sound:
  "sound c s \<Longrightarrow> sound c (foldl (\<lambda>s b. add_to_bucket c b ch s) s bs)"
  by (induction bs arbitrary: s) (simp_all add: add_to_bucket_keeps)

lemma catalog_sound [sound_intros]:
  assumes "sound c s"
  shows "sound c (put_fingerprint c song s)" "sound c (put_song_meta c ch song s)"
    "sound c (set_content_height c ch h s)"
  using assms by (auto simp: put_fingerprint_def put_song_meta_def set_content_height_def
      put_batch_u32_def Let_def sound_put_batch foldl_bucket_sound split: option.split)

end
