(* ===== verification/Mint.thy ===== *)
theory Mint
  imports Catalog
begin

text \<open>
  \<open>src/bopwire/src/tokens/mint.cpp\<close>: the amounts a play earns, the validity of a play proof
  and the check that a mint declares exactly what every node recomputes. A check that fails
  returns the error message of the code.
\<close>

definition COSIGN_ACTIVATION_HEIGHT :: u32 where
  "COSIGN_ACTIVATION_HEIGHT = 0xFFFFFFFF"

section \<open>Amounts\<close>

definition mk_output :: "address \<Rightarrow> u64 \<Rightarrow> MintOutput" where
  "mk_output a v = \<lparr>mo_recipient = a, mo_amount = v\<rparr>"

definition splits_bp_sum :: "SongSection \<Rightarrow> u64" where
  "splits_bp_sum song = foldl (\<lambda>t rs. t + ucast (rs_basis_points rs)) 0 (song_royalty_splits song)"

definition valid_splits :: "SongSection \<Rightarrow> bool" where
  "valid_splits song \<longleftrightarrow> song_royalty_splits song \<noteq> [] \<and> splits_bp_sum song \<le> 10000"

definition leftover_bp :: "SongSection \<Rightarrow> u64" where
  "leftover_bp song = (if valid_splits song then 10000 - splits_bp_sum song else 0)"

text \<open>One royalty split: its share, sent to the account \<open>dest\<close> of its address.\<close>

definition split_output :: "(address \<Rightarrow> address) \<Rightarrow> RoyaltySplit \<Rightarrow> MintOutput list" where
  "split_output dest rs =
     (if rs_address rs = 0 then []
      else let portion = (FULL_ARTIST_REWARD * ucast (rs_basis_points rs)) div 10000 in
           if 0 < portion then [mk_output (dest (rs_address rs)) portion] else [])"

definition leftover_output :: "crypto \<Rightarrow> SongSection \<Rightarrow> MintOutput list" where
  "leftover_output c song =
     (if 0 < leftover_bp song then
        let portion = (FULL_ARTIST_REWARD * leftover_bp song) div 10000 in
        if 0 < portion then [mk_output (escrow_address_for c 0) portion] else []
      else [])"

definition artist_outputs :: "crypto \<Rightarrow> SongSection \<Rightarrow> u64 \<Rightarrow> MintOutput list" where
  "artist_outputs c song play_count =
     (if play_count < FULL_REWARD_THRESHOLD then
        if valid_splits song
        then concat (map (split_output (escrow_address_for c)) (song_royalty_splits song)) @
             leftover_output c song
        else [mk_output (escrow_address_for c (song_artist_address song)) FULL_ARTIST_REWARD]
      else
        if valid_splits song
        then concat (map (split_output (\<lambda>a. a)) (song_royalty_splits song)) @ leftover_output c song
        else if song_artist_address song \<noteq> 0
        then [mk_output (song_artist_address song) FULL_ARTIST_REWARD]
        else [mk_output (escrow_address_for c (song_artist_address song)) FULL_ARTIST_REWARD])"

definition compute_mint_outputs ::
    "crypto \<Rightarrow> PlayProof \<Rightarrow> SongSection \<Rightarrow> u64 \<Rightarrow> address \<Rightarrow> MintOutput list" where
  "compute_mint_outputs c pr song play_count serving_node_address =
     artist_outputs c song play_count @
     (if serving_node_address \<noteq> 0 then [mk_output serving_node_address FULL_NODE_REWARD] else []) @
     (if play_count < FULL_REWARD_THRESHOLD \<and> 0 < FULL_DISCOVERER_REWARD \<and> pp_player_address pr \<noteq> 0
      then [mk_output (pp_player_address pr) FULL_DISCOVERER_REWARD] else []) @
     (if pp_seeder_address pr \<noteq> 0 \<and> pp_seeder_address pr \<noteq> pp_player_address pr
      then [mk_output (pp_seeder_address pr) FULL_SEEDER_REWARD] else []) @
     (if pp_mini_node_address pr \<noteq> 0
      then [mk_output (pp_mini_node_address pr) FULL_MININODE_REWARD] else [])"

section \<open>Validity of a play\<close>

definition check_play :: "crypto \<Rightarrow> PlayProof \<Rightarrow> 'a dbst_scheme \<Rightarrow> u32 \<Rightarrow> string option" where
  "check_play c pr s height =
     (if is_session_used s (pp_session_id pr) then Some ''session_id already used''
      else if pp_total_duration_ms pr < 30000 then Some ''play duration under 30 seconds''
      else if ucast (pp_heartbeat_count pr) < pp_total_duration_ms pr div 35000
        then Some ''insufficient heartbeat count''
      else if pp_version pr < 3
        then Some ''legacy proof: founder v: grant retired, v3 co-signed proof required''
      else if sha256 c (arr_bytes (pp_serving_node_pubkey pr)) \<noteq> pp_serving_node_id pr
        then Some ''serving_node_id != sha256(serving_node_pubkey)''
      else let h = sha256 c (PlayProof_sign_message pr) in
      if \<not> verify_ecdsa c h (pp_node_signature pr) (pp_serving_node_pubkey pr)
        then Some ''invalid node signature''
      else let cosign_active = COSIGN_ACTIVATION_HEIGHT \<le> height;
               has_player_pubkey = pp_player_pubkey pr \<noteq> 0;
               claims_player_lane = pp_player_address pr \<noteq> 0 in
      if cosign_active \<and> claims_player_lane \<and> \<not> has_player_pubkey
        then Some ''listener co-signature required''
      else if cosign_active \<and> has_player_pubkey \<and> \<not> claims_player_lane
        then Some ''listener pubkey present but no listener lane claimed''
      else if has_player_pubkey \<and> address_from_pubkey c (pp_player_pubkey pr) \<noteq> pp_player_address pr
        then Some ''player_pubkey does not match player_address''
      else if has_player_pubkey \<and> \<not> verify_ecdsa c h (pp_player_signature pr) (pp_player_pubkey pr)
        then Some ''invalid listener signature''
      else let has_mini_pubkey = pp_mini_node_pubkey pr \<noteq> 0;
               claims_mini_lane = pp_mini_node_address pr \<noteq> 0 in
      if cosign_active \<and> claims_mini_lane \<and> \<not> has_mini_pubkey
        then Some ''mini-node co-signature required for a paid relay lane''
      else if has_mini_pubkey \<and>
          address_from_pubkey c (pp_mini_node_pubkey pr) \<noteq> pp_mini_node_address pr
        then Some ''mini_node_pubkey does not match mini_node_address''
      else if has_mini_pubkey \<and>
          \<not> verify_ecdsa c h (pp_mini_node_signature pr) (pp_mini_node_pubkey pr)
        then Some ''invalid mini-node signature''
      else None)"

section \<open>Recomputation and validation of a mint\<close>

definition recompute_mint ::
    "crypto \<Rightarrow> PlayProof \<Rightarrow> 'a dbst_scheme \<Rightarrow> string + (MintOutput list \<times> u64)" where
  "recompute_mint c pr s =
     (let serving_node_address = address_from_pubkey c (pp_serving_node_pubkey pr) in
      case get_song_section s (pp_content_hash pr) of
        None \<Rightarrow> Inl ''song not on chain''
      | Some song \<Rightarrow>
          let play_count = get_play_count s (pp_content_hash pr) in
          Inr (compute_mint_outputs c pr song play_count serving_node_address,
               if FULL_REWARD_THRESHOLD \<le> play_count then compute_burn_rate (get_total_supply s) else 0))"

definition validate_mint :: "crypto \<Rightarrow> MintTx \<Rightarrow> 'a dbst_scheme \<Rightarrow> u32 \<Rightarrow> string option" where
  "validate_mint c m s height =
     (case check_play c (mt_proof m) s height of Some e \<Rightarrow> Some e
      | None \<Rightarrow>
        (case recompute_mint c (mt_proof m) s of Inl e \<Rightarrow> Some e
         | Inr (outs, exp_burn) \<Rightarrow>
             if mt_burn_amount m \<noteq> exp_burn then Some ''mint burn mismatch''
             else if length (mt_outputs m) \<noteq> length outs then Some ''mint output count mismatch''
             else if \<exists>i < length outs. mo_recipient (mt_outputs m ! i) \<noteq> mo_recipient (outs ! i) \<or>
                 mo_amount (mt_outputs m ! i) \<noteq> mo_amount (outs ! i)
               then Some ''mint output mismatch''
             else None))"

section \<open>The amounts add up\<close>

definition sum_outputs :: "MintOutput list \<Rightarrow> nat" where
  "sum_outputs os = (\<Sum>o'\<leftarrow>os. unat (mo_amount o'))"

lemma sum_outputs_simps [simp]:
  "sum_outputs [] = 0" "sum_outputs (mk_output a v # os) = unat v + sum_outputs os"
  "sum_outputs (xs @ ys) = sum_outputs xs + sum_outputs ys"
  by (simp_all add: sum_outputs_def mk_output_def)

lemma reward_units [simp]:
  "unat FULL_ARTIST_REWARD = 10 ^ 8" "unat FULL_NODE_REWARD = 10 ^ 8"
  "unat FULL_DISCOVERER_REWARD = 10 ^ 8" "unat FULL_SEEDER_REWARD = 10 ^ 8"
  "unat FULL_MININODE_REWARD = 10 ^ 8"
  by (simp_all add: FULL_ARTIST_REWARD_def FULL_NODE_REWARD_def FULL_DISCOVERER_REWARD_def
      FULL_SEEDER_REWARD_def FULL_MININODE_REWARD_def)

lemma unat_u16_bound: "unat (x :: u16) < 65536"
  using unsigned_less [of x] by simp

lemma unat_ucast_16_64 [simp]: "unat (ucast (x :: u16) :: u64) = unat x"
  by (simp add: unsigned_ucast_eq take_bit_nat_eq_self unat_u16_bound less_trans [OF unat_u16_bound])

text \<open>A share of \<open>bp\<close> basis points of one token is exact: \<open>10 ^ 8 * bp / 10 ^ 4\<close>.\<close>

lemma unat_portion:
  assumes "unat (b :: u64) < 65536"
  shows "unat ((FULL_ARTIST_REWARD * b) div 10000) = 10 ^ 4 * unat b"
proof -
  have "unat (FULL_ARTIST_REWARD * b) = 10 ^ 8 * unat b"
    using unat_mult_u64 [of FULL_ARTIST_REWARD b] assms by simp
  then show ?thesis by (simp add: unat_div)
qed

lemma sum_split_output:
  "sum_outputs (split_output dest rs) =
     (if rs_address rs = 0 then 0 else 10 ^ 4 * unat (rs_basis_points rs))"
proof -
  let ?p = "(FULL_ARTIST_REWARD * ucast (rs_basis_points rs)) div 10000 :: u64"
  have p: "unat ?p = 10 ^ 4 * unat (rs_basis_points rs)"
    using unat_portion [of "ucast (rs_basis_points rs)"] unat_u16_bound [of "rs_basis_points rs"]
    by simp
  have "\<not> 0 < ?p \<Longrightarrow> unat ?p = 0" by (simp add: word_gt_0)
  with p show ?thesis by (auto simp: split_output_def Let_def)
qed

definition bp_total :: "RoyaltySplit list \<Rightarrow> nat" where
  "bp_total rss = (\<Sum>rs\<leftarrow>rss. unat (rs_basis_points rs))"

definition bp_paid :: "RoyaltySplit list \<Rightarrow> nat" where
  "bp_paid rss = (\<Sum>rs\<leftarrow>filter (\<lambda>rs. rs_address rs \<noteq> 0) rss. unat (rs_basis_points rs))"

lemma bp_paid_le: "bp_paid rss \<le> bp_total rss"
  by (induction rss) (auto simp: bp_paid_def bp_total_def)

lemma sum_split_outputs:
  "sum_outputs (concat (map (split_output dest) rss)) = 10 ^ 4 * bp_paid rss"
  by (induction rss) (auto simp: bp_paid_def sum_split_output)

lemma bp_total_bound: "bp_total rss \<le> 65535 * length rss"
proof (induction rss)
  case (Cons rs rss)
  then show ?case using unat_u16_bound [of "rs_basis_points rs"] by (simp add: bp_total_def)
qed (simp add: bp_total_def)

lemma unat_splits_bp_sum:
  assumes "length (song_royalty_splits song) \<le> 255"
  shows "unat (splits_bp_sum song) = bp_total (song_royalty_splits song)"
proof -
  have "unat (foldl (\<lambda>t rs. t + ucast (rs_basis_points rs)) (z :: u64) rss) = unat z + bp_total rss"
    if "unat z + bp_total rss < 2 ^ 64" for z rss
    using that
  proof (induction rss arbitrary: z)
    case (Cons rs rss)
    have "unat (z + ucast (rs_basis_points rs)) = unat z + unat (rs_basis_points rs)"
      unfolding unat_add_mod unat_ucast_16_64
      by (rule mod_less) (use Cons.prems in \<open>simp add: bp_total_def\<close>)
    with Cons show ?case by (simp add: bp_total_def)
  qed (simp add: bp_total_def)
  from this [of 0 "song_royalty_splits song"] show ?thesis
    using bp_total_bound [of "song_royalty_splits song"] assms by (simp add: splits_bp_sum_def)
qed

lemma sum_leftover_output:
  assumes "length (song_royalty_splits song) \<le> 255" and "valid_splits song"
  shows "sum_outputs (leftover_output c song) = 10 ^ 4 * (10000 - bp_total (song_royalty_splits song))"
proof -
  have le: "splits_bp_sum song \<le> 10000" using assms(2) by (simp add: valid_splits_def)
  then have l: "unat (leftover_bp song) = 10000 - bp_total (song_royalty_splits song)"
    using assms unat_sub_u64 [OF le] by (simp add: leftover_bp_def unat_splits_bp_sum)
  let ?p = "(FULL_ARTIST_REWARD * leftover_bp song) div 10000"
  have p: "unat ?p = 10 ^ 4 * unat (leftover_bp song)"
    by (rule unat_portion) (simp add: l)
  have "\<not> 0 < leftover_bp song \<Longrightarrow> unat (leftover_bp song) = 0"
    and "\<not> 0 < ?p \<Longrightarrow> unat ?p = 0" by (simp_all add: word_gt_0)
  with p l show ?thesis by (auto simp: leftover_output_def Let_def)
qed

text \<open>
  The artist lane pays one token, less the shares of splits to the zero address: those are
  neither paid nor sent to the unclaimed escrow.
\<close>

definition lost_bp :: "SongSection \<Rightarrow> nat" where
  "lost_bp song = (if valid_splits song
     then bp_total (song_royalty_splits song) - bp_paid (song_royalty_splits song) else 0)"

lemma sum_artist_outputs:
  assumes "length (song_royalty_splits song) \<le> 255"
  shows "sum_outputs (artist_outputs c song pc) + 10 ^ 4 * lost_bp song = 10 ^ 8"
proof (cases "valid_splits song")
  case True
  let ?rss = "song_royalty_splits song"
  have "bp_total ?rss \<le> 10000"
    using True unat_splits_bp_sum [OF assms] by (simp add: valid_splits_def word_le_nat_alt)
  moreover have "bp_paid ?rss \<le> bp_total ?rss" by (rule bp_paid_le)
  ultimately show ?thesis
    using True by (simp add: artist_outputs_def sum_split_outputs sum_leftover_output [OF assms] lost_bp_def)
next
  case False
  then show ?thesis by (simp add: artist_outputs_def lost_bp_def)
qed

lemma sum_mint_outputs_bound:
  assumes "length (song_royalty_splits song) \<le> 255"
  shows "sum_outputs (compute_mint_outputs c pr song pc node) \<le> 5 * 10 ^ 8"
  using sum_artist_outputs [OF assms, of c pc] by (simp add: compute_mint_outputs_def)

lemma validate_mint_None:
  assumes "validate_mint c m s height = None"
  shows "check_play c (mt_proof m) s height = None"
    and "recompute_mint c (mt_proof m) s = Inr (mt_outputs m, mt_burn_amount m)"
proof -
  show "check_play c (mt_proof m) s height = None"
    using assms by (simp add: validate_mint_def split: option.splits)
  from assms obtain outs burn where r: "recompute_mint c (mt_proof m) s = Inr (outs, burn)"
    and b: "mt_burn_amount m = burn" and len: "length (mt_outputs m) = length outs"
    and eq: "\<And>i. i < length outs \<Longrightarrow> mo_recipient (mt_outputs m ! i) = mo_recipient (outs ! i) \<and>
        mo_amount (mt_outputs m ! i) = mo_amount (outs ! i)"
    by (auto simp: validate_mint_def split: option.splits sum.splits if_splits)
  have "mt_outputs m = outs"
    by (rule nth_equalityI [OF len]) (use eq len in \<open>simp add: MintOutput.equality\<close>)
  with r b show "recompute_mint c (mt_proof m) s = Inr (mt_outputs m, mt_burn_amount m)" by simp
qed

end
