(* ===== verification/Slashing.thy ===== *)
theory Slashing
  imports Mint
begin

text \<open>
  \<open>src/bopwire/src/consensus/slashing.h\<close> and \<open>slashing.cpp\<close>: the equivocation proof, and the
  layout \<open>Chain::apply_slash\<close> reads it from. The last lemmas show what the evidence binds:
  it carries two signatures over arbitrary 32-byte values, so two ordinary signed
  transactions of one key are a proof of equivocation.
\<close>

record Confirmation =
  cf_validator_id :: hash256
  cf_pubkey :: pubkey33
  cf_signature :: sig64

record EquivocationProof =
  eq_height :: u32
  eq_conf_a :: Confirmation
  eq_conf_b :: Confirmation
  eq_block_a_hash :: hash256
  eq_block_b_hash :: hash256

definition EquivocationProof_verify :: "crypto \<Rightarrow> EquivocationProof \<Rightarrow> bool" where
  "EquivocationProof_verify c p \<longleftrightarrow>
     (if cf_validator_id (eq_conf_a p) \<noteq> cf_validator_id (eq_conf_b p) then False
      else if eq_block_a_hash p = eq_block_b_hash p then False
      else if \<not> verify_ecdsa c (eq_block_a_hash p) (cf_signature (eq_conf_a p)) (cf_pubkey (eq_conf_a p))
        then False
      else if \<not> verify_ecdsa c (eq_block_b_hash p) (cf_signature (eq_conf_b p)) (cf_pubkey (eq_conf_b p))
        then False
      else True)"

definition kEvidenceLen :: nat where
  "kEvidenceLen = 4 + 129 + 129 + 32 + 32"

definition write_Confirmation :: "Confirmation \<Rightarrow> bytes" where
  "write_Confirmation cf =
     arr_bytes (cf_validator_id cf) @ arr_bytes (cf_pubkey cf) @ arr_bytes (cf_signature cf)"

definition read_Confirmation :: "Confirmation reader" where
  "read_Confirmation p = do {
     (v, p) \<leftarrow> read_arr p;
     (k, p) \<leftarrow> read_arr p;
     (g, p) \<leftarrow> read_arr p;
     Some (\<lparr>cf_validator_id = v, cf_pubkey = k, cf_signature = g\<rparr>, p)
   }"

text \<open>The sequence of \<open>memcpy\<close> calls; \<open>None\<close> for evidence of the wrong size.\<close>

definition parse_equivocation :: "bytes \<Rightarrow> EquivocationProof option" where
  "parse_equivocation e =
     (if length e \<noteq> kEvidenceLen then None
      else do {
        (h, e) \<leftarrow> read_u32le e;
        (a, e) \<leftarrow> read_Confirmation e;
        (b, e) \<leftarrow> read_Confirmation e;
        (ha, e) \<leftarrow> read_arr e;
        (hb, e) \<leftarrow> read_arr e;
        Some \<lparr>eq_height = h, eq_conf_a = a, eq_conf_b = b, eq_block_a_hash = ha,
              eq_block_b_hash = hb\<rparr>
      })"

definition write_equivocation :: "EquivocationProof \<Rightarrow> bytes" where
  "write_equivocation p =
     write_u32le (eq_height p) @ write_Confirmation (eq_conf_a p) @ write_Confirmation (eq_conf_b p) @
     arr_bytes (eq_block_a_hash p) @ arr_bytes (eq_block_b_hash p)"

lemma parse_write_equivocation: "parse_equivocation (write_equivocation p) = Some p"
  by (cases p; cases "eq_conf_a p"; cases "eq_conf_b p")
    (simp add: parse_equivocation_def write_equivocation_def write_Confirmation_def
      read_Confirmation_def kEvidenceLen_def wire_simps)

text \<open>The evidence a reporter can assemble from two signed transfers of one key.\<close>

definition transfers_as_evidence :: "crypto \<Rightarrow> TransferTx \<Rightarrow> TransferTx \<Rightarrow> EquivocationProof" where
  "transfers_as_evidence c t u =
     \<lparr>eq_height = 0,
      eq_conf_a = \<lparr>cf_validator_id = 0, cf_pubkey = tr_from_pubkey t, cf_signature = tr_signature t\<rparr>,
      eq_conf_b = \<lparr>cf_validator_id = 0, cf_pubkey = tr_from_pubkey u, cf_signature = tr_signature u\<rparr>,
      eq_block_a_hash = sha256 c (TransferTx_sign_message t),
      eq_block_b_hash = sha256 c (TransferTx_sign_message u)\<rparr>"

lemma transfers_are_evidence:
  assumes "TransferTx_verify_signature c t" and "TransferTx_verify_signature c u"
    and "sha256 c (TransferTx_sign_message t) \<noteq> sha256 c (TransferTx_sign_message u)"
  shows "EquivocationProof_verify c (transfers_as_evidence c t u)"
  using assms by (simp add: EquivocationProof_verify_def transfers_as_evidence_def
      TransferTx_verify_signature_def verify_inline_def)

end
