(* ===== verification/Chain_Tx.thy ===== *)
theory Chain_Tx
  imports Slashing "HOL-Library.Product_Lexorder"
begin

text \<open>
  The transaction handlers of \<open>src/bopwire/src/core/chain.cpp\<close> other than governance. A
  handler takes the state of the block under application and returns whether it accepted
  the transaction, with the state it left: as in the code, a rejected transaction may have
  written before it was rejected, and the caller then drops the block.
\<close>

section \<open>The state a block is applied in\<close>

record stage = ledger_st +
  st_votes :: "hash256 \<Rightarrow> address set"
  st_nonce :: "address \<Rightarrow> u64 option"
  st_plays :: "(hash256 \<times> address) set"
  st_sessions :: "hash256 set"
  st_checkpoints :: "u32 \<Rightarrow> hash256 option"

definition next_expected_nonce :: "stage \<Rightarrow> address \<Rightarrow> u64" where
  "next_expected_nonce s a = (case st_nonce s a of Some n \<Rightarrow> n | None \<Rightarrow> get_nonce s a)"

definition record_applied_nonce :: "address \<Rightarrow> u64 \<Rightarrow> stage \<Rightarrow> stage" where
  "record_applied_nonce a n s = s\<lparr>st_nonce := (st_nonce s)(a \<mapsto> n)\<rparr>"

text \<open>\<open>db_.set_nonce(batch, a, n); record_applied_nonce(a, n);\<close>\<close>

definition advance_nonce :: "crypto \<Rightarrow> address \<Rightarrow> u64 \<Rightarrow> stage \<Rightarrow> stage" where
  "advance_nonce c a n s = record_applied_nonce a n (set_nonce c a n s)"

section \<open>Transfers\<close>

definition apply_transfer :: "crypto \<Rightarrow> TransferTx \<Rightarrow> stage \<Rightarrow> bool \<times> stage" where
  "apply_transfer c tx s =
     (if \<not> TransferTx_verify_signature c tx then (False, s)
      else let expected = next_expected_nonce s (tr_from_address tx) in
      if tr_nonce tx \<noteq> expected then (False, s)
      else let (ok, s) = Ledger_transfer c (tr_from_address tx) (tr_to_address tx) (tr_amount tx) s in
      if \<not> ok then (False, s)
      else (True, advance_nonce c (tr_from_address tx) (expected + 1) s))"

section \<open>Mints\<close>

definition mint_total :: "MintOutput list \<Rightarrow> u64" where
  "mint_total os = foldl (\<lambda>t o'. t + mo_amount o') 0 os"

definition apply_mint :: "crypto \<Rightarrow> MintTx \<Rightarrow> u64 \<Rightarrow> stage \<Rightarrow> bool \<times> stage" where
  "apply_mint c mint play_count_before s =
     (if list_ex (\<lambda>o'. mo_recipient o' = 0) (mt_outputs mint) then (False, s)
      else if 0 < mint_total (mt_outputs mint) \<and>
          SUPPLY_CAP < rd_supply s + mint_total (mt_outputs mint) then (False, s)
      else if 0 < mt_burn_amount mint \<and>
          rd_bal s (pp_player_address (mt_proof mint)) < mt_burn_amount mint then (False, s)
      else
        let s = (if 0 < mt_burn_amount mint
                 then Ledger_decrement_supply c (mt_burn_amount mint)
                   (snd (Ledger_debit c (pp_player_address (mt_proof mint)) (mt_burn_amount mint) s))
                 else s);
            s = put_batch c (session_key (pp_session_id (mt_proof mint))) [] s;
            s = update_song_state c (mt_proof mint) play_count_before s;
            s = s\<lparr>st_plays := insert (pp_content_hash (mt_proof mint), pp_player_address (mt_proof mint))
                     (st_plays s)\<rparr>
        in (True, Ledger_credit_many c
              (map (\<lambda>o'. (mo_recipient o', mo_amount o')) (mt_outputs mint)) s))"

section \<open>Usernames\<close>

definition username_is_well_formed :: "string \<Rightarrow> bool" where
  "username_is_well_formed s \<longleftrightarrow>
     (if length s < 3 \<or> 30 < length s then False
      else if \<not> (CHR ''a'' \<le> s ! 0 \<and> s ! 0 \<le> CHR ''z'') then False
      else list_all (\<lambda>ch. (CHR ''a'' \<le> ch \<and> ch \<le> CHR ''z'') \<or> (CHR ''0'' \<le> ch \<and> ch \<le> CHR ''9'') \<or>
             ch = CHR ''_'') s)"

definition apply_username_register :: "crypto \<Rightarrow> UsernameTx \<Rightarrow> stage \<Rightarrow> bool \<times> stage" where
  "apply_username_register c tx s =
     (if \<not> UsernameTx_verify_signature c tx then (False, s)
      else let expected = next_expected_nonce s (un_owner tx) in
      if un_nonce tx \<noteq> expected then (False, s)
      else if \<not> username_is_well_formed (un_name tx) then (False, s)
      else if username_taken s (un_name tx) then (False, s)
      else if get_addr_username s (un_owner tx) \<noteq> None then (False, s)
      else (True, advance_nonce c (un_owner tx) (expected + 1)
              (set_username c (un_name tx) (un_owner tx) s)))"

section \<open>Ratings\<close>

text \<open>The counts after a verdict replaces the wallet's previous one.\<close>

definition bump_counts :: "u8 \<Rightarrow> u8 \<Rightarrow> RatingCounts \<Rightarrow> RatingCounts" where
  "bump_counts prior v rc =
     (let rc = (if prior = RatingValue_UP \<and> 0 < rco_up rc then rc\<lparr>rco_up := rco_up rc - 1\<rparr> else rc);
          rc = (if prior = RatingValue_DOWN \<and> 0 < rco_down rc then rc\<lparr>rco_down := rco_down rc - 1\<rparr> else rc)
      in if v = RatingValue_UP then rc\<lparr>rco_up := rco_up rc + 1\<rparr>
         else rc\<lparr>rco_down := rco_down rc + 1\<rparr>)"

definition apply_rating :: "crypto \<Rightarrow> RatingTx \<Rightarrow> u32 \<Rightarrow> stage \<Rightarrow> bool \<times> stage" where
  "apply_rating c tx height s =
     (if \<not> RatingTx_verify_signature c tx then (False, s)
      else let expected = next_expected_nonce s (rt_rater tx); ch = rt_content_hash tx in
      if rt_nonce tx \<noteq> expected then (False, s)
      else if get_content_height s ch = None then (False, s)
      else if \<not> has_play_credit s ch (rt_rater tx) \<and> (ch, rt_rater tx) \<notin> st_plays s then (False, s)
      else
        let prior = get_rating s ch (rt_rater tx);
            rc = get_rating_counts s ch;
            rc' = (if prior \<noteq> rt_value tx then bump_counts prior (rt_value tx) rc else rc);
            s = (if prior \<noteq> rt_value tx then set_rating_counts c ch rc' s else s);
            s = set_rating c ch (rt_rater tx) (rt_value tx) s;
            pol = get_rating_policy s;
            s = (if get_rating_hide s ch = None \<and>
                    rating_hide_triggers (rco_up rc') (rco_down rc') (rp_min_ratings pol)
                      (rp_down_ratio_bps pol)
                 then
                   let exempt = is_rating_hide_exempt s ch;
                       s = set_rating_hide c ch \<lparr>rh_height = height, rh_up = rco_up rc',
                             rh_down = rco_down rc', rh_min_ratings = rp_min_ratings pol,
                             rh_down_ratio_bps = rp_down_ratio_bps pol,
                             rh_policy_set_height = rp_set_height pol,
                             rh_policy_set_by = rp_set_by pol,
                             rh_trigger_tx = RatingTx_tx_hash c tx\<rparr> s
                   in if \<not> exempt then mark_song_deleted c ch s else s
                 else s)
        in (True, advance_nonce c (rt_rater tx) (expected + 1) s))"

section \<open>Authority transactions of the founder\<close>

definition kMaxUnitsPerTx :: u64 where "kMaxUnitsPerTx = 1000000000000"

definition apply_relay_reward :: "crypto \<Rightarrow> RelayRewardTx \<Rightarrow> stage \<Rightarrow> bool \<times> stage" where
  "apply_relay_reward c tx s =
     (if \<not> RelayRewardTx_verify_signature c tx then (False, s)
      else if get_founder s \<noteq> Some (rr_issuer_address tx) then (False, s)
      else let expected = next_expected_nonce s (rr_issuer_address tx) in
      if rr_nonce tx \<noteq> expected then (False, s)
      else if rr_count tx = 0 \<or> kMaxUnitsPerTx < rr_count tx then (False, s)
      else if SUPPLY_CAP < rd_supply s + rr_count tx then (False, s)
      else (True, advance_nonce c (rr_issuer_address tx) (expected + 1)
              (Ledger_credit c (rr_target_address tx) (rr_count tx) s)))"

definition apply_node_auth :: "crypto \<Rightarrow> NodeAuthTx \<Rightarrow> stage \<Rightarrow> bool \<times> stage" where
  "apply_node_auth c tx s =
     (if \<not> NodeAuthTx_verify_signature c tx then (False, s)
      else if get_founder s \<noteq> Some (na_issuer_address tx) then (False, s)
      else let expected = next_expected_nonce s (na_issuer_address tx) in
      if na_nonce tx \<noteq> expected then (False, s)
      else if sha256 c (arr_bytes (na_node_pubkey tx)) \<noteq> na_node_id tx then (False, s)
      else let key = ''v:'' @ hex_hash (na_node_id tx); akey = ''va:'' @ hex_hash (na_node_id tx);
               s = (if na_authorize tx \<noteq> 0
                    then put_batch c akey [] (put_batch c key (arr_bytes (na_node_pubkey tx)) s)
                    else del_batch c akey (del_batch c key s))
           in (True, advance_nonce c (na_issuer_address tx) (expected + 1) s))"

definition checkpoint_key :: "u32 \<Rightarrow> string" where
  "checkpoint_key h = ''cp:'' @ to_dec (unat h)"

definition apply_checkpoint :: "crypto \<Rightarrow> CheckpointTx \<Rightarrow> stage \<Rightarrow> bool \<times> stage" where
  "apply_checkpoint c tx s =
     (if \<not> CheckpointTx_verify_signature c tx then (False, s)
      else if get_founder s \<noteq> Some (cp_issuer_address tx) then (False, s)
      else let expected = next_expected_nonce s (cp_issuer_address tx) in
      if cp_nonce tx \<noteq> expected then (False, s)
      else let s = s\<lparr>st_checkpoints := (st_checkpoints s)(cp_height tx \<mapsto> cp_block_hash tx)\<rparr>;
               s = put_batch c (checkpoint_key (cp_height tx)) (arr_bytes (cp_block_hash tx)) s
           in (True, advance_nonce c (cp_issuer_address tx) (expected + 1) s))"

section \<open>Slashing\<close>

definition slashed_key :: "address \<Rightarrow> string" where
  "slashed_key a = ''slashed:'' @ hex_addr a"

definition slash_evidence_ok :: "crypto \<Rightarrow> SlashTx \<Rightarrow> bool" where
  "slash_evidence_ok c tx \<longleftrightarrow>
     (if sl_kind tx = SlashKind_EQUIVOCATION then
        (case parse_equivocation (sl_evidence tx) of None \<Rightarrow> False
         | Some p \<Rightarrow>
             if cf_pubkey (eq_conf_a p) \<noteq> sl_target_pubkey tx \<or>
                cf_pubkey (eq_conf_b p) \<noteq> sl_target_pubkey tx then False
             else EquivocationProof_verify c p)
      else if sl_kind tx = SlashKind_FINGERPRINT_FORGERY then True
      else False)"

definition apply_slash :: "crypto \<Rightarrow> SlashTx \<Rightarrow> stage \<Rightarrow> bool \<times> stage" where
  "apply_slash c tx s =
     (if \<not> SlashTx_verify_signature c tx then (False, s)
      else let expected = next_expected_nonce s (sl_reporter_address tx) in
      if sl_nonce tx \<noteq> expected then (False, s)
      else if address_from_pubkey c (sl_target_pubkey tx) \<noteq> sl_target_address tx then (False, s)
      else if \<not> slash_evidence_ok c tx then (False, s)
      else (True, advance_nonce c (sl_reporter_address tx) (expected + 1)
              (put_batch c (slashed_key (sl_target_address tx)) [1] s)))"

definition is_slashed :: "'a dbst_scheme \<Rightarrow> address \<Rightarrow> bool" where
  "is_slashed s a \<longleftrightarrow> db_get s (slashed_key a) \<noteq> None"

section \<open>Batched settlements\<close>

definition MAX_CONSTITUENTS_PER_SETTLEMENT :: u32 where
  "MAX_CONSTITUENTS_PER_SETTLEMENT = 4096"

definition play_order :: "PlayProof \<Rightarrow> hash256 \<times> hash256" where
  "play_order pr = (pp_content_hash pr, pp_session_id pr)"

fun has_adjacent_dup :: "'k list \<Rightarrow> bool" where
  "has_adjacent_dup (x # y # r) \<longleftrightarrow> x = y \<or> has_adjacent_dup (y # r)"
| "has_adjacent_dup _ \<longleftrightarrow> False"

text \<open>The local variables of the walk over the constituents.\<close>

record settle_walk =
  sw_song_ord :: "hash256 \<Rightarrow> u64 option"
  sw_credits :: "(address \<times> u64) list"
  sw_used :: "hash256 set"
  sw_running :: u64

definition settle_one :: "crypto \<Rightarrow> u32 \<Rightarrow> address \<Rightarrow> u64 \<Rightarrow> PlayProof \<Rightarrow>
    settle_walk \<times> stage \<Rightarrow> settle_walk \<times> stage" where
  "settle_one c height node_wallet base_supply pr ws =
     (let w = fst ws; s = snd ws in
      if check_play c pr s height \<noteq> None then (w, s)
      else if pp_session_id pr \<in> sw_used w \<or> pp_session_id pr \<in> st_sessions s then (w, s)
      else case get_song_section s (pp_content_hash pr) of None \<Rightarrow> (w, s)
      | Some song \<Rightarrow>
        let pc = (case sw_song_ord w (pp_content_hash pr) of Some n \<Rightarrow> n
                  | None \<Rightarrow> get_play_count s (pp_content_hash pr));
            burn = (if FULL_REWARD_THRESHOLD \<le> pc then compute_burn_rate base_supply else 0);
            outs = compute_mint_outputs c pr song pc node_wallet;
            out_sum = mint_total outs
        in if 0 < out_sum \<and> SUPPLY_CAP < sw_running w + out_sum then (w, s)
           else if 0 < burn \<and> rd_bal s (pp_player_address pr) < burn then (w, s)
           else
             (w\<lparr>sw_credits := foldl (\<lambda>m o'. amap_add (mo_recipient o') (mo_amount o') m)
                   (sw_credits w) outs,
                sw_running := sw_running w + out_sum,
                sw_song_ord := (sw_song_ord w)(pp_content_hash pr \<mapsto> pc + 1),
                sw_used := insert (pp_session_id pr) (sw_used w)\<rparr>,
              let s = s\<lparr>st_sessions := insert (pp_session_id pr) (st_sessions s)\<rparr>;
                  s = put_batch c (session_key (pp_session_id pr)) [] s;
                  s = update_song_state c pr pc s
              in s\<lparr>st_plays := insert (pp_content_hash pr, pp_player_address pr) (st_plays s)\<rparr>))"

definition epoch_key :: "hash256 \<Rightarrow> u64 \<Rightarrow> string" where
  "epoch_key node epoch = ''us:'' @ hex_hash node @ '':'' @ to_dec (unat epoch)"

definition apply_settlement_mint :: "crypto \<Rightarrow> SettlementMintTx \<Rightarrow> u32 \<Rightarrow> stage \<Rightarrow> bool \<times> stage" where
  "apply_settlement_mint c tx height s =
     (case db_get s (''v:'' @ hex_hash (sm_serving_node_id tx)) of None \<Rightarrow> (False, s)
      | Some ventry \<Rightarrow>
      if length ventry < 33 then (False, s)
      else let pubkey = mk_arr (take 33 ventry) :: pubkey33 in
      if \<not> verify_ecdsa c (sha256 c (SettlementMintTx_sign_message tx)) (sm_node_signature tx) pubkey
        then (False, s)
      else let node_wallet = address_from_pubkey c pubkey in
      if node_wallet \<noteq> sm_serving_node_wallet tx then (False, s)
      else if sm_constituent_count tx = 0 \<or> MAX_CONSTITUENTS_PER_SETTLEMENT < sm_constituent_count tx
        then (False, s)
      else let us_key = epoch_key (sm_serving_node_id tx) (sm_epoch_id tx) in
      if db_get s us_key \<noteq> None then (False, s)
      else (case db_get s (''sb:'' @ hex_hash (sm_constituents_merkle_root tx)) of None \<Rightarrow> (False, s)
      | Some braw \<Rightarrow>
      (case deserialize_settle_body braw of None \<Rightarrow> (False, s)
      | Some proofs \<Rightarrow>
      if length proofs \<noteq> unat (sm_constituent_count tx) then (False, s)
      else let proofs = sort_key play_order proofs in
      if has_adjacent_dup (map play_order proofs) then (False, s)
      else if merkle_root_bytes c (map PlayProof_serialize proofs) \<noteq> sm_constituents_merkle_root tx
        then (False, s)
      else
        let base_supply = rd_supply s;
            (w, s) = fold (settle_one c height node_wallet base_supply) proofs
              (\<lparr>sw_song_ord = Map.empty, sw_credits = [], sw_used = {}, sw_running = base_supply\<rparr>, s);
            s = Ledger_credit_many c (sw_credits w) s;
            s = put_batch c us_key [] s
        in (True, s))))"

end
