(* ===== verification/Governance.thy ===== *)
theory Governance
  imports Chain_Tx
begin

text \<open>
  The governance handlers of \<open>src/bopwire/src/core/chain.cpp\<close>: \<open>apply_moderator_op\<close> (the
  founder bootstrap, revocation, label metadata), and the proposals with their votes,
  \<open>apply_proposal\<close>, \<open>execute_proposal\<close> and the two approval rules. The JSON parser is a
  parameter (\<open>json_parse\<close>); what the code does with the parsed value is modelled, with an
  exception of the library as \<open>None\<close>.
\<close>

section \<open>Reading a JSON value\<close>

definition json_object :: "json \<Rightarrow> (string \<times> json) list option" where
  "json_object j = (case j of JObject kvs \<Rightarrow> Some kvs | _ \<Rightarrow> None)"

text \<open>
  \<open>j.value(key, default)\<close> throws on a value that is no object, and on a member of another
  type. A number converts to \<open>int\<close> modulo \<open>2^32\<close>, a boolean to 0 or 1.
\<close>

definition json_value_string :: "json \<Rightarrow> string \<Rightarrow> string \<Rightarrow> string option" where
  "json_value_string j key dflt = do {
     kvs \<leftarrow> json_object j;
     case map_of kvs key of None \<Rightarrow> Some dflt
     | Some (JString str) \<Rightarrow> Some str
     | Some _ \<Rightarrow> None
   }"

definition json_value_int :: "json \<Rightarrow> string \<Rightarrow> 32 word \<Rightarrow> 32 word option" where
  "json_value_int j key dflt = do {
     kvs \<leftarrow> json_object j;
     case map_of kvs key of None \<Rightarrow> Some dflt
     | Some (JNumber n) \<Rightarrow> Some (word_of_int n)
     | Some (JBool b) \<Rightarrow> Some (if b then 1 else 0)
     | Some _ \<Rightarrow> None
   }"

definition json_member_array :: "json \<Rightarrow> string \<Rightarrow> json list option" where
  "json_member_array j key = do {
     kvs \<leftarrow> json_object j;
     case map_of kvs key of Some (JArray xs) \<Rightarrow> Some xs | _ \<Rightarrow> None
   }"

section \<open>Label metadata\<close>

definition parse_split :: "json \<Rightarrow> RoyaltySplit option" where
  "parse_split j = do {
     addr_hex \<leftarrow> json_value_string j ''addr'' [];
     wallet \<leftarrow> parse_address addr_hex;
     bp \<leftarrow> json_value_int j ''bp'' 0;
     if sint bp \<le> 0 \<or> 10000 < sint bp then None
     else Some \<lparr>rs_address = wallet, rs_basis_points = ucast bp\<rparr>
   }"

fun parse_splits :: "json list \<Rightarrow> RoyaltySplit list option" where
  "parse_splits [] = Some []"
| "parse_splits (j # js) = do { x \<leftarrow> parse_split j; xs \<leftarrow> parse_splits js; Some (x # xs) }"

definition total_bp :: "RoyaltySplit list \<Rightarrow> u32" where
  "total_bp xs = foldl (\<lambda>t x. t + ucast (rs_basis_points x)) 0 xs"

text \<open>The body of \<open>TAG_LABEL_EDIT\<close>: the metadata write, or \<open>None\<close> for a refused payload.\<close>

definition label_define :: "crypto \<Rightarrow> json \<Rightarrow> stage \<Rightarrow> stage option" where
  "label_define c j s = do {
     name \<leftarrow> json_value_string j ''name'' [];
     if name = [] \<or> 64 < length name then None
     else do {
       arr \<leftarrow> json_member_array j ''splits'';
       splits \<leftarrow> parse_splits arr;
       if total_bp splits \<noteq> 10000 then None
       else if splits = [] \<or> 16 < length splits then None
       else Some (set_label c name \<lparr>lb_display_name = name, lb_splits = splits\<rparr> s)
     }
   }"

definition label_assign :: "crypto \<Rightarrow> json \<Rightarrow> stage \<Rightarrow> stage option" where
  "label_assign c j s = do {
     addr_hex \<leftarrow> json_value_string j ''artist'' [];
     artist \<leftarrow> parse_address addr_hex;
     label \<leftarrow> json_value_string j ''label'' [];
     if label \<noteq> [] \<and> get_label s label = None then None
     else Some (assign_artist_label c artist label s)
   }"

definition tag_label_edit :: "crypto \<Rightarrow> string \<Rightarrow> stage \<Rightarrow> stage option" where
  "tag_label_edit c meta_json s = do {
     j \<leftarrow> json_parse c meta_json;
     action \<leftarrow> json_value_string j ''action'' [];
     if action = ''label_define'' then label_define c j s
     else if action = ''label_assign'' then label_assign c j s
     else None
   }"

section \<open>Moderator operations\<close>

definition PINNED_FOUNDER_ADDRESS :: address where "PINNED_FOUNDER_ADDRESS = 0"

definition founder_is_pinned :: bool where
  "founder_is_pinned \<longleftrightarrow> list_ex (\<lambda>b. b \<noteq> 0) (arr_bytes PINNED_FOUNDER_ADDRESS)"

definition founder_bootstrap :: "stage \<Rightarrow> ModeratorOpTx \<Rightarrow> bool" where
  "founder_bootstrap s tx \<longleftrightarrow>
     get_founder s = None \<and> mop_level tx = ModLevel_FOUNDER \<and> mop_proposer tx = mop_subject tx \<and>
     (\<not> founder_is_pinned \<or> mop_subject tx = PINNED_FOUNDER_ADDRESS)"

definition apply_moderator_op :: "crypto \<Rightarrow> ModeratorOpTx \<Rightarrow> u32 \<Rightarrow> stage \<Rightarrow> bool \<times> stage" where
  "apply_moderator_op c tx height s =
     (if \<not> ModeratorOpTx_verify_signature c tx then (False, s)
      else let expected = next_expected_nonce s (mop_proposer tx) in
      if mop_nonce tx \<noteq> expected then (False, s)
      else if mop_op_code tx = ModOp_GRANT then
        (if founder_bootstrap s tx then
           let s = set_mod_level c (mop_subject tx) ModLevel_FOUNDER s;
               s = set_mod_pubkey c (mop_subject tx) (mop_subject_pubkey tx) s;
               s = set_mod_active_block c (mop_subject tx) height s;
               s = set_founder c (mop_subject tx) s
           in (True, advance_nonce c (mop_proposer tx) (expected + 1) s)
         else (False, s))
      else if mop_op_code tx = ModOp_REVOKE then
        (case get_founder s of None \<Rightarrow> (False, s)
         | Some founder \<Rightarrow>
             if get_mod_level s (mop_proposer tx) \<noteq> ModLevel_FOUNDER then (False, s)
             else if mop_subject tx = founder then (False, s)
             else if get_mod_level s (mop_subject tx) = 0 then (False, s)
             else (True, advance_nonce c (mop_proposer tx) (expected + 1)
                     (set_mod_level c (mop_subject tx) 0 s)))
      else if mop_op_code tx = ModOp_TAG_LABEL_EDIT then
        (if get_founder s = None then (False, s)
         else if get_mod_level s (mop_proposer tx) \<noteq> ModLevel_FOUNDER then (False, s)
         else if mop_meta_json tx = [] then (False, s)
         else case tag_label_edit c (mop_meta_json tx) s of None \<Rightarrow> (False, s)
           | Some s \<Rightarrow> (True, advance_nonce c (mop_proposer tx) (expected + 1) s))
      else (False, s))"

section \<open>Votes\<close>

definition effective_vote_count :: "stage \<Rightarrow> hash256 \<Rightarrow> nat" where
  "effective_vote_count s h =
     count_proposal_votes s h + card (Set.filter (\<lambda>a. \<not> has_proposal_vote s h a) (st_votes s h))"

definition vote_eligible :: "'a dbst_scheme \<Rightarrow> address list" where
  "vote_eligible s = filter (\<lambda>m. ModLevel_OP \<le> get_mod_level s m) (list_active_moderators s)"

definition grant_is_unanimous :: "stage \<Rightarrow> hash256 \<Rightarrow> bool" where
  "grant_is_unanimous s h \<longleftrightarrow>
     list_all (\<lambda>m. has_proposal_vote s h m \<or> m \<in> st_votes s h) (vote_eligible s) \<and>
     0 < length (vote_eligible s)"

definition votes_needed :: "'a dbst_scheme \<Rightarrow> nat" where
  "votes_needed s = length (list_active_moderators s) div 2 + 1"

definition record_vote :: "crypto \<Rightarrow> hash256 \<Rightarrow> address \<Rightarrow> stage \<Rightarrow> stage" where
  "record_vote c h voter s =
     (let s = add_proposal_vote c h voter s
      in s\<lparr>st_votes := (st_votes s)(h := insert voter (st_votes s h))\<rparr>)"

section \<open>Executing a proposal\<close>

text \<open>The shares of a label: all but the last get their portion, the last what is left.\<close>

fun release_shares ::
    "crypto \<Rightarrow> address \<Rightarrow> u64 \<Rightarrow> u64 \<Rightarrow> RoyaltySplit list \<Rightarrow> stage \<Rightarrow> bool \<times> stage" where
  "release_shares c escrow to_send credited [] s = (True, s)"
| "release_shares c escrow to_send credited [x] s =
     (let tail = to_send - credited in
      if 0 < tail then Ledger_transfer c escrow (rs_address x) tail s else (True, s))"
| "release_shares c escrow to_send credited (x # y # xs) s =
     (let portion = to_send * ucast (rs_basis_points x) div 10000;
          (ok, s) = (if 0 < portion then Ledger_transfer c escrow (rs_address x) portion s
                     else (True, s))
      in if \<not> ok then (False, s)
         else release_shares c escrow to_send (credited + portion) (y # xs) s)"

definition artist_label_splits :: "'a dbst_scheme \<Rightarrow> address \<Rightarrow> RoyaltySplit list" where
  "artist_label_splits s a =
     (case Option.bind (get_artist_label s a) (get_label s) of None \<Rightarrow> []
      | Some df \<Rightarrow> lb_splits df)"

definition release_escrow :: "crypto \<Rightarrow> ProposalTx \<Rightarrow> stage \<Rightarrow> bool \<times> stage" where
  "release_escrow c p s =
     (let escrow = escrow_address_for c (prop_target_addr p);
          to_send = min (rd_bal s escrow) (prop_amount p);
          splits = artist_label_splits s (prop_target_addr p)
      in if to_send = 0 then (True, s)
         else if splits \<noteq> [] then release_shares c escrow to_send 0 splits s
         else Ledger_transfer c escrow (prop_target_addr p) to_send s)"

definition grant_level :: "u64 \<Rightarrow> u8" where
  "grant_level amount = ucast amount"

definition grantable :: "u8 \<Rightarrow> bool" where
  "grantable lv \<longleftrightarrow> lv = ModLevel_VOICE \<or> lv = ModLevel_OP"

definition execute_proposal :: "crypto \<Rightarrow> ProposalTx \<Rightarrow> hash256 \<Rightarrow> u32 \<Rightarrow> stage \<Rightarrow> bool \<times> stage" where
  "execute_proposal c p h height s =
     (if prop_kind p = Proposal_HIDE_CONTENT then
        (True, set_proposal_status c h PROP_EXECUTED (mark_song_deleted c (prop_target_hash p) s))
      else if prop_kind p = Proposal_RELEASE_ESCROW then
        (let (ok, s) = release_escrow c p s in
         if \<not> ok then (False, s) else (True, set_proposal_status c h PROP_EXECUTED s))
      else if prop_kind p = Proposal_GRANT_MODERATOR then
        (let lv = grant_level (prop_amount p) in
         if \<not> grantable lv then (False, s)
         else if get_founder s = Some (prop_target_addr p) then
           (True, set_proposal_status c h PROP_EXECUTED s)
         else
           let s = set_mod_level c (prop_target_addr p) lv s;
               s = set_mod_pubkey c (prop_target_addr p) (prop_subject_pubkey p) s;
               s = set_mod_active_block c (prop_target_addr p) height s
           in (True, set_proposal_status c h PROP_EXECUTED s))
      else if prop_kind p = Proposal_SET_RATING_THRESHOLD then
        (let (m, bps) = unpack_rating_policy (prop_amount p) in
         if \<not> rating_policy_in_bounds m bps then (False, s)
         else (True, set_proposal_status c h PROP_EXECUTED
                 (set_rating_policy c \<lparr>rp_min_ratings = m, rp_down_ratio_bps = bps,
                    rp_set_height = height, rp_set_by = prop_proposer p, rp_proposal_hash = h\<rparr> s)))
      else (False, s))"

section \<open>Filing and voting\<close>

text \<open>
  The five cases of \<open>apply_proposal\<close>: a new proposal is stored with the proposer's own vote
  and executed at once when that approves it.
\<close>

definition file_proposal ::
    "crypto \<Rightarrow> ProposalTx \<Rightarrow> u32 \<Rightarrow> u64 \<Rightarrow> (stage \<Rightarrow> hash256 \<Rightarrow> bool) \<Rightarrow> stage \<Rightarrow> bool \<times> stage" where
  "file_proposal c tx height expected approved s =
     (let h = ProposalTx_tx_hash c tx in
      if has_proposal s h then (False, s)
      else
        let s = put_proposal c h (ProposalTx_serialize tx) s;
            s = record_vote c h (prop_proposer tx) s;
            (ok, s) = (if approved s h then execute_proposal c tx h height s else (True, s))
        in if \<not> ok then (False, s)
           else (True, advance_nonce c (prop_proposer tx) (expected + 1) s))"

definition cast_vote :: "crypto \<Rightarrow> ProposalTx \<Rightarrow> u32 \<Rightarrow> u64 \<Rightarrow> nat \<Rightarrow> stage \<Rightarrow> bool \<times> stage" where
  "cast_vote c tx height expected needed s =
     (let h = prop_target_hash tx; voter = prop_proposer tx in
      case get_proposal s h of None \<Rightarrow> (False, s)
      | Some raw \<Rightarrow>
        if get_proposal_status s h \<noteq> PROP_PENDING then (False, s)
        else if has_proposal_vote s h voter then (False, s)
        else if voter \<in> st_votes s h then (False, s)
        else let s = record_vote c h voter s in
        (case ProposalTx_deserialize raw of None \<Rightarrow> (False, s)
         | Some p \<Rightarrow>
             let approved = (if prop_kind p = Proposal_GRANT_MODERATOR then grant_is_unanimous s h
                             else needed \<le> effective_vote_count s h);
                 (ok, s) = (if approved then execute_proposal c p h height s else (True, s))
             in if \<not> ok then (False, s)
                else (True, advance_nonce c voter (expected + 1) s)))"

definition proposal_fields_ok :: "stage \<Rightarrow> ProposalTx \<Rightarrow> bool" where
  "proposal_fields_ok s tx \<longleftrightarrow>
     (if prop_kind tx = Proposal_HIDE_CONTENT \<or> prop_kind tx = Proposal_VOTE_YES then
        prop_target_addr tx = 0 \<and> prop_amount tx = 0 \<and> prop_target_hash tx \<noteq> 0
      else if prop_kind tx = Proposal_RELEASE_ESCROW then
        prop_target_hash tx = 0 \<and> prop_target_addr tx \<noteq> 0 \<and> prop_amount tx \<noteq> 0
      else if prop_kind tx = Proposal_SET_RATING_THRESHOLD then
        prop_target_hash tx = 0 \<and> prop_target_addr tx = 0 \<and>
        (let (m, bps) = unpack_rating_policy (prop_amount tx) in rating_policy_in_bounds m bps)
      else if prop_kind tx = Proposal_GRANT_MODERATOR then
        prop_target_hash tx = 0 \<and> prop_target_addr tx \<noteq> 0 \<and>
        grantable (grant_level (prop_amount tx)) \<and> get_founder s \<noteq> None \<and>
        get_mod_level s (prop_target_addr tx) < grant_level (prop_amount tx)
      else False)"

definition apply_proposal :: "crypto \<Rightarrow> ProposalTx \<Rightarrow> u32 \<Rightarrow> stage \<Rightarrow> bool \<times> stage" where
  "apply_proposal c tx height s =
     (if \<not> ProposalTx_verify_signature c tx then (False, s)
      else let expected = next_expected_nonce s (prop_proposer tx) in
      if prop_nonce tx \<noteq> expected then (False, s)
      else if prop_kind tx \<noteq> Proposal_GRANT_MODERATOR \<and>
              get_mod_level s (prop_proposer tx) < ModLevel_OP then (False, s)
      else
        let needed = votes_needed s in
        if \<not> proposal_fields_ok s tx then (False, s)
        else if prop_kind tx = Proposal_VOTE_YES then cast_vote c tx height expected needed s
        else if prop_kind tx = Proposal_GRANT_MODERATOR then
          file_proposal c tx height expected grant_is_unanimous s
        else file_proposal c tx height expected (\<lambda>s h. needed \<le> effective_vote_count s h) s)"

end
