(* ===== verification/Chain.thy ===== *)
theory Chain
  imports Governance
begin

text \<open>
  \<open>src/bopwire/src/core/chain.h\<close> and \<open>chain.cpp\<close>: the chain object. Its database, staging
  maps and ledger overlay are one \<open>stage\<close>; beside it stand the accumulator of the committed
  state, the tip and the live checkpoints. Locks, log output and failing disk writes are not
  modelled. The environment variable \<open>BOPWIRE_ALLOW_NEW_CHAIN\<close> is an argument.
\<close>

section \<open>Tips and fork choice\<close>

record ChainTip =
  tip_hash :: hash256
  tip_height :: u32
  tip_timestamp_ms :: u64
  tip_weight :: u64

definition ChainTip_empty :: ChainTip where
  "ChainTip_empty = \<lparr>tip_hash = 0, tip_height = 0, tip_timestamp_ms = 0, tip_weight = 0\<rparr>"

definition tip_is_better :: "ChainTip \<Rightarrow> ChainTip \<Rightarrow> bool" where
  "tip_is_better candidate current \<longleftrightarrow>
     (if tip_weight candidate \<noteq> tip_weight current then tip_weight current < tip_weight candidate
      else if tip_height candidate \<noteq> tip_height current
        then tip_height current < tip_height candidate
      else if tip_timestamp_ms candidate \<noteq> tip_timestamp_ms current
        then tip_timestamp_ms current < tip_timestamp_ms candidate
      else tip_hash current < tip_hash candidate)"

definition FINALITY_DEPTH :: u32 where "FINALITY_DEPTH = 1000"

definition MC_GENESIS_ANCHOR :: string where
  "MC_GENESIS_ANCHOR = ''a3bdd4224ccfabe146ac5a8bd8028bd409abeb2fe9cdfd5f00c346948ff157ba''"

record chain =
  ch_stage :: stage
  ch_acc :: lanes
  ch_tip :: ChainTip
  ch_checkpoints :: "u32 \<Rightarrow> hash256 option"

definition ch_store :: "chain \<Rightarrow> kv" where
  "ch_store ch = db_store (ch_stage ch)"

definition checkpoint_ok :: "(u32 \<Rightarrow> hash256 option) \<Rightarrow> u32 \<Rightarrow> hash256 \<Rightarrow> bool" where
  "checkpoint_ok cps height h \<longleftrightarrow> (case cps height of None \<Rightarrow> True | Some pin \<Rightarrow> pin = h)"

definition add_config_checkpoints ::
    "(u32 \<times> hash256) list \<Rightarrow> (u32 \<Rightarrow> hash256 option) \<Rightarrow> (u32 \<Rightarrow> hash256 option)" where
  "add_config_checkpoints cps m = foldl (\<lambda>m (h, hh). m(h \<mapsto> hh)) m cps"

text \<open>The rows of the anchor table, as height and hex literal.\<close>

definition hardcoded_checkpoints :: "(u32 \<times> string) list \<Rightarrow> (u32 \<times> hash256) list" where
  "hardcoded_checkpoints rows = List.map_filter (\<lambda>(h, hex).
     let raw = from_hex hex in if length raw \<noteq> 32 then None else Some (h, mk_arr raw)) rows"

section \<open>Fork weight\<close>

definition plays_of_tx :: "bytes \<Rightarrow> u64" where
  "plays_of_tx raw = (case raw of [] \<Rightarrow> 0
     | b # _ \<Rightarrow>
       if tx_type_of b = Some MINT then 1
       else if tx_type_of b = Some SETTLEMENT_MINT then
         (case SettlementMintTx_deserialize raw of None \<Rightarrow> 0
          | Some sm \<Rightarrow> ucast (min (sm_constituent_count sm) MAX_CONSTITUENTS_PER_SETTLEMENT))
       else 0)"

definition count_plays :: "Block \<Rightarrow> u64" where
  "count_plays blk = foldl (\<lambda>n raw. n + plays_of_tx raw) 0 (blk_transactions blk)"

section \<open>Reading the chain\<close>

definition get_block :: "'a dbst_scheme \<Rightarrow> hash256 \<Rightarrow> Block option" where
  "get_block s h = Option.bind (db_get s (block_key h)) Block_deserialize"

definition read_hash_row :: "'a dbst_scheme \<Rightarrow> string \<Rightarrow> hash256 option" where
  "read_hash_row s k = (case db_get s k of None \<Rightarrow> None
     | Some v \<Rightarrow> if length v < 32 then None else Some (mk_arr (take 32 v)))"

definition get_block_hash :: "'a dbst_scheme \<Rightarrow> u32 \<Rightarrow> hash256 option" where
  "get_block_hash s height = read_hash_row s (height_key height)"

definition block_height_key :: "hash256 \<Rightarrow> string" where
  "block_height_key h = ''h:'' @ hex_hash h"

definition weight_key :: "hash256 \<Rightarrow> string" where
  "weight_key h = ''cw:'' @ hex_hash h"

definition full_hash_key :: "u32 \<Rightarrow> string" where
  "full_hash_key height = ''k:'' @ to_dec (unat height)"

definition tip_key :: string where "tip_key = ''t:tip''"
definition sr_vec_key :: string where "sr_vec_key = ''sr:vec''"
definition sr_dirty_key :: string where "sr_dirty_key = ''sr:dirty''"

definition get_block_height :: "'a dbst_scheme \<Rightarrow> hash256 \<Rightarrow> u32 option" where
  "get_block_height s h = get_u32 s (block_height_key h)"

definition get_block_full_hash :: "'a dbst_scheme \<Rightarrow> u32 \<Rightarrow> hash256 option" where
  "get_block_full_hash s height = read_hash_row s (full_hash_key height)"

definition get_weight :: "'a dbst_scheme \<Rightarrow> hash256 \<Rightarrow> u64" where
  "get_weight s h = value_or (get_u64 s (weight_key h)) 0"

definition tip_value :: "hash256 \<Rightarrow> u32 \<Rightarrow> bytes" where
  "tip_value h height = arr_bytes h @ le_bytes 4 height"

definition load_tip :: "'a dbst_scheme \<Rightarrow> ChainTip option" where
  "load_tip s = (case db_get s tip_key of None \<Rightarrow> Some ChainTip_empty
     | Some v \<Rightarrow>
       if length v < 36 then None
       else let h = mk_arr (take 32 v) in
         Some \<lparr>tip_hash = h, tip_height = le_word 4 (drop 32 v),
               tip_timestamp_ms = (case get_block s h of None \<Rightarrow> 0
                                   | Some b \<Rightarrow> hd_timestamp_ms (blk_header b)),
               tip_weight = get_weight s h\<rparr>)"

section \<open>Validation\<close>

datatype block_error = Bad_block | Prev_hash_mismatch | Not_the_anchor | Duplicate_song

definition is_duplicate_song :: "crypto \<Rightarrow> 'a dbst_scheme \<Rightarrow> Block \<Rightarrow> bool" where
  "is_duplicate_song c s blk \<longleftrightarrow> (case blk_song blk of None \<Rightarrow> False
     | Some song \<Rightarrow> song_on_chain c s (song_content_hash song) (song_compressed_fingerprint song))"

definition validate_block :: "crypto \<Rightarrow> bool \<Rightarrow> chain \<Rightarrow> Block \<Rightarrow> block_error option" where
  "validate_block c allow_new_chain ch blk =
     (if \<not> Block_validate c blk then Some Bad_block
      else if hd_prev_hash (blk_header blk) \<noteq> tip_hash (ch_tip ch) then Some Prev_hash_mismatch
      else if tip_height (ch_tip ch) = 0 \<and> \<not> allow_new_chain \<and>
              hex_hash (Block_hash c blk) \<noteq> MC_GENESIS_ANCHOR then Some Not_the_anchor
      else if is_duplicate_song c (ch_stage ch) blk then Some Duplicate_song
      else None)"

definition validate_candidate :: "crypto \<Rightarrow> chain \<Rightarrow> Block \<Rightarrow> block_error option" where
  "validate_candidate c ch blk =
     (if \<not> Block_validate c blk then Some Bad_block
      else if is_duplicate_song c (ch_stage ch) blk then Some Duplicate_song
      else None)"

section \<open>Applying the transactions of a block\<close>

definition reset_staging :: "stage \<Rightarrow> stage" where
  "reset_staging s = Ledger_reset (s\<lparr>st_votes := \<lambda>_. {}, st_nonce := Map.empty, st_plays := {},
     st_sessions := {}, st_checkpoints := Map.empty\<rparr>)"

text \<open>The MINT branch: the forge gate, one use of a session per block, then the credit.\<close>

definition apply_mint_tx :: "crypto \<Rightarrow> MintTx \<Rightarrow> u32 \<Rightarrow> stage \<Rightarrow> bool \<times> stage" where
  "apply_mint_tx c m height s =
     (if validate_mint c m s height \<noteq> None then (False, s)
      else if pp_session_id (mt_proof m) \<in> st_sessions s then (False, s)
      else
        let s = s\<lparr>st_sessions := insert (pp_session_id (mt_proof m)) (st_sessions s)\<rparr>
        in apply_mint c m (get_play_count s (pp_content_hash (mt_proof m))) s)"

definition decoded :: "(bytes \<Rightarrow> 't option) \<Rightarrow> ('t \<Rightarrow> stage \<Rightarrow> bool \<times> stage) \<Rightarrow> bytes \<Rightarrow>
    stage \<Rightarrow> bool \<times> stage" where
  "decoded deser handler raw s =
     (case deser raw of None \<Rightarrow> (False, s) | Some tx \<Rightarrow> handler tx s)"

fun apply_typed :: "crypto \<Rightarrow> u32 \<Rightarrow> TxType \<Rightarrow> bytes \<Rightarrow> stage \<Rightarrow> bool \<times> stage" where
  "apply_typed c height TRANSFER = decoded TransferTx_deserialize (apply_transfer c)"
| "apply_typed c height MINT = decoded MintTx_deserialize (\<lambda>m. apply_mint_tx c m height)"
| "apply_typed c height MODERATOR_OP =
     decoded ModeratorOpTx_deserialize (\<lambda>tx. apply_moderator_op c tx height)"
| "apply_typed c height MODERATOR_PROPOSAL =
     decoded ProposalTx_deserialize (\<lambda>tx. apply_proposal c tx height)"
| "apply_typed c height USERNAME_REGISTER =
     decoded UsernameTx_deserialize (apply_username_register c)"
| "apply_typed c height SLASH = decoded SlashTx_deserialize (apply_slash c)"
| "apply_typed c height RELAY_REWARD = decoded RelayRewardTx_deserialize (apply_relay_reward c)"
| "apply_typed c height NODE_AUTH = decoded NodeAuthTx_deserialize (apply_node_auth c)"
| "apply_typed c height CHECKPOINT = decoded CheckpointTx_deserialize (apply_checkpoint c)"
| "apply_typed c height RATING = decoded RatingTx_deserialize (\<lambda>tx. apply_rating c tx height)"
| "apply_typed c height SETTLEMENT_MINT =
     decoded SettlementMintTx_deserialize (\<lambda>tx. apply_settlement_mint c tx height)"

definition apply_raw_tx :: "crypto \<Rightarrow> u32 \<Rightarrow> bytes \<Rightarrow> stage \<Rightarrow> bool \<times> stage" where
  "apply_raw_tx c height raw s = (case raw of [] \<Rightarrow> (True, s)
     | b # _ \<Rightarrow> (case tx_type_of b of None \<Rightarrow> (False, s)
        | Some t \<Rightarrow> apply_typed c height t raw s))"

fun apply_tx_list :: "crypto \<Rightarrow> u32 \<Rightarrow> bytes list \<Rightarrow> stage \<Rightarrow> bool \<times> stage" where
  "apply_tx_list c height [] s = (True, s)"
| "apply_tx_list c height (raw # txs) s =
     (let (ok, s) = apply_raw_tx c height raw s in
      if \<not> ok then (False, s) else apply_tx_list c height txs s)"

definition apply_transactions :: "crypto \<Rightarrow> Block \<Rightarrow> u32 \<Rightarrow> stage \<Rightarrow> bool \<times> stage" where
  "apply_transactions c blk height s =
     apply_tx_list c height (blk_transactions blk) (reset_staging s)"

section \<open>Connecting a block\<close>

definition write_song_rows :: "crypto \<Rightarrow> Block \<Rightarrow> u32 \<Rightarrow> stage \<Rightarrow> stage" where
  "write_song_rows c blk height s = (case blk_song blk of None \<Rightarrow> s
     | Some song \<Rightarrow>
         let ch = song_content_hash song in
         set_content_height c ch height
           (add_to_genre_index c (song_genre song) ch
             (add_to_artist_index c (song_artist song) ch
               (put_song_meta c ch song (put_fingerprint c song s)))))"

definition drop_pending_song :: "crypto \<Rightarrow> Block \<Rightarrow> stage \<Rightarrow> stage" where
  "drop_pending_song c blk s = (case blk_song blk of None \<Rightarrow> s
     | Some song \<Rightarrow> del_batch c (''sp:'' @ hex_hash (song_content_hash song)) s)"

definition drain_mempool :: "crypto \<Rightarrow> bytes list \<Rightarrow> stage \<Rightarrow> stage" where
  "drain_mempool c txs s = foldl (\<lambda>s raw. if raw = [] then s
     else del_batch c (''pt:'' @ hex_hash (sha256 c raw))
            (del_batch c (''p:'' @ hex_hash (sha256 c raw)) s)) s txs"

text \<open>A new \<open>WriteBatch\<close>, with no accumulator active.\<close>

definition new_batch :: "stage \<Rightarrow> stage" where
  "new_batch s = s\<lparr>db_batch := [], db_acc := None\<rparr>"

definition with_acc :: "StateAccumulator option \<Rightarrow> stage \<Rightarrow> stage" where
  "with_acc a s = s\<lparr>db_acc := a\<rparr>"

definition commit_batch :: "stage \<Rightarrow> stage" where
  "commit_batch s = s\<lparr>db_store := kv_write (db_store s) (db_batch s), db_batch := []\<rparr>"

definition write_block_rows ::
    "crypto \<Rightarrow> Block \<Rightarrow> u32 \<Rightarrow> u64 \<Rightarrow> stage \<Rightarrow> stage" where
  "write_block_rows c blk new_height new_weight s =
     (let serialized = Block_serialize blk; hash = Block_hash c blk;
          s = put_batch c (block_key hash) serialized s;
          s = put_batch_u32 c (block_height_key hash) new_height s;
          s = put_batch_u64 c (weight_key hash) new_weight s;
          s = put_batch c (height_key new_height) (arr_bytes hash) s;
          s = put_batch c (full_hash_key new_height) (arr_bytes (Block_full_hash c serialized)) s
      in put_batch c tip_key (tip_value hash new_height) s)"

text \<open>The state writes of a block, through an accumulator seeded from the committed one.\<close>

definition apply_state :: "crypto \<Rightarrow> Block \<Rightarrow> u32 \<Rightarrow> lanes \<Rightarrow> stage \<Rightarrow> bool \<times> stage" where
  "apply_state c blk height committed s =
     apply_transactions c blk height
       (drop_pending_song c blk (write_song_rows c blk height (with_acc (Some (copy_from committed)) s)))"

definition root_gate :: "crypto \<Rightarrow> Block \<Rightarrow> lanes \<Rightarrow> bool" where
  "root_gate c blk vec \<longleftrightarrow>
     \<not> (4 \<le> hd_version (blk_header blk) \<and> state_root c vec \<noteq> hd_state_root (blk_header blk))"

definition acc_vec_of :: "stage \<Rightarrow> lanes" where
  "acc_vec_of s = (case db_acc s of None \<Rightarrow> 0 | Some a \<Rightarrow> ac_vec a)"

text \<open>A refused block leaves the staging of its attempt behind, and nothing in the store.\<close>

definition refused :: "chain \<Rightarrow> stage \<Rightarrow> bool \<times> chain" where
  "refused ch s = (False, ch\<lparr>ch_stage := new_batch s\<rparr>)"

definition connect_block :: "crypto \<Rightarrow> bool \<Rightarrow> Block \<Rightarrow> chain \<Rightarrow> bool \<times> chain" where
  "connect_block c allow_new_chain blk ch =
     (if validate_block c allow_new_chain ch blk \<noteq> None then (False, ch)
      else
        let hash = Block_hash c blk;
            new_height = tip_height (ch_tip ch) + 1;
            new_weight = tip_weight (ch_tip ch) + count_plays blk
        in
        if \<not> checkpoint_ok (ch_checkpoints ch) new_height hash then (False, ch)
        else
          let s = write_block_rows c blk new_height new_weight (new_batch (ch_stage ch));
              (tx_ok, s) = apply_state c blk new_height (ch_acc ch) s;
              vec = acc_vec_of s;
              s = with_acc None s
          in
          if \<not> tx_ok then refused ch s
          else if \<not> root_gate c blk vec then refused ch s
          else
            let s = put_batch c sr_vec_key (serialize_vec vec) s;
                s = drain_mempool c (blk_transactions blk) s;
                s = commit_batch s
            in (True, ch\<lparr>ch_stage := s\<lparr>st_checkpoints := Map.empty\<rparr>,
                         ch_acc := vec,
                         ch_checkpoints := ch_checkpoints ch ++ st_checkpoints s,
                         ch_tip := \<lparr>tip_hash = hash, tip_height = new_height,
                           tip_timestamp_ms = hd_timestamp_ms (blk_header blk),
                           tip_weight = new_weight\<rparr>\<rparr>))"

definition compute_candidate_state_root :: "crypto \<Rightarrow> Block \<Rightarrow> chain \<Rightarrow> hash256 \<times> chain" where
  "compute_candidate_state_root c blk ch =
     (let h = tip_height (ch_tip ch) + 1;
          s = with_acc (Some (copy_from (ch_acc ch))) (new_batch (ch_stage ch));
          s = write_song_rows c blk h s;
          (_, s) = apply_transactions c blk h s
      in (state_root c (acc_vec_of s), ch\<lparr>ch_stage := new_batch s\<rparr>))"

section \<open>The transaction that wedges a mempool\<close>

text \<open>
  Prefixes of growing length are tried against throwaway batches; the index of the first
  transaction whose inclusion fails, or -1.
\<close>

fun first_unappliable_from ::
    "crypto \<Rightarrow> u32 \<Rightarrow> bytes list \<Rightarrow> bytes list \<Rightarrow> stage \<Rightarrow> int \<times> stage" where
  "first_unappliable_from c height before [] s = (-1, s)"
| "first_unappliable_from c height before (tx # txs) s =
     (let (ok, s) = apply_tx_list c height (before @ [tx]) (reset_staging (new_batch s)) in
      if \<not> ok then (int (length before), new_batch s)
      else first_unappliable_from c height (before @ [tx]) txs (new_batch s))"

definition first_unappliable_tx :: "crypto \<Rightarrow> bytes list \<Rightarrow> chain \<Rightarrow> int \<times> chain" where
  "first_unappliable_tx c txs ch =
     (let (i, s) = first_unappliable_from c (tip_height (ch_tip ch) + 1) [] txs (ch_stage ch)
      in (i, ch\<lparr>ch_stage := s\<rparr>))"

end
