(* ===== verification/Reorg.thy ===== *)
theory Reorg
  imports Chain
begin

text \<open>
  The rest of \<open>src/bopwire/src/core/chain.cpp\<close>: opening the chain, the history digest, the
  play-index backfill, disconnecting the tip, replaying the chain into cleared state, and
  adopting another branch.
\<close>

section \<open>Direct writes and the cleared state\<close>

definition db_put_now :: "string \<Rightarrow> bytes \<Rightarrow> stage \<Rightarrow> stage" where
  "db_put_now k v s = s\<lparr>db_store := kv_put (db_store s) k v\<rparr>"

definition db_del_now :: "string \<Rightarrow> stage \<Rightarrow> stage" where
  "db_del_now k s = s\<lparr>db_store := kv_del (db_store s) k\<rparr>"

definition derived_prefixes :: "string list" where
  "derived_prefixes = kStatePrefixes @ [''fph:'', ''pp:'']"

definition clear_derived_state :: "kv \<Rightarrow> kv" where
  "clear_derived_state db =
     kv_write db (concat (map (\<lambda>p. map (\<lambda>(k, _). Del k) (kv_scan db p)) derived_prefixes) @
                  [Del supply_key])"

section \<open>Checkpoints kept in the store\<close>

definition restore_checkpoints :: "kv \<Rightarrow> (u32 \<Rightarrow> hash256 option) \<Rightarrow> (u32 \<Rightarrow> hash256 option)" where
  "restore_checkpoints db m = foldl (\<lambda>m (k, v).
     if length v \<noteq> 32 then m
     else case stoull (drop 3 k) of None \<Rightarrow> m
       | Some h \<Rightarrow> m(ucast h \<mapsto> mk_arr v)) m (kv_scan db ''cp:'')"

text \<open>The constructor: baked-in pins, pins from the store, and the accumulator.\<close>

definition Chain_open :: "crypto \<Rightarrow> (u32 \<times> string) list \<Rightarrow> stage \<Rightarrow> chain" where
  "Chain_open c rows s =
     (let cps = restore_checkpoints (db_store s)
            (add_config_checkpoints (hardcoded_checkpoints rows) Map.empty)
      in case db_get s sr_vec_key of
           Some v \<Rightarrow> if length v = 1024 * 2
             then \<lparr>ch_stage = s, ch_acc = deserialize_vec v, ch_tip = ChainTip_empty,
                   ch_checkpoints = cps\<rparr>
             else let acc = scan_state_accumulator c (db_store s) in
               \<lparr>ch_stage = db_put_now sr_vec_key (serialize_vec acc) s, ch_acc = acc,
                ch_tip = ChainTip_empty, ch_checkpoints = cps\<rparr>
         | None \<Rightarrow> let acc = scan_state_accumulator c (db_store s) in
               \<lparr>ch_stage = db_put_now sr_vec_key (serialize_vec acc) s, ch_acc = acc,
                ch_tip = ChainTip_empty, ch_checkpoints = cps\<rparr>)"

section \<open>The history digest\<close>

definition MC_CHAIN_DIGEST_HEIGHT :: u32 where "MC_CHAIN_DIGEST_HEIGHT = 920"

definition MC_CHAIN_DIGEST :: string where
  "MC_CHAIN_DIGEST = ''31a737c5f28c105306c62fc6faebc523fa49f8f9d40652c01e1126687ec049cd''"

fun concat_hashes :: "'a dbst_scheme \<Rightarrow> u32 list \<Rightarrow> bytes option" where
  "concat_hashes s [] = Some []"
| "concat_hashes s (h # hs) = do {
     bh \<leftarrow> get_block_hash s h; rest \<leftarrow> concat_hashes s hs; Some (arr_bytes bh @ rest) }"

definition heights :: "u32 \<Rightarrow> u32 \<Rightarrow> u32 list" where
  "heights a b = map word_of_nat [unat a ..< Suc (unat b)]"

definition verify_chain_digest :: "crypto \<Rightarrow> chain \<Rightarrow> bool" where
  "verify_chain_digest c ch \<longleftrightarrow>
     (if tip_height (ch_tip ch) < MC_CHAIN_DIGEST_HEIGHT then True
      else case concat_hashes (ch_stage ch) (heights 1 MC_CHAIN_DIGEST_HEIGHT) of
          None \<Rightarrow> False
        | Some acc \<Rightarrow> hex_hash (sha256 c acc) = MC_CHAIN_DIGEST)"

section \<open>Replay\<close>

text \<open>The local variables of \<open>rebuild_derived_state\<close>, with the chain's stage.\<close>

record replay =
  rp_stage :: stage
  rp_acc :: lanes
  rp_prev :: hash256
  rp_last :: u32
  rp_weight :: u64

datatype replay_verdict = Replayed | Stopped | Missing_block

definition replay_rejects :: "crypto \<Rightarrow> (u32 \<Rightarrow> hash256 option) \<Rightarrow> u32 \<Rightarrow> hash256 \<Rightarrow> Block \<Rightarrow> replay \<Rightarrow> bool" where
  "replay_rejects c cps h bhash blk r \<longleftrightarrow>
     \<not> Block_validate c blk \<or> hd_prev_hash (blk_header blk) \<noteq> rp_prev r \<or>
     \<not> checkpoint_ok cps h bhash \<or> is_duplicate_song c (rp_stage r) blk"

definition replay_one ::
    "crypto \<Rightarrow> (u32 \<Rightarrow> hash256 option) \<Rightarrow> u32 \<Rightarrow> replay \<Rightarrow> replay_verdict \<times> replay" where
  "replay_one c cps h r =
     (case get_block_hash (rp_stage r) h of None \<Rightarrow> (Missing_block, r)
      | Some bhash \<Rightarrow>
      (case get_block (rp_stage r) bhash of None \<Rightarrow> (Missing_block, r)
      | Some blk \<Rightarrow>
      if replay_rejects c cps h bhash blk r then (Stopped, r)
      else
        let s = with_acc (Some (copy_from (rp_acc r))) (new_batch (rp_stage r));
            (ok, s) = apply_transactions c blk h (write_song_rows c blk h s);
            vec = acc_vec_of s;
            s = with_acc None s
        in
        if \<not> ok \<or> \<not> root_gate c blk vec then (Stopped, r\<lparr>rp_stage := new_batch s\<rparr>)
        else
          let w = rp_weight r + count_plays blk;
              s = put_batch c sr_vec_key (serialize_vec vec)
                    (put_batch_u64 c (weight_key bhash) w s)
          in (Replayed, \<lparr>rp_stage = commit_batch s, rp_acc = vec, rp_prev = bhash, rp_last = h,
                         rp_weight = w\<rparr>)))"

fun replay_blocks ::
    "crypto \<Rightarrow> (u32 \<Rightarrow> hash256 option) \<Rightarrow> u32 list \<Rightarrow> replay \<Rightarrow> replay_verdict \<times> replay" where
  "replay_blocks c cps [] r = (Replayed, r)"
| "replay_blocks c cps (h # hs) r =
     (case replay_one c cps h r of
        (Replayed, r) \<Rightarrow> replay_blocks c cps hs r
      | (v, r) \<Rightarrow> (v, r))"

definition replay_start :: "stage \<Rightarrow> replay" where
  "replay_start s =
     (let s = db_put_now sr_dirty_key [1] s;
          s = s\<lparr>db_store := clear_derived_state (db_store s)\<rparr>
      in \<lparr>rp_stage = s, rp_acc = 0, rp_prev = 0, rp_last = 0, rp_weight = 0\<rparr>)"

definition rebuild_derived_state :: "crypto \<Rightarrow> chain \<Rightarrow> bool \<times> chain" where
  "rebuild_derived_state c ch =
     (let (v, r) = replay_blocks c (ch_checkpoints ch) (heights 1 (tip_height (ch_tip ch)))
            (replay_start (ch_stage ch))
      in if v = Missing_block then (False, ch\<lparr>ch_stage := rp_stage r\<rparr>)
         else
           let tip = (ch_tip ch)\<lparr>tip_weight := rp_weight r\<rparr>;
               short = rp_last r < tip_height tip;
               tip = (if short then tip\<lparr>tip_height := rp_last r, tip_hash := rp_prev r\<rparr> else tip);
               s = (if short then db_put_now tip_key (tip_value (tip_hash tip) (tip_height tip)) (rp_stage r)
                    else rp_stage r);
               cps = restore_checkpoints (db_store s) (ch_checkpoints ch);
               s = db_put_now sr_vec_key (serialize_vec (rp_acc r)) s;
               s = db_del_now sr_dirty_key s
           in (True, \<lparr>ch_stage = s, ch_acc = rp_acc r, ch_tip = tip, ch_checkpoints = cps\<rparr>))"

section \<open>The play index\<close>

definition credit_play :: "crypto \<Rightarrow> PlayProof \<Rightarrow> stage \<Rightarrow> stage" where
  "credit_play c pr s =
     (if \<not> is_session_used s (pp_session_id pr) then s
      else mark_play_credit c (pp_content_hash pr) (pp_player_address pr) s)"

definition index_raw_tx :: "crypto \<Rightarrow> stage \<Rightarrow> bytes \<Rightarrow> stage" where
  "index_raw_tx c s raw = (case raw of [] \<Rightarrow> s
     | b # _ \<Rightarrow>
       if tx_type_of b = Some MINT then
         (case MintTx_deserialize raw of None \<Rightarrow> s | Some m \<Rightarrow> credit_play c (mt_proof m) s)
       else if tx_type_of b = Some SETTLEMENT_MINT then
         (case SettlementMintTx_deserialize raw of None \<Rightarrow> s
          | Some sm \<Rightarrow>
            (case db_get s (''sb:'' @ hex_hash (sm_constituents_merkle_root sm)) of None \<Rightarrow> s
             | Some braw \<Rightarrow>
               (case deserialize_settle_body braw of None \<Rightarrow> s
                | Some proofs \<Rightarrow> foldl (\<lambda>s pr. credit_play c pr s) s proofs)))
       else s)"

definition index_block :: "crypto \<Rightarrow> stage \<Rightarrow> u32 \<Rightarrow> stage" where
  "index_block c s h =
     (case Option.bind (get_block_hash s h) (get_block s) of None \<Rightarrow> s
      | Some blk \<Rightarrow> foldl (index_raw_tx c) s (blk_transactions blk))"

definition schema_pp_key :: string where "schema_pp_key = ''schema:pp''"

definition ensure_play_index :: "crypto \<Rightarrow> chain \<Rightarrow> chain" where
  "ensure_play_index c ch =
     (if db_get (ch_stage ch) schema_pp_key \<noteq> None then ch
      else ch\<lparr>ch_stage := db_put_now schema_pp_key [1]
             (commit_batch (foldl (index_block c) (new_batch (ch_stage ch))
                (heights 1 (tip_height (ch_tip ch)))))\<rparr>)"

text \<open>\<open>Chain::init\<close>: false when the tip row is damaged, then the corruption flag.\<close>

definition Chain_init :: "crypto \<Rightarrow> chain \<Rightarrow> bool \<times> bool \<times> chain" where
  "Chain_init c ch =
     (case load_tip (ch_stage ch) of None \<Rightarrow> (False, False, ch)
      | Some tip \<Rightarrow>
          let ch = ch\<lparr>ch_tip := tip\<rparr>;
              ch = (if 0 < tip_height tip \<and> db_get (ch_stage ch) sr_dirty_key \<noteq> None
                    then snd (rebuild_derived_state c ch) else ch);
              ch = ensure_play_index c ch
          in (True, \<not> verify_chain_digest c ch, ch))"

section \<open>Disconnecting the tip\<close>

definition disconnect_block :: "crypto \<Rightarrow> chain \<Rightarrow> bool \<times> chain" where
  "disconnect_block c ch =
     (let tip = ch_tip ch in
      if tip_height tip = 0 then (False, ch)
      else
        let s = new_batch (ch_stage ch);
            s = del_batch c (block_key (tip_hash tip)) s;
            s = del_batch c (block_height_key (tip_hash tip)) s;
            s = del_batch c (height_key (tip_height tip)) s;
            s = del_batch c (weight_key (tip_hash tip)) s
        in (case get_block_hash s (tip_height tip - 1) of
              None \<Rightarrow> (True, ch\<lparr>ch_stage := commit_batch (del_batch c tip_key s),
                                ch_tip := ChainTip_empty\<rparr>)
            | Some prev \<Rightarrow>
                let s = commit_batch (put_batch c tip_key (tip_value prev (tip_height tip - 1)) s)
                in (True, ch\<lparr>ch_stage := s,
                      ch_tip := \<lparr>tip_hash = prev, tip_height = tip_height tip - 1,
                        tip_timestamp_ms = (case get_block s prev of None \<Rightarrow> 0
                          | Some b \<Rightarrow> hd_timestamp_ms (blk_header b)),
                        tip_weight = get_weight s prev\<rparr>\<rparr>)))"

section \<open>Reorganisation\<close>

datatype reorg_error = Empty_branch | Fork_point_not_on_chain | Beyond_finality | Not_contiguous
  | Branch_block_invalid | Violates_checkpoint | Not_better | Missing_old_block
  | Failed_revalidation

fun check_links :: "crypto \<Rightarrow> hash256 \<Rightarrow> Block list \<Rightarrow> reorg_error option" where
  "check_links c expect [] = None"
| "check_links c expect (b # bs) =
     (if hd_prev_hash (blk_header b) \<noteq> expect then Some Not_contiguous
      else if \<not> Block_validate c b then Some Branch_block_invalid
      else check_links c (Block_hash c b) bs)"

fun branch_checkpoints_ok ::
    "crypto \<Rightarrow> (u32 \<Rightarrow> hash256 option) \<Rightarrow> u32 \<Rightarrow> Block list \<Rightarrow> bool" where
  "branch_checkpoints_ok c cps h [] = True"
| "branch_checkpoints_ok c cps h (b # bs) =
     (checkpoint_ok cps h (Block_hash c b) \<and> branch_checkpoints_ok c cps (h + 1) bs)"

definition branch_weight :: "u64 \<Rightarrow> Block list \<Rightarrow> u64" where
  "branch_weight fork_weight branch = foldl (\<lambda>w b. w + count_plays b) fork_weight branch"

definition branch_tip :: "crypto \<Rightarrow> u32 \<Rightarrow> u64 \<Rightarrow> Block list \<Rightarrow> ChainTip" where
  "branch_tip c fork_height fork_weight branch =
     \<lparr>tip_hash = Block_hash c (last branch),
      tip_height = fork_height + word_of_nat (length branch),
      tip_timestamp_ms = hd_timestamp_ms (blk_header (last branch)),
      tip_weight = branch_weight fork_weight branch\<rparr>"

fun write_branch_blocks :: "crypto \<Rightarrow> u32 \<Rightarrow> u64 \<Rightarrow> Block list \<Rightarrow> stage \<Rightarrow> stage" where
  "write_branch_blocks c h w [] s = s"
| "write_branch_blocks c h w (b # bs) s =
     (let ser = Block_serialize b; hh = Block_hash c b; w = w + count_plays b;
          s = put_batch c (block_key hh) ser s;
          s = put_batch_u32 c (block_height_key hh) h s;
          s = put_batch c (height_key h) (arr_bytes hh) s;
          s = put_batch c (full_hash_key h) (arr_bytes (Block_full_hash c ser)) s;
          s = put_batch_u64 c (weight_key hh) w s;
          s = drain_mempool c (blk_transactions b) s;
          s = drop_pending_song c b s
      in write_branch_blocks c (h + 1) w bs s)"

definition write_branch ::
    "crypto \<Rightarrow> Block list \<Rightarrow> u32 \<Rightarrow> u64 \<Rightarrow> hash256 \<Rightarrow> u32 \<Rightarrow> stage \<Rightarrow> stage" where
  "write_branch c blocks base_height base_weight tip_h tip_height' s =
     commit_batch (put_batch c tip_key (tip_value tip_h tip_height')
       (write_branch_blocks c (base_height + 1) base_weight blocks (new_batch s)))"

definition clear_n_above :: "crypto \<Rightarrow> u32 \<Rightarrow> u32 \<Rightarrow> stage \<Rightarrow> stage" where
  "clear_n_above c from_h to_h s =
     (if to_h < from_h then s
      else commit_batch (foldl (\<lambda>s h. del_batch c (height_key h) s) (new_batch s)
             (heights from_h to_h)))"

fun snapshot_hashes :: "'a dbst_scheme \<Rightarrow> u32 list \<Rightarrow> hash256 list option" where
  "snapshot_hashes s [] = Some []"
| "snapshot_hashes s (h # hs) = do {
     bh \<leftarrow> get_block_hash s h; rest \<leftarrow> snapshot_hashes s hs; Some (bh # rest) }"

text \<open>The old blocks in order, up to the first whose bytes are gone.\<close>

fun load_blocks :: "'a dbst_scheme \<Rightarrow> hash256 list \<Rightarrow> Block list" where
  "load_blocks s [] = []"
| "load_blocks s (h # hs) = (case get_block s h of None \<Rightarrow> [] | Some b \<Rightarrow> b # load_blocks s hs)"

definition drop_branch_rows :: "crypto \<Rightarrow> Block list \<Rightarrow> stage \<Rightarrow> stage" where
  "drop_branch_rows c branch s = commit_batch (foldl (\<lambda>s b.
     del_batch c (weight_key (Block_hash c b)) (del_batch c (block_height_key (Block_hash c b))
       (del_batch c (block_key (Block_hash c b)) s))) (new_batch s) branch)"

definition restore_chain :: "crypto \<Rightarrow> u32 \<Rightarrow> u64 \<Rightarrow> Block list \<Rightarrow> hash256 list \<Rightarrow> ChainTip \<Rightarrow>
    u32 \<Rightarrow> chain \<Rightarrow> chain" where
  "restore_chain c fork_height fork_weight branch old_hashes old_tip new_height ch =
     (let s = db_put_now sr_dirty_key [1] (ch_stage ch);
          old_blocks = load_blocks s old_hashes;
          s = drop_branch_rows c branch s;
          s = clear_n_above c (fork_height + 1) (max new_height (tip_height old_tip)) s
      in if length old_blocks = length old_hashes then
           let s = write_branch c old_blocks fork_height fork_weight (tip_hash old_tip)
                     (tip_height old_tip) s
           in snd (rebuild_derived_state c (ch\<lparr>ch_stage := s, ch_tip := old_tip\<rparr>))
         else ch\<lparr>ch_stage := s\<rparr>)"

definition reorg_to_branch ::
    "crypto \<Rightarrow> hash256 \<Rightarrow> u32 \<Rightarrow> Block list \<Rightarrow> chain \<Rightarrow> reorg_error option \<times> chain" where
  "reorg_to_branch c fork_hash fork_height branch ch =
     (let tip = ch_tip ch; s = ch_stage ch in
      if branch = [] then (Some Empty_branch, ch)
      else if get_block_height s fork_hash \<noteq> Some fork_height then (Some Fork_point_not_on_chain, ch)
      else if FINALITY_DEPTH < tip_height tip \<and> fork_height < tip_height tip - FINALITY_DEPTH
        then (Some Beyond_finality, ch)
      else (case check_links c fork_hash branch of Some e \<Rightarrow> (Some e, ch)
      | None \<Rightarrow>
      if \<not> branch_checkpoints_ok c (ch_checkpoints ch) (fork_height + 1) branch
        then (Some Violates_checkpoint, ch)
      else
        let fork_weight = get_weight s fork_hash;
            cand = branch_tip c fork_height fork_weight branch
        in
        if \<not> tip_is_better cand tip then (Some Not_better, ch)
        else (case snapshot_hashes s (heights (fork_height + 1) (tip_height tip)) of
          None \<Rightarrow> (Some Missing_old_block, ch)
        | Some old_hashes \<Rightarrow>
          let s = db_put_now sr_dirty_key [1] s;
              s = write_branch c branch fork_height fork_weight (tip_hash cand) (tip_height cand) s;
              s = (if tip_height cand < tip_height tip
                   then clear_n_above c (tip_height cand + 1) (tip_height tip) s else s);
              ch = snd (rebuild_derived_state c (ch\<lparr>ch_stage := s, ch_tip := cand\<rparr>))
          in if tip_hash (ch_tip ch) = tip_hash cand then (None, ch)
             else (Some Failed_revalidation,
                   restore_chain c fork_height fork_weight branch old_hashes tip
                     (tip_height cand) ch))))"

end
