(* ===== verification/Batch_Frame.thy ===== *)
theory Batch_Frame
  imports Chain
begin

text \<open>
  Two framing principles for code that fills a write batch. \<open>pre b s\<close> is \<open>s\<close> with some
  operations already in its batch and, if \<open>b\<close> says so, with the accumulator switched off: since
  the database cannot be read through the batch, nor the accumulator by a handler, every
  operation behaves as if nothing had happened. \<open>chain_frame\<close> are the operations on the
  rows of the chain itself (blocks, heights, weights, tip), which no state writer adds to.
\<close>

section \<open>Operations already in the batch\<close>

type_synonym hidden = "bool \<times> write_op list"

definition pre :: "hidden \<Rightarrow> 'a dbst_scheme \<Rightarrow> 'a dbst_scheme" where
  "pre b s = s\<lparr>db_batch := snd b @ db_batch s, db_acc := (if fst b then None else db_acc s)\<rparr>"

definition ppre :: "hidden \<Rightarrow> 'b \<times> 'a dbst_scheme \<Rightarrow> 'b \<times> 'a dbst_scheme" where
  "ppre b r = (fst r, pre b (snd r))"

lemma ppre_simps [simp]:
  "ppre b (x, s) = (x, pre b s)" "fst (ppre b r) = fst r" "snd (ppre b r) = pre b (snd r)"
  by (simp_all add: ppre_def)

lemma ppre_if: "ppre b (if P then x else y) = (if P then ppre b x else ppre b y)"
  by simp

lemma pre_fields [simp]:
  "db_store (pre b s) = db_store s" "db_acc (pre b s) = (if fst b then None else db_acc s)"
  "db_batch (pre b s) = snd b @ db_batch s"
  by (simp_all add: pre_def)

lemma pre_overlay [simp]: "lg_bal (pre b s) = lg_bal s" "lg_supply (pre b s) = lg_supply s"
  by (simp_all add: pre_def)

lemma pre_staging [simp]:
  "st_votes (pre b s) = st_votes s" "st_nonce (pre b s) = st_nonce s"
  "st_plays (pre b s) = st_plays s" "st_sessions (pre b s) = st_sessions s"
  "st_checkpoints (pre b s) = st_checkpoints s"
  by (simp_all add: pre_def)

lemma pre_updates [simp]:
  "(pre b s)\<lparr>st_votes := v\<rparr> = pre b (s\<lparr>st_votes := v\<rparr>)"
  "(pre b s)\<lparr>st_nonce := n\<rparr> = pre b (s\<lparr>st_nonce := n\<rparr>)"
  "(pre b s)\<lparr>st_plays := p\<rparr> = pre b (s\<lparr>st_plays := p\<rparr>)"
  "(pre b s)\<lparr>st_sessions := u\<rparr> = pre b (s\<lparr>st_sessions := u\<rparr>)"
  "(pre b s)\<lparr>st_checkpoints := k\<rparr> = pre b (s\<lparr>st_checkpoints := k\<rparr>)"
  by (simp_all add: pre_def)

lemma pre_overlay_updates [simp]:
  "(pre b t)\<lparr>lg_bal := x\<rparr> = pre b (t\<lparr>lg_bal := x\<rparr>)"
  "(pre b t)\<lparr>lg_supply := y\<rparr> = pre b (t\<lparr>lg_supply := y\<rparr>)"
  by (simp_all add: pre_def)

lemma pre_db_get [simp]: "db_get (pre b s) k = db_get s k"
  by (simp add: db_get_def)

lemma pre_scan [simp]: "for_each_with_prefix (pre b s) p = for_each_with_prefix s p"
  by (simp add: for_each_with_prefix_def)

lemma pre_put_batch [simp]:
  "put_batch c k v (pre b s) = pre b (put_batch c k v s)"
  "del_batch c k (pre b s) = pre b (del_batch c k s)"
  "raw_put k v (pre b s) = pre b (raw_put k v s)" "raw_del k (pre b s) = pre b (raw_del k s)"
  by (cases "db_acc s"; simp add: pre_def put_batch_def del_batch_def raw_put_def raw_del_def)+

section \<open>Reads do not see the batch\<close>

lemma pre_reads [simp]:
  "get_u32 (pre b s) k = get_u32 s k" "get_u64 (pre b s) k = get_u64 s k"
  "get_song_state (pre b s) ch = get_song_state s ch"
  "has_play_credit (pre b s) ch a = has_play_credit s ch a"
  "is_session_used (pre b s) ch = is_session_used s ch"
  "get_founder (pre b s) = get_founder s" "get_mod_level (pre b s) a = get_mod_level s a"
  "get_label (pre b s) nm = get_label s nm" "get_artist_label (pre b s) a = get_artist_label s a"
  "username_taken (pre b s) nm = username_taken s nm"
  "get_addr_username (pre b s) a = get_addr_username s a"
  "has_proposal (pre b s) ch = has_proposal s ch" "get_proposal (pre b s) ch = get_proposal s ch"
  "get_proposal_status (pre b s) ch = get_proposal_status s ch"
  "has_proposal_vote (pre b s) ch a = has_proposal_vote s ch a"
  "count_proposal_votes (pre b s) ch = count_proposal_votes s ch"
  "list_active_moderators (pre b s) = list_active_moderators s"
  "get_rating (pre b s) ch a = get_rating s ch a"
  "get_rating_counts (pre b s) ch = get_rating_counts s ch"
  "get_rating_policy (pre b s) = get_rating_policy s"
  "get_rating_hide (pre b s) ch = get_rating_hide s ch"
  "is_rating_hide_exempt (pre b s) ch = is_rating_hide_exempt s ch"
  "get_bucket (pre b s) bid = get_bucket s bid"
  by (simp_all add: get_u32_def get_u64_def get_song_state_def has_play_credit_def
      is_session_used_def get_founder_def get_mod_level_def get_label_def get_artist_label_def
      username_taken_def get_addr_username_def has_proposal_def get_proposal_def
      get_proposal_status_def has_proposal_vote_def count_proposal_votes_def
      list_active_moderators_def get_rating_def get_rating_counts_def get_rating_policy_def
      get_rating_hide_def is_rating_hide_exempt_def get_bucket_def)

lemma pre_reads2 [simp]:
  "get_play_count (pre b s) ch = get_play_count s ch" "get_balance (pre b s) a = get_balance s a"
  "get_total_supply (pre b s) = get_total_supply s" "get_nonce (pre b s) a = get_nonce s a"
  "get_content_height (pre b s) ch = get_content_height s ch"
  "get_song_section (pre b s) ch = get_song_section s ch"
  "vote_eligible (pre b s) = vote_eligible s" "votes_needed (pre b s) = votes_needed s"
  "artist_label_splits (pre b s) a = artist_label_splits s a"
  by (simp_all add: get_play_count_def get_balance_def get_total_supply_def get_nonce_def
      get_content_height_def get_song_section_def vote_eligible_def votes_needed_def
      artist_label_splits_def db_get_def get_label_def
      cong: option.case_cong bind_option_cong if_cong)

lemma pre_reads3 [simp]:
  "rd_bal (pre b t) a = rd_bal t a" "rd_supply (pre b t) = rd_supply t"
  "check_play c pr (pre b s) h = check_play c pr s h"
  "recompute_mint c pr (pre b s) = recompute_mint c pr s"
  by (simp_all add: rd_bal_def rd_supply_def check_play_def recompute_mint_def Let_def
      cong: option.case_cong)

lemma pre_reads4 [simp]:
  "validate_mint c m (pre b s) h = validate_mint c m s h"
  "next_expected_nonce (pre b u) a = next_expected_nonce u a"
  "effective_vote_count (pre b u) ch = effective_vote_count u ch"
  "grant_is_unanimous (pre b u) ch = grant_is_unanimous u ch"
  by (simp_all add: validate_mint_def next_expected_nonce_def effective_vote_count_def
      grant_is_unanimous_def cong: option.case_cong)

section \<open>Writes commute with them\<close>

lemma pre_writers [simp]:
  "put_batch_u32 c k a (pre b s) = pre b (put_batch_u32 c k a s)"
  "put_batch_u64 c k n (pre b s) = pre b (put_batch_u64 c k n s)"
  "set_nonce c ad n (pre b s) = pre b (set_nonce c ad n s)"
  "set_balance c ad n (pre b s) = pre b (set_balance c ad n s)"
  "set_total_supply c n (pre b s) = pre b (set_total_supply c n s)"
  "set_song_state c ch st (pre b s) = pre b (set_song_state c ch st s)"
  "mark_play_credit c ch ad (pre b s) = pre b (mark_play_credit c ch ad s)"
  "mark_song_deleted c ch (pre b s) = pre b (mark_song_deleted c ch s)"
  "set_founder c ad (pre b s) = pre b (set_founder c ad s)"
  "set_mod_level c ad lv (pre b s) = pre b (set_mod_level c ad lv s)"
  "set_mod_pubkey c ad pk (pre b s) = pre b (set_mod_pubkey c ad pk s)"
  "set_mod_active_block c ad h (pre b s) = pre b (set_mod_active_block c ad h s)"
  "set_label c nm df (pre b s) = pre b (set_label c nm df s)"
  "assign_artist_label c ad nm (pre b s) = pre b (assign_artist_label c ad nm s)"
  "set_username c nm ad (pre b s) = pre b (set_username c nm ad s)"
  "put_proposal c ch raw (pre b s) = pre b (put_proposal c ch raw s)"
  "set_proposal_status c ch lv (pre b s) = pre b (set_proposal_status c ch lv s)"
  "add_proposal_vote c ch ad (pre b s) = pre b (add_proposal_vote c ch ad s)"
  "set_rating c ch ad lv (pre b s) = pre b (set_rating c ch ad lv s)"
  "set_rating_counts c ch rc (pre b s) = pre b (set_rating_counts c ch rc s)"
  "set_rating_policy c po (pre b s) = pre b (set_rating_policy c po s)"
  "set_rating_hide c ch hi (pre b s) = pre b (set_rating_hide c ch hi s)"
  "set_content_height c ch h (pre b s) = pre b (set_content_height c ch h s)"
  "put_song_meta c ch song (pre b s) = pre b (put_song_meta c ch song s)"
  by (simp_all add: put_batch_u32_def put_batch_u64_def set_nonce_def set_balance_def
      set_total_supply_def set_song_state_def mark_play_credit_def mark_song_deleted_def
      set_founder_def set_mod_level_def set_mod_pubkey_def set_mod_active_block_def set_label_def
      assign_artist_label_def set_username_def put_proposal_def set_proposal_status_def
      add_proposal_vote_def set_rating_def set_rating_counts_def set_rating_policy_def
      set_rating_hide_def set_content_height_def put_song_meta_def Let_def)

lemma pre_foldl:
  "(\<And>s x. f (pre b s) x = pre b (f s x)) \<Longrightarrow> foldl f (pre b s) xs = pre b (foldl f s xs)"
  by (induction xs arbitrary: s) simp_all

lemma pre_add_to_index [simp]: "add_to_index c k ch (pre b s) = pre b (add_to_index c k ch s)"
  by (cases "db_get s k") (simp_all add: add_to_index_def Let_def)

lemma pre_writers2 [simp]:
  "update_song_state c pr n (pre b s) = pre b (update_song_state c pr n s)"
  "wr_bal c a v (pre b t) = pre b (wr_bal c a v t)" "wr_supply c v (pre b t) = pre b (wr_supply c v t)"
  "add_to_bucket c bid ch (pre b s) = pre b (add_to_bucket c bid ch s)"
  "add_to_artist_index c nm ch (pre b s) = pre b (add_to_artist_index c nm ch s)"
  "add_to_genre_index c nm ch (pre b s) = pre b (add_to_genre_index c nm ch s)"
  by (simp_all add: update_song_state_def wr_bal_def wr_supply_def add_to_bucket_def
      add_to_artist_index_def add_to_genre_index_def Let_def)

lemma pre_foldl_credit [simp]:
  "foldl (\<lambda>s (a, v). wr_bal c a (rd_bal s a + v) s) (pre b t) xs =
     pre b (foldl (\<lambda>s (a, v). wr_bal c a (rd_bal s a + v) s) t xs)"
  by (rule pre_foldl) auto

lemma pre_writers3 [simp]:
  "put_fingerprint c song (pre b s) = pre b (put_fingerprint c song s)"
  "Ledger_credit c a v (pre b t) = pre b (Ledger_credit c a v t)"
  "Ledger_credit_many c outs (pre b t) = pre b (Ledger_credit_many c outs t)"
  "Ledger_debit c a v (pre b t) = ppre b (Ledger_debit c a v t)"
  "Ledger_transfer c a d v (pre b t) = ppre b (Ledger_transfer c a d v t)"
  "Ledger_decrement_supply c v (pre b t) = pre b (Ledger_decrement_supply c v t)"
  "advance_nonce c a n (pre b u) = pre b (advance_nonce c a n u)"
  "record_vote c ch a (pre b u) = pre b (record_vote c ch a u)"
  by (auto simp: put_fingerprint_def Ledger_credit_def Ledger_credit_many_def Ledger_debit_def
      Ledger_transfer_def Ledger_decrement_supply_def advance_nonce_def record_applied_nonce_def
      record_vote_def Let_def pre_foldl split: option.split)

section \<open>The rows of the chain\<close>

definition chain_classes :: "string list" where
  "chain_classes = [''b:'', ''h:'', ''cw:'', ''n:'', ''k:'', ''t:'', ''sr:'']"

definition chain_row :: "string \<Rightarrow> bool" where
  "chain_row k \<longleftrightarrow> list_ex (\<lambda>p. starts_with k p) chain_classes"

text \<open>What no transaction handler changes: the chain rows collected, and whether the hook is on.\<close>

definition chain_frame :: "'a dbst_scheme \<Rightarrow> write_op list \<times> bool" where
  "chain_frame s = (filter (\<lambda>x. chain_row (kvs.op_key x)) (db_batch s), db_acc s \<noteq> None)"

lemma chain_classes_colon: "list_all colon_terminated chain_classes"
  by (simp add: chain_classes_def colon_terminated_def)

lemma chain_row_class: "chain_row k \<longleftrightarrow> (\<exists>p \<in> set chain_classes. key_class k = Some p)"
  using chain_classes_colon starts_with_colon_terminated [of _ k]
  by (auto simp: chain_row_def list_ex_iff list_all_iff)

lemma chain_classes_disjoint: "p \<in> set chain_classes \<Longrightarrow> p \<notin> set kStatePrefixes \<and> p \<noteq> ''c:''"
  by (auto simp: chain_classes_def kStatePrefixes_def)

lemma chain_not_state: "chain_row k \<Longrightarrow> \<not> has_state_prefix k"
  by (auto simp: chain_row_class has_state_prefix_class supply_key_class dest: chain_classes_disjoint)

lemma chain_frame_put_batch [simp]:
  "\<not> chain_row k \<Longrightarrow> chain_frame (put_batch c k v s) = chain_frame s"
  "\<not> chain_row k \<Longrightarrow> chain_frame (del_batch c k s) = chain_frame s"
  "\<not> chain_row k \<Longrightarrow> chain_frame (raw_put k v s) = chain_frame s"
  "\<not> chain_row k \<Longrightarrow> chain_frame (raw_del k s) = chain_frame s"
  by (auto simp: chain_frame_def put_batch_def del_batch_def raw_put_def raw_del_def
      split: option.split)

lemma chain_frame_updates [simp]:
  "chain_frame (u\<lparr>st_votes := v\<rparr>) = chain_frame u" "chain_frame (u\<lparr>st_nonce := n\<rparr>) = chain_frame u"
  "chain_frame (u\<lparr>st_plays := p\<rparr>) = chain_frame u" "chain_frame (u\<lparr>st_sessions := q\<rparr>) = chain_frame u"
  "chain_frame (u\<lparr>st_checkpoints := k\<rparr>) = chain_frame u" "chain_frame (t\<lparr>lg_bal := x\<rparr>) = chain_frame t"
  "chain_frame (t\<lparr>lg_supply := y\<rparr>) = chain_frame t"
  by (simp_all add: chain_frame_def)

lemma not_chain_rows:
  "\<not> chain_row (''a:'' @ r)" "\<not> chain_row (''s:'' @ r)" "\<not> chain_row (''pp:'' @ r)"
  "\<not> chain_row (''u:'' @ r)" "\<not> chain_row (''us:'' @ r)" "\<not> chain_row (''nv:'' @ r)"
  "\<not> chain_row (''m:'' @ r)" "\<not> chain_row (''d:'' @ r)" "\<not> chain_row (''founder:'' @ r)"
  "\<not> chain_row (''mlvl:'' @ r)" "\<not> chain_row (''mpub:'' @ r)" "\<not> chain_row (''mact:'' @ r)"
  "\<not> chain_row (''label:'' @ r)" "\<not> chain_row (''art_label:'' @ r)" "\<not> chain_row (''un:'' @ r)"
  "\<not> chain_row (''addrun:'' @ r)" "\<not> chain_row (''prop:'' @ r)"
  "\<not> chain_row (''propstatus:'' @ r)" "\<not> chain_row (''propvote:'' @ r)"
  "\<not> chain_row (''rv:'' @ r)" "\<not> chain_row (''ra:'' @ r)" "\<not> chain_row (''rc:'' @ r)"
  "\<not> chain_row (''rt:'' @ r)" "\<not> chain_row (''rh:'' @ r)" "\<not> chain_row (''v:'' @ r)"
  "\<not> chain_row (''va:'' @ r)" "\<not> chain_row (''cp:'' @ r)" "\<not> chain_row (''slashed:'' @ r)"
  "\<not> chain_row (''f:'' @ r)" "\<not> chain_row (''fph:'' @ r)" "\<not> chain_row (''i:'' @ r)"
  "\<not> chain_row (''sm:'' @ r)" "\<not> chain_row (''ia:'' @ r)" "\<not> chain_row (''ig:'' @ r)"
  "\<not> chain_row (''bh:'' @ r)" "\<not> chain_row (''p:'' @ r)" "\<not> chain_row (''pt:'' @ r)"
  "\<not> chain_row (''sp:'' @ r)"
  by (simp_all add: chain_row_def chain_classes_def starts_with_def)

lemmas not_chain_rows_simp [simp] = not_chain_rows [simplified]

lemma not_chain_rows_exact [simp]:
  "\<not> chain_row ''founder:''" "\<not> chain_row ''rt:cur''" "\<not> chain_row supply_key"
  "\<not> chain_row (balance_key a)" "\<not> chain_row (bucket_key bid)" "\<not> chain_row (session_key ch)"
  "\<not> chain_row (play_credit_key ch a)" "\<not> chain_row (rating_key ch a)"
  "\<not> chain_row (epoch_key ch e)" "\<not> chain_row (checkpoint_key h)" "\<not> chain_row (slashed_key a)"
  by (simp_all add: chain_row_def chain_classes_def starts_with_def supply_key_def balance_key_def
      bucket_key_def session_key_def play_credit_key_def rating_key_def epoch_key_def
      checkpoint_key_def slashed_key_def)

lemma chain_frame_writers [simp]:
  "chain_frame (set_nonce c ad n s) = chain_frame s" "chain_frame (set_balance c ad n s) = chain_frame s"
  "chain_frame (set_total_supply c n s) = chain_frame s"
  "chain_frame (set_song_state c ch st s) = chain_frame s"
  "chain_frame (mark_play_credit c ch ad s) = chain_frame s"
  "chain_frame (mark_song_deleted c ch s) = chain_frame s" "chain_frame (set_founder c ad s) = chain_frame s"
  "chain_frame (set_mod_level c ad lv s) = chain_frame s"
  "chain_frame (set_mod_pubkey c ad pk s) = chain_frame s"
  "chain_frame (set_mod_active_block c ad h s) = chain_frame s"
  "chain_frame (set_label c nm df s) = chain_frame s"
  "chain_frame (assign_artist_label c ad nm s) = chain_frame s"
  "chain_frame (set_username c nm ad s) = chain_frame s" "chain_frame (put_proposal c ch raw s) = chain_frame s"
  "chain_frame (set_proposal_status c ch lv s) = chain_frame s"
  "chain_frame (add_proposal_vote c ch ad s) = chain_frame s"
  "chain_frame (set_rating c ch ad lv s) = chain_frame s"
  "chain_frame (set_rating_counts c ch rc s) = chain_frame s"
  "chain_frame (set_rating_policy c po s) = chain_frame s"
  "chain_frame (set_rating_hide c ch hi s) = chain_frame s"
  "chain_frame (set_content_height c ch h s) = chain_frame s"
  "chain_frame (put_song_meta c ch song s) = chain_frame s"
  by (simp_all add: put_batch_u32_def put_batch_u64_def set_nonce_def set_balance_def
      set_total_supply_def set_song_state_def mark_play_credit_def mark_song_deleted_def
      set_founder_def set_mod_level_def set_mod_pubkey_def set_mod_active_block_def set_label_def
      assign_artist_label_def set_username_def put_proposal_def set_proposal_status_def
      add_proposal_vote_def set_rating_def set_rating_counts_def set_rating_policy_def
      set_rating_hide_def set_content_height_def put_song_meta_def vote_prefix_def Let_def)

lemma chain_frame_add_to_index [simp]:
  "\<not> chain_row k \<Longrightarrow> chain_frame (add_to_index c k ch s) = chain_frame s"
  by (cases "db_get s k") (simp_all add: add_to_index_def Let_def)

lemma chain_frame_foldl:
  "(\<And>s x. chain_frame (f s x) = chain_frame s) \<Longrightarrow> chain_frame (foldl f s xs) = chain_frame s"
  by (induction xs arbitrary: s) simp_all

lemma chain_frame_writers2 [simp]:
  "chain_frame (update_song_state c pr n s) = chain_frame s" "chain_frame (wr_bal c a v t) = chain_frame t"
  "chain_frame (wr_supply c v t) = chain_frame t"
  "chain_frame (add_to_bucket c bid ch s) = chain_frame s"
  "chain_frame (add_to_artist_index c nm ch s) = chain_frame s"
  "chain_frame (add_to_genre_index c nm ch s) = chain_frame s"
  by (simp_all add: update_song_state_def wr_bal_def wr_supply_def add_to_bucket_def
      add_to_artist_index_def add_to_genre_index_def Let_def)

lemma chain_frame_foldl_credit [simp]:
  "chain_frame (foldl (\<lambda>s (a, v). wr_bal c a (rd_bal s a + v) s) t xs) = chain_frame t"
  by (rule chain_frame_foldl) auto

lemma chain_frame_writers3 [simp]:
  "chain_frame (put_fingerprint c song s) = chain_frame s"
  "chain_frame (Ledger_credit c a v t) = chain_frame t"
  "chain_frame (Ledger_credit_many c outs t) = chain_frame t"
  "chain_frame (snd (Ledger_debit c a v t)) = chain_frame t"
  "chain_frame (snd (Ledger_transfer c a d v t)) = chain_frame t"
  "chain_frame (Ledger_decrement_supply c v t) = chain_frame t"
  "chain_frame (advance_nonce c a n u) = chain_frame u" "chain_frame (record_vote c ch a u) = chain_frame u"
  by (auto simp: put_fingerprint_def Ledger_credit_def Ledger_credit_many_def Ledger_debit_def
      Ledger_transfer_def Ledger_decrement_supply_def advance_nonce_def record_applied_nonce_def
      record_vote_def Let_def chain_frame_foldl split: option.split)

end
