(* ===== verification/Handler_Laws.thy ===== *)
theory Handler_Laws
  imports Batch_Frame
begin

text \<open>
  What every transaction handler keeps: the committed store, and \<open>sound\<close>, the invariant of a
  block under application (the accumulator follows the batch, the batch holds the balances
  the overlay shows, and the balances sum to a supply within the cap). The locale
  \<open>tx_handler\<close> is the contract of a handler; every handler of the dispatcher is interpreted
  as one.
\<close>

section \<open>The contract of a handler\<close>

locale tx_handler =
  fixes handle :: "crypto \<Rightarrow> 'tx \<Rightarrow> u32 \<Rightarrow> stage \<Rightarrow> bool \<times> stage"
  assumes handle_sound: "sound c s \<Longrightarrow> sound c (snd (handle c tx h s))"
    and handle_store: "db_store (snd (handle c tx h s)) = db_store s"
    and handle_rows: "chain_frame (snd (handle c tx h s)) = chain_frame s"
    and handle_pre: "handle c tx h (pre b s) = ppre b (handle c tx h s)"
begin

lemma decoded_sound: "sound c s \<Longrightarrow> sound c (snd (decoded d (\<lambda>tx. handle c tx h) raw s))"
  by (simp add: decoded_def handle_sound split: option.split)

lemma decoded_store: "db_store (snd (decoded d (\<lambda>tx. handle c tx h) raw s)) = db_store s"
  by (simp add: decoded_def handle_store split: option.split)

lemma decoded_rows: "chain_frame (snd (decoded d (\<lambda>tx. handle c tx h) raw s)) = chain_frame s"
  by (simp add: decoded_def handle_rows split: option.split)

lemma decoded_pre:
  "decoded d (\<lambda>tx. handle c tx h) raw (pre b s) = ppre b (decoded d (\<lambda>tx. handle c tx h) raw s)"
  by (simp add: decoded_def handle_pre split: option.split)

end

section \<open>Staging outside the invariant\<close>

lemma sound_cong:
  assumes "db_store t = db_store s" "db_batch t = db_batch s" "db_acc t = db_acc s"
    and "lg_bal t = lg_bal s" "lg_supply t = lg_supply s"
  shows "sound c t \<longleftrightarrow> sound c s"
proof -
  have "rd_bal t a = rd_bal s a" for a using assms(4,1) by (rule rd_bal_cong)
  moreover have "rd_supply t = rd_supply s" using assms(5,1) by (rule rd_supply_cong)
  ultimately show ?thesis
    using assms by (simp add: sound_def tracks_def coherent_def pending_def lg.conserved_def lg.total_def
        split: option.split)
qed

lemma sound_staging [simp]:
  "sound c (s\<lparr>st_votes := v\<rparr>) \<longleftrightarrow> sound c s" "sound c (s\<lparr>st_nonce := n\<rparr>) \<longleftrightarrow> sound c s"
  "sound c (s\<lparr>st_plays := p\<rparr>) \<longleftrightarrow> sound c s" "sound c (s\<lparr>st_sessions := u\<rparr>) \<longleftrightarrow> sound c s"
  "sound c (s\<lparr>st_checkpoints := k\<rparr>) \<longleftrightarrow> sound c s"
  by (rule sound_cong; simp)+

lemma sound_advance_nonce [sound_intros]: "sound c s \<Longrightarrow> sound c (advance_nonce c a n s)"
  by (simp add: advance_nonce_def record_applied_nonce_def sound_writers)

lemma supply_cap_unat: "unat SUPPLY_CAP = 200000000000000000"
  by (simp add: SUPPLY_CAP_def)

lemma sound_supply_bound: "sound c s \<Longrightarrow> unat (rd_supply s) \<le> 200000000000000000"
  by (simp add: sound_def lg.conserved_def)

text \<open>A credit that passes the cap test.\<close>

lemma cap_room:
  assumes "unat (t :: u64) \<le> 200000000000000000" and "unat v \<le> 1000000000000000000"
    and "\<not> SUPPLY_CAP < t + v"
  shows "unat t + unat v \<le> 200000000000000000"
proof -
  have "unat (t + v) = unat t + unat v"
    unfolding unat_add_mod by (rule mod_less) (use assms(1,2) in simp)
  with assms(3) show ?thesis by (simp add: not_less word_le_nat_alt supply_cap_unat)
qed

section \<open>The store is only read\<close>

lemma store_writers [simp]:
  "db_store (set_nonce c a n s) = db_store s"
  "db_store (set_mod_level c a lv s) = db_store s" "db_store (set_mod_pubkey c a pk s) = db_store s"
  "db_store (set_mod_active_block c a h s) = db_store s" "db_store (set_founder c a s) = db_store s"
  "db_store (set_label c nm df s) = db_store s" "db_store (assign_artist_label c a nm s) = db_store s"
  "db_store (set_username c nm a s) = db_store s" "db_store (put_proposal c ch raw s) = db_store s"
  "db_store (set_proposal_status c ch lv s) = db_store s"
  "db_store (add_proposal_vote c ch a s) = db_store s" "db_store (set_rating c ch a lv s) = db_store s"
  "db_store (set_rating_counts c ch rc s) = db_store s"
  "db_store (set_rating_policy c po s) = db_store s" "db_store (set_rating_hide c ch hi s) = db_store s"
  "db_store (mark_song_deleted c ch s) = db_store s" "db_store (mark_play_credit c ch a s) = db_store s"
  "db_store (update_song_state c pr n s) = db_store s" "db_store (set_song_state c ch st s) = db_store s"
  "db_store (set_content_height c ch h s) = db_store s"
  by (simp_all add: set_nonce_def set_mod_level_def set_mod_pubkey_def set_mod_active_block_def
      set_founder_def set_label_def assign_artist_label_def set_username_def put_proposal_def
      set_proposal_status_def add_proposal_vote_def set_rating_def set_rating_counts_def
      set_rating_policy_def set_rating_hide_def mark_song_deleted_def mark_play_credit_def
      update_song_state_def set_song_state_def set_content_height_def Let_def)

lemma store_advance_nonce [simp]: "db_store (advance_nonce c a n s) = db_store s"
  by (simp add: advance_nonce_def record_applied_nonce_def)

lemma store_foldl:
  "(\<And>s x. db_store (f s x) = db_store s) \<Longrightarrow> db_store (foldl f s xs) = db_store s"
  by (induction xs arbitrary: s) simp_all

lemma store_ledger [simp]:
  "db_store (Ledger_credit c a v s) = db_store s" "db_store (Ledger_credit_many c outs s) = db_store s"
  "db_store (snd (Ledger_debit c a v s)) = db_store s"
  "db_store (snd (Ledger_transfer c a b v s)) = db_store s"
  "db_store (Ledger_decrement_supply c v s) = db_store s"
  by (auto simp: Ledger_credit_def Ledger_credit_many_def Ledger_debit_def Ledger_transfer_def
      Ledger_decrement_supply_def Let_def intro!: store_foldl split: prod.split)

section \<open>Transfers\<close>

interpretation transfer_handler: tx_handler "\<lambda>c tx (h :: u32). apply_transfer c tx"
proof unfold_locales
  fix c and tx :: TransferTx and s :: stage and h :: u32
  have t: "sound c s \<Longrightarrow> sound c (snd (Ledger_transfer c (tr_from_address tx) (tr_to_address tx)
      (tr_amount tx) s))" by (rule sound_transfer)
  show "sound c s \<Longrightarrow> sound c (snd (apply_transfer c tx s))"
    using t by (auto simp: apply_transfer_def Let_def sound_advance_nonce split: prod.splits)
  have "db_store (snd (Ledger_transfer c (tr_from_address tx) (tr_to_address tx) (tr_amount tx) s)) =
      db_store s" by simp
  then show "db_store (snd (apply_transfer c tx s)) = db_store s"
    by (auto simp: apply_transfer_def Let_def simp del: store_ledger split: prod.splits)
  have "chain_frame (snd (Ledger_transfer c (tr_from_address tx) (tr_to_address tx) (tr_amount tx) s)) =
      chain_frame s" by simp
  then show "chain_frame (snd (apply_transfer c tx s)) = chain_frame s"
    by (auto simp: apply_transfer_def Let_def simp del: chain_frame_writers3 split: prod.splits)
      (simp add: advance_nonce_def record_applied_nonce_def)
  show "apply_transfer c tx (pre b s) = ppre b (apply_transfer c tx s)" for b
    by (cases "Ledger_transfer c (tr_from_address tx) (tr_to_address tx) (tr_amount tx) s")
      (simp add: apply_transfer_def Let_def)
qed

section \<open>Authority, usernames, slashing, ratings\<close>

interpretation relay_reward_handler: tx_handler "\<lambda>c tx (h :: u32). apply_relay_reward c tx"
proof unfold_locales
  fix c and tx :: RelayRewardTx and s :: stage and h :: u32
  assume s: "sound c s"
  have "sound c (Ledger_credit c (rr_target_address tx) (rr_count tx) s)"
    if "\<not> kMaxUnitsPerTx < rr_count tx" "\<not> SUPPLY_CAP < rd_supply s + rr_count tx"
  proof (rule sound_credit [OF s])
    have "unat (rr_count tx) \<le> 1000000000000000000"
      using that(1) by (simp add: kMaxUnitsPerTx_def not_less word_le_nat_alt)
    from cap_room [OF sound_supply_bound [OF s] this that(2)]
    show "unat (rd_supply s) + unat (rr_count tx) \<le> 2 * 10 ^ 17" by simp
  qed
  with s show "sound c (snd (apply_relay_reward c tx s))"
    by (simp add: apply_relay_reward_def Let_def sound_advance_nonce)
qed (simp_all add: apply_relay_reward_def Let_def)

interpretation node_auth_handler: tx_handler "\<lambda>c tx (h :: u32). apply_node_auth c tx"
  by unfold_locales
    (simp_all add: apply_node_auth_def Let_def sound_advance_nonce sound_put_batch sound_del_batch)

interpretation checkpoint_handler: tx_handler "\<lambda>c tx (h :: u32). apply_checkpoint c tx"
  by unfold_locales
    (simp_all add: apply_checkpoint_def Let_def checkpoint_key_def sound_advance_nonce sound_put_batch)

interpretation username_handler: tx_handler "\<lambda>c tx (h :: u32). apply_username_register c tx"
  by unfold_locales
    (simp_all add: apply_username_register_def Let_def sound_advance_nonce sound_writers)

interpretation slash_handler: tx_handler "\<lambda>c tx (h :: u32). apply_slash c tx"
  by unfold_locales
    (simp_all add: apply_slash_def Let_def slashed_key_def sound_advance_nonce sound_put_batch)

interpretation rating_handler: tx_handler apply_rating
  by unfold_locales
    (simp_all add: apply_rating_def Let_def sound_advance_nonce sound_writers)

section \<open>Mints\<close>

definition out_pairs :: "MintOutput list \<Rightarrow> (address \<times> u64) list" where
  "out_pairs os = map (\<lambda>o'. (mo_recipient o', mo_amount o')) os"

lemma sum_outputs_Cons [simp]: "sum_outputs (x # os) = unat (mo_amount x) + sum_outputs os"
  by (simp add: sum_outputs_def)

lemma sum_units_out_pairs: "sum_units (out_pairs os) = sum_outputs os"
  by (induction os) (simp_all add: out_pairs_def)

lemma unat_mint_total:
  assumes "sum_outputs os < 2 ^ 64"
  shows "unat (mint_total os) = sum_outputs os"
proof -
  have "unat (foldl (\<lambda>t o'. t + mo_amount o') (z :: u64) os) = unat z + sum_outputs os"
    if "unat z + sum_outputs os < 2 ^ 64" for z
    using that
  proof (induction os arbitrary: z)
    case (Cons o' os)
    have "unat (z + mo_amount o') = unat z + unat (mo_amount o')"
      unfolding unat_add_mod by (rule mod_less) (use Cons.prems in simp)
    with Cons show ?case by simp
  qed simp
  from this [of 0] assms show ?thesis by (simp add: mint_total_def)
qed

lemma get_song_section_ok:
  assumes "get_song_section s ch = Some song"
  shows "length (song_royalty_splits song) \<le> 255"
proof -
  from assms obtain raw blk where "Block_deserialize raw = Some blk" "blk_song blk = Some song"
    by (auto simp: get_song_section_def bind_eq_Some_conv split: if_splits)
  with Block_deserialize_ok show ?thesis by (fastforce simp: Block_ok_def song_fields_ok_def)
qed

lemma validated_outputs_bound:
  assumes "validate_mint c m s h = None"
  shows "sum_outputs (mt_outputs m) \<le> 5 * 10 ^ 8"
proof -
  note r = validate_mint_None (2) [OF assms]
  show ?thesis
  proof (cases "get_song_section s (pp_content_hash (mt_proof m))")
    case None
    with r show ?thesis by (simp add: recompute_mint_def)
  next
    case (Some song)
    let ?outs = "compute_mint_outputs c (mt_proof m) song (get_play_count s (pp_content_hash (mt_proof m)))
      (address_from_pubkey c (pp_serving_node_pubkey (mt_proof m)))"
    from r Some have "mt_outputs m = ?outs" by (simp add: recompute_mint_def Let_def)
    with sum_mint_outputs_bound [OF get_song_section_ok [OF Some]] show ?thesis by simp
  qed
qed

lemma sound_apply_mint:
  assumes "sound c s" and "sum_outputs (mt_outputs m) \<le> 5 * 10 ^ 8"
  shows "sound c (snd (apply_mint c m n s))"
proof -
  let ?out = "sum_outputs (mt_outputs m)" and ?burn = "mt_burn_amount m"
  let ?p = "pp_player_address (mt_proof m)"
  let ?b = "if 0 < ?burn then Ledger_decrement_supply c ?burn (snd (Ledger_debit c ?p ?burn s)) else s"
  have total: "unat (mint_total (mt_outputs m)) = ?out"
    by (rule unat_mint_total) (use assms(2) in simp)
  show ?thesis
  proof (cases "0 < mint_total (mt_outputs m) \<and> SUPPLY_CAP < rd_supply s + mint_total (mt_outputs m) \<or>
      0 < ?burn \<and> rd_bal s ?p < ?burn")
    case True
    with assms(1) show ?thesis by (auto simp: apply_mint_def)
  next
    case False
    have b: "sound c ?b" using False assms(1) sound_debit_burn [of c s ?burn ?p] by (auto simp: not_less)
    have le: "unat (rd_supply ?b) \<le> unat (rd_supply s)"
    proof (cases "0 < ?burn")
      case True
      with False have "?burn \<le> rd_bal s ?p" by (simp add: not_less)
      then have "?burn \<le> rd_supply s"
        using lg.bal_le_total [of s ?p] assms(1) by (simp add: sound_def lg.conserved_def word_le_nat_alt)
      moreover have "rd_supply (snd (Ledger_debit c ?p ?burn s)) = rd_supply s"
        by (simp add: Ledger_debit_def lg.supply_set_bal)
      ultimately have "rd_supply ?b = rd_supply s - ?burn"
        using True by (simp add: Ledger_decrement_supply_def Let_def lg.supply_set_supply)
      with unat_sub_u64 [OF \<open>?burn \<le> rd_supply s\<close>] show ?thesis by simp
    qed simp
    have "unat (rd_supply s) + ?out \<le> 2 * 10 ^ 17"
    proof (cases "0 < mint_total (mt_outputs m)")
      case True
      with cap_room [OF sound_supply_bound [OF assms(1)], of "mint_total (mt_outputs m)"] False assms(2) total
      show ?thesis by simp
    next
      case none: False
      with total have "?out = 0" by (simp add: word_gt_0)
      with sound_supply_bound [OF assms(1)] show ?thesis by simp
    qed
    with le have room: "unat (rd_supply ?b) + sum_units (out_pairs (mt_outputs m)) \<le> 2 * 10 ^ 17"
      by (simp add: sum_units_out_pairs)
    let ?t = "(update_song_state c (mt_proof m) n
        (put_batch c (session_key (pp_session_id (mt_proof m))) [] ?b))"
    let ?u = "?t\<lparr>st_plays := insert (pp_content_hash (mt_proof m), ?p) (st_plays ?t)\<rparr>"
    have "sound c ?u" using b by (simp add: sound_writers sound_put_batch session_key_def)
    moreover have "lg_supply ?u = lg_supply ?b"
      by (simp add: update_song_state_def mark_play_credit_def set_song_state_def Let_def)
    then have "rd_supply ?u = rd_supply ?b" by (rule rd_supply_cong) simp
    ultimately have "sound c (Ledger_credit_many c (out_pairs (mt_outputs m)) ?u)"
      using room by (intro sound_credit_many) simp_all
    with assms(1) show ?thesis
      by (simp add: apply_mint_def Let_def out_pairs_def)
  qed
qed

interpretation mint_handler: tx_handler "\<lambda>c m h. apply_mint_tx c m h"
proof unfold_locales
  fix c and m :: MintTx and s :: stage and h :: u32
  have "sound c s \<Longrightarrow> validate_mint c m s h = None \<Longrightarrow>
      sound c (snd (apply_mint c m n (s\<lparr>st_sessions := u\<rparr>)))" for n u
    by (rule sound_apply_mint) (simp_all add: validated_outputs_bound del: power_Suc power_numeral)
  then show "sound c s \<Longrightarrow> sound c (snd (apply_mint_tx c m h s))"
    by (simp add: apply_mint_tx_def Let_def)
qed (simp_all add: apply_mint_tx_def apply_mint_def Let_def)

end
