(* ===== verification/Handler_Laws2.thy ===== *)
theory Handler_Laws2
  imports Handler_Laws
begin

text \<open>
  The handler contract for settlements and governance, and from all of them for the
  dispatcher: whatever list of transactions a block holds, applying it keeps the invariant
  and leaves the committed store alone.
\<close>

section \<open>Settlements\<close>

lemma sum_units_credits:
  "sum_units m + sum_outputs os < 2 ^ 64 \<Longrightarrow>
   sum_units (foldl (\<lambda>m o'. amap_add (mo_recipient o') (mo_amount o') m) m os) =
     sum_units m + sum_outputs os"
proof (induction os arbitrary: m)
  case (Cons o' os)
  then have "sum_units (amap_add (mo_recipient o') (mo_amount o') m) = sum_units m + unat (mo_amount o')"
    by (intro sum_units_amap_add) simp
  with Cons show ?case by simp
qed simp

definition settle_inv :: "crypto \<Rightarrow> kv \<Rightarrow> u64 \<Rightarrow> settle_walk \<times> stage \<Rightarrow> bool" where
  "settle_inv c db base ws \<longleftrightarrow>
     (case ws of (w, s) \<Rightarrow> sound c s \<and> db_store s = db \<and> rd_supply s = base \<and>
        unat base + sum_units (sw_credits w) = unat (sw_running w) \<and>
        unat (sw_running w) \<le> 200000000000000000)"

lemma settle_one_inv:
  assumes "settle_inv c db base ws"
  shows "settle_inv c db base (settle_one c height node base' pr ws)"
proof -
  obtain w s where ws: "ws = (w, s)" by (cases ws)
  have inv: "sound c s" "db_store s = db" "rd_supply s = base"
    "unat base + sum_units (sw_credits w) = unat (sw_running w)"
    "unat (sw_running w) \<le> 200000000000000000"
    using assms by (simp_all add: ws settle_inv_def)
  let ?st = "\<lambda>pc. (update_song_state c pr pc (put_batch c (session_key (pp_session_id pr)) []
      (s\<lparr>st_sessions := insert (pp_session_id pr) (st_sessions s)\<rparr>)))"
  let ?s' = "\<lambda>pc. (?st pc)\<lparr>st_plays := insert (pp_content_hash pr, pp_player_address pr)
      (st_plays (?st pc))\<rparr>"
  have s': "sound c (?s' pc)" "db_store (?s' pc) = db" "rd_supply (?s' pc) = base" for pc
  proof -
    show "sound c (?s' pc)" using inv(1) by (simp add: sound_writers sound_put_batch session_key_def)
    show st: "db_store (?s' pc) = db" using inv(2) by simp
    have "lg_supply (?s' pc) = lg_supply s"
      by (simp add: update_song_state_def mark_play_credit_def set_song_state_def Let_def)
    then have "rd_supply (?s' pc) = rd_supply s" by (rule rd_supply_cong) (use st inv(2) in simp)
    with inv(3) show "rd_supply (?s' pc) = base" by simp
  qed
  have acc: "unat (sw_running w + mint_total outs) = unat (sw_running w) + sum_outputs outs \<and>
      unat (sw_running w) + sum_outputs outs \<le> 200000000000000000 \<and>
      sum_units (foldl (\<lambda>m o'. amap_add (mo_recipient o') (mo_amount o') m) (sw_credits w) outs) =
        sum_units (sw_credits w) + sum_outputs outs"
    if b: "sum_outputs outs \<le> 5 * 10 ^ 8"
      and cap: "0 < mint_total outs \<longrightarrow> \<not> SUPPLY_CAP < sw_running w + mint_total outs" for outs
  proof -
    have t: "unat (mint_total outs) = sum_outputs outs" by (rule unat_mint_total) (use b in simp)
    have le: "unat (sw_running w) + sum_outputs outs \<le> 200000000000000000"
    proof (cases "0 < mint_total outs")
      case True
      with cap_room [OF inv(5), of "mint_total outs"] cap t b show ?thesis by simp
    next
      case False
      with t inv(5) show ?thesis by (simp add: word_gt_0)
    qed
    moreover have "unat (sw_running w + mint_total outs) = unat (sw_running w) + sum_outputs outs"
      unfolding unat_add_mod t by (rule mod_less) (use le in simp)
    moreover have "sum_units (sw_credits w) + sum_outputs outs < 2 ^ 64" using le inv(4) by simp
    ultimately show ?thesis using sum_units_credits by simp
  qed
  show ?thesis
  proof (cases "get_song_section s (pp_content_hash pr)")
    case None
    with inv show ?thesis by (simp add: ws settle_one_def settle_inv_def Let_def)
  next
    case (Some song)
    let ?pc = "case sw_song_ord w (pp_content_hash pr) of Some n \<Rightarrow> n
                  | None \<Rightarrow> get_play_count s (pp_content_hash pr)"
    let ?outs = "compute_mint_outputs c pr song ?pc node"
    note b = sum_mint_outputs_bound [OF get_song_section_ok [OF Some], of c pr ?pc node]
    show ?thesis
      using inv s' [of ?pc] acc [OF b] Some
      by (simp add: ws settle_one_def settle_inv_def Let_def del: power_Suc)
  qed
qed

lemma settle_fold_inv:
  "settle_inv c db base ws \<Longrightarrow> settle_inv c db base (fold (settle_one c height node base') prs ws)"
  by (induction prs arbitrary: ws) (simp_all add: settle_one_inv)

lemma epoch_key_not_ledger [simp]: "\<not> ledger_key (epoch_key n e)"
  by (simp add: epoch_key_def)

lemma settle_one_store: "db_store (snd (settle_one c h node base pr ws)) = db_store (snd ws)"
  by (simp add: settle_one_def Let_def split: option.split)

lemma settle_fold_store: "db_store (snd (fold (settle_one c h node base) prs ws)) = db_store (snd ws)"
  by (induction prs arbitrary: ws) (simp_all add: settle_one_store)

lemma settle_one_rows: "chain_frame (snd (settle_one c h node base pr ws)) = chain_frame (snd ws)"
  by (simp add: settle_one_def Let_def split: option.split)

lemma settle_fold_rows: "chain_frame (snd (fold (settle_one c h node base) prs ws)) = chain_frame (snd ws)"
  by (induction prs arbitrary: ws) (simp_all add: settle_one_rows)

lemma settle_one_pre: "settle_one c h node base pr (ppre b ws) = ppre b (settle_one c h node base pr ws)"
  by (cases ws; cases "get_song_section (snd ws) (pp_content_hash pr)") (simp_all add: settle_one_def Let_def cong: option.case_cong)

lemma settle_fold_pre:
  "fold (settle_one c h node base) prs (ppre b ws) = ppre b (fold (settle_one c h node base) prs ws)"
  by (induction prs arbitrary: ws) (simp_all add: settle_one_pre)

lemma settle_fold_pre_pair:
  "fold (settle_one c h node base) prs (w, pre b s) = ppre b (fold (settle_one c h node base) prs (w, s))"
  using settle_fold_pre [of c h node base prs b "(w, s)"] by simp

definition settle_start :: "stage \<Rightarrow> settle_walk \<times> stage" where
  "settle_start s = (\<lparr>sw_song_ord = Map.empty, sw_credits = [], sw_used = {},
     sw_running = rd_supply s\<rparr>, s)"

text \<open>A settlement is refused without any write, or it is the whole walk and its credits.\<close>

lemma apply_settlement_mint_cases:
  obtains "apply_settlement_mint c tx h s = (False, s)"
  | node prs where "apply_settlement_mint c tx h s =
      (let (w, s') = fold (settle_one c h node (rd_supply s)) prs (settle_start s) in
       (True, put_batch c (epoch_key (sm_serving_node_id tx) (sm_epoch_id tx)) []
          (Ledger_credit_many c (sw_credits w) s')))"
proof (cases "fst (apply_settlement_mint c tx h s)")
  case False
  then have "apply_settlement_mint c tx h s = (False, s)"
    by (auto simp: apply_settlement_mint_def Let_def split: option.splits if_splits prod.splits)
  then show ?thesis by (rule that)
next
  case True
  then show ?thesis
    by (auto simp: apply_settlement_mint_def Let_def settle_start_def split: option.splits if_splits
        intro: that)
qed

interpretation settlement_handler: tx_handler apply_settlement_mint
proof unfold_locales
  fix c tx h and s :: stage
  show "db_store (snd (apply_settlement_mint c tx h s)) = db_store s"
  proof (cases rule: apply_settlement_mint_cases [of c tx h s])
    case (2 node prs)
    then show ?thesis
      using settle_fold_store [of c h node "rd_supply s" prs "settle_start s"]
      by (auto simp: settle_start_def Let_def split: prod.split)
  qed simp
  show "chain_frame (snd (apply_settlement_mint c tx h s)) = chain_frame s"
  proof (cases rule: apply_settlement_mint_cases [of c tx h s])
    case (2 node prs)
    then show ?thesis
      using settle_fold_rows [of c h node "rd_supply s" prs "settle_start s"]
      by (auto simp: settle_start_def Let_def split: prod.split)
  qed simp
  show "apply_settlement_mint c tx h (pre b s) = ppre b (apply_settlement_mint c tx h s)" for b
    by (simp add: apply_settlement_mint_def Let_def settle_fold_pre_pair case_prod_beta
        split: option.split)
next
  fix c tx h and s :: stage
  assume s: "sound c s"
  show "sound c (snd (apply_settlement_mint c tx h s))"
  proof (cases rule: apply_settlement_mint_cases [of c tx h s])
    case (2 node prs)
    obtain w t where wt: "fold (settle_one c h node (rd_supply s)) prs (settle_start s) = (w, t)"
      by fastforce
    have "settle_inv c (db_store s) (rd_supply s) (settle_start s)"
      using s sound_supply_bound [OF s] by (simp add: settle_inv_def settle_start_def)
    then have "settle_inv c (db_store s) (rd_supply s) (w, t)"
      using settle_fold_inv wt by metis
    then have "sound c (Ledger_credit_many c (sw_credits w) t)"
      by (intro sound_credit_many) (simp_all add: settle_inv_def)
    with 2 wt show ?thesis by (simp add: sound_put_batch)
  qed (use s in simp)
qed

section \<open>Governance\<close>

lemma label_edit_cases:
  assumes "tag_label_edit c j s = Some t"
  obtains name df where "t = set_label c name df s" | a name where "t = assign_artist_label c a name s"
  using assms by (auto simp: tag_label_edit_def label_define_def label_assign_def Let_def
      bind_eq_Some_conv split: if_splits)

lemma tag_label_edit_pre: "tag_label_edit c j (pre b s) = map_option (pre b) (tag_label_edit c j s)"
  by (simp add: tag_label_edit_def label_define_def label_assign_def Let_def map_option_bind
      o_def if_distrib [of "map_option (pre b)"] cong: if_cong bind_option_cong)

lemma founder_bootstrap_pre [simp]: "founder_bootstrap (pre b s) tx = founder_bootstrap s tx"
  by (simp add: founder_bootstrap_def)

interpretation moderator_handler: tx_handler apply_moderator_op
proof unfold_locales
  fix c tx h and s :: stage
  have edit: "db_store t = db_store s \<and> chain_frame t = chain_frame s \<and> (sound c s \<longrightarrow> sound c t)"
    if "tag_label_edit c j s = Some t" for t j
    using that by (cases rule: label_edit_cases) (simp_all add: sound_writers)
  show "sound c s \<Longrightarrow> sound c (snd (apply_moderator_op c tx h s))"
    using edit by (simp add: apply_moderator_op_def Let_def sound_advance_nonce sound_writers
        split: option.split)
  show "db_store (snd (apply_moderator_op c tx h s)) = db_store s"
    using edit by (simp add: apply_moderator_op_def Let_def split: option.split)
  show "chain_frame (snd (apply_moderator_op c tx h s)) = chain_frame s"
    using edit by (simp add: apply_moderator_op_def Let_def split: option.split)
  show "apply_moderator_op c tx h (pre b s) = ppre b (apply_moderator_op c tx h s)" for b
    by (simp add: apply_moderator_op_def tag_label_edit_pre Let_def split: option.split)
qed

lemma Ledger_transfer_result:
  "Ledger_transfer c a d v s = (ok, t) \<Longrightarrow> chain_frame t = chain_frame s"
  using chain_frame_writers3 (5) [of c a d v s] by simp

lemma release_shares_rows: "chain_frame (snd (release_shares c e amount cr xs s)) = chain_frame s"
  by (induction c e amount cr xs s rule: release_shares.induct)
    (auto simp: Let_def dest: Ledger_transfer_result split: prod.split)

lemma release_shares_pre:
  "release_shares c e amount cr xs (pre b s) = ppre b (release_shares c e amount cr xs s)"
proof (induction c e amount cr xs s rule: release_shares.induct)
  case (3 c e amount cr x y xs s)
  let ?portion = "amount * ucast (rs_basis_points x) div 10000"
  obtain ok t where r: "(if 0 < ?portion then Ledger_transfer c e (rs_address x) ?portion s else (True, s)) = (ok, t)"
    by fastforce
  have "(if 0 < ?portion then Ledger_transfer c e (rs_address x) ?portion (pre b s) else (True, pre b s)) =
      (ok, pre b t)"
    using arg_cong [OF r, of "ppre b"] by (simp add: ppre_if split: if_splits)
  with 3 [OF refl r [symmetric]] show ?case by (simp add: Let_def r)
qed (simp_all add: Let_def)

lemma release_escrow_frame:
  "chain_frame (snd (release_escrow c p s)) = chain_frame s"
  "release_escrow c p (pre b s) = ppre b (release_escrow c p s)"
  by (simp_all add: release_escrow_def Let_def release_shares_rows release_shares_pre)

lemma execute_proposal_frame:
  "chain_frame (snd (execute_proposal c p ph h s)) = chain_frame s"
  "execute_proposal c p ph h (pre b s) = ppre b (execute_proposal c p ph h s)"
  by (simp_all add: execute_proposal_def release_escrow_frame Let_def case_prod_beta)

lemma release_shares_keeps:
  "sound c s \<Longrightarrow> sound c (snd (release_shares c e amount cr xs s))"
  "db_store (snd (release_shares c e amount cr xs s)) = db_store s"
proof (induction c e amount cr xs s rule: release_shares.induct)
  case (2 c e amount cr x s)
  { case 1 then show ?case by (simp add: Let_def sound_transfer) }
  { case 2 then show ?case by (simp add: Let_def) }
next
  case (3 c e amount cr x y xs s)
  let ?portion = "amount * ucast (rs_basis_points x) div 10000"
  let ?r = "if 0 < ?portion then Ledger_transfer c e (rs_address x) ?portion s else (True, s)"
  obtain ok t where r: "?r = (ok, t)" by fastforce
  have t: "t = snd ?r" by (simp add: r)
  have st: "db_store t = db_store s" unfolding t by simp
  { case 1
    have "sound c t" unfolding t using 1 by (simp add: sound_transfer)
    with 3(1) [OF refl r [symmetric]] show ?case by (simp add: Let_def r) }
  { case 2
    show ?case using 3(2) [OF refl r [symmetric]] st by (simp add: Let_def r) }
qed simp_all

lemma release_escrow_keeps:
  "sound c s \<Longrightarrow> sound c (snd (release_escrow c p s))"
  "db_store (snd (release_escrow c p s)) = db_store s"
  by (simp_all add: release_escrow_def Let_def release_shares_keeps sound_transfer)

lemma execute_proposal_keeps:
  "sound c s \<Longrightarrow> sound c (snd (execute_proposal c p ph h s))"
  "db_store (snd (execute_proposal c p ph h s)) = db_store s"
  using release_escrow_keeps (1) [of c s p] release_escrow_keeps (2) [of c p s]
  by (auto simp: execute_proposal_def Let_def sound_writers split: prod.split)

lemma execute_proposal_result:
  "execute_proposal c p ph h s = (ok, t) \<Longrightarrow> (sound c s \<longrightarrow> sound c t) \<and> db_store t = db_store s"
  using execute_proposal_keeps (1) [of c s p ph h] execute_proposal_keeps (2) [of c p ph h s] by auto

lemma record_vote_keeps:
  "sound c s \<Longrightarrow> sound c (record_vote c h a s)" "db_store (record_vote c h a s) = db_store s"
  by (simp_all add: record_vote_def Let_def sound_writers)

lemma file_proposal_frame:
  assumes "\<And>s. approved (pre b s) (ProposalTx_tx_hash c tx) = approved s (ProposalTx_tx_hash c tx)"
  shows "chain_frame (snd (file_proposal c tx h e approved s)) = chain_frame s"
    and "file_proposal c tx h e approved (pre b s) = ppre b (file_proposal c tx h e approved s)"
  by (simp_all add: file_proposal_def assms execute_proposal_frame Let_def case_prod_beta)

lemma cast_vote_frame:
  "chain_frame (snd (cast_vote c tx h e needed s)) = chain_frame s"
  "cast_vote c tx h e needed (pre b s) = ppre b (cast_vote c tx h e needed s)"
  by (auto simp: cast_vote_def execute_proposal_frame Let_def case_prod_beta split: option.split)

lemma file_proposal_keeps:
  "sound c s \<Longrightarrow> sound c (snd (file_proposal c tx h e approved s))"
  "db_store (snd (file_proposal c tx h e approved s)) = db_store s"
proof -
  let ?h = "ProposalTx_tx_hash c tx"
  let ?s = "record_vote c ?h (prop_proposer tx) (put_proposal c ?h (ProposalTx_serialize tx) s)"
  have "sound c s \<Longrightarrow> sound c ?s" "db_store ?s = db_store s"
    by (simp_all add: record_vote_keeps sound_writers)
  with execute_proposal_keeps (1) [of c ?s tx ?h h] execute_proposal_keeps (2) [of c tx ?h h ?s]
  show "sound c s \<Longrightarrow> sound c (snd (file_proposal c tx h e approved s))"
    "db_store (snd (file_proposal c tx h e approved s)) = db_store s"
    by (auto simp: file_proposal_def Let_def sound_advance_nonce split: prod.splits if_splits)
qed

lemma cast_vote_keeps:
  "sound c s \<Longrightarrow> sound c (snd (cast_vote c tx h e needed s))"
  "db_store (snd (cast_vote c tx h e needed s)) = db_store s"
proof -
  let ?h = "prop_target_hash tx"
  let ?s = "record_vote c ?h (prop_proposer tx) s"
  have "sound c s \<Longrightarrow> sound c ?s" "db_store ?s = db_store s" by (simp_all add: record_vote_keeps)
  then
  show "sound c s \<Longrightarrow> sound c (snd (cast_vote c tx h e needed s))"
    "db_store (snd (cast_vote c tx h e needed s)) = db_store s"
    by (auto simp: cast_vote_def Let_def sound_advance_nonce dest: execute_proposal_result
        split: prod.splits if_splits option.splits)
qed

interpretation proposal_handler: tx_handler apply_proposal
  by unfold_locales
    (simp_all add: apply_proposal_def proposal_fields_ok_def Let_def file_proposal_keeps
      cast_vote_keeps file_proposal_frame cast_vote_frame)

section \<open>The dispatcher\<close>

lemma apply_typed_sound: "sound c s \<Longrightarrow> sound c (snd (apply_typed c h t raw s))"
  by (cases t) (simp_all add: transfer_handler.decoded_sound mint_handler.decoded_sound
      moderator_handler.decoded_sound proposal_handler.decoded_sound username_handler.decoded_sound
      slash_handler.decoded_sound relay_reward_handler.decoded_sound node_auth_handler.decoded_sound
      checkpoint_handler.decoded_sound rating_handler.decoded_sound settlement_handler.decoded_sound)

lemma apply_typed_store: "db_store (snd (apply_typed c h t raw s)) = db_store s"
  by (cases t) (simp_all add: transfer_handler.decoded_store mint_handler.decoded_store
      moderator_handler.decoded_store proposal_handler.decoded_store username_handler.decoded_store
      slash_handler.decoded_store relay_reward_handler.decoded_store node_auth_handler.decoded_store
      checkpoint_handler.decoded_store rating_handler.decoded_store settlement_handler.decoded_store)

lemma apply_typed_rows: "chain_frame (snd (apply_typed c h t raw s)) = chain_frame s"
  by (cases t) (simp_all add: transfer_handler.decoded_rows mint_handler.decoded_rows
      moderator_handler.decoded_rows proposal_handler.decoded_rows username_handler.decoded_rows
      slash_handler.decoded_rows relay_reward_handler.decoded_rows node_auth_handler.decoded_rows
      checkpoint_handler.decoded_rows rating_handler.decoded_rows settlement_handler.decoded_rows)

lemma apply_typed_pre: "apply_typed c h t raw (pre b s) = ppre b (apply_typed c h t raw s)"
  by (cases t) (simp_all add: transfer_handler.decoded_pre mint_handler.decoded_pre
      moderator_handler.decoded_pre proposal_handler.decoded_pre username_handler.decoded_pre
      slash_handler.decoded_pre relay_reward_handler.decoded_pre node_auth_handler.decoded_pre
      checkpoint_handler.decoded_pre rating_handler.decoded_pre settlement_handler.decoded_pre)

text \<open>One transaction of any type is itself a handler, and so is a list of them.\<close>

interpretation raw_tx: tx_handler "\<lambda>c raw h. apply_raw_tx c h raw"
  by unfold_locales
    (simp_all add: apply_raw_tx_def apply_typed_sound apply_typed_store apply_typed_rows
      apply_typed_pre split: list.split option.split)

interpretation tx_list: tx_handler "\<lambda>c txs h. apply_tx_list c h txs"
proof unfold_locales
  fix c txs h and s :: stage and b
  have "(sound c s \<longrightarrow> sound c (snd (apply_tx_list c h txs s))) \<and>
      db_store (snd (apply_tx_list c h txs s)) = db_store s \<and>
      chain_frame (snd (apply_tx_list c h txs s)) = chain_frame s \<and>
      apply_tx_list c h txs (pre b s) = ppre b (apply_tx_list c h txs s)"
  proof (induction txs arbitrary: s)
    case (Cons raw txs)
    obtain ok t where r: "apply_raw_tx c h raw s = (ok, t)" by fastforce
    with raw_tx.handle_sound [of c s h raw] raw_tx.handle_store [of c h raw s]
      raw_tx.handle_rows [of c h raw s] raw_tx.handle_pre [of c h raw b s]
    have "sound c s \<Longrightarrow> sound c t" "db_store t = db_store s" "chain_frame t = chain_frame s"
      "apply_raw_tx c h raw (pre b s) = (ok, pre b t)" by simp_all
    with Cons.IH [of t] show ?case by (simp add: r)
  qed simp
  then show "sound c s \<Longrightarrow> sound c (snd (apply_tx_list c h txs s))"
    "db_store (snd (apply_tx_list c h txs s)) = db_store s"
    "chain_frame (snd (apply_tx_list c h txs s)) = chain_frame s"
    "apply_tx_list c h txs (pre b s) = ppre b (apply_tx_list c h txs s)" by simp_all
qed

end
