(* ===== verification/Chain_Laws.thy ===== *)
theory Chain_Laws
  imports Reorg Handler_Laws2
begin

text \<open>
  The laws of block connection. The stage a block is applied in depends on the committed
  store and the committed accumulator only (\<open>fresh_stage\<close>): staging left by an earlier attempt is
  gone. \<open>store_ok\<close> is the invariant of a committed store, \<open>chain_ok\<close> that of the chain object.
\<close>

section \<open>The stage a block is applied in\<close>

definition fresh_stage :: "lanes \<Rightarrow> kv \<Rightarrow> stage" where
  "fresh_stage acc db =
     \<lparr>db_store = db, db_batch = [], db_acc = Some (copy_from acc), lg_bal = Map.empty,
      lg_supply = None, st_votes = \<lambda>_. {}, st_nonce = Map.empty, st_plays = {},
      st_sessions = {}, st_checkpoints = Map.empty\<rparr>"

lemma reset_new: "reset_staging (with_acc (Some (copy_from acc)) (new_batch s)) = fresh_stage acc (db_store s)"
  by (simp add: reset_staging_def with_acc_def new_batch_def Ledger_reset_def fresh_stage_def)

lemma reset_fields [simp]:
  "db_store (reset_staging s) = db_store s" "db_get (reset_staging s) k = db_get s k"
  by (simp_all add: reset_staging_def Ledger_reset_def db_get_def)

lemma with_acc_fields [simp]:
  "db_store (with_acc a s) = db_store s" "db_get (with_acc a s) k = db_get s k"
  "db_acc (with_acc a s) = a" "pending (with_acc a s) = pending s"
  "lg_bal (with_acc a s) = lg_bal s" "lg_supply (with_acc a s) = lg_supply s"
  by (simp_all add: with_acc_def db_get_def pending_def)

text \<open>The writers of the database do not see the staging.\<close>

lemma reset_put [simp]:
  "reset_staging (put_batch c k v s) = put_batch c k v (reset_staging s)"
  "reset_staging (del_batch c k s) = del_batch c k (reset_staging s)"
  by (simp_all add: reset_staging_def Ledger_reset_def put_batch_def del_batch_def
      split: option.split)

lemma reset_foldl:
  "(\<And>s x. reset_staging (f s x) = f (reset_staging s) x) \<Longrightarrow>
   reset_staging (foldl f s xs) = foldl f (reset_staging s) xs"
  by (induction xs arbitrary: s) simp_all

lemma reset_index [simp]:
  "reset_staging (add_to_index c k ch s) = add_to_index c k ch (reset_staging s)"
  by (cases "db_get s k") (simp_all add: add_to_index_def Let_def)

lemma reset_bucket [simp]:
  "reset_staging (add_to_bucket c bid ch s) = add_to_bucket c bid ch (reset_staging s)"
  by (cases "db_get s (bucket_key bid)") (simp_all add: add_to_bucket_def get_bucket_def Let_def)

lemma reset_catalog [simp]:
  "reset_staging (put_batch_u32 c k w s) = put_batch_u32 c k w (reset_staging s)"
  "reset_staging (add_to_artist_index c nm ch s) = add_to_artist_index c nm ch (reset_staging s)"
  "reset_staging (add_to_genre_index c nm ch s) = add_to_genre_index c nm ch (reset_staging s)"
  "reset_staging (put_song_meta c ch song s) = put_song_meta c ch song (reset_staging s)"
  "reset_staging (set_content_height c ch h s) = set_content_height c ch h (reset_staging s)"
  by (simp_all add: put_batch_u32_def add_to_artist_index_def add_to_genre_index_def
      put_song_meta_def set_content_height_def Let_def)

lemma reset_put_fingerprint [simp]:
  "reset_staging (put_fingerprint c song s) = put_fingerprint c song (reset_staging s)"
  by (simp add: put_fingerprint_def Let_def reset_foldl split: option.split)

lemma reset_song_rows [simp]:
  "reset_staging (write_song_rows c blk h s) = write_song_rows c blk h (reset_staging s)"
  "reset_staging (drop_pending_song c blk s) = drop_pending_song c blk (reset_staging s)"
  by (simp_all add: write_song_rows_def drop_pending_song_def Let_def split: option.split)

lemma reset_block_rows [simp]:
  "reset_staging (write_block_rows c blk h w s) = write_block_rows c blk h w (reset_staging s)"
  by (simp add: write_block_rows_def put_batch_u32_def put_batch_u64_def Let_def)

section \<open>The rows a block writes for itself\<close>

lemma chain_rows [simp]:
  "chain_row (block_key h)" "chain_row (block_height_key h)" "chain_row (weight_key h)"
  "chain_row (height_key n)" "chain_row (full_hash_key n)" "chain_row tip_key"
  "chain_row sr_vec_key" "chain_row sr_dirty_key"
  by (simp_all add: chain_row_def chain_classes_def starts_with_def block_key_def
      block_height_key_def weight_key_def height_key_def full_hash_key_def tip_key_def
      sr_vec_key_def sr_dirty_key_def)

lemma chain_row_no_state [simp]:
  "\<not> has_state_prefix (block_key h)" "\<not> has_state_prefix (block_height_key h)"
  "\<not> has_state_prefix (weight_key h)" "\<not> has_state_prefix (height_key n)"
  "\<not> has_state_prefix (full_hash_key n)" "\<not> has_state_prefix tip_key"
  "\<not> has_state_prefix sr_vec_key" "\<not> has_state_prefix sr_dirty_key"
  by (simp_all add: chain_not_state)

definition block_rows :: "crypto \<Rightarrow> Block \<Rightarrow> u32 \<Rightarrow> u64 \<Rightarrow> write_op list" where
  "block_rows c blk h w =
     [Put (block_key (Block_hash c blk)) (Block_serialize blk),
      Put (block_height_key (Block_hash c blk)) (le_bytes 4 h),
      Put (weight_key (Block_hash c blk)) (le_bytes 8 w),
      Put (height_key h) (arr_bytes (Block_hash c blk)),
      Put (full_hash_key h) (arr_bytes (Block_full_hash c (Block_serialize blk))),
      Put tip_key (tip_value (Block_hash c blk) h)]"

lemma write_block_rows_eq:
  "write_block_rows c blk h w s = s\<lparr>db_batch := db_batch s @ block_rows c blk h w\<rparr>"
  by (simp add: write_block_rows_def block_rows_def Let_def put_batch_u32_def put_batch_u64_def
      put_batch_def split: option.split)

lemma with_acc_block_rows [simp]:
  "with_acc a (write_block_rows c blk h w s) = write_block_rows c blk h w (with_acc a s)"
  by (simp add: write_block_rows_eq with_acc_def)

text \<open>The stage on which the transactions of a block run.\<close>

definition staged :: "crypto \<Rightarrow> Block \<Rightarrow> u32 \<Rightarrow> u64 \<Rightarrow> lanes \<Rightarrow> kv \<Rightarrow> stage" where
  "staged c blk h w acc db =
     drop_pending_song c blk (write_song_rows c blk h (write_block_rows c blk h w (fresh_stage acc db)))"

lemma apply_state_staged:
  "apply_state c blk h acc (write_block_rows c blk h w (new_batch s)) =
   apply_tx_list c h (blk_transactions blk) (staged c blk h w acc (db_store s))"
  by (simp add: apply_state_def apply_transactions_def staged_def reset_new)

lemma candidate_staged:
  "apply_transactions c blk h (write_song_rows c blk h (with_acc (Some (copy_from acc)) (new_batch s))) =
   apply_tx_list c h (blk_transactions blk) (write_song_rows c blk h (fresh_stage acc (db_store s)))"
  by (simp add: apply_transactions_def reset_new)

lemma store_catalog [simp]:
  "db_store (add_to_bucket c bid ch s) = db_store s"
  "db_store (add_to_artist_index c nm ch s) = db_store s"
  "db_store (add_to_genre_index c nm ch s) = db_store s"
  "db_store (put_song_meta c ch song s) = db_store s"
  by (simp_all add: add_to_bucket_def add_to_artist_index_def add_to_genre_index_def
      add_to_index_def put_song_meta_def Let_def)

lemma store_put_fingerprint [simp]: "db_store (put_fingerprint c song s) = db_store s"
  by (simp add: put_fingerprint_def Let_def store_foldl split: option.split)

lemma store_song_rows [simp]:
  "db_store (write_song_rows c blk h s) = db_store s"
  "db_store (drop_pending_song c blk s) = db_store s"
  by (simp_all add: write_song_rows_def drop_pending_song_def Let_def split: option.split)

lemma store_staged [simp]: "db_store (staged c blk h w acc db) = db"
  by (simp add: staged_def write_block_rows_eq fresh_stage_def)

lemma frame_song_rows [simp]:
  "chain_frame (write_song_rows c blk h s) = chain_frame s"
  "chain_frame (drop_pending_song c blk s) = chain_frame s"
  by (simp_all add: write_song_rows_def drop_pending_song_def Let_def split: option.split)

lemma frame_staged [simp]: "chain_frame (staged c blk h w acc db) = (block_rows c blk h w, True)"
  by (simp add: staged_def) (simp add: write_block_rows_eq fresh_stage_def chain_frame_def block_rows_def)

section \<open>The invariant of a committed store\<close>

definition store_ok :: "kv \<Rightarrow> bool" where
  "store_ok db \<longleftrightarrow> kv_ok db \<and>
     (\<Sum>a\<in>UNIV. unat (kv_u64 db (balance_key a))) = unat (kv_u64 db supply_key) \<and>
     unat (kv_u64 db supply_key) \<le> 2 * 10 ^ 17"

definition chain_ok :: "crypto \<Rightarrow> chain \<Rightarrow> bool" where
  "chain_ok c ch \<longleftrightarrow> store_ok (ch_store ch) \<and> ch_acc ch = scan_state_accumulator c (ch_store ch)"

lemma sound_fresh:
  assumes "store_ok db"
  shows "sound c (fresh_stage (scan_state_accumulator c db) db)"
proof -
  have "kv_ok db" using assms by (simp add: store_ok_def)
  then show ?thesis
    using assms acc_tracks_start [of c db]
    by (simp add: sound_def tracks_def coherent_def pending_def fresh_stage_def lg.conserved_def
        lg.total_def rd_bal_def rd_supply_def get_balance_store get_total_supply_store
        scan_eq_state_sum store_ok_def)
qed

lemma sound_store_ok: "sound c s \<Longrightarrow> store_ok (pending s)"
  using sound_parts [of c s] by (simp add: store_ok_def coherent_def lg.conserved_def lg.total_def)

lemma sound_song_rows:
  "sound c s \<Longrightarrow> sound c (write_song_rows c blk h s)"
  "sound c s \<Longrightarrow> sound c (drop_pending_song c blk s)"
  by (simp_all add: write_song_rows_def drop_pending_song_def Let_def catalog_sound
      add_to_index_sound sound_del_batch split: option.split)

lemma not_ledger_rows [simp]:
  "\<not> ledger_key (block_key h)" "\<not> ledger_key (block_height_key h)" "\<not> ledger_key (weight_key h)"
  "\<not> ledger_key (height_key n)" "\<not> ledger_key (full_hash_key n)" "\<not> ledger_key tip_key"
  "\<not> ledger_key sr_vec_key"
  using ledger_key_state chain_row_no_state by blast+

lemma sound_block_rows: "sound c s \<Longrightarrow> sound c (write_block_rows c blk h w s)"
  by (simp add: write_block_rows_def put_batch_u32_def put_batch_u64_def Let_def sound_put_batch)

lemma sound_staged: "store_ok db \<Longrightarrow> sound c (staged c blk h w (scan_state_accumulator c db) db)"
  by (simp add: staged_def sound_song_rows sound_block_rows sound_fresh)

section \<open>A connected block\<close>

definition next_height :: "chain \<Rightarrow> u32" where
  "next_height ch = tip_height (ch_tip ch) + 1"

definition next_weight :: "Block \<Rightarrow> chain \<Rightarrow> u64" where
  "next_weight blk ch = tip_weight (ch_tip ch) + count_plays blk"

text \<open>The batch of an accepted block, complete and ready to be written.\<close>

definition sealed :: "crypto \<Rightarrow> Block \<Rightarrow> stage \<Rightarrow> stage" where
  "sealed c blk t = drain_mempool c (blk_transactions blk)
     (put_batch c sr_vec_key (serialize_vec (acc_vec_of t)) (with_acc None t))"

definition connected :: "crypto \<Rightarrow> Block \<Rightarrow> stage \<Rightarrow> chain \<Rightarrow> chain" where
  "connected c blk t ch =
     ch\<lparr>ch_stage := (commit_batch (sealed c blk t))\<lparr>st_checkpoints := Map.empty\<rparr>,
        ch_acc := acc_vec_of t,
        ch_checkpoints := ch_checkpoints ch ++ st_checkpoints (sealed c blk t),
        ch_tip := \<lparr>tip_hash = Block_hash c blk, tip_height = next_height ch,
          tip_timestamp_ms = hd_timestamp_ms (blk_header blk),
          tip_weight = next_weight blk ch\<rparr>\<rparr>"

definition run_block :: "crypto \<Rightarrow> Block \<Rightarrow> chain \<Rightarrow> bool \<times> stage" where
  "run_block c blk ch = apply_tx_list c (next_height ch) (blk_transactions blk)
     (staged c blk (next_height ch) (next_weight blk ch) (ch_acc ch) (ch_store ch))"

definition admissible :: "crypto \<Rightarrow> bool \<Rightarrow> Block \<Rightarrow> chain \<Rightarrow> bool" where
  "admissible c allow_new_chain blk ch \<longleftrightarrow> validate_block c allow_new_chain ch blk = None \<and>
     checkpoint_ok (ch_checkpoints ch) (next_height ch) (Block_hash c blk)"

lemma connect_block_cases:
  "connect_block c an blk ch =
     (if \<not> admissible c an blk ch then (False, ch)
      else let (ok, t) = run_block c blk ch in
        if ok \<and> root_gate c blk (acc_vec_of t) then (True, connected c blk t ch)
        else (False, ch\<lparr>ch_stage := new_batch t\<rparr>))"
proof -
  obtain ok t where r: "run_block c blk ch = (ok, t)" by fastforce
  then have a: "apply_state c blk (next_height ch) (ch_acc ch)
      (write_block_rows c blk (next_height ch) (next_weight blk ch) (new_batch (ch_stage ch))) = (ok, t)"
    by (simp add: run_block_def apply_state_staged ch_store_def)
  have "new_batch (with_acc None t) = new_batch t" by (simp add: new_batch_def with_acc_def)
  then show ?thesis
    unfolding connect_block_def Let_def next_height_def [symmetric] next_weight_def [symmetric] a
    by (simp add: r admissible_def refused_def connected_def sealed_def commit_batch_def)
qed

section \<open>What connecting keeps\<close>

lemma run_block_laws:
  assumes "run_block c blk ch = (ok, t)"
  shows "chain_ok c ch \<Longrightarrow> sound c t" and "db_store t = ch_store ch"
    and "chain_frame t = (block_rows c blk (next_height ch) (next_weight blk ch), True)"
  using assms tx_list.handle_sound [OF sound_staged, of "ch_store ch" c "next_height ch"
      "blk_transactions blk" blk "next_height ch" "next_weight blk ch"]
    tx_list.handle_store [of c "next_height ch" "blk_transactions blk"
      "staged c blk (next_height ch) (next_weight blk ch) (ch_acc ch) (ch_store ch)"]
    tx_list.handle_rows [of c "next_height ch" "blk_transactions blk"
      "staged c blk (next_height ch) (next_weight blk ch) (ch_acc ch) (ch_store ch)"]
  by (simp_all add: run_block_def chain_ok_def)

text \<open>Writes outside the committed-state prefixes leave the state sum as it is.\<close>

lemma scan_other:
  assumes "kv_ok db" and "\<not> has_state_prefix k"
  shows "scan_state_accumulator c (kv_put db k v) = scan_state_accumulator c db"
    and "scan_state_accumulator c (kv_del db k) = scan_state_accumulator c db"
  using assms by (simp_all add: scan_eq_state_sum kv_ok_put kv_ok_del state_sum_put state_sum_del)

lemma drain_mempool_laws:
  "db_store (drain_mempool c txs s) = db_store s \<and> chain_frame (drain_mempool c txs s) = chain_frame s \<and>
   (sound c s \<longrightarrow> sound c (drain_mempool c txs s)) \<and>
   (kv_ok (db_store s) \<longrightarrow> scan_state_accumulator c (pending (drain_mempool c txs s)) =
      scan_state_accumulator c (pending s))"
proof (induction txs arbitrary: s)
  case (Cons raw txs)
  then show ?case
    by (simp add: drain_mempool_def sound_del_batch scan_other kv_ok_pending kv_ok_del)
qed (simp add: drain_mempool_def)

text \<open>The hook is switched off before the last rows are written.\<close>

lemma sound_unhook: "sound c t \<Longrightarrow> sound c (with_acc None t)"
  by (rule sound_frame) (auto simp: tracks_def dest: sound_parts(1) [THEN tracks_store])

lemma sealed_laws:
  assumes "db_store t = db"
  shows "db_store (sealed c blk t) = db"
    and "sound c t \<Longrightarrow> sound c (sealed c blk t)"
    and "kv_ok db \<Longrightarrow> scan_state_accumulator c (pending (sealed c blk t)) =
           scan_state_accumulator c (pending t)"
    and "chain_frame t = (rows, a) \<Longrightarrow>
         chain_frame (sealed c blk t) = (rows @ [Put sr_vec_key (serialize_vec (acc_vec_of t))], False)"
proof -
  let ?s = "put_batch c sr_vec_key (serialize_vec (acc_vec_of t)) (with_acc None t)"
  note d = drain_mempool_laws [of c "blk_transactions blk" ?s, folded sealed_def]
  show "db_store (sealed c blk t) = db" using d assms by simp
  show "sound c t \<Longrightarrow> sound c (sealed c blk t)"
    using d by (simp add: sound_put_batch sound_unhook)
  show "kv_ok db \<Longrightarrow> scan_state_accumulator c (pending (sealed c blk t)) =
      scan_state_accumulator c (pending t)"
    using d assms by (simp add: scan_other kv_ok_pending)
  show "chain_frame t = (rows, a) \<Longrightarrow>
      chain_frame (sealed c blk t) = (rows @ [Put sr_vec_key (serialize_vec (acc_vec_of t))], False)"
    using d by (simp add: chain_frame_def put_batch_def with_acc_def)
qed

lemma ch_store_connected [simp]: "ch_store (connected c blk t ch) = pending (sealed c blk t)"
  by (simp add: connected_def ch_store_def commit_batch_def pending_def)

lemma chain_ok_connected:
  assumes "chain_ok c ch" and "run_block c blk ch = (ok, t)"
  shows "chain_ok c (connected c blk t ch)"
proof -
  note t = run_block_laws [OF assms(2)]
  have s: "sound c t" by (rule t(1) [OF assms(1)])
  have ok: "kv_ok (db_store t)" using sound_parts(1) [OF s] by (rule tracks_store)
  obtain a where a: "db_acc t = Some a" using t(3) by (auto simp: chain_frame_def)
  have "ac_vec a = scan_state_accumulator c (pending t)"
    using sound_parts(1) [OF s] a by (rule tracks_root)
  then show ?thesis
    using sound_store_ok [OF sealed_laws(2) [OF refl s]] sealed_laws(3) [OF refl ok, of c blk] a
    by (simp add: chain_ok_def) (simp add: connected_def acc_vec_of_def)
qed

lemma chain_ok_connect_block:
  assumes "chain_ok c ch"
  shows "chain_ok c (snd (connect_block c an blk ch))"
proof (cases "run_block c blk ch")
  case (Pair ok t)
  then show ?thesis
    using chain_ok_connected [OF assms Pair] run_block_laws(2) [OF Pair] assms
    by (simp add: connect_block_cases chain_ok_def ch_store_def new_batch_def)
qed

section \<open>What a refused block leaves\<close>

lemma read_cong:
  assumes "db_store s = db_store t"
  shows "get_content_height s = get_content_height t" "get_fingerprint s = get_fingerprint t"
    "get_bucket s = get_bucket t" "get_block_hash s = get_block_hash t" "get_block s = get_block t"
    "get_block_height s = get_block_height t" "get_weight s = get_weight t"
  using assms
  by (auto simp: get_content_height_def get_fingerprint_def get_bucket_def get_block_hash_def
      read_hash_row_def get_block_def get_block_height_def get_weight_def get_u32_def get_u64_def db_get_def)

lemma load_tip_cong: "db_store s = db_store t \<Longrightarrow> load_tip s = load_tip t"
proof -
  assume e: "db_store s = db_store t"
  have "db_get s = db_get t" using e by (simp add: db_get_def fun_eq_iff)
  then show "load_tip s = load_tip t"
    unfolding load_tip_def read_cong(5) [OF e] read_cong(7) [OF e] by simp
qed

lemma song_on_chain_cong:
  "db_store s = db_store t \<Longrightarrow> song_on_chain c s ch fp = song_on_chain c t ch fp"
  by (simp add: song_on_chain_iff matches_fp_def read_cong [of s t])

lemma is_duplicate_cong: "db_store s = db_store t \<Longrightarrow> is_duplicate_song c s blk = is_duplicate_song c t blk"
  by (simp add: is_duplicate_song_def song_on_chain_cong [of s t] split: option.split)

text \<open>Two chains that differ at most in what a failed attempt left in the staging.\<close>

definition same_chain :: "chain \<Rightarrow> chain \<Rightarrow> bool" where
  "same_chain ch ch' \<longleftrightarrow> ch_store ch' = ch_store ch \<and> ch_acc ch' = ch_acc ch \<and>
     ch_tip ch' = ch_tip ch \<and> ch_checkpoints ch' = ch_checkpoints ch"

lemma connect_block_refused:
  "\<not> fst (connect_block c an blk ch) \<Longrightarrow> same_chain ch (snd (connect_block c an blk ch))"
  by (cases "run_block c blk ch")
    (auto simp: connect_block_cases same_chain_def ch_store_def new_batch_def
      dest: run_block_laws(2) split: if_splits)

lemma admissible_cong:
  assumes "same_chain ch ch'"
  shows "admissible c an blk ch' = admissible c an blk ch"
  using assms is_duplicate_cong [of "ch_stage ch'" "ch_stage ch" c blk]
  by (simp add: same_chain_def admissible_def validate_block_def next_height_def ch_store_def)

lemma connect_block_cong:
  assumes "same_chain ch ch'"
  shows "fst (connect_block c an blk ch') = fst (connect_block c an blk ch)"
    and "fst (connect_block c an blk ch) \<Longrightarrow> snd (connect_block c an blk ch') = snd (connect_block c an blk ch)"
proof -
  have r: "run_block c blk ch' = run_block c blk ch"
    and n: "next_height ch' = next_height ch" "next_weight blk ch' = next_weight blk ch"
    using assms by (simp_all add: run_block_def same_chain_def next_height_def next_weight_def)
  have "connected c blk t ch' = connected c blk t ch" for t
    using assms by (simp add: connected_def n same_chain_def)
  then show "fst (connect_block c an blk ch') = fst (connect_block c an blk ch)"
    and "fst (connect_block c an blk ch) \<Longrightarrow> snd (connect_block c an blk ch') = snd (connect_block c an blk ch)"
    by (auto simp: connect_block_cases r admissible_cong [OF assms] split: prod.splits if_splits)
qed

section \<open>Reading a connected block back\<close>

lemma kv_get_chain_row:
  assumes "kv_ok db" and "chain_row k"
  shows "kv_get (kv_write db ops) k =
    kv_get (kv_write db (filter (\<lambda>x. chain_row (kvs.op_key x)) ops)) k"
proof (induction ops rule: rev_induct)
  case (snoc x ops)
  then show ?case
    using kvs.get_apply_op [OF kv_ok_write [OF assms(1)], of ops x k]
      kvs.get_apply_op [OF kv_ok_write [OF assms(1)], of "filter (\<lambda>x. chain_row (kvs.op_key x)) ops" x k]
      assms(2)
    by (auto simp: kv_apply_op_eq)
qed simp

lemma to_dec_not_empty [simp]: "to_dec n \<noteq> []"
  by (simp add: to_dec.simps [of n])

lemma connected_rows:
  assumes "kv_ok (ch_store ch)" and "run_block c blk ch = (ok, t)" and "chain_row k"
  shows "kv_get (ch_store (connected c blk t ch)) k =
    kv_get (kv_write (ch_store ch) (block_rows c blk (next_height ch) (next_weight blk ch) @
      [Put sr_vec_key (serialize_vec (acc_vec_of t))])) k"
proof -
  note t = run_block_laws(2,3) [OF assms(2)]
  show ?thesis
    using kv_get_chain_row [OF assms(1,3), of "db_batch (sealed c blk t)"] sealed_laws(1) [OF t(1), of c blk]
      sealed_laws(4) [OF refl t(2), of c blk]
    by (simp add: pending_def chain_frame_def)
qed

lemma connected_reads:
  assumes ok: "kv_ok (ch_store ch)" and r: "run_block c blk ch = (True, t)"
    and valid: "Block_validate c blk" and ch': "ch' = connected c blk t ch"
  shows "get_block (ch_stage ch') (Block_hash c blk) = Some blk"
    and "get_block_hash (ch_stage ch') (next_height ch) = Some (Block_hash c blk)"
    and "get_block_height (ch_stage ch') (Block_hash c blk) = Some (next_height ch)"
    and "get_block_full_hash (ch_stage ch') (next_height ch) =
           Some (Block_full_hash c (Block_serialize blk))"
    and "get_weight (ch_stage ch') (Block_hash c blk) = next_weight blk ch"
    and "load_tip (ch_stage ch') = Some (ch_tip ch')"
    and "db_get (ch_stage ch') sr_vec_key = Some (serialize_vec (ch_acc ch'))"
proof -
  have rows: "db_get (ch_stage ch') k = kv_get (kv_write (ch_store ch)
      (block_rows c blk (next_height ch) (next_weight blk ch) @
       [Put sr_vec_key (serialize_vec (acc_vec_of t))])) k" if "chain_row k" for k
    using connected_rows [OF ok r that] by (simp add: db_get_def ch' flip: ch_store_def)
  note distinct_keys = block_key_def block_height_key_def weight_key_def height_key_def
    full_hash_key_def tip_key_def sr_vec_key_def
  have b: "db_get (ch_stage ch') (block_key (Block_hash c blk)) = Some (Block_serialize blk)"
    and n: "db_get (ch_stage ch') (height_key (next_height ch)) = Some (arr_bytes (Block_hash c blk))"
    and h: "db_get (ch_stage ch') (block_height_key (Block_hash c blk)) = Some (le_bytes 4 (next_height ch))"
    and k: "db_get (ch_stage ch') (full_hash_key (next_height ch)) =
        Some (arr_bytes (Block_full_hash c (Block_serialize blk)))"
    and w: "db_get (ch_stage ch') (weight_key (Block_hash c blk)) = Some (le_bytes 8 (next_weight blk ch))"
    and tip: "db_get (ch_stage ch') tip_key = Some (tip_value (Block_hash c blk) (next_height ch))"
    and sr: "db_get (ch_stage ch') sr_vec_key = Some (serialize_vec (acc_vec_of t))"
    using ok by (simp_all add: rows block_rows_def kv_write_def kv_get_put kv_ok_put)
      (simp_all add: distinct_keys)
  show block: "get_block (ch_stage ch') (Block_hash c blk) = Some blk"
    using Block_roundtrip [OF Block_validate_ok [OF valid], of "[]"] by (simp add: get_block_def b)
  show "get_block_hash (ch_stage ch') (next_height ch) = Some (Block_hash c blk)"
    by (simp add: get_block_hash_def read_hash_row_def n)
  show "get_block_height (ch_stage ch') (Block_hash c blk) = Some (next_height ch)"
    by (simp add: get_block_height_def get_u32_def h)
  show "get_block_full_hash (ch_stage ch') (next_height ch) = Some (Block_full_hash c (Block_serialize blk))"
    by (simp add: get_block_full_hash_def read_hash_row_def k)
  show weight: "get_weight (ch_stage ch') (Block_hash c blk) = next_weight blk ch"
    by (simp add: get_weight_def get_u64_def w value_or_def)
  show "load_tip (ch_stage ch') = Some (ch_tip ch')"
    using block weight by (simp add: load_tip_def tip tip_value_def) (simp add: ch' connected_def)
  show "db_get (ch_stage ch') sr_vec_key = Some (serialize_vec (ch_acc ch'))"
    using sr by (simp add: ch' connected_def)
qed

section \<open>Producer and validator agree\<close>

lemma pre_song_rows [simp]: "write_song_rows c blk h (pre b s) = pre b (write_song_rows c blk h s)"
  by (simp add: write_song_rows_def Let_def split: option.split)

lemma acc_vec_of_pre [simp]: "acc_vec_of (pre (False, ops) s) = acc_vec_of s"
  by (simp add: acc_vec_of_def)

lemma as_pre: "s = pre (False, db_batch s) (s\<lparr>db_batch := []\<rparr>)"
  by (simp add: pre_def)

lemma staged_as_pre:
  obtains ops where "staged c blk h w acc db =
    pre (False, ops) ((write_song_rows c blk h (fresh_stage acc db))\<lparr>db_batch := []\<rparr>)"
proof -
  let ?u = "write_song_rows c blk h (fresh_stage acc db)"
  have "write_block_rows c blk h w (fresh_stage acc db) = pre (False, block_rows c blk h w) (fresh_stage acc db)"
    by (simp add: write_block_rows_eq pre_def fresh_stage_def)
  then have s: "staged c blk h w acc db = drop_pending_song c blk (pre (False, block_rows c blk h w) ?u)"
    by (simp add: staged_def)
  have "\<exists>x. drop_pending_song c blk (pre (False, block_rows c blk h w) ?u) =
      pre (False, block_rows c blk h w @ db_batch ?u @ x) (?u\<lparr>db_batch := []\<rparr>)"
  proof (cases "blk_song blk")
    case None
    then have "drop_pending_song c blk (pre (False, block_rows c blk h w) ?u) =
        pre (False, block_rows c blk h w @ db_batch ?u @ []) (?u\<lparr>db_batch := []\<rparr>)"
      by (simp add: drop_pending_song_def pre_def)
    then show ?thesis by blast
  next
    case (Some song)
    then have "drop_pending_song c blk (pre (False, block_rows c blk h w) ?u) =
        pre (False, block_rows c blk h w @ db_batch ?u @ [Del (''sp:'' @ hex_hash (song_content_hash song))])
          (?u\<lparr>db_batch := []\<rparr>)"
      by (simp add: drop_pending_song_def pre_def del_batch_def split: option.split)
    then show ?thesis by blast
  qed
  with s that show thesis by auto
qed

definition run_candidate :: "crypto \<Rightarrow> Block \<Rightarrow> chain \<Rightarrow> bool \<times> stage" where
  "run_candidate c blk ch = apply_tx_list c (next_height ch) (blk_transactions blk)
     (write_song_rows c blk (next_height ch) (fresh_stage (ch_acc ch) (ch_store ch)))"

lemma run_block_candidate:
  "fst (run_block c blk ch) = fst (run_candidate c blk ch) \<and>
   acc_vec_of (snd (run_block c blk ch)) = acc_vec_of (snd (run_candidate c blk ch))"
proof -
  let ?h = "next_height ch" and ?txs = "blk_transactions blk"
  let ?u = "write_song_rows c blk ?h (fresh_stage (ch_acc ch) (ch_store ch))"
  obtain ops where "staged c blk ?h (next_weight blk ch) (ch_acc ch) (ch_store ch) = pre (False, ops) (?u\<lparr>db_batch := []\<rparr>)"
    by (rule staged_as_pre)
  then have "run_block c blk ch = ppre (False, ops) (apply_tx_list c ?h ?txs (?u\<lparr>db_batch := []\<rparr>))"
    by (simp add: run_block_def tx_list.handle_pre)
  moreover have "run_candidate c blk ch =
      ppre (False, db_batch ?u) (apply_tx_list c ?h ?txs (?u\<lparr>db_batch := []\<rparr>))"
    unfolding run_candidate_def by (subst as_pre [of ?u]) (rule tx_list.handle_pre)
  ultimately show ?thesis
    by (cases "apply_tx_list c ?h ?txs (?u\<lparr>db_batch := []\<rparr>)") simp
qed

lemma compute_candidate_eq:
  "fst (compute_candidate_state_root c blk ch) = state_root c (acc_vec_of (snd (run_candidate c blk ch)))"
  by (cases "run_candidate c blk ch")
    (simp add: compute_candidate_state_root_def Let_def run_candidate_def next_height_def [symmetric]
      candidate_staged ch_store_def)

lemma compute_candidate_keeps: "same_chain ch (snd (compute_candidate_state_root c blk ch))"
proof -
  have "db_store (snd (run_candidate c blk ch)) = ch_store ch"
    by (simp add: run_candidate_def tx_list.handle_store) (simp add: fresh_stage_def)
  then show ?thesis
    by (cases "run_candidate c blk ch")
      (simp add: compute_candidate_state_root_def Let_def run_candidate_def next_height_def [symmetric]
        candidate_staged ch_store_def [symmetric] same_chain_def,
       simp add: ch_store_def new_batch_def)
qed

lemma connect_block_iff:
  "fst (connect_block c an blk ch) \<longleftrightarrow>
     admissible c an blk ch \<and> fst (run_candidate c blk ch) \<and>
     (4 \<le> hd_version (blk_header blk) \<longrightarrow>
        hd_state_root (blk_header blk) = fst (compute_candidate_state_root c blk ch))"
  using run_block_candidate [of c blk ch]
  by (cases "run_block c blk ch")
    (auto simp: connect_block_cases compute_candidate_eq root_gate_def)

end
