(* ===== verification/Reorg_Laws.thy ===== *)
theory Reorg_Laws
  imports Chain_Laws
begin

text \<open>
  The laws of replay and reorganisation. A replay starts from a store without derived rows and
  keeps \<open>replay_ok\<close>, so a completed rebuild establishes the invariant of the chain whatever
  the derived rows were before.
\<close>

section \<open>Clearing the derived state\<close>

lemma kv_get_dels:
  "kv_get (kv_write db (map (\<lambda>k. Del k) ks)) k = (if k \<in> set ks then None else kv_get db k)"
  by (induction ks rule: rev_induct) (simp_all add: kv_get_del)

lemma kv_get_member: "kv_ok db \<Longrightarrow> (k, v) \<in> set db \<longleftrightarrow> kv_get db k = Some v"
proof -
  assume "kv_ok db"
  then have "distinct (map fst db)"
    by (simp add: kv_ok_def strict_sorted_iff)
  then show ?thesis by (simp add: kv_get_def)
qed

definition cleared_keys :: "kv \<Rightarrow> string list" where
  "cleared_keys db = concat (map (\<lambda>p. map fst (kv_scan db p)) derived_prefixes) @ [supply_key]"

lemma clear_derived_state_eq: "clear_derived_state db = kv_write db (map (\<lambda>k. Del k) (cleared_keys db))"
proof -
  have "(\<lambda>(k :: string, v :: bytes). Del k) = (\<lambda>x. Del (fst x))" by auto
  then show ?thesis by (simp add: clear_derived_state_def cleared_keys_def map_concat o_def)
qed

lemma kv_ok_clear: "kv_ok db \<Longrightarrow> kv_ok (clear_derived_state db)"
  by (simp add: clear_derived_state_eq kv_ok_write)

lemma cleared_keys_iff:
  assumes "kv_ok db"
  shows "k \<in> set (cleared_keys db) \<longleftrightarrow>
    k = supply_key \<or> (\<exists>p \<in> set derived_prefixes. starts_with k p) \<and> kv_get db k \<noteq> None"
proof -
  have "k \<in> fst ` {x \<in> set db. (case x of (k, _) \<Rightarrow> starts_with k p)} \<longleftrightarrow>
      starts_with k p \<and> kv_get db k \<noteq> None" for p
    by (force simp flip: kv_get_member [OF assms] simp: image_iff)
  then show ?thesis
    by (auto simp: cleared_keys_def kv_scan_eq_filter [OF assms])
qed

lemma kv_get_cleared:
  assumes "kv_ok db"
  shows "has_state_prefix k \<Longrightarrow> kv_get (clear_derived_state db) k = None"
    and "\<not> has_state_prefix k \<Longrightarrow> \<not> starts_with k ''fph:'' \<Longrightarrow> \<not> starts_with k ''pp:'' \<Longrightarrow>
         kv_get (clear_derived_state db) k = kv_get db k"
  using cleared_keys_iff [OF assms, of k]
  by (auto simp: clear_derived_state_eq kv_get_dels has_state_prefix_def list_ex_iff derived_prefixes_def)

lemma cleared_store:
  assumes "kv_ok db"
  shows "store_ok (clear_derived_state db)"
    and "scan_state_accumulator c (clear_derived_state db) = 0"
proof -
  have zero: "kv_u64 (clear_derived_state db) k = 0" if "ledger_key k" for k
    using kv_get_cleared(1) [OF assms ledger_key_state [OF that]] by (simp add: kv_u64_def)
  then show "store_ok (clear_derived_state db)"
    using ledger_key_balance kv_ok_clear [OF assms] by (simp add: store_ok_def ledger_key_def)
  have "filter (\<lambda>(k, _). has_state_prefix k) (clear_derived_state db) = []"
    using kv_get_cleared(1) [OF assms] kv_get_member [OF kv_ok_clear [OF assms]]
    by (fastforce simp: filter_empty_conv)
  then show "scan_state_accumulator c (clear_derived_state db) = 0"
    by (simp add: scan_eq_state_sum kv_ok_clear [OF assms] state_sum_def)
qed

section \<open>Rows beside the state\<close>

lemma store_ok_other:
  assumes "store_ok db" and "\<not> has_state_prefix k"
  shows "store_ok (kv_put db k v)" "store_ok (kv_del db k)"
proof -
  have "\<not> ledger_key k" using assms(2) ledger_key_state by blast
  then have "balance_key a \<noteq> k" "supply_key \<noteq> k" for a
    using ledger_key_balance by (auto simp: ledger_key_def)
  with assms show "store_ok (kv_put db k v)" "store_ok (kv_del db k)"
    by (simp_all add: store_ok_def kv_u64_other kv_ok_put kv_ok_del)
qed

definition acc_ok :: "crypto \<Rightarrow> lanes \<Rightarrow> kv \<Rightarrow> bool" where
  "acc_ok c acc db \<longleftrightarrow> store_ok db \<and> acc = scan_state_accumulator c db"

lemma chain_ok_acc: "chain_ok c ch \<longleftrightarrow> acc_ok c (ch_acc ch) (ch_store ch)"
  by (simp add: chain_ok_def acc_ok_def)

lemma acc_ok_other:
  assumes "acc_ok c acc db" and "\<not> has_state_prefix k"
  shows "acc_ok c acc (kv_put db k v)" "acc_ok c acc (kv_del db k)"
proof -
  have "kv_ok db" using assms(1) by (simp add: acc_ok_def store_ok_def)
  with assms show "acc_ok c acc (kv_put db k v)" "acc_ok c acc (kv_del db k)"
    by (simp_all add: acc_ok_def store_ok_other scan_other)
qed

section \<open>Replay\<close>

definition replay_ok :: "crypto \<Rightarrow> replay \<Rightarrow> bool" where
  "replay_ok c r \<longleftrightarrow> acc_ok c (rp_acc r) (db_store (rp_stage r))"

lemma replay_ok_start:
  assumes "kv_ok (db_store s)"
  shows "replay_ok c (replay_start s)"
  using cleared_store [OF kv_ok_put [OF assms]]
  by (simp add: replay_ok_def acc_ok_def replay_start_def Let_def db_put_now_def)

text \<open>Applying a block of the replay, up to its commit.\<close>

lemma replayed_block:
  assumes ok: "acc_ok c acc (db_store s)"
    and run: "apply_transactions c blk h (write_song_rows c blk h
      (with_acc (Some (copy_from acc)) (new_batch s))) = (b, t)"
  shows "sound c t" and "db_store t = db_store s"
    and "acc_vec_of t = scan_state_accumulator c (pending t)"
    and "chain_frame t = ([], True)"
proof -
  let ?u = "write_song_rows c blk h (fresh_stage acc (db_store s))"
  have run': "apply_tx_list c h (blk_transactions blk) ?u = (b, t)"
    using run by (simp add: candidate_staged)
  have u: "sound c ?u"
    using ok by (simp add: sound_song_rows sound_fresh acc_ok_def)
  show s: "sound c t" using tx_list.handle_sound [OF u, of h "blk_transactions blk"] run' by simp
  show "db_store t = db_store s"
    using tx_list.handle_store [of c h "blk_transactions blk" ?u] run' by (simp add: fresh_stage_def)
  show f: "chain_frame t = ([], True)"
    using tx_list.handle_rows [of c h "blk_transactions blk" ?u] run'
    by simp (simp add: chain_frame_def fresh_stage_def)
  then obtain a where "db_acc t = Some a" by (auto simp: chain_frame_def)
  then show "acc_vec_of t = scan_state_accumulator c (pending t)"
    using tracks_root [OF sound_parts(1) [OF s]] by (simp add: acc_vec_of_def)
qed

lemma db_store_commit [simp]: "db_store (commit_batch s) = pending s"
  by (simp add: commit_batch_def pending_def)

lemma replay_one_elim:
  assumes one: "replay_one c cps h r = (v, r')"
  obtains (Kept) "v \<noteq> Replayed" "r' = r"
    | (Undone) blk b t where "apply_transactions c blk h (write_song_rows c blk h
          (with_acc (Some (copy_from (rp_acc r))) (new_batch (rp_stage r)))) = (b, t)"
        "v = Stopped" "r' = r\<lparr>rp_stage := new_batch (with_acc None t)\<rparr>"
    | (Done) bhash blk t where "get_block_hash (rp_stage r) h = Some bhash"
        "get_block (rp_stage r) bhash = Some blk" "\<not> replay_rejects c cps h bhash blk r"
        "apply_transactions c blk h (write_song_rows c blk h
          (with_acc (Some (copy_from (rp_acc r))) (new_batch (rp_stage r)))) = (True, t)"
        "root_gate c blk (acc_vec_of t)" "v = Replayed"
        "r' = \<lparr>rp_stage = commit_batch (put_batch c sr_vec_key (serialize_vec (acc_vec_of t))
            (put_batch_u64 c (weight_key bhash) (rp_weight r + count_plays blk) (with_acc None t))),
          rp_acc = acc_vec_of t, rp_prev = bhash, rp_last = h,
          rp_weight = rp_weight r + count_plays blk\<rparr>"
proof (cases "get_block_hash (rp_stage r) h")
  case None
  with one Kept show thesis by (simp add: replay_one_def)
next
  case bh: (Some bhash)
  show thesis
  proof (cases "get_block (rp_stage r) bhash")
    case None
    with one bh Kept show thesis by (simp add: replay_one_def)
  next
    case blk: (Some blk)
    obtain b t where run: "apply_transactions c blk h (write_song_rows c blk h
        (with_acc (Some (copy_from (rp_acc r))) (new_batch (rp_stage r)))) = (b, t)" by fastforce
    consider "replay_rejects c cps h bhash blk r"
      | "\<not> replay_rejects c cps h bhash blk r" "\<not> (b \<and> root_gate c blk (acc_vec_of t))"
      | "\<not> replay_rejects c cps h bhash blk r" b "root_gate c blk (acc_vec_of t)" by blast
    then show thesis
    proof cases
      case 1
      with one bh blk Kept show thesis by (simp add: replay_one_def)
    next
      case 2
      with one bh blk run Undone [OF run] show thesis by (auto simp: replay_one_def Let_def)
    next
      case 3
      with one bh blk run Done [OF bh blk] show thesis by (simp add: replay_one_def Let_def)
    qed
  qed
qed

lemma replay_ok_one:
  assumes ok: "replay_ok c r" and one: "replay_one c cps h r = (v, r')"
  shows "replay_ok c r'"
  using one
proof (cases rule: replay_one_elim)
  case (Done bhash blk t)
  note t = replayed_block [OF ok [unfolded replay_ok_def] Done(4)]
  have "acc_ok c (acc_vec_of t) (pending t)"
    using t(1,3) by (simp add: acc_ok_def sound_store_ok)
  then show ?thesis
    by (simp add: Done replay_ok_def put_batch_u64_def acc_ok_other)
next
  case (Undone blk b t)
  with ok show ?thesis
    using replayed_block(2) [OF ok [unfolded replay_ok_def] Undone(1)]
    by (simp add: replay_ok_def new_batch_def)
qed (use ok in simp)

lemma replay_ok_blocks: "replay_ok c r \<Longrightarrow> replay_ok c (snd (replay_blocks c cps hs r))"
proof (induction hs arbitrary: r)
  case (Cons h hs)
  obtain v r' where one: "replay_one c cps h r = (v, r')" by fastforce
  with replay_ok_one [OF Cons.prems one] Cons.IH show ?case by (cases v) simp_all
qed simp

lemma rebuild_establishes:
  assumes "kv_ok (ch_store ch)" and "fst (rebuild_derived_state c ch)"
  shows "chain_ok c (snd (rebuild_derived_state c ch))"
proof -
  obtain v r where r: "replay_blocks c (ch_checkpoints ch) (heights 1 (tip_height (ch_tip ch)))
      (replay_start (ch_stage ch)) = (v, r)" by fastforce
  have "replay_ok c r"
    using replay_ok_blocks [OF replay_ok_start] assms(1) r by (metis ch_store_def snd_conv)
  moreover have "v \<noteq> Missing_block"
    using assms(2) r by (auto simp: rebuild_derived_state_def)
  ultimately show ?thesis
    using r by (simp add: rebuild_derived_state_def Let_def chain_ok_acc ch_store_def db_put_now_def
        db_del_now_def replay_ok_def acc_ok_other)
qed

section \<open>The blocks by height\<close>

definition block_at :: "kv \<Rightarrow> hash256 \<Rightarrow> Block option" where
  "block_at db bh = Option.bind (kv_get db (block_key bh)) Block_deserialize"

definition hash_at :: "kv \<Rightarrow> u32 \<Rightarrow> hash256 option" where
  "hash_at db h = (case kv_get db (height_key h) of None \<Rightarrow> None
     | Some v \<Rightarrow> if length v < 32 then None else Some (mk_arr (take 32 v)))"

lemma get_block_at: "get_block s bh = block_at (db_store s) bh"
  by (simp add: get_block_def block_at_def db_get_def)

lemma get_block_hash_at: "get_block_hash s h = hash_at (db_store s) h"
  by (simp add: get_block_hash_def read_hash_row_def hash_at_def db_get_def)

text \<open>Every height up to \<open>n\<close> leads to a block.\<close>

definition rows_upto :: "kv \<Rightarrow> u32 \<Rightarrow> bool" where
  "rows_upto db n \<longleftrightarrow> (\<forall>h. 1 \<le> h \<and> h \<le> n \<longrightarrow>
     (\<exists>bh b. hash_at db h = Some bh \<and> block_at db bh = Some b))"

lemma rows_upto_0 [simp]: "rows_upto db 0"
  by (auto simp: rows_upto_def)

lemma rows_upto_mono: "rows_upto db n \<Longrightarrow> m \<le> n \<Longrightarrow> rows_upto db m"
  by (auto simp: rows_upto_def dest: order_trans)

lemma rows_upto_cong:
  assumes "rows_upto db n" and "\<And>h. 1 \<le> h \<Longrightarrow> h \<le> n \<Longrightarrow> hash_at db' h = hash_at db h"
    and "\<And>bh b. block_at db bh = Some b \<Longrightarrow> \<exists>b. block_at db' bh = Some b"
  shows "rows_upto db' n"
  using assms unfolding rows_upto_def by (metis (no_types))

lemma hex_digit_inject: "m < 10 \<Longrightarrow> n < 10 \<Longrightarrow> hex_digit m = hex_digit n \<longleftrightarrow> m = n"
proof -
  assume b: "m < 10" "n < 10"
  then have "nibble (hex_digit m) = Some m" "nibble (hex_digit n) = Some n"
    by (simp_all add: nibble_hex_digit)
  then show "hex_digit m = hex_digit n \<longleftrightarrow> m = n" by (metis option.inject)
qed

lemma to_dec_inject [simp]: "to_dec m = to_dec n \<longleftrightarrow> m = n"
proof (induction m arbitrary: n rule: less_induct)
  case (less m)
  have step: "to_dec k = (if k < 10 then [] else to_dec (k div 10)) @ [hex_digit (k mod 10)]" for k
    by (simp add: to_dec.simps [of k])
  show ?case
  proof
    assume e: "to_dec m = to_dec n"
    then have "hex_digit (m mod 10) = hex_digit (n mod 10)" and
      r: "(if m < 10 then [] else to_dec (m div 10)) = (if n < 10 then [] else to_dec (n div 10))"
      unfolding step [of m] step [of n] by simp_all
    then have "m mod 10 = n mod 10" by (simp add: hex_digit_inject)
    moreover have "m div 10 = n div 10"
    proof (cases "m < 10")
      case True
      with r show ?thesis by (auto simp: to_dec_not_empty [symmetric] split: if_splits)
    next
      case False
      with r have "to_dec (m div 10) = to_dec (n div 10)" by (auto split: if_splits)
      moreover have "m div 10 < m" using False by simp
      ultimately show ?thesis using less.IH by blast
    qed
    ultimately show "m = n" by (metis div_mult_mod_eq)
  qed simp
qed

lemma height_key_inject [simp]: "height_key g = height_key h \<longleftrightarrow> g = h"
  by (simp add: height_key_def word_unat_eq_iff)

lemma block_key_inject [simp]: "block_key g = block_key h \<longleftrightarrow> g = h"
  by (simp add: block_key_def)

definition bn_key :: "string \<Rightarrow> bool" where
  "bn_key k \<longleftrightarrow> starts_with k ''b:'' \<or> starts_with k ''n:''"

lemma bn_keys [simp]:
  "bn_key (block_key h)" "bn_key (height_key n)" "\<not> bn_key (block_height_key h)"
  "\<not> bn_key (weight_key h)" "\<not> bn_key (full_hash_key n)" "\<not> bn_key tip_key" "\<not> bn_key sr_vec_key"
  "\<not> bn_key sr_dirty_key" "block_key h \<noteq> height_key n" "height_key n \<noteq> block_key h"
  by (simp_all add: bn_key_def starts_with_def block_key_def height_key_def block_height_key_def
      weight_key_def full_hash_key_def tip_key_def sr_vec_key_def sr_dirty_key_def)

lemma bn_key_literal [simp]:
  "\<not> bn_key (CHR ''p'' # r)" "\<not> bn_key (CHR ''s'' # r)"
  by (simp_all add: bn_key_def starts_with_def)

lemma at_same:
  assumes "\<And>k. bn_key k \<Longrightarrow> kv_get db' k = kv_get db k"
  shows "block_at db' = block_at db" "hash_at db' = hash_at db"
  using assms by (simp_all add: block_at_def hash_at_def fun_eq_iff)

lemma at_other [simp]:
  assumes "kv_ok db" and "\<not> bn_key k"
  shows "block_at (kv_put db k v) = block_at db" "hash_at (kv_put db k v) = hash_at db"
    "block_at (kv_del db k) = block_at db" "hash_at (kv_del db k) = hash_at db"
  using assms by (auto intro!: at_same simp: kv_get_put kv_get_del)

lemma at_put [simp]:
  assumes "kv_ok db"
  shows "block_at (kv_put db (block_key x) v) bh = (if bh = x then Block_deserialize v else block_at db bh)"
    and "hash_at (kv_put db (block_key x) v) = hash_at db"
    and "block_at (kv_put db (height_key g) w) = block_at db"
    and "hash_at (kv_put db (height_key g) (arr_bytes y)) h = (if h = g then Some y else hash_at db h)"
    and "hash_at (kv_del db (height_key g)) h = (if h = g then None else hash_at db h)"
    and "block_at (kv_del db (height_key g)) = block_at db"
    and "hash_at (kv_del db (block_key x)) = hash_at db"
    and "block_at (kv_del db (block_key x)) bh = (if bh = x then None else block_at db bh)"
  using assms by (auto simp: block_at_def hash_at_def kv_get_put kv_get_del fun_eq_iff)

section \<open>Replay keeps the blocks\<close>

lemma at_replay_one:
  assumes "replay_ok c r" and one: "replay_one c cps h r = (v, r')"
  shows "block_at (db_store (rp_stage r')) = block_at (db_store (rp_stage r)) \<and>
    hash_at (db_store (rp_stage r')) = hash_at (db_store (rp_stage r))"
proof -
  let ?db = "db_store (rp_stage r)"
  note run = replayed_block(2,4) [OF assms(1) [unfolded replay_ok_def]]
  have ok: "kv_ok ?db" using assms(1) by (simp add: replay_ok_def acc_ok_def store_ok_def)
  from one show ?thesis
  proof (cases rule: replay_one_elim)
    case (Undone blk b t)
    with run(1) [OF Undone(1)] show ?thesis by (simp add: new_batch_def)
  next
    case (Done bhash blk t)
    note t = run [OF Done(4)]
    have "kv_get (pending t) k = kv_get ?db k" if "bn_key k" for k
    proof -
      have "chain_row k" using that by (auto simp: bn_key_def chain_row_def chain_classes_def)
      from kv_get_chain_row [OF ok this, of "db_batch t"] show ?thesis
        using t by (simp add: pending_def chain_frame_def)
    qed
    then have "block_at (pending t) = block_at ?db" "hash_at (pending t) = hash_at ?db"
      by (rule at_same, simp)+
    moreover have "kv_ok (pending t)" by (rule kv_ok_pending) (simp add: t ok)
    ultimately show ?thesis
      by (simp add: Done put_batch_u64_def kv_ok_put)
  qed simp
qed

lemma at_replay_blocks:
  "replay_ok c r \<Longrightarrow>
   block_at (db_store (rp_stage (snd (replay_blocks c cps hs r)))) = block_at (db_store (rp_stage r)) \<and>
   hash_at (db_store (rp_stage (snd (replay_blocks c cps hs r)))) = hash_at (db_store (rp_stage r))"
proof (induction hs arbitrary: r)
  case (Cons h hs)
  obtain v r' where one: "replay_one c cps h r = (v, r')" by fastforce
  with at_replay_one [OF Cons.prems one] Cons.IH [OF replay_ok_one [OF Cons.prems one]]
  show ?case by (cases v) simp_all
qed simp

lemma replay_finds_blocks:
  assumes "replay_ok c r"
    and "\<And>h. h \<in> set hs \<Longrightarrow> \<exists>bh b. hash_at (db_store (rp_stage r)) h = Some bh \<and>
           block_at (db_store (rp_stage r)) bh = Some b"
  shows "fst (replay_blocks c cps hs r) \<noteq> Missing_block"
  using assms
proof (induction hs arbitrary: r)
  case (Cons h hs)
  obtain v r' where one: "replay_one c cps h r = (v, r')" by fastforce
  obtain bh b where "hash_at (db_store (rp_stage r)) h = Some bh" "block_at (db_store (rp_stage r)) bh = Some b"
    using Cons.prems(2) [of h] by auto
  then have "v \<noteq> Missing_block"
    using one by (auto simp: replay_one_def get_block_at get_block_hash_at Let_def
        split: if_splits prod.splits)
  with one Cons.IH [OF replay_ok_one [OF Cons.prems(1) one]] Cons.prems(2)
    at_replay_one [OF Cons.prems(1) one] show ?case by (cases v) simp_all
qed simp

section \<open>A rebuild completes when the blocks are there\<close>

lemma set_heights: "h \<in> set (heights a b) \<longleftrightarrow> a \<le> h \<and> h \<le> b"
proof
  assume "h \<in> set (heights a b)"
  then obtain n where n: "h = word_of_nat n" "unat a \<le> n" "n \<le> unat b" by (auto simp: heights_def)
  then have "n < 2 ^ 32" using unat_less_u32 [of b] by simp
  then have "unat h = n" by (simp add: n(1))
  with n show "a \<le> h \<and> h \<le> b" by (simp add: word_le_nat_alt)
next
  assume "a \<le> h \<and> h \<le> b"
  then have "unat h \<in> set [unat a ..< Suc (unat b)]" by (auto simp: word_le_nat_alt)
  moreover have "h = word_of_nat (unat h)" by simp
  ultimately show "h \<in> set (heights a b)" unfolding heights_def by (metis image_eqI list.set_map)
qed

lemma at_cleared:
  assumes "kv_ok db"
  shows "block_at (clear_derived_state db) = block_at db" "hash_at (clear_derived_state db) = hash_at db"
proof -
  have "kv_get (clear_derived_state db) k = kv_get db k" if "bn_key k" for k
  proof (rule kv_get_cleared(2) [OF assms])
    show "\<not> has_state_prefix k"
      using that by (intro chain_not_state) (auto simp: bn_key_def chain_row_def chain_classes_def)
    show "\<not> starts_with k ''fph:''" "\<not> starts_with k ''pp:''"
      using that by (auto simp: bn_key_def starts_with_iff)
  qed
  then show "block_at (clear_derived_state db) = block_at db" "hash_at (clear_derived_state db) = hash_at db"
    by (rule at_same, simp)+
qed

lemma rebuild_completes:
  assumes ok: "kv_ok (ch_store ch)" and rows: "rows_upto (ch_store ch) (tip_height (ch_tip ch))"
    and ch': "rebuild_derived_state c ch = (b, ch')"
  shows "b \<and> chain_ok c ch' \<and> rows_upto (ch_store ch') (tip_height (ch_tip ch')) \<and>
    tip_height (ch_tip ch') \<le> tip_height (ch_tip ch) \<and>
    block_at (ch_store ch') = block_at (ch_store ch) \<and> hash_at (ch_store ch') = hash_at (ch_store ch)"
proof -
  let ?start = "replay_start (ch_stage ch)" and ?hs = "heights 1 (tip_height (ch_tip ch))"
  obtain v r where r: "replay_blocks c (ch_checkpoints ch) ?hs ?start = (v, r)" by fastforce
  have start: "replay_ok c ?start" by (rule replay_ok_start) (use ok in \<open>simp add: ch_store_def\<close>)
  have at: "block_at (db_store (rp_stage ?start)) = block_at (ch_store ch)"
    "hash_at (db_store (rp_stage ?start)) = hash_at (ch_store ch)"
    using ok by (simp_all add: replay_start_def Let_def db_put_now_def at_cleared kv_ok_put ch_store_def)
  have v: "v \<noteq> Missing_block"
    using replay_finds_blocks [OF start, of ?hs "ch_checkpoints ch"] rows r
    by (simp add: at rows_upto_def set_heights)
  then have b: "b" using ch' r by (simp add: rebuild_derived_state_def Let_def)
  have rok: "kv_ok (db_store (rp_stage r))"
    using replay_ok_blocks [OF start, of "ch_checkpoints ch" ?hs] r
    by (simp add: replay_ok_def acc_ok_def store_ok_def)
  have at': "block_at (ch_store ch') = block_at (ch_store ch) \<and> hash_at (ch_store ch') = hash_at (ch_store ch)"
    using at_replay_blocks [OF start, of "ch_checkpoints ch" ?hs] r ch' v rok
    by (auto simp: at rebuild_derived_state_def Let_def ch_store_def db_put_now_def db_del_now_def kv_ok_put)
  have le: "tip_height (ch_tip ch') \<le> tip_height (ch_tip ch)"
    using ch' r v by (auto simp: rebuild_derived_state_def Let_def)
  have "rows_upto (ch_store ch') (tip_height (ch_tip ch))"
    using rows at' by (simp add: rows_upto_def)
  moreover have "chain_ok c ch'"
    using rebuild_establishes [OF ok, of c] b ch' by simp
  ultimately show ?thesis
    using b at' le by (auto intro: rows_upto_mono)
qed

section \<open>Writing a branch\<close>

lemma kv_ok_pendingI [simp]: "kv_ok (db_store s) \<Longrightarrow> kv_ok (pending s)"
  by (rule kv_ok_pending)

lemma at_drain:
  "kv_ok (db_store s) \<Longrightarrow> block_at (pending (drain_mempool c txs s)) = block_at (pending s) \<and>
   hash_at (pending (drain_mempool c txs s)) = hash_at (pending s) \<and>
   db_store (drain_mempool c txs s) = db_store s"
proof (induction txs arbitrary: s)
  case (Cons raw txs)
  then show ?case by (simp add: drain_mempool_def kv_ok_del)
qed (simp add: drain_mempool_def)

lemma at_drop_song:
  "kv_ok (db_store s) \<Longrightarrow> block_at (pending (drop_pending_song c blk s)) = block_at (pending s) \<and>
   hash_at (pending (drop_pending_song c blk s)) = hash_at (pending s)"
  by (simp add: drop_pending_song_def split: option.split)

text \<open>What one block of the branch adds.\<close>

definition write_one :: "crypto \<Rightarrow> u32 \<Rightarrow> u64 \<Rightarrow> Block \<Rightarrow> stage \<Rightarrow> stage" where
  "write_one c h w b s = drop_pending_song c b (drain_mempool c (blk_transactions b)
     (put_batch_u64 c (weight_key (Block_hash c b)) (w + count_plays b)
       (put_batch c (full_hash_key h) (arr_bytes (Block_full_hash c (Block_serialize b)))
         (put_batch c (height_key h) (arr_bytes (Block_hash c b))
           (put_batch_u32 c (block_height_key (Block_hash c b)) h
             (put_batch c (block_key (Block_hash c b)) (Block_serialize b) s))))))"

lemma write_branch_blocks_Cons:
  "write_branch_blocks c h w (b # bs) s =
   write_branch_blocks c (h + 1) (w + count_plays b) bs (write_one c h w b s)"
  by (simp add: write_one_def Let_def)

lemma at_write_one:
  assumes "kv_ok (db_store s)" and "Block_ok b"
  shows "block_at (pending (write_one c h w b s)) bh =
      (if bh = Block_hash c b then Some b else block_at (pending s) bh)"
    and "hash_at (pending (write_one c h w b s)) g =
      (if g = h then Some (Block_hash c b) else hash_at (pending s) g)"
    and "db_store (write_one c h w b s) = db_store s"
  using assms Block_roundtrip [OF assms(2), of "[]"]
  by (simp_all add: write_one_def at_drop_song at_drain put_batch_u64_def put_batch_u32_def kv_ok_put)

lemma at_write_branch:
  assumes "kv_ok (db_store s)" and "list_all Block_ok bs" and "unat h + length bs < 2 ^ 32 + 1"
    and "s' = write_branch_blocks c h w bs s"
  shows "db_store s' = db_store s \<and>
    (\<forall>bh. block_at (pending s) bh \<noteq> None \<or> bh \<in> Block_hash c ` set bs \<longrightarrow> block_at (pending s') bh \<noteq> None) \<and>
    (\<forall>g. hash_at (pending s') g = (if unat h \<le> unat g \<and> unat g < unat h + length bs
       then Some (Block_hash c (bs ! (unat g - unat h))) else hash_at (pending s) g))"
  using assms
proof (induction bs arbitrary: h w s)
  case (Cons b bs)
  let ?s = "write_one c h w b s"
  have one: "kv_ok (db_store ?s)" "Block_ok b" "kv_ok (db_store s)"
    using Cons.prems at_write_one(3) [of s b] by simp_all
  show ?case
  proof (cases "bs = []")
    case True
    have range: "unat h \<le> unat g \<and> unat g < Suc (unat h) \<longleftrightarrow> g = h" for g
      by (auto simp: word_unat_eq_iff)
    have "s' = ?s"
      using True Cons.prems(4) by (simp add: write_branch_blocks_Cons del: write_branch_blocks.simps(2))
    with True at_write_one [OF one(3,2)] show ?thesis by (simp add: range)
  next
    case False
    then have "unat h + 1 < 2 ^ 32" using Cons.prems(3) by (cases bs) simp_all
    then have h1: "unat (h + 1) = Suc (unat h)" by (simp add: unat_plus_if_size word_size)
    from Cons.IH [OF one(1), of "h + 1" "w + count_plays b"] Cons.prems h1
    have IH: "db_store s' = db_store ?s \<and>
      (\<forall>bh. block_at (pending ?s) bh \<noteq> None \<or> bh \<in> Block_hash c ` set bs \<longrightarrow> block_at (pending s') bh \<noteq> None) \<and>
      (\<forall>g. hash_at (pending s') g = (if Suc (unat h) \<le> unat g \<and> unat g < Suc (unat h) + length bs
         then Some (Block_hash c (bs ! (unat g - Suc (unat h)))) else hash_at (pending ?s) g))"
      by (simp add: write_branch_blocks_Cons del: write_branch_blocks.simps(2))
    have "hash_at (pending s') g = (if unat h \<le> unat g \<and> unat g < unat h + length (b # bs)
         then Some (Block_hash c ((b # bs) ! (unat g - unat h))) else hash_at (pending s) g)" for g
    proof (cases "g = h")
      case True
      with IH at_write_one(2) [OF one(3,2)] show ?thesis by simp
    next
      case False
      then have "unat g \<noteq> unat h" by (simp add: word_unat_eq_iff)
      then have "Suc (unat h) \<le> unat g \<longleftrightarrow> unat h \<le> unat g" by auto
      moreover have "Suc (unat h) \<le> unat g \<Longrightarrow> (b # bs) ! (unat g - unat h) = bs ! (unat g - Suc (unat h))"
        by (simp add: nth_Cons' Suc_diff_le)
      ultimately show ?thesis using IH at_write_one(2) [OF one(3,2)] False by auto
    qed
    with IH one at_write_one [OF one(3,2)] show ?thesis by auto
  qed
qed (auto simp: not_less)

section \<open>The branch is adopted or the old chain restored\<close>

lemma new_batch_parts [simp]:
  "db_store (new_batch s) = db_store s" "pending (new_batch s) = db_store s"
  by (simp_all add: new_batch_def pending_def)

lemma at_commit_tip:
  assumes "kv_ok (db_store s)" and "list_all Block_ok bs" and "unat base + length bs < 2 ^ 32"
    and "s' = write_branch c bs base w th thh s"
  shows "kv_ok (db_store s')"
    and "block_at (db_store s) bh \<noteq> None \<or> bh \<in> Block_hash c ` set bs \<Longrightarrow> block_at (db_store s') bh \<noteq> None"
    and "hash_at (db_store s') g = (if unat base < unat g \<and> unat g \<le> unat base + length bs
       then Some (Block_hash c (bs ! (unat g - Suc (unat base)))) else hash_at (db_store s) g)"
proof -
  let ?t = "write_branch_blocks c (base + 1) w bs (new_batch s)"
  have nb: "kv_ok (db_store (new_batch s))" using assms(1) by simp
  have range: "bs \<noteq> [] \<Longrightarrow> unat (base + 1) = Suc (unat base)"
    using assms(3) by (cases bs) (simp_all add: unat_plus_if_size word_size)
  have "unat (base + 1) + length bs < 2 ^ 32 + 1"
  proof (cases "bs = []")
    case True
    then show ?thesis using unat_less_u32 [of "base + 1"] by simp
  next
    case False
    with range assms(3) show ?thesis by simp
  qed
  from at_write_branch [OF nb assms(2) this refl, of c w]
  have t: "db_store ?t = db_store s"
    "\<And>bh. block_at (db_store s) bh \<noteq> None \<or> bh \<in> Block_hash c ` set bs \<Longrightarrow> block_at (pending ?t) bh \<noteq> None"
    "hash_at (pending ?t) g = (if unat (base + 1) \<le> unat g \<and> unat g < unat (base + 1) + length bs
       then Some (Block_hash c (bs ! (unat g - unat (base + 1)))) else hash_at (db_store s) g)"
    by auto
  have s': "db_store s' = kv_put (pending ?t) tip_key (tip_value th thh)"
    by (simp add: assms(4) write_branch_def)
  have ok: "kv_ok (pending ?t)" using t(1) assms(1) by simp
  then show "kv_ok (db_store s')" by (simp add: s' kv_ok_put)
  show "block_at (db_store s) bh \<noteq> None \<or> bh \<in> Block_hash c ` set bs \<Longrightarrow> block_at (db_store s') bh \<noteq> None"
    using t(2) [of bh] ok by (simp add: s')
  show "hash_at (db_store s') g = (if unat base < unat g \<and> unat g \<le> unat base + length bs
       then Some (Block_hash c (bs ! (unat g - Suc (unat base)))) else hash_at (db_store s) g)"
    using t(3) ok range by (cases "bs = []") (auto simp: s' Suc_le_eq)
qed

lemma at_clear_n_above:
  assumes "kv_ok (db_store s)"
  shows "kv_ok (db_store (clear_n_above c a b s))"
    and "block_at (db_store (clear_n_above c a b s)) = block_at (db_store s)"
    and "hash_at (db_store (clear_n_above c a b s)) g =
           (if a \<le> g \<and> g \<le> b then None else hash_at (db_store s) g)"
proof -
  have "db_store (foldl (\<lambda>s h. del_batch c (height_key h) s) t hs) = db_store t \<and>
      block_at (pending (foldl (\<lambda>s h. del_batch c (height_key h) s) t hs)) = block_at (pending t) \<and>
      hash_at (pending (foldl (\<lambda>s h. del_batch c (height_key h) s) t hs)) g =
        (if g \<in> set hs then None else hash_at (pending t) g)"
    if "kv_ok (db_store t)" for t :: stage and hs
    using that by (induction hs arbitrary: t) auto
  from this [of "new_batch s" "heights a b"] assms
  show "kv_ok (db_store (clear_n_above c a b s))"
    "block_at (db_store (clear_n_above c a b s)) = block_at (db_store s)"
    "hash_at (db_store (clear_n_above c a b s)) g =
       (if a \<le> g \<and> g \<le> b then None else hash_at (db_store s) g)"
    by (auto simp: clear_n_above_def set_heights not_less dest: order_trans)
qed

lemma at_drop_branch_rows:
  assumes "kv_ok (db_store s)"
  shows "kv_ok (db_store (drop_branch_rows c bs s)) \<and>
    hash_at (db_store (drop_branch_rows c bs s)) = hash_at (db_store s) \<and>
    (bh \<notin> Block_hash c ` set bs \<longrightarrow>
      block_at (db_store (drop_branch_rows c bs s)) bh = block_at (db_store s) bh)"
proof -
  let ?f = "\<lambda>s b. del_batch c (weight_key (Block_hash c b)) (del_batch c (block_height_key (Block_hash c b))
       (del_batch c (block_key (Block_hash c b)) s))"
  have "db_store (foldl ?f t bs) = db_store t \<and>
      hash_at (pending (foldl ?f t bs)) = hash_at (pending t) \<and>
      (bh \<notin> Block_hash c ` set bs \<longrightarrow> block_at (pending (foldl ?f t bs)) bh = block_at (pending t) bh)"
    if "kv_ok (db_store t)" for t :: stage
    using that by (induction bs arbitrary: t) (auto simp: kv_ok_del)
  from this [of "new_batch s"] assms show ?thesis
    by (simp add: drop_branch_rows_def)
qed

lemma load_blocks_all:
  "(\<And>h. h \<in> set hs \<Longrightarrow> block_at (db_store s) h \<noteq> None) \<Longrightarrow> length (load_blocks s hs) = length hs"
  by (induction hs) (auto simp: get_block_at split: option.split)

lemma load_blocks_ok: "list_all Block_ok (load_blocks s hs)"
  by (induction hs) (auto simp: get_block_def bind_eq_Some_conv dest: Block_deserialize_ok
      split: option.split)

lemma snapshot_hashes_Some:
  "snapshot_hashes s hs = Some bhs \<longleftrightarrow> map (hash_at (db_store s)) hs = map Some bhs"
  by (induction hs arbitrary: bhs)
    (auto simp: get_block_hash_at bind_eq_Some_conv Cons_eq_map_conv)

lemma map_eq_map_Some:
  "map f hs = map Some olds \<Longrightarrow>
   length olds = length hs \<and> (\<forall>bh \<in> set olds. \<exists>h \<in> set hs. f h = Some bh)"
proof -
  assume e: "map f hs = map Some olds"
  have "\<exists>h \<in> set hs. f h = Some bh" if "bh \<in> set olds" for bh
  proof -
    have "Some bh \<in> set (map f hs)" unfolding e using that by simp
    then show ?thesis by auto
  qed
  moreover have "length olds = length hs" using arg_cong [OF e, of length] by simp
  ultimately show ?thesis by blast
qed

lemma length_heights: "length (heights a b) = Suc (unat b) - unat a"
  by (simp add: heights_def Suc_diff_le)

lemma check_links_ok: "check_links c e bs = None \<Longrightarrow> list_all (Block_validate c) bs"
  by (induction c e bs rule: check_links.induct) (auto split: if_splits)

lemma dirty_put:
  assumes "kv_ok (db_store s)"
  shows "kv_ok (db_store (db_put_now sr_dirty_key v s))"
    "block_at (db_store (db_put_now sr_dirty_key v s)) = block_at (db_store s)"
    "hash_at (db_store (db_put_now sr_dirty_key v s)) = hash_at (db_store s)"
  using assms by (simp_all add: db_put_now_def kv_ok_put)

definition healthy :: "crypto \<Rightarrow> chain \<Rightarrow> bool" where
  "healthy c ch \<longleftrightarrow> chain_ok c ch \<and> rows_upto (ch_store ch) (tip_height (ch_tip ch))"

text \<open>The program's own mark of an unfinished replay.\<close>

definition marked :: "kv \<Rightarrow> bool" where
  "marked db \<longleftrightarrow> kv_get db sr_dirty_key \<noteq> None"

lemma rebuild_healthy:
  assumes "kv_ok (ch_store ch)" and "rows_upto (ch_store ch) (tip_height (ch_tip ch))"
  shows "healthy c (snd (rebuild_derived_state c ch))"
    and "\<not> marked (ch_store (snd (rebuild_derived_state c ch)))"
proof -
  obtain b ch' where r: "rebuild_derived_state c ch = (b, ch')" by fastforce
  note laws = rebuild_completes [OF assms r]
  then show "healthy c (snd (rebuild_derived_state c ch))" by (simp add: r healthy_def)
  show "\<not> marked (ch_store (snd (rebuild_derived_state c ch)))"
    using r laws by (auto simp: rebuild_derived_state_def Let_def ch_store_def db_del_now_def marked_def
        kv_get_del split: prod.splits if_splits)
qed

text \<open>The store a replay of the adopted branch starts from.\<close>

definition adopted_stage :: "crypto \<Rightarrow> Block list \<Rightarrow> u32 \<Rightarrow> u64 \<Rightarrow> ChainTip \<Rightarrow> ChainTip \<Rightarrow> stage \<Rightarrow> stage" where
  "adopted_stage c branch fh fw cand tip s =
     (let s = db_put_now sr_dirty_key [1] s;
          s = write_branch c branch fh fw (tip_hash cand) (tip_height cand) s
      in if tip_height cand < tip_height tip
         then clear_n_above c (tip_height cand + 1) (tip_height tip) s else s)"

lemma adopted_stage_at:
  assumes "kv_ok (db_store s)" and "list_all Block_ok branch" and "unat fh + length branch < 2 ^ 32"
    and cand: "unat (tip_height cand) = unat fh + length branch"
    and s': "s' = adopted_stage c branch fh fw cand tip s"
  shows "kv_ok (db_store s')"
    and "block_at (db_store s) bh \<noteq> None \<or> bh \<in> Block_hash c ` set branch \<Longrightarrow> block_at (db_store s') bh \<noteq> None"
    and "g \<le> tip_height cand \<Longrightarrow> hash_at (db_store s') g = (if fh < g
       then Some (Block_hash c (branch ! (unat g - Suc (unat fh)))) else hash_at (db_store s) g)"
proof -
  let ?d = "db_put_now sr_dirty_key [1] s"
  let ?w = "write_branch c branch fh fw (tip_hash cand) (tip_height cand) ?d"
  note d = dirty_put [OF assms(1), of "[1]"]
  note w = at_commit_tip [OF d(1) assms(2,3) refl, where c = c and w = fw and th = "tip_hash cand"
      and thh = "tip_height cand", unfolded d]
  note n = at_clear_n_above [OF w(1), where c = c and a = "tip_height cand + 1"
      and b = "tip_height tip"]
  show "kv_ok (db_store s')"
    using w(1) n(1) by (simp add: s' adopted_stage_def Let_def)
  show "block_at (db_store s) bh \<noteq> None \<or> bh \<in> Block_hash c ` set branch \<Longrightarrow> block_at (db_store s') bh \<noteq> None"
    using w(2) [of bh] n(2) by (auto simp: s' adopted_stage_def Let_def)
  assume g: "g \<le> tip_height cand"
  have "\<not> tip_height cand + 1 \<le> g" if "tip_height cand < tip_height tip"
  proof -
    have "unat (tip_height cand + 1) = Suc (unat (tip_height cand))"
      using that unat_less_u32 [of "tip_height tip"]
      by (simp add: word_less_nat_alt unat_plus_if_size word_size)
    with g show ?thesis by (simp add: word_le_nat_alt)
  qed
  with w(3) [of g] n(3) [of g] g cand
  show "hash_at (db_store s') g = (if fh < g
       then Some (Block_hash c (branch ! (unat g - Suc (unat fh)))) else hash_at (db_store s) g)"
    by (auto simp: s' adopted_stage_def Let_def word_le_nat_alt word_less_nat_alt)
qed

lemma adopted_stage_rows:
  assumes "kv_ok (db_store s)" and "list_all Block_ok branch" and "unat fh + length branch < 2 ^ 32"
    and cand: "unat (tip_height cand) = unat fh + length branch"
    and s': "s' = adopted_stage c branch fh fw cand tip s"
    and rows: "rows_upto (db_store s) fh"
  shows "rows_upto (db_store s') (tip_height cand)"
  unfolding rows_upto_def
proof (intro allI impI)
  fix g assume g: "1 \<le> g \<and> g \<le> tip_height cand"
  note at = adopted_stage_at [OF assms(1-5)]
  show "\<exists>bh b. hash_at (db_store s') g = Some bh \<and> block_at (db_store s') bh = Some b"
  proof (cases "fh < g")
    case True
    then have "unat g - Suc (unat fh) < length branch"
      using g cand by (auto simp: word_le_nat_alt word_less_nat_alt)
    then have "Block_hash c (branch ! (unat g - Suc (unat fh))) \<in> Block_hash c ` set branch" by simp
    with at(2) at(3) [of g] g True show ?thesis by auto
  next
    case False
    with g rows obtain bh b where "hash_at (db_store s) g = Some bh" "block_at (db_store s) bh = Some b"
      unfolding rows_upto_def by (meson not_less)
    with at(2) [of bh] at(3) [of g] g False show ?thesis by auto
  qed
qed

text \<open>What a branch must pass before anything is written.\<close>

definition acceptable :: "crypto \<Rightarrow> hash256 \<Rightarrow> u32 \<Rightarrow> Block list \<Rightarrow> chain \<Rightarrow> bool" where
  "acceptable c fork_hash fork_height branch ch \<longleftrightarrow>
     branch \<noteq> [] \<and> get_block_height (ch_stage ch) fork_hash = Some fork_height \<and>
     \<not> (FINALITY_DEPTH < tip_height (ch_tip ch) \<and>
        fork_height < tip_height (ch_tip ch) - FINALITY_DEPTH) \<and>
     check_links c fork_hash branch = None \<and>
     branch_checkpoints_ok c (ch_checkpoints ch) (fork_height + 1) branch \<and>
     tip_is_better (branch_tip c fork_height (get_weight (ch_stage ch) fork_hash) branch) (ch_tip ch)"

definition replayed_branch :: "crypto \<Rightarrow> hash256 \<Rightarrow> u32 \<Rightarrow> Block list \<Rightarrow> chain \<Rightarrow> chain" where
  "replayed_branch c fork_hash fork_height branch ch =
     (let fw = get_weight (ch_stage ch) fork_hash; cand = branch_tip c fork_height fw branch
      in snd (rebuild_derived_state c (ch\<lparr>ch_stage :=
           adopted_stage c branch fork_height fw cand (ch_tip ch) (ch_stage ch), ch_tip := cand\<rparr>)))"

lemma reorg_cases:
  obtains (Refused) e where "reorg_to_branch c fh_hash fh branch ch = (Some e, ch)"
      "e \<noteq> Failed_revalidation"
    | (Adopted) "acceptable c fh_hash fh branch ch"
        "reorg_to_branch c fh_hash fh branch ch = (None, replayed_branch c fh_hash fh branch ch)"
        "tip_hash (ch_tip (replayed_branch c fh_hash fh branch ch)) = Block_hash c (last branch)"
    | (Restored) olds where "acceptable c fh_hash fh branch ch"
        "snapshot_hashes (ch_stage ch) (heights (fh + 1) (tip_height (ch_tip ch))) = Some olds"
        "tip_hash (ch_tip (replayed_branch c fh_hash fh branch ch)) \<noteq> Block_hash c (last branch)"
        "reorg_to_branch c fh_hash fh branch ch = (Some Failed_revalidation,
           restore_chain c fh (get_weight (ch_stage ch) fh_hash) branch olds (ch_tip ch)
             (fh + word_of_nat (length branch)) (replayed_branch c fh_hash fh branch ch))"
proof (cases "acceptable c fh_hash fh branch ch")
  case False
  have "check_links c e bs \<noteq> Some Failed_revalidation" for e bs
    by (induction c e bs rule: check_links.induct) auto
  with False have "\<exists>e. reorg_to_branch c fh_hash fh branch ch = (Some e, ch) \<and> e \<noteq> Failed_revalidation"
    by (cases "check_links c fh_hash branch") (auto simp: reorg_to_branch_def acceptable_def Let_def)
  with Refused show thesis by blast
next
  case True
  let ?olds = "snapshot_hashes (ch_stage ch) (heights (fh + 1) (tip_height (ch_tip ch)))"
  have h: "tip_height (branch_tip c fh w branch) = fh + word_of_nat (length branch)"
    "tip_hash (branch_tip c fh w branch) = Block_hash c (last branch)" for w
    by (simp_all add: branch_tip_def)
  show thesis
  proof (cases ?olds)
    case None
    have "reorg_to_branch c fh_hash fh branch ch = (Some Missing_old_block, ch)"
      using True None by (simp add: reorg_to_branch_def acceptable_def Let_def)
    with Refused show thesis by blast
  next
    case (Some olds)
    have "reorg_to_branch c fh_hash fh branch ch =
        (if tip_hash (ch_tip (replayed_branch c fh_hash fh branch ch)) = Block_hash c (last branch)
         then (None, replayed_branch c fh_hash fh branch ch)
         else (Some Failed_revalidation,
           restore_chain c fh (get_weight (ch_stage ch) fh_hash) branch olds (ch_tip ch)
             (fh + word_of_nat (length branch)) (replayed_branch c fh_hash fh branch ch)))"
      using True Some
      by (simp add: reorg_to_branch_def acceptable_def replayed_branch_def adopted_stage_def Let_def h)
    with True Some Adopted Restored show thesis by (metis (full_types))
  qed
qed

lemma tip_height_branch:
  "unat (fh :: u32) + length bs < 2 ^ 32 \<Longrightarrow> unat (fh + word_of_nat (length bs)) = unat fh + length bs"
  by (simp add: unat_word_ariths)

lemma acceptable_blocks_ok: "acceptable c fh_hash fh branch ch \<Longrightarrow> list_all Block_ok branch"
  by (auto simp: acceptable_def list_all_iff dest!: check_links_ok Block_validate_ok)

lemma replayed_branch_laws:
  assumes "healthy c ch" and "fh \<le> tip_height (ch_tip ch)" and "unat fh + length branch < 2 ^ 32"
    and acc: "acceptable c fh_hash fh branch ch"
  shows "healthy c (replayed_branch c fh_hash fh branch ch)"
    and "\<not> marked (ch_store (replayed_branch c fh_hash fh branch ch))"
    and "\<And>bh. block_at (ch_store ch) bh \<noteq> None \<Longrightarrow>
           block_at (ch_store (replayed_branch c fh_hash fh branch ch)) bh \<noteq> None"
    and "\<And>g. g \<le> fh \<Longrightarrow> hash_at (ch_store (replayed_branch c fh_hash fh branch ch)) g = hash_at (ch_store ch) g"
proof -
  let ?fw = "get_weight (ch_stage ch) fh_hash"
  let ?cand = "branch_tip c fh ?fw branch"
  let ?s = "adopted_stage c branch fh ?fw ?cand (ch_tip ch) (ch_stage ch)"
  let ?ch = "ch\<lparr>ch_stage := ?s, ch_tip := ?cand\<rparr>"
  have ok: "kv_ok (db_store (ch_stage ch))"
    using assms(1) by (simp add: healthy_def chain_ok_def store_ok_def ch_store_def)
  note bs = acceptable_blocks_ok [OF acc]
  have cand: "unat (tip_height ?cand) = unat fh + length branch"
    using tip_height_branch [OF assms(3)] by (simp add: branch_tip_def)
  note at = adopted_stage_at [OF ok bs assms(3) cand refl]
  have "rows_upto (db_store (ch_stage ch)) fh"
    using assms(1,2) by (auto simp: healthy_def ch_store_def intro: rows_upto_mono)
  from adopted_stage_rows [OF ok bs assms(3) cand refl this]
  have rows: "rows_upto (ch_store ?ch) (tip_height (ch_tip ?ch))" by (simp add: ch_store_def)
  have kv: "kv_ok (ch_store ?ch)" using at(1) by (simp add: ch_store_def)
  obtain b ch' where r: "rebuild_derived_state c ?ch = (b, ch')" by fastforce
  then have ch': "replayed_branch c fh_hash fh branch ch = ch'"
    by (simp add: replayed_branch_def Let_def)
  note laws = rebuild_completes [OF kv rows r]
  show "healthy c (replayed_branch c fh_hash fh branch ch)"
    using laws by (simp add: ch' healthy_def)
  show "\<not> marked (ch_store (replayed_branch c fh_hash fh branch ch))"
    using rebuild_healthy(2) [OF kv rows, of c] r by (simp add: ch')
  show "block_at (ch_store ch) bh \<noteq> None \<Longrightarrow>
      block_at (ch_store (replayed_branch c fh_hash fh branch ch)) bh \<noteq> None" for bh
    using laws at(2) [of bh] by (simp add: ch' ch_store_def)
  show "g \<le> fh \<Longrightarrow> hash_at (ch_store (replayed_branch c fh_hash fh branch ch)) g = hash_at (ch_store ch) g" for g
  proof -
    assume g: "g \<le> fh"
    have "g \<le> tip_height ?cand" using g cand by (simp add: word_le_nat_alt)
    moreover have "\<not> fh < g" using g by simp
    ultimately show ?thesis using at(3) [of g] laws by (simp add: ch' ch_store_def)
  qed
qed

lemma healthy_restore:
  assumes ok: "kv_ok (ch_store ch)" and olds: "\<And>bh. bh \<in> set olds \<Longrightarrow> block_at (ch_store ch) bh \<noteq> None"
    and len: "unat fh + length olds = unat (tip_height tip)" and room: "unat fh + 1 < 2 ^ 32"
    and below: "\<And>h. 1 \<le> h \<Longrightarrow> h \<le> fh \<Longrightarrow> \<exists>bh. hash_at (ch_store ch) h = Some bh \<and>
      bh \<notin> Block_hash c ` set branch \<and> block_at (ch_store ch) bh \<noteq> None"
  shows "healthy c (restore_chain c fh fw branch olds tip nh ch) \<and>
    \<not> marked (ch_store (restore_chain c fh fw branch olds tip nh ch))"
proof -
  let ?d = "db_put_now sr_dirty_key [1] (ch_stage ch)"
  let ?old = "load_blocks ?d olds"
  let ?r = "drop_branch_rows c branch ?d"
  let ?n = "clear_n_above c (fh + 1) (max nh (tip_height tip)) ?r"
  let ?w = "write_branch c ?old fh fw (tip_hash tip) (tip_height tip) ?n"
  have ok': "kv_ok (db_store (ch_stage ch))" using ok by (simp add: ch_store_def)
  note d = dirty_put [OF ok', of "[1]"]
  have full: "length ?old = length olds"
    by (rule load_blocks_all) (use olds d in \<open>simp add: ch_store_def\<close>)
  note r = at_drop_branch_rows [OF d(1), of c branch]
  have r_ok: "kv_ok (db_store ?r)" using r by blast
  note n = at_clear_n_above [OF r_ok, where c = c and a = "fh + 1" and b = "max nh (tip_height tip)"]
  have fit: "unat fh + length ?old < 2 ^ 32"
    using len full unat_less_u32 [of "tip_height tip"] by simp
  note w = at_commit_tip [OF n(1) load_blocks_ok fit refl, where c = c and w = fw
      and th = "tip_hash tip" and thh = "tip_height tip"]
  have "rows_upto (db_store ?w) (tip_height tip)"
    unfolding rows_upto_def
  proof (intro allI impI)
    fix g assume g: "1 \<le> g \<and> g \<le> tip_height tip"
    show "\<exists>bh b. hash_at (db_store ?w) g = Some bh \<and> block_at (db_store ?w) bh = Some b"
    proof (cases "unat fh < unat g")
      case True
      with g len full have i: "unat g - Suc (unat fh) < length ?old" and "unat g \<le> unat fh + length ?old"
        by (auto simp: word_le_nat_alt)
      from i have "Block_hash c (?old ! (unat g - Suc (unat fh))) \<in> Block_hash c ` set ?old" by simp
      with w(2) w(3) [of g] True \<open>unat g \<le> unat fh + length ?old\<close> show ?thesis by auto
    next
      case False
      then have gf: "g \<le> fh" by (simp add: word_le_nat_alt)
      with below [of g] g obtain bh where bh: "hash_at (ch_store ch) g = Some bh"
        "bh \<notin> Block_hash c ` set branch" "block_at (ch_store ch) bh \<noteq> None" by blast
      have "unat (fh + 1) = Suc (unat fh)"
        using room by (simp add: unat_plus_if_size word_size)
      with False have "\<not> fh + 1 \<le> g" by (simp add: word_le_nat_alt)
      then have "hash_at (db_store ?n) g = Some bh"
        using n(3) [of g] r [of bh] bh(1) d by (simp add: ch_store_def)
      moreover have "block_at (db_store ?n) bh \<noteq> None"
        using r [of bh] n(2) bh d by (simp add: ch_store_def)
      ultimately show ?thesis using w(2) [of bh] w(3) [of g] False by auto
    qed
  qed
  moreover have "restore_chain c fh fw branch olds tip nh ch =
      snd (rebuild_derived_state c (ch\<lparr>ch_stage := ?w, ch_tip := tip\<rparr>))"
    using full by (simp add: restore_chain_def Let_def)
  ultimately show ?thesis
    using rebuild_healthy [of "ch\<lparr>ch_stage := ?w, ch_tip := tip\<rparr>" c] w(1) by (simp add: ch_store_def)
qed

lemma reorg_healthy:
  assumes "healthy c ch" and "fh \<le> tip_height (ch_tip ch)" and fit: "unat fh + length branch < 2 ^ 32"
    and fresh: "\<And>h b. 1 \<le> h \<Longrightarrow> h \<le> fh \<Longrightarrow> b \<in> set branch \<Longrightarrow>
      get_block_hash (ch_stage ch) h \<noteq> Some (Block_hash c b)"
  shows "healthy c (snd (reorg_to_branch c fh_hash fh branch ch)) \<and>
    (\<not> marked (ch_store ch) \<longrightarrow> \<not> marked (ch_store (snd (reorg_to_branch c fh_hash fh branch ch))))"
proof (cases rule: reorg_cases [of c fh_hash fh branch ch])
  case (Refused e)
  with assms(1) show ?thesis by simp
next
  case Adopted
  with replayed_branch_laws(1,2) [OF assms(1-3) Adopted(1)] show ?thesis by simp
next
  case (Restored olds)
  let ?ch = "replayed_branch c fh_hash fh branch ch"
  note laws = replayed_branch_laws [OF assms(1-3) Restored(1)]
  have room: "unat fh + 1 < 2 ^ 32"
    using fit Restored(1) by (cases branch) (auto simp: acceptable_def)
  then have fh1: "unat (fh + 1) = Suc (unat fh)" by (simp add: unat_plus_if_size word_size)
  have "map (hash_at (ch_store ch)) (heights (fh + 1) (tip_height (ch_tip ch))) = map Some olds"
    using Restored(2) by (simp add: snapshot_hashes_Some ch_store_def)
  from map_eq_map_Some [OF this]
  have olds: "\<And>bh. bh \<in> set olds \<Longrightarrow> \<exists>h. fh + 1 \<le> h \<and> h \<le> tip_height (ch_tip ch) \<and>
      hash_at (ch_store ch) h = Some bh"
    and "length olds = length (heights (fh + 1) (tip_height (ch_tip ch)))"
    unfolding Bex_def set_heights by auto
  then have len: "unat fh + length olds = unat (tip_height (ch_tip ch))"
    using assms(2) by (simp add: length_heights fh1 word_le_nat_alt)
  have "healthy c (restore_chain c fh (get_weight (ch_stage ch) fh_hash) branch olds (ch_tip ch)
      (fh + word_of_nat (length branch)) ?ch) \<and>
    \<not> marked (ch_store (restore_chain c fh (get_weight (ch_stage ch) fh_hash) branch olds (ch_tip ch)
      (fh + word_of_nat (length branch)) ?ch))"
  proof (rule healthy_restore [OF _ _ len room])
    show "kv_ok (ch_store ?ch)" using laws(1) by (simp add: healthy_def chain_ok_def store_ok_def)
  next
    fix bh assume "bh \<in> set olds"
    with olds obtain h where h: "fh + 1 \<le> h" "h \<le> tip_height (ch_tip ch)" "hash_at (ch_store ch) h = Some bh"
      by blast
    have "1 \<le> h" using h(1) fh1 by (simp add: word_le_nat_alt)
    with assms(1) h show "block_at (ch_store ?ch) bh \<noteq> None"
      by (intro laws(3)) (auto simp: healthy_def rows_upto_def)
  next
    fix h assume h: "1 \<le> h" "h \<le> fh"
    have "h \<le> tip_height (ch_tip ch)" using h(2) assms(2) by simp
    with assms(1) h(1) obtain bh b where bh: "hash_at (ch_store ch) h = Some bh"
      "block_at (ch_store ch) bh = Some b" by (auto simp: healthy_def rows_upto_def)
    moreover have "bh \<notin> Block_hash c ` set branch"
      using fresh [OF h] bh(1) by (auto simp: get_block_hash_at ch_store_def)
    ultimately show "\<exists>bh. hash_at (ch_store ?ch) h = Some bh \<and> bh \<notin> Block_hash c ` set branch \<and>
        block_at (ch_store ?ch) bh \<noteq> None"
      using laws(3) [of bh] laws(4) [OF h(2)] by auto
  qed
  with Restored(4) show ?thesis by simp
qed

section \<open>The other operations\<close>

lemma healthy_cong: "same_chain ch ch' \<Longrightarrow> healthy c ch \<Longrightarrow> healthy c ch'"
  by (simp add: same_chain_def healthy_def chain_ok_def)

lemma at_connected:
  assumes "kv_ok (ch_store ch)" and "run_block c blk ch = (ok, t)" and "Block_ok blk"
  shows "block_at (ch_store (connected c blk t ch)) bh =
      (if bh = Block_hash c blk then Some blk else block_at (ch_store ch) bh)"
    and "hash_at (ch_store (connected c blk t ch)) g =
      (if g = next_height ch then Some (Block_hash c blk) else hash_at (ch_store ch) g)"
proof -
  let ?db = "kv_write (ch_store ch) (block_rows c blk (next_height ch) (next_weight blk ch) @
      [Put sr_vec_key (serialize_vec (acc_vec_of t))])"
  have "kv_get (ch_store (connected c blk t ch)) k = kv_get ?db k" if "bn_key k" for k
    by (rule connected_rows [OF assms(1,2)]) (use that in \<open>auto simp: bn_key_def chain_row_def chain_classes_def\<close>)
  then have "block_at (ch_store (connected c blk t ch)) = block_at ?db"
    "hash_at (ch_store (connected c blk t ch)) = hash_at ?db" by (rule at_same, simp)+
  then show "block_at (ch_store (connected c blk t ch)) bh =
      (if bh = Block_hash c blk then Some blk else block_at (ch_store ch) bh)"
    "hash_at (ch_store (connected c blk t ch)) g =
      (if g = next_height ch then Some (Block_hash c blk) else hash_at (ch_store ch) g)"
    using assms(1) Block_roundtrip [OF assms(3), of "[]"]
    by (simp_all add: block_rows_def kv_write_def kv_ok_put)
qed

lemma healthy_connect:
  assumes "healthy c ch"
  shows "healthy c (snd (connect_block c an blk ch))"
proof (cases "fst (connect_block c an blk ch)")
  case False
  with assms connect_block_refused healthy_cong show ?thesis by blast
next
  case True
  obtain ok t where r: "run_block c blk ch = (ok, t)" by fastforce
  from True r have ch': "snd (connect_block c an blk ch) = connected c blk t ch"
    and "admissible c an blk ch" by (auto simp: connect_block_cases split: if_splits)
  then have blk: "Block_ok blk"
    by (auto simp: admissible_def validate_block_def split: if_splits intro: Block_validate_ok)
  have kv: "kv_ok (ch_store ch)" using assms by (simp add: healthy_def chain_ok_def store_ok_def)
  note at = at_connected [OF kv r blk]
  have "rows_upto (ch_store (connected c blk t ch)) (next_height ch)"
    unfolding rows_upto_def
  proof (intro allI impI)
    fix g assume g: "1 \<le> g \<and> g \<le> next_height ch"
    show "\<exists>bh b. hash_at (ch_store (connected c blk t ch)) g = Some bh \<and>
        block_at (ch_store (connected c blk t ch)) bh = Some b"
    proof (cases "g = next_height ch")
      case False
      then have "g \<le> tip_height (ch_tip ch)"
        using g by (auto simp: next_height_def word_le_nat_alt word_unat_eq_iff unat_plus_if_size
            word_size split: if_splits)
      with assms g obtain bh b where "hash_at (ch_store ch) g = Some bh" "block_at (ch_store ch) bh = Some b"
        by (auto simp: healthy_def rows_upto_def)
      with False show ?thesis by (simp add: at del: ch_store_connected)
    qed (simp add: at del: ch_store_connected)
  qed
  with assms chain_ok_connected [OF _ r] show ?thesis
    by (simp add: ch' healthy_def) (simp add: connected_def)
qed

lemma first_unappliable_keeps: "same_chain ch (snd (first_unappliable_tx c txs ch))"
proof -
  have "db_store (snd (first_unappliable_from c h before txs s)) = db_store s" for h before s
  proof (induction txs arbitrary: before s)
    case (Cons tx txs)
    obtain ok t where r: "apply_tx_list c h (before @ [tx]) (reset_staging (new_batch s)) = (ok, t)"
      by fastforce
    with tx_list.handle_store [of c h "before @ [tx]" "reset_staging (new_batch s)"]
    have "db_store t = db_store s" by simp
    with r Cons.IH [of "before @ [tx]" "new_batch t"] show ?case by simp
  qed simp
  then show ?thesis
    by (auto simp: first_unappliable_tx_def same_chain_def ch_store_def split: prod.split)
      (metis snd_conv)
qed

end
