(* ===== verification/Rebuild_Laws.thy ===== *)
theory Rebuild_Laws
  imports Reorg_Laws
begin

text \<open>
  What a rebuild and a reorganisation leave, whatever they started from. The row \<open>sr:dirty\<close> is the
  program's own mark of an unfinished replay: \<open>chain_inv\<close> says that a chain is sound unless it
  carries the mark, and every operation keeps it, a reorganisation to any branch included. The
  second part is exact about the blocks a replay keeps and the one it stops at.
\<close>

section \<open>The mark of an unfinished replay\<close>

definition chain_inv :: "crypto \<Rightarrow> chain \<Rightarrow> bool" where
  "chain_inv c ch \<longleftrightarrow> kv_ok (ch_store ch) \<and> (\<not> marked (ch_store ch) \<longrightarrow> healthy c ch)"

lemma healthy_inv: "healthy c ch \<Longrightarrow> chain_inv c ch"
  by (simp add: chain_inv_def healthy_def chain_ok_def store_ok_def)

lemma inv_cong: "same_chain ch ch' \<Longrightarrow> chain_inv c ch \<Longrightarrow> chain_inv c ch'"
  using healthy_cong by (auto simp: chain_inv_def same_chain_def)

lemma marked_put [simp]:
  assumes "kv_ok db"
  shows "marked (kv_put db sr_dirty_key v)" and "k \<noteq> sr_dirty_key \<Longrightarrow> marked (kv_put db k v) = marked db"
    and "k \<noteq> sr_dirty_key \<Longrightarrow> marked (kv_del db k) = marked db"
  using assms by (auto simp: marked_def kv_get_put kv_get_del)

lemma not_dirty_keys [simp]:
  "block_key h \<noteq> sr_dirty_key" "block_height_key h \<noteq> sr_dirty_key" "weight_key h \<noteq> sr_dirty_key"
  "height_key n \<noteq> sr_dirty_key" "full_hash_key n \<noteq> sr_dirty_key" "tip_key \<noteq> sr_dirty_key"
  "sr_vec_key \<noteq> sr_dirty_key" "''p:'' @ r \<noteq> sr_dirty_key" "''pt:'' @ r \<noteq> sr_dirty_key"
  "''sp:'' @ r \<noteq> sr_dirty_key"
  by (simp_all add: block_key_def block_height_key_def weight_key_def height_key_def full_hash_key_def
      tip_key_def sr_vec_key_def sr_dirty_key_def)

lemmas not_dirty_keys_simp [simp] = not_dirty_keys(8-10) [simplified]

text \<open>A batch that does not name the row leaves it as it is.\<close>

definition spares_mark :: "stage \<Rightarrow> bool" where
  "spares_mark s \<longleftrightarrow> sr_dirty_key \<notin> kvs.op_key ` set (db_batch s)"

lemma spares_put [simp]:
  "k \<noteq> sr_dirty_key \<Longrightarrow> spares_mark (put_batch c k v s) = spares_mark s"
  "k \<noteq> sr_dirty_key \<Longrightarrow> spares_mark (del_batch c k s) = spares_mark s"
  "spares_mark (new_batch s)"
  by (auto simp: spares_mark_def put_batch_def del_batch_def new_batch_def)

lemma pending_mark: "kv_ok (db_store s) \<Longrightarrow> spares_mark s \<Longrightarrow> marked (pending s) = marked (db_store s)"
  unfolding marked_def pending_def kv_write_eq spares_mark_def by (subst kvs.get_commit_other) simp_all

lemma drain_parts:
  "db_store (drain_mempool c txs s) = db_store s" "spares_mark (drain_mempool c txs s) = spares_mark s"
  by (induction txs arbitrary: s) (simp_all add: drain_mempool_def)

lemma drop_song_parts:
  "db_store (drop_pending_song c b s) = db_store s" "spares_mark (drop_pending_song c b s) = spares_mark s"
  by (simp_all add: drop_pending_song_def split: option.split)

lemma write_branch_parts:
  "db_store (write_branch_blocks c h w bs s) = db_store s \<and>
   spares_mark (write_branch_blocks c h w bs s) = spares_mark s"
  by (induction c h w bs s rule: write_branch_blocks.induct)
    (simp_all add: Let_def put_batch_u32_def put_batch_u64_def drain_parts drop_song_parts)

text \<open>What the stages of a reorganisation keep of the store.\<close>

definition keeps_mark :: "stage \<Rightarrow> stage \<Rightarrow> bool" where
  "keeps_mark s t \<longleftrightarrow> (kv_ok (db_store s) \<longrightarrow> kv_ok (db_store t) \<and> marked (db_store t) = marked (db_store s))"

lemma keeps_markD:
  assumes "keeps_mark s t" and "kv_ok (db_store s)"
  shows "kv_ok (db_store t)" and "marked (db_store t) = marked (db_store s)"
  using assms by (simp_all add: keeps_mark_def)

lemma keeps_mark_refl: "keeps_mark s s"
  by (simp add: keeps_mark_def)

lemma keeps_commit: "db_store t = db_store s \<Longrightarrow> spares_mark t \<Longrightarrow> keeps_mark s (commit_batch t)"
  using pending_mark [of t] by (simp add: keeps_mark_def)

lemma keeps_write_branch: "keeps_mark s (write_branch c bs base w th h s)"
  unfolding write_branch_def
  using write_branch_parts [of c "base + 1" w bs "new_batch s"] by (intro keeps_commit) simp_all

lemma keeps_clear: "keeps_mark s (clear_n_above c a b s)"
proof -
  have "db_store (foldl (\<lambda>s h. del_batch c (height_key h) s) t hs) = db_store t \<and>
      spares_mark (foldl (\<lambda>s h. del_batch c (height_key h) s) t hs) = spares_mark t" for t :: stage and hs
    by (induction hs arbitrary: t) simp_all
  then show ?thesis
    by (simp add: clear_n_above_def keeps_commit keeps_mark_refl)
qed

lemma keeps_drop_rows: "keeps_mark s (drop_branch_rows c bs s)"
proof -
  let ?f = "\<lambda>s b. del_batch c (weight_key (Block_hash c b)) (del_batch c (block_height_key (Block_hash c b))
       (del_batch c (block_key (Block_hash c b)) s))"
  have "db_store (foldl ?f t bs) = db_store t \<and> spares_mark (foldl ?f t bs) = spares_mark t" for t :: stage
    by (induction bs arbitrary: t) simp_all
  then show ?thesis by (simp add: drop_branch_rows_def keeps_commit)
qed

lemma mark_now:
  "kv_ok (db_store s) \<Longrightarrow> kv_ok (db_store (db_put_now sr_dirty_key v s)) \<and>
     marked (db_store (db_put_now sr_dirty_key v s))"
  by (simp add: db_put_now_def kv_ok_put)

section \<open>Replay\<close>

lemma replay_one_mark:
  assumes "replay_ok c r" and one: "replay_one c cps h r = (v, r')"
  shows "marked (db_store (rp_stage r')) = marked (db_store (rp_stage r))"
proof -
  let ?db = "db_store (rp_stage r)"
  note run = replayed_block(2,4) [OF assms(1) [unfolded replay_ok_def]]
  have ok: "kv_ok ?db" using assms(1) by (simp add: replay_ok_def acc_ok_def store_ok_def)
  from one show ?thesis
  proof (cases rule: replay_one_elim)
    case (Undone blk b t)
    with run(1) [OF Undone(1)] show ?thesis by (simp add: new_batch_def)
  next
    case (Done bhash blk t)
    note t = run [OF Done(4)]
    have "kv_get (pending t) sr_dirty_key = kv_get ?db sr_dirty_key"
      using kv_get_chain_row [OF ok, of sr_dirty_key "db_batch t"] t
      by (simp add: pending_def chain_frame_def)
    moreover have "kv_ok (pending t)" by (rule kv_ok_pending) (simp add: t ok)
    ultimately show ?thesis
      by (simp add: Done put_batch_u64_def kv_ok_put) (simp add: marked_def)
  qed simp
qed

lemma replay_blocks_mark:
  "replay_ok c r \<Longrightarrow> marked (db_store (rp_stage (snd (replay_blocks c cps hs r)))) = marked (db_store (rp_stage r))"
proof (induction hs arbitrary: r)
  case (Cons h hs)
  obtain v r' where one: "replay_one c cps h r = (v, r')" by fastforce
  with replay_one_mark [OF Cons.prems one] Cons.IH [OF replay_ok_one [OF Cons.prems one]]
  show ?case by (cases v) simp_all
qed simp

lemma replay_start_mark: "kv_ok (db_store s) \<Longrightarrow> marked (db_store (rp_stage (replay_start s)))"
proof -
  assume ok: "kv_ok (db_store s)"
  let ?db = "kv_put (db_store s) sr_dirty_key [1]"
  have "\<not> has_state_prefix sr_dirty_key" by simp
  moreover have "\<not> starts_with sr_dirty_key ''fph:''" "\<not> starts_with sr_dirty_key ''pp:''"
    by (simp_all add: sr_dirty_key_def starts_with_def)
  ultimately have "kv_get (clear_derived_state ?db) sr_dirty_key = kv_get ?db sr_dirty_key"
    by (intro kv_get_cleared(2) kv_ok_put ok)
  with ok show ?thesis
    by (simp add: replay_start_def Let_def db_put_now_def marked_def kv_get_put)
qed

text \<open>One step of the replay: the block of the next height is kept, or it is not.\<close>

definition row_block :: "kv \<Rightarrow> u32 \<Rightarrow> (hash256 \<times> Block) option" where
  "row_block db h = do { bh \<leftarrow> hash_at db h; blk \<leftarrow> block_at db bh; Some (bh, blk) }"

text \<open>\<open>kept\<close> is a run of blocks that link, from \<open>prev\<close> on, and are valid and meet the checkpoints.\<close>

fun kept :: "crypto \<Rightarrow> (u32 \<Rightarrow> hash256 option) \<Rightarrow> kv \<Rightarrow> hash256 \<Rightarrow> u32 list \<Rightarrow> bool" where
  "kept c cps db prev [] \<longleftrightarrow> True"
| "kept c cps db prev (h # hs) \<longleftrightarrow> (case row_block db h of None \<Rightarrow> False
     | Some (bh, blk) \<Rightarrow> Block_validate c blk \<and> hd_prev_hash (blk_header blk) = prev \<and>
         checkpoint_ok cps h bh \<and> kept c cps db bh hs)"

lemma kept_rows: "kept c cps db prev hs \<Longrightarrow> h \<in> set hs \<Longrightarrow> row_block db h \<noteq> None"
  by (induction hs arbitrary: prev) (auto split: option.splits)

definition plays_at :: "kv \<Rightarrow> u32 \<Rightarrow> u64" where
  "plays_at db h = (case row_block db h of None \<Rightarrow> 0 | Some (bh, blk) \<Rightarrow> count_plays blk)"

definition hash_or :: "hash256 \<Rightarrow> kv \<Rightarrow> u32 list \<Rightarrow> hash256" where
  "hash_or prev db hs = (case hs of [] \<Rightarrow> prev | _ \<Rightarrow> (case row_block db (last hs) of None \<Rightarrow> prev | Some (bh, _) \<Rightarrow> bh))"

text \<open>The verdict of \<open>connect_block\<close> on a chain in the state of the replay.\<close>

definition replay_chain :: "(u32 \<Rightarrow> hash256 option) \<Rightarrow> replay \<Rightarrow> chain" where
  "replay_chain cps r = \<lparr>ch_stage = rp_stage r, ch_acc = rp_acc r,
     ch_tip = \<lparr>tip_hash = rp_prev r, tip_height = rp_last r, tip_timestamp_ms = 0, tip_weight = rp_weight r\<rparr>,
     ch_checkpoints = cps\<rparr>"

lemma replay_one_stops:
  assumes one: "replay_one c cps h r = (Stopped, r')" and h: "h = rp_last r + 1"
    and row: "row_block (db_store (rp_stage r)) h = Some (bh, blk)" and own: "Block_hash c blk = bh"
  shows "\<not> fst (connect_block c an blk (replay_chain cps r))"
proof
  let ?ch = "replay_chain cps r"
  assume "fst (connect_block c an blk ?ch)"
  then have a: "admissible c an blk ?ch" and run: "fst (run_candidate c blk ?ch)"
    and root: "4 \<le> hd_version (blk_header blk) \<longrightarrow>
      hd_state_root (blk_header blk) = state_root c (acc_vec_of (snd (run_candidate c blk ?ch)))"
    by (simp_all add: connect_block_iff compute_candidate_eq)
  have rows: "get_block_hash (rp_stage r) h = Some bh" "get_block (rp_stage r) bh = Some blk"
    using row by (auto simp: row_block_def bind_eq_Some_conv get_block_hash_at get_block_at)
  have "\<not> replay_rejects c cps h bh blk r"
    using a by (auto simp: admissible_def validate_block_def replay_rejects_def replay_chain_def
        next_height_def own h split: if_splits)
  moreover have "apply_transactions c blk h (write_song_rows c blk h
      (with_acc (Some (copy_from (rp_acc r))) (new_batch (rp_stage r)))) = run_candidate c blk ?ch"
    by (simp add: run_candidate_def candidate_staged replay_chain_def ch_store_def next_height_def h)
  moreover obtain t where "run_candidate c blk ?ch = (True, t)" using run by (metis prod.collapse)
  moreover have "root_gate c blk (acc_vec_of t)"
    using root \<open>run_candidate c blk ?ch = (True, t)\<close> by (auto simp: root_gate_def)
  ultimately show False using one rows by (simp add: replay_one_def Let_def)
qed

text \<open>The replay keeps a run of blocks from the first on; if it stops, the next block is one that
  \<open>connect_block\<close> refuses.\<close>

lemma replay_keeps:
  assumes "replay_ok c r" and "replay_blocks c cps hs r = (v, r')" and "v \<noteq> Missing_block"
    and "hs = map (\<lambda>i. rp_last r + 1 + of_nat i) [0..<length hs]"
  shows "\<exists>n \<le> length hs.
    rp_last r' = rp_last r + of_nat n \<and> kept c cps (db_store (rp_stage r)) (rp_prev r) (take n hs) \<and>
    rp_prev r' = hash_or (rp_prev r) (db_store (rp_stage r)) (take n hs) \<and>
    rp_weight r' = foldl (\<lambda>w h. w + plays_at (db_store (rp_stage r)) h) (rp_weight r) (take n hs) \<and>
    (n < length hs \<longrightarrow> (\<exists>bh blk. row_block (db_store (rp_stage r)) (hs ! n) = Some (bh, blk) \<and>
       (Block_hash c blk = bh \<longrightarrow> (\<forall>an. \<not> fst (connect_block c an blk (replay_chain cps r'))))))"
  using assms
proof (induction hs arbitrary: r)
  case Nil
  then show ?case by (simp add: hash_or_def)
next
  case (Cons h hs)
  let ?db = "db_store (rp_stage r)"
  obtain v1 r1 where one: "replay_one c cps h r = (v1, r1)" by fastforce
  have h: "h = rp_last r + 1" and hs: "hs = map (\<lambda>i. rp_last r + 1 + of_nat (Suc i)) [0..<length hs]"
    using Cons.prems(4) by (simp_all add: map_upt_Suc del: upt_Suc of_nat_Suc)
  have v1: "v1 \<noteq> Missing_block" using Cons.prems(2,3) one by (cases v1) auto
  then obtain bh blk where row: "row_block ?db h = Some (bh, blk)"
    using one by (auto simp: replay_one_def row_block_def get_block_hash_at get_block_at split: option.splits)
  show ?case
  proof (cases "v1 = Stopped")
    case True
    then have r': "v = Stopped" "r' = r1" using Cons.prems(2) one by simp_all
    have state: "rp_last r1 = rp_last r" "rp_prev r1 = rp_prev r" "rp_weight r1 = rp_weight r" "rp_acc r1 = rp_acc r"
      using one True by (auto elim!: replay_one_elim)
    have store: "db_store (rp_stage r1) = ?db"
      using one True replayed_block(2) [OF Cons.prems(1) [unfolded replay_ok_def]]
      by (auto simp: new_batch_def elim!: replay_one_elim)
    have "same_chain (replay_chain cps r) (replay_chain cps r1)"
      using state store by (simp add: same_chain_def replay_chain_def ch_store_def)
    then have "fst (connect_block c an blk (replay_chain cps r1)) = fst (connect_block c an blk (replay_chain cps r))" for an
      by (rule connect_block_cong(1))
    with replay_one_stops [OF one [unfolded True] h row] r' state row
    show ?thesis by (intro exI [of _ 0]) (simp add: hash_or_def)
  next
    case False
    with v1 have done1: "v1 = Replayed" by (cases v1) simp_all
    have at: "block_at (db_store (rp_stage r1)) = block_at ?db" "hash_at (db_store (rp_stage r1)) = hash_at ?db"
      using at_replay_one [OF Cons.prems(1) one] by simp_all
    then have rb: "row_block (db_store (rp_stage r1)) = row_block ?db" by (simp add: row_block_def fun_eq_iff)
    then have kc: "kept c cps (db_store (rp_stage r1)) p xs = kept c cps ?db p xs" for p xs
      by (induction xs arbitrary: p) (auto split: option.split)
    have pc: "plays_at (db_store (rp_stage r1)) = plays_at ?db" "hash_or p (db_store (rp_stage r1)) = hash_or p ?db" for p
      unfolding plays_at_def hash_or_def rb by (rule refl)+
    have "\<exists>bh blk. row_block ?db h = Some (bh, blk) \<and> \<not> replay_rejects c cps h bh blk r \<and>
        rp_last r1 = h \<and> rp_prev r1 = bh \<and> rp_weight r1 = rp_weight r + count_plays blk"
      using one done1
      by (cases rule: replay_one_elim) (auto simp: row_block_def get_block_hash_at get_block_at)
    with row have r1: "\<not> replay_rejects c cps h bh blk r" "rp_last r1 = h" "rp_prev r1 = bh"
      "rp_weight r1 = rp_weight r + count_plays blk" by auto
    have "replay_blocks c cps hs r1 = (v, r')" using Cons.prems(2) one done1 by simp
    moreover have "hs = map (\<lambda>i. rp_last r1 + 1 + of_nat i) [0..<length hs]"
      by (subst hs) (simp add: r1 h add.assoc)
    ultimately obtain n where n: "n \<le> length hs" "rp_last r' = rp_last r1 + of_nat n"
      "kept c cps ?db bh (take n hs)" "rp_prev r' = hash_or bh ?db (take n hs)"
      "rp_weight r' = foldl (\<lambda>w h. w + plays_at ?db h) (rp_weight r1) (take n hs)"
      "n < length hs \<longrightarrow> (\<exists>bh blk. row_block ?db (hs ! n) = Some (bh, blk) \<and>
         (Block_hash c blk = bh \<longrightarrow> (\<forall>an. \<not> fst (connect_block c an blk (replay_chain cps r')))))"
      using Cons.IH [OF replay_ok_one [OF Cons.prems(1) one] _ Cons.prems(3)] unfolding kc pc rb r1(3) by blast
    have "kept c cps ?db (rp_prev r) (take (Suc n) (h # hs))"
      using n(3) r1(1) row by (simp add: replay_rejects_def)
    moreover have "rp_prev r' = hash_or (rp_prev r) ?db (take (Suc n) (h # hs))"
    proof (cases "take n hs = []")
      case True
      then show ?thesis using n(4) row unfolding hash_or_def take_Suc_Cons True by simp
    next
      case False
      then obtain b' blk' where "row_block ?db (last (take n hs)) = Some (b', blk')"
        using kept_rows [OF n(3) last_in_set] by auto
      moreover obtain y ys where "take n hs = y # ys" using False by (meson neq_Nil_conv)
      ultimately show ?thesis using n(4) unfolding hash_or_def take_Suc_Cons by simp
    qed
    moreover have "plays_at ?db h = count_plays blk" using row by (simp add: plays_at_def)
    ultimately show ?thesis
      using n by (intro exI [of _ "Suc n"]) (auto simp: r1 h add.assoc add.commute add.left_commute)
  qed
qed

section \<open>A rebuild\<close>

lemma heights_from_1: "heights 1 b = map (\<lambda>i. 0 + 1 + of_nat i) [0..<length (heights 1 b)]"
proof (rule nth_equalityI)
  fix i assume "i < length (heights 1 b)"
  then show "heights 1 b ! i = map (\<lambda>i. 0 + 1 + of_nat i) [0..<length (heights 1 b)] ! i"
    by (simp add: heights_def del: upt_Suc)
qed simp

lemma take_heights: "n \<le> unat b \<Longrightarrow> take n (heights 1 b) = heights 1 (word_of_nat n)"
proof -
  assume n: "n \<le> unat b"
  then have "n < 2 ^ 32" using unat_less_u32 [of b] by simp
  then have "unat (word_of_nat n :: u32) = n" by (simp add: unat_of_nat)
  with n show ?thesis by (simp add: heights_def take_map del: upt_Suc)
qed

lemma row_block_at:
  assumes "block_at db = block_at db'" and "hash_at db = hash_at db'"
  shows "row_block db = row_block db'"
  using assms by (simp add: row_block_def fun_eq_iff)

lemma kept_at: "row_block db = row_block db' \<Longrightarrow> kept c cps db prev hs = kept c cps db' prev hs"
  by (induction hs arbitrary: prev) (auto split: option.split)

lemma rebuild_at:
  assumes ok: "kv_ok (ch_store ch)" and run: "rebuild_derived_state c ch = (b, ch')"
  shows "block_at (ch_store ch') = block_at (ch_store ch) \<and> hash_at (ch_store ch') = hash_at (ch_store ch)"
proof -
  let ?start = "replay_start (ch_stage ch)" and ?hs = "heights 1 (tip_height (ch_tip ch))"
  obtain v r where r: "replay_blocks c (ch_checkpoints ch) ?hs ?start = (v, r)" by fastforce
  have start: "replay_ok c ?start" by (rule replay_ok_start) (use ok in \<open>simp add: ch_store_def\<close>)
  have at: "block_at (db_store (rp_stage ?start)) = block_at (ch_store ch)"
    "hash_at (db_store (rp_stage ?start)) = hash_at (ch_store ch)"
    using ok by (simp_all add: replay_start_def Let_def db_put_now_def at_cleared kv_ok_put ch_store_def)
  have rok: "kv_ok (db_store (rp_stage r))"
    using replay_ok_blocks [OF start, of "ch_checkpoints ch" ?hs] r
    by (simp add: replay_ok_def acc_ok_def store_ok_def)
  show ?thesis
    using at_replay_blocks [OF start, of "ch_checkpoints ch" ?hs] r run rok
    by (auto simp: at rebuild_derived_state_def Let_def ch_store_def db_put_now_def db_del_now_def kv_ok_put
        split: if_splits)
qed

text \<open>What a block meets depends on the tip only through its hash and height.\<close>

lemma connect_block_tip_cong:
  assumes "ch_store ch = ch_store ch'" and "ch_acc ch = ch_acc ch'" and "ch_checkpoints ch = ch_checkpoints ch'"
    and "tip_hash (ch_tip ch) = tip_hash (ch_tip ch')" "tip_height (ch_tip ch) = tip_height (ch_tip ch')"
  shows "fst (connect_block c an blk ch) = fst (connect_block c an blk ch')"
proof -
  have "is_duplicate_song c (ch_stage ch) blk = is_duplicate_song c (ch_stage ch') blk"
    by (rule is_duplicate_cong) (use assms(1) in \<open>simp add: ch_store_def\<close>)
  then have "admissible c an blk ch = admissible c an blk ch'" "run_candidate c blk ch = run_candidate c blk ch'"
    using assms by (simp_all add: admissible_def validate_block_def next_height_def run_candidate_def)
  then show ?thesis by (simp add: connect_block_iff compute_candidate_eq)
qed

text \<open>What a rebuild that finishes has kept, and why it kept no more.\<close>

definition other_rows_agree :: "kv \<Rightarrow> kv \<Rightarrow> bool" where
  "other_rows_agree db db' \<longleftrightarrow> (\<forall>k. k \<notin> {tip_key, sr_vec_key, sr_dirty_key} \<longrightarrow> kv_get db k = kv_get db' k)"

lemma rebuild_keeps:
  assumes ok: "kv_ok (ch_store ch)" and run: "rebuild_derived_state c ch = (True, ch')"
  shows "tip_height (ch_tip ch') \<le> tip_height (ch_tip ch)"
    and "kept c (ch_checkpoints ch) (ch_store ch) 0 (heights 1 (tip_height (ch_tip ch')))"
    and "tip_weight (ch_tip ch') =
      foldl (\<lambda>w h. w + plays_at (ch_store ch) h) 0 (heights 1 (tip_height (ch_tip ch')))"
    and "tip_height (ch_tip ch') < tip_height (ch_tip ch) \<Longrightarrow>
      tip_hash (ch_tip ch') = hash_or 0 (ch_store ch) (heights 1 (tip_height (ch_tip ch'))) \<and>
      (\<exists>bh blk db. row_block (ch_store ch) (tip_height (ch_tip ch') + 1) = Some (bh, blk) \<and>
         other_rows_agree db (ch_store ch') \<and>
         (Block_hash c blk = bh \<longrightarrow> (\<forall>an. \<not> fst (connect_block c an blk
            (ch'\<lparr>ch_stage := (ch_stage ch')\<lparr>db_store := db\<rparr>, ch_checkpoints := ch_checkpoints ch\<rparr>)))))"
    and "rows_upto (ch_store ch') (tip_height (ch_tip ch'))"
proof -
  let ?start = "replay_start (ch_stage ch)" and ?T = "tip_height (ch_tip ch)"
  let ?hs = "heights 1 ?T" and ?cps = "ch_checkpoints ch"
  obtain v r where r: "replay_blocks c ?cps ?hs ?start = (v, r)" by fastforce
  have v: "v \<noteq> Missing_block" using run r by (auto simp: rebuild_derived_state_def)
  have start: "replay_ok c ?start" by (rule replay_ok_start) (use ok in \<open>simp add: ch_store_def\<close>)
  have "block_at (db_store (rp_stage ?start)) = block_at (ch_store ch)"
    "hash_at (db_store (rp_stage ?start)) = hash_at (ch_store ch)"
    using ok by (simp_all add: replay_start_def Let_def db_put_now_def at_cleared kv_ok_put ch_store_def)
  then have rb: "row_block (db_store (rp_stage ?start)) = row_block (ch_store ch)" by (rule row_block_at)
  have start0: "rp_last ?start = 0" "rp_prev ?start = 0" "rp_weight ?start = 0"
    by (simp_all add: replay_start_def Let_def)
  have len: "length ?hs = unat ?T" by (simp add: length_heights)
  obtain n where n: "n \<le> unat ?T" "rp_last r = of_nat n" "kept c ?cps (ch_store ch) 0 (take n ?hs)"
      "rp_prev r = hash_or 0 (ch_store ch) (take n ?hs)"
      "rp_weight r = foldl (\<lambda>w h. w + plays_at (ch_store ch) h) 0 (take n ?hs)"
      "n < unat ?T \<longrightarrow> (\<exists>bh blk. row_block (ch_store ch) (?hs ! n) = Some (bh, blk) \<and>
         (Block_hash c blk = bh \<longrightarrow> (\<forall>an. \<not> fst (connect_block c an blk (replay_chain ?cps r)))))"
    using replay_keeps [OF start r v] heights_from_1 [of ?T]
    unfolding start0 len kept_at [OF rb] plays_at_def hash_or_def rb by (metis (no_types, lifting) add_0)
  have N: "unat (word_of_nat n :: u32) = n" using n(1) unat_less_u32 [of ?T] by (simp add: unat_of_nat)
  have ch': "ch' = snd (rebuild_derived_state c ch)" using run by simp
  have tip: "tip_height (ch_tip ch') = word_of_nat n" "tip_weight (ch_tip ch') = rp_weight r"
    "tip_height (ch_tip ch') < ?T \<Longrightarrow> tip_hash (ch_tip ch') = rp_prev r" "ch_acc ch' = rp_acc r"
    using n(1,2) r v N
    by (auto simp: ch' rebuild_derived_state_def Let_def word_less_nat_alt word_unat_eq_iff)
  have store: "other_rows_agree (db_store (rp_stage r)) (ch_store ch')"
    using replay_ok_blocks [OF start, of ?cps ?hs] r v
    by (auto simp: other_rows_agree_def ch' rebuild_derived_state_def Let_def ch_store_def db_put_now_def
        db_del_now_def replay_ok_def acc_ok_def store_ok_def kv_get_put kv_get_del kv_ok_put)
  note hs = take_heights [OF n(1)]
  show "tip_height (ch_tip ch') \<le> ?T" using n(1) by (simp add: tip N word_le_nat_alt)
  show "kept c ?cps (ch_store ch) 0 (heights 1 (tip_height (ch_tip ch')))" using n(3) by (simp add: tip hs)
  show "tip_weight (ch_tip ch') =
      foldl (\<lambda>w h. w + plays_at (ch_store ch) h) 0 (heights 1 (tip_height (ch_tip ch')))"
    using n(5) by (simp add: tip hs)
  show "tip_height (ch_tip ch') < ?T \<Longrightarrow>
      tip_hash (ch_tip ch') = hash_or 0 (ch_store ch) (heights 1 (tip_height (ch_tip ch'))) \<and>
      (\<exists>bh blk db. row_block (ch_store ch) (tip_height (ch_tip ch') + 1) = Some (bh, blk) \<and>
         other_rows_agree db (ch_store ch') \<and>
         (Block_hash c blk = bh \<longrightarrow> (\<forall>an. \<not> fst (connect_block c an blk
            (ch'\<lparr>ch_stage := (ch_stage ch')\<lparr>db_store := db\<rparr>, ch_checkpoints := ch_checkpoints ch\<rparr>)))))"
  proof -
    assume short: "tip_height (ch_tip ch') < ?T"
    then have lt: "n < unat ?T" using N by (simp add: tip word_less_nat_alt)
    then have "?hs ! n = tip_height (ch_tip ch') + 1" using N by (simp add: heights_def tip del: upt_Suc)
    with n(6) lt obtain bh blk where row: "row_block (ch_store ch) (tip_height (ch_tip ch') + 1) = Some (bh, blk)"
      and no: "Block_hash c blk = bh \<longrightarrow> (\<forall>an. \<not> fst (connect_block c an blk (replay_chain ?cps r)))" by auto
    let ?mid = "ch'\<lparr>ch_stage := (ch_stage ch')\<lparr>db_store := db_store (rp_stage r)\<rparr>, ch_checkpoints := ?cps\<rparr>"
    have "fst (connect_block c an blk ?mid) = fst (connect_block c an blk (replay_chain ?cps r))" for an
      using connect_block_tip_cong [of ?mid "replay_chain ?cps r" c an blk] tip(3) [OF short] n(2)
      by (simp add: replay_chain_def ch_store_def tip)
    with no row store n(4) tip(3) [OF short] show ?thesis by (auto simp: hs tip)
  qed
  show "rows_upto (ch_store ch') (tip_height (ch_tip ch'))"
  proof -
    have at': "block_at (ch_store ch') = block_at (ch_store ch) \<and> hash_at (ch_store ch') = hash_at (ch_store ch)"
      by (rule rebuild_at [OF ok run])
    have "\<exists>bh b. hash_at (ch_store ch) g = Some bh \<and> block_at (ch_store ch) bh = Some b"
      if "1 \<le> g" "g \<le> word_of_nat n" for g
    proof -
      have "g \<in> set (take n ?hs)" using that by (simp add: hs set_heights)
      then have "row_block (ch_store ch) g \<noteq> None" using kept_rows [OF n(3)] by blast
      then show ?thesis by (auto simp: row_block_def bind_eq_Some_conv)
    qed
    then show ?thesis by (simp add: rows_upto_def at' tip)
  qed
qed

section \<open>The invariant after every operation\<close>

lemma rebuild_inv:
  assumes ok: "kv_ok (ch_store ch)"
  shows "chain_inv c (snd (rebuild_derived_state c ch))"
proof (cases "fst (rebuild_derived_state c ch)")
  case True
  then have run: "rebuild_derived_state c ch = (True, snd (rebuild_derived_state c ch))" by (metis prod.collapse)
  from rebuild_keeps(5) [OF ok run] rebuild_establishes [OF ok True] show ?thesis
    by (intro healthy_inv) (simp add: healthy_def)
next
  case False
  let ?start = "replay_start (ch_stage ch)" and ?hs = "heights 1 (tip_height (ch_tip ch))"
  have start: "replay_ok c ?start" by (rule replay_ok_start) (use ok in \<open>simp add: ch_store_def\<close>)
  have "marked (db_store (rp_stage ?start))"
    by (rule replay_start_mark) (use ok in \<open>simp add: ch_store_def\<close>)
  moreover have "ch_store (snd (rebuild_derived_state c ch)) =
      db_store (rp_stage (snd (replay_blocks c (ch_checkpoints ch) ?hs ?start)))"
    using False by (auto simp: rebuild_derived_state_def Let_def ch_store_def split: prod.splits if_splits)
  ultimately show ?thesis
    using replay_blocks_mark [OF start] replay_ok_blocks [OF start]
    by (simp add: chain_inv_def replay_ok_def acc_ok_def store_ok_def)
qed

lemma reorg_inv:
  assumes "chain_inv c ch"
  shows "chain_inv c (snd (reorg_to_branch c fork_hash fh branch ch))"
proof -
  have ok: "kv_ok (db_store (ch_stage ch))" using assms by (simp add: chain_inv_def ch_store_def)
  let ?fw = "get_weight (ch_stage ch) fork_hash"
  let ?cand = "branch_tip c fh ?fw branch"
  let ?s = "adopted_stage c branch fh ?fw ?cand (ch_tip ch) (ch_stage ch)"
  have "kv_ok (db_store ?s)"
    using mark_now [OF ok, of "[1]"] keeps_markD(1) [OF keeps_write_branch] keeps_markD(1) [OF keeps_clear]
    by (simp add: adopted_stage_def Let_def)
  then have replayed: "chain_inv c (replayed_branch c fork_hash fh branch ch)"
    unfolding replayed_branch_def Let_def by (intro rebuild_inv) (simp add: ch_store_def)
  show ?thesis
  proof (cases rule: reorg_cases [of c fork_hash fh branch ch])
    case (Refused e)
    with assms show ?thesis by simp
  next
    case Adopted
    with replayed show ?thesis by simp
  next
    case (Restored olds)
    let ?ch = "replayed_branch c fork_hash fh branch ch" and ?nh = "fh + word_of_nat (length branch)"
    have ok': "kv_ok (db_store (ch_stage ?ch))" using replayed by (simp add: chain_inv_def ch_store_def)
    let ?d = "db_put_now sr_dirty_key [1] (ch_stage ?ch)"
    let ?n = "clear_n_above c (fh + 1) (max ?nh (tip_height (ch_tip ch))) (drop_branch_rows c branch ?d)"
    let ?old = "load_blocks ?d olds"
    let ?w = "write_branch c ?old fh ?fw (tip_hash (ch_tip ch)) (tip_height (ch_tip ch)) ?n"
    note d = mark_now [OF ok', of "[1]"]
    note r = keeps_markD [OF keeps_drop_rows, of ?d c branch]
    have n: "kv_ok (db_store ?n)" "marked (db_store ?n)"
      using d r keeps_markD [OF keeps_clear] by simp_all
    have w: "kv_ok (db_store ?w)" using n(1) by (rule keeps_markD(1) [OF keeps_write_branch])
    have "restore_chain c fh ?fw branch olds (ch_tip ch) ?nh ?ch =
        (if length ?old = length olds
         then snd (rebuild_derived_state c (?ch\<lparr>ch_stage := ?w, ch_tip := ch_tip ch\<rparr>))
         else ?ch\<lparr>ch_stage := ?n\<rparr>)"
      by (simp add: restore_chain_def Let_def)
    moreover have "chain_inv c (snd (rebuild_derived_state c (?ch\<lparr>ch_stage := ?w, ch_tip := ch_tip ch\<rparr>)))"
      by (rule rebuild_inv) (use w in \<open>simp add: ch_store_def\<close>)
    moreover have "chain_inv c (?ch\<lparr>ch_stage := ?n\<rparr>)" using n by (simp add: chain_inv_def ch_store_def)
    ultimately show ?thesis using Restored(4) by simp
  qed
qed

lemma connect_mark:
  assumes kv: "kv_ok (ch_store ch)"
  shows "kv_ok (ch_store (snd (connect_block c an blk ch))) \<and>
    marked (ch_store (snd (connect_block c an blk ch))) = marked (ch_store ch)"
proof (cases "fst (connect_block c an blk ch)")
  case False
  then show ?thesis using connect_block_refused [of c an blk ch] kv by (simp add: same_chain_def)
next
  case True
  obtain ok t where r: "run_block c blk ch = (ok, t)" by fastforce
  from True r have ch': "snd (connect_block c an blk ch) = connected c blk t ch"
    by (auto simp: connect_block_cases split: if_splits)
  have "kv_get (ch_store (connected c blk t ch)) sr_dirty_key = kv_get (ch_store ch) sr_dirty_key"
    unfolding connected_rows [OF kv r chain_rows(8)]
    unfolding kv_write_eq using kv by (subst kvs.get_commit_other)
      (simp_all add: block_rows_def not_dirty_keys [THEN not_sym])
  moreover have "kv_ok (ch_store (connected c blk t ch))"
    using kv sealed_laws(1) [OF run_block_laws(2) [OF r], of c blk] by simp
  ultimately show ?thesis by (simp add: ch' marked_def)
qed

lemma connect_inv: "chain_inv c ch \<Longrightarrow> chain_inv c (snd (connect_block c an blk ch))"
  using connect_mark [of ch c an blk] healthy_connect [of c ch an blk] by (auto simp: chain_inv_def)

section \<open>A fork from a block that was abandoned\<close>

text \<open>The fork block is looked up by its height row, which a reorganisation never removes. A branch
  on top of an abandoned block above the tip is reported as adopted, although the heights between
  the old tip and the fork have no block and the replay did not finish.\<close>

lemma abandoned_fork_is_adopted_unfinished:
  assumes "chain_inv c ch" and "reorg_to_branch c fork_hash fh branch ch = (None, ch')"
    and "tip_height (ch_tip ch) < fh" and "get_block_hash (ch_stage ch) (tip_height (ch_tip ch) + 1) = None"
    and "unat fh + length branch < 2 ^ 32" and "tip_height (ch_tip ch) < tip_height (ch_tip ch')"
  shows "get_block_hash (ch_stage ch') (tip_height (ch_tip ch) + 1) = None" and "marked (ch_store ch')"
proof -
  let ?T = "tip_height (ch_tip ch)" and ?fw = "get_weight (ch_stage ch) fork_hash"
  let ?cand = "branch_tip c fh ?fw branch"
  let ?s = "adopted_stage c branch fh ?fw ?cand (ch_tip ch) (ch_stage ch)"
  let ?ch = "ch\<lparr>ch_stage := ?s, ch_tip := ?cand\<rparr>"
  from assms(2) have acc: "acceptable c fork_hash fh branch ch" and ch': "ch' = replayed_branch c fork_hash fh branch ch"
    by (cases rule: reorg_cases [of c fork_hash fh branch ch]; simp)+
  have ok: "kv_ok (db_store (ch_stage ch))" using assms(1) by (simp add: chain_inv_def ch_store_def)
  have cand: "unat (tip_height ?cand) = unat fh + length branch"
    using tip_height_branch [OF assms(5)] by (simp add: branch_tip_def)
  note at = adopted_stage_at [OF ok acceptable_blocks_ok [OF acc] assms(5) cand refl]
  have t1: "unat (?T + 1) = Suc (unat ?T)"
    using assms(3) unat_less_u32 [of fh] by (simp add: word_less_nat_alt unat_plus_if_size word_size)
  then have le: "?T + 1 \<le> fh" "?T + 1 \<le> tip_height ?cand"
    using assms(3) cand by (simp_all add: word_le_nat_alt word_less_nat_alt)
  have "hash_at (db_store ?s) (?T + 1) = None"
    using at(3) [OF le(2)] le(1) assms(4) by (simp add: not_less get_block_hash_at)
  moreover obtain b where "rebuild_derived_state c ?ch = (b, ch')"
    by (metis ch' replayed_branch_def prod.collapse)
  then have "hash_at (ch_store ch') = hash_at (ch_store ?ch)"
    using rebuild_at [of ?ch c b ch'] at(1) by (simp add: ch_store_def)
  ultimately have none: "hash_at (ch_store ch') (?T + 1) = None" by (simp add: ch_store_def)
  then show "get_block_hash (ch_stage ch') (?T + 1) = None" by (simp add: get_block_hash_at ch_store_def)
  show "marked (ch_store ch')"
  proof (rule ccontr)
    assume "\<not> marked (ch_store ch')"
    moreover have "chain_inv c ch'" using reorg_inv [OF assms(1)] assms(2) by (metis snd_conv)
    ultimately have "rows_upto (ch_store ch') (tip_height (ch_tip ch'))" by (simp add: chain_inv_def healthy_def)
    moreover have "1 \<le> ?T + 1" "?T + 1 \<le> tip_height (ch_tip ch')"
      using t1 assms(6) by (simp_all add: word_le_nat_alt word_less_nat_alt)
    ultimately show False using none by (fastforce simp: rows_upto_def)
  qed
qed

end
