(* ===== verification/Chain_Properties.thy ===== *)
theory Chain_Properties
  imports Rebuild_Laws Samples
begin

text \<open>
  Properties of the chain as a whole: what holds of every chain that the operations reach
  from an empty database, what an accepted and a refused block leave, the agreement of block
  producer and validator, fork choice, reorganisation and replay.
\<close>

section \<open>Reachable chains\<close>

definition empty_stage :: stage where
  "empty_stage =
     \<lparr>db_store = [], db_batch = [], db_acc = None, lg_bal = Map.empty, lg_supply = None,
      st_votes = \<lambda>_. {}, st_nonce = Map.empty, st_plays = {}, st_sessions = {},
      st_checkpoints = Map.empty\<rparr>"

definition with_store :: "kv \<Rightarrow> chain \<Rightarrow> chain" where
  "with_store db ch = ch\<lparr>ch_stage := (ch_stage ch)\<lparr>db_store := db\<rparr>\<rparr>"

text \<open>The tables a node writes beside the chain: mempools and settlement bodies.\<close>

definition node_tables :: "string list" where
  "node_tables = [''p:'', ''pt:'', ''sp:'', ''sb:'']"

definition node_key :: "string \<Rightarrow> bool" where
  "node_key k \<longleftrightarrow> key_class k \<in> Some ` set node_tables"

text \<open>
  From an empty database, by connecting any block (accepted or not), computing a candidate
  root, looking for an unappliable transaction, writing and dropping rows of the node's own
  tables, and reorganising to any branch from any fork block.
\<close>

inductive reachable :: "crypto \<Rightarrow> (u32 \<times> string) list \<Rightarrow> chain \<Rightarrow> bool" for c rows where
  opened: "reachable c rows (Chain_open c rows empty_stage)"
| connect: "reachable c rows ch \<Longrightarrow> reachable c rows (snd (connect_block c an blk ch))"
| candidate: "reachable c rows ch \<Longrightarrow> reachable c rows (snd (compute_candidate_state_root c blk ch))"
| probe: "reachable c rows ch \<Longrightarrow> reachable c rows (snd (first_unappliable_tx c txs ch))"
| put_row: "reachable c rows ch \<Longrightarrow> node_key k \<Longrightarrow>
    reachable c rows (with_store (kv_put (ch_store ch) k v) ch)"
| drop_row: "reachable c rows ch \<Longrightarrow> node_key k \<Longrightarrow>
    reachable c rows (with_store (kv_del (ch_store ch) k) ch)"
| reorg: "reachable c rows ch \<Longrightarrow> reachable c rows (snd (reorg_to_branch c fork_hash fh branch ch))"

lemma store_ok_Nil: "store_ok []"
  by (simp add: store_ok_def kv_u64_def)

lemma node_key_other:
  assumes "node_key k"
  shows "\<not> has_state_prefix k" and "\<not> bn_key k"
proof -
  obtain p where p: "key_class k = Some p" "p \<in> set node_tables" using assms by (auto simp: node_key_def)
  then have "k \<noteq> supply_key" by (auto simp: node_tables_def supply_key_def key_class_def)
  with p show "\<not> has_state_prefix k"
    by (auto simp: has_state_prefix_class node_tables_def kStatePrefixes_def)
  show "\<not> bn_key k"
    using p by (auto simp: bn_key_def starts_with_iff node_tables_def key_class_def)
qed

lemma healthy_with_store:
  assumes "healthy c ch" and "node_key k"
  shows "healthy c (with_store (kv_put (ch_store ch) k v) ch)"
    and "healthy c (with_store (kv_del (ch_store ch) k) ch)"
proof -
  have "kv_ok (ch_store ch)" using assms(1) by (simp add: healthy_def chain_ok_def store_ok_def)
  with assms(1) node_key_other [OF assms(2)]
  show "healthy c (with_store (kv_put (ch_store ch) k v) ch)"
    "healthy c (with_store (kv_del (ch_store ch) k) ch)"
    by (simp_all add: healthy_def chain_ok_acc ch_store_def with_store_def acc_ok_other rows_upto_def)
qed

lemma healthy_open: "healthy c (Chain_open c rows empty_stage)"
proof -
  have "acc_ok c (scan_state_accumulator c []) []" by (simp add: acc_ok_def store_ok_Nil)
  from acc_ok_other(1) [OF this, of sr_vec_key "serialize_vec (scan_state_accumulator c [])"]
  show ?thesis
    by (simp add: healthy_def chain_ok_acc Chain_open_def empty_stage_def db_get_def Let_def
        ch_store_def db_put_now_def ChainTip_empty_def)
qed

lemma inv_with_store:
  assumes "chain_inv c ch" and "node_key k"
  shows "chain_inv c (with_store (kv_put (ch_store ch) k v) ch)"
    and "chain_inv c (with_store (kv_del (ch_store ch) k) ch)"
proof -
  have kv: "kv_ok (ch_store ch)" using assms(1) by (simp add: chain_inv_def)
  have k: "k \<noteq> sr_dirty_key"
    using assms(2) by (auto simp: node_key_def node_tables_def sr_dirty_key_def key_class_def)
  have store: "ch_store (with_store db ch) = db" for db by (simp add: with_store_def ch_store_def)
  show "chain_inv c (with_store (kv_put (ch_store ch) k v) ch)"
    "chain_inv c (with_store (kv_del (ch_store ch) k) ch)"
    using assms healthy_with_store [OF _ assms(2)] kv k
    by (simp_all add: chain_inv_def store kv_ok_put kv_ok_del)
qed

lemma reachable_inv: "reachable c rows ch \<Longrightarrow> chain_inv c ch"
proof (induction rule: reachable.induct)
  case opened
  show ?case by (rule healthy_inv [OF healthy_open])
qed (auto intro: connect_inv reorg_inv inv_cong compute_candidate_keeps first_unappliable_keeps inv_with_store)

text \<open>C1. On every chain that any sequence of blocks, candidates, probes, node rows and
  reorganisations (to any branch, from any fork block) reaches, unless it carries the program's
  own mark \<open>sr:dirty\<close> of a replay that did not finish: the balances sum to the total supply, the
  supply is within the cap, the accumulator the node holds is the one a full scan of its store
  computes, and every height up to the tip leads to a stored block. And only a reorganisation
  can set the mark, one that forks above the tip or repeats a block at or below the fork.\<close>

theorem reachable_chain_invariant:
  assumes "reachable c rows ch" and "kv_get (ch_store ch) sr_dirty_key = None"
  shows "(\<Sum>a\<in>UNIV. unat (get_balance (ch_stage ch) a)) = unat (get_total_supply (ch_stage ch)) \<and>
    get_total_supply (ch_stage ch) \<le> SUPPLY_CAP \<and>
    ch_acc ch = scan_state_accumulator c (ch_store ch) \<and>
    (\<forall>h. 1 \<le> h \<and> h \<le> tip_height (ch_tip ch) \<longrightarrow>
       (\<exists>bh blk. get_block_hash (ch_stage ch) h = Some bh \<and> get_block (ch_stage ch) bh = Some blk)) \<and>
    kv_get (ch_store (snd (connect_block c an blk ch))) sr_dirty_key = None \<and>
    (fh \<le> tip_height (ch_tip ch) \<and> unat fh + length branch < 2 ^ 32 \<and>
       (\<forall>h b. 1 \<le> h \<and> h \<le> fh \<and> b \<in> set branch \<longrightarrow> get_block_hash (ch_stage ch) h \<noteq> Some (Block_hash c b)) \<longrightarrow>
     kv_get (ch_store (snd (reorg_to_branch c fork_hash fh branch ch))) sr_dirty_key = None)"
proof -
  have inv: "healthy c ch" using reachable_inv [OF assms(1)] assms(2) by (simp add: chain_inv_def marked_def)
  have kv: "kv_ok (ch_store ch)" using inv by (simp add: healthy_def chain_ok_def store_ok_def)
  have "kv_get (ch_store (snd (connect_block c an blk ch))) sr_dirty_key = None"
    using connect_mark [OF kv, of c an blk] assms(2) by (simp add: marked_def)
  moreover have "kv_get (ch_store (snd (reorg_to_branch c fork_hash fh branch ch))) sr_dirty_key = None"
    if "fh \<le> tip_height (ch_tip ch)" "unat fh + length branch < 2 ^ 32"
      "\<forall>h b. 1 \<le> h \<and> h \<le> fh \<and> b \<in> set branch \<longrightarrow> get_block_hash (ch_stage ch) h \<noteq> Some (Block_hash c b)"
    using reorg_healthy [OF inv that(1,2)] that(3) assms(2) by (auto simp: marked_def)
  ultimately show ?thesis
    using inv
    by (simp add: healthy_def chain_ok_def store_ok_def rows_upto_def get_balance_store
        get_total_supply_store get_block_hash_at get_block_at ch_store_def word_le_nat_alt supply_cap_unat)
qed

definition genesis :: chain where
  "genesis = Chain_open toy_crypto [] empty_stage"

section \<open>Accepted and refused blocks\<close>

text \<open>C4. A refused block leaves no trace: the store, the accumulator, the tip and the
  checkpoints are as before, and every later block is judged and applied as if the refused
  one had never been tried, whatever staging the failed attempt left behind.\<close>

theorem refused_block_leaves_no_trace:
  assumes "\<not> fst (connect_block c an blk ch)" and "ch' = snd (connect_block c an blk ch)"
  shows "ch_store ch' = ch_store ch \<and> ch_acc ch' = ch_acc ch \<and> ch_tip ch' = ch_tip ch \<and>
    ch_checkpoints ch' = ch_checkpoints ch \<and>
    fst (connect_block c an2 blk2 ch') = fst (connect_block c an2 blk2 ch) \<and>
    (fst (connect_block c an2 blk2 ch) \<longrightarrow>
       snd (connect_block c an2 blk2 ch') = snd (connect_block c an2 blk2 ch))"
  using connect_block_refused [OF assms(1)] connect_block_cong [of ch ch' c an2 blk2]
  by (simp add: assms(2) same_chain_def)

lemma genesis_parts:
  "tip_hash (ch_tip genesis) = 0" "tip_height (ch_tip genesis) = 0" "healthy toy_crypto genesis"
  using healthy_open by (simp_all add: genesis_def Chain_open_def empty_stage_def db_get_def Let_def
      ChainTip_empty_def)

definition orphan_block :: Block where
  "orphan_block = (sample_block [])\<lparr>blk_header := (blk_header (sample_block []))\<lparr>hd_prev_hash := mk_arr [1]\<rparr>\<rparr>"

theorem refused_block_leaves_no_trace_witness:
  "ch_store (snd (connect_block toy_crypto True orphan_block genesis)) = ch_store genesis"
proof -
  have "(mk_arr [1] :: hash256) \<noteq> 0" by (auto simp: arr_eq_iff arr_bytes_zero arr_bytes_mk_arr_take dest: arg_cong [where f = hd])
  then have "\<not> fst (connect_block toy_crypto True orphan_block genesis)"
    by (simp add: connect_block_iff admissible_def validate_block_def genesis_parts orphan_block_def)
  from refused_block_leaves_no_trace [OF this refl] show ?thesis by simp
qed

text \<open>C3. What the producer is told is what the validator requires: a block is accepted exactly
  when it validates on the tip, agrees with the checkpoint at its height, its transactions
  apply on a throwaway copy of the state, and its header carries the root that
  \<open>compute_candidate_state_root\<close> answers for it. Version 4 is the only version that validates,
  so the last condition always applies.\<close>

theorem producer_and_validator_agree:
  "fst (connect_block c an blk ch) \<longleftrightarrow>
     validate_block c an ch blk = None \<and>
     checkpoint_ok (ch_checkpoints ch) (tip_height (ch_tip ch) + 1) (Block_hash c blk) \<and>
     fst (apply_transactions c blk (tip_height (ch_tip ch) + 1)
       (write_song_rows c blk (tip_height (ch_tip ch) + 1)
         (with_acc (Some (copy_from (ch_acc ch))) (new_batch (ch_stage ch))))) \<and>
     hd_state_root (blk_header blk) = fst (compute_candidate_state_root c blk ch)"
proof -
  have "validate_block c an ch blk = None \<Longrightarrow> 4 \<le> hd_version (blk_header blk)"
    by (auto simp: validate_block_def Block_validate_iff BLOCK_VERSION_def split: if_splits)
  then show ?thesis
    by (auto simp: connect_block_iff admissible_def candidate_staged run_candidate_def next_height_def
        ch_store_def)
qed

text \<open>C2. An accepted block is committed to by its own header: on a chain whose accumulator
  matches its store, the state root in the header of an accepted block is the root of a full
  scan of the store the block leaves.\<close>

theorem state_root_commits_to_store:
  assumes "ch_acc ch = scan_state_accumulator c (ch_store ch)" and "kv_ok (ch_store ch)"
    and "(\<Sum>a\<in>UNIV. unat (get_balance (ch_stage ch) a)) = unat (get_total_supply (ch_stage ch))"
    and "get_total_supply (ch_stage ch) \<le> SUPPLY_CAP"
    and "connect_block c an blk ch = (True, ch')"
  shows "hd_state_root (blk_header blk) = state_root c (scan_state_accumulator c (ch_store ch'))"
proof -
  have ok: "chain_ok c ch"
    using assms(1-4) by (simp add: chain_ok_def store_ok_def get_balance_store get_total_supply_store
        ch_store_def word_le_nat_alt supply_cap_unat)
  obtain b t where r: "run_block c blk ch = (b, t)" by fastforce
  with assms(5) have "root_gate c blk (acc_vec_of t)" and ch': "ch' = connected c blk t ch"
    and "admissible c an blk ch" by (auto simp: connect_block_cases split: if_splits)
  moreover have "4 \<le> hd_version (blk_header blk)"
    using \<open>admissible c an blk ch\<close>
    by (auto simp: admissible_def validate_block_def Block_validate_iff BLOCK_VERSION_def split: if_splits)
  moreover have "acc_vec_of t = scan_state_accumulator c (ch_store ch')"
    using chain_ok_connected [OF ok r] by (simp add: ch' chain_ok_def connected_def)
  ultimately show ?thesis by (simp add: root_gate_def)
qed

definition first_block :: Block where
  "first_block = (sample_block [])\<lparr>blk_header := (blk_header (sample_block []))\<lparr>hd_state_root :=
     fst (compute_candidate_state_root toy_crypto (sample_block []) genesis)\<rparr>\<rparr>"

lemma first_block_connects: "fst (connect_block toy_crypto True first_block genesis)"
proof -
  have same: "run_candidate toy_crypto first_block genesis = run_candidate toy_crypto (sample_block []) genesis"
    by (simp add: run_candidate_def first_block_def sample_block_def write_song_rows_def)
  have "Block_validate toy_crypto first_block"
    using sample_block_valid [of "[]"]
    by (simp add: Block_validate_iff first_block_def)
      (simp add: sample_block_def Block_serialize_def BlockHeader_serialize_def length_simps
        Block_compute_song_body_hash_def)
  then have "admissible toy_crypto True first_block genesis"
    by (simp add: admissible_def validate_block_def genesis_parts)
      (simp add: first_block_def sample_block_def is_duplicate_song_def checkpoint_ok_def genesis_def
        Chain_open_def empty_stage_def db_get_def Let_def restore_checkpoints_def kv_scan_def
        add_config_checkpoints_def hardcoded_checkpoints_def List.map_filter_def)
  moreover have "fst (run_candidate toy_crypto first_block genesis)"
    by (simp add: run_candidate_def first_block_def sample_block_def)
  moreover have "hd_state_root (blk_header first_block) = fst (compute_candidate_state_root toy_crypto first_block genesis)"
    using same by (simp add: compute_candidate_eq) (simp add: first_block_def compute_candidate_eq)
  ultimately show ?thesis by (simp add: connect_block_iff)
qed

text \<open>The chain of this block: the invariant holds there, and its one block is stored.\<close>

definition first_chain :: chain where
  "first_chain = snd (connect_block toy_crypto True first_block genesis)"

lemma first_chain_connected: "connect_block toy_crypto True first_block genesis = (True, first_chain)"
  using first_block_connects by (simp add: first_chain_def) (metis prod.collapse)

lemma genesis_unmarked: "\<not> marked (ch_store genesis)"
  by (simp add: marked_def genesis_def Chain_open_def empty_stage_def db_get_def Let_def ch_store_def
      db_put_now_def kv_get_def sr_vec_key_def sr_dirty_key_def)

lemma first_chain_tip:
  "tip_height (ch_tip first_chain) = 1" "tip_hash (ch_tip first_chain) = Block_hash toy_crypto first_block"
proof -
  obtain t where "connected toy_crypto first_block t genesis = first_chain"
    using first_chain_connected by (auto simp: connect_block_cases split: if_splits prod.splits)
  note t = this [symmetric]
  show "tip_height (ch_tip first_chain) = 1" "tip_hash (ch_tip first_chain) = Block_hash toy_crypto first_block"
    by (simp_all add: t connected_def next_height_def genesis_parts)
qed

theorem reachable_chain_invariant_witness:
  "(\<Sum>a\<in>UNIV. unat (get_balance (ch_stage first_chain) a)) = unat (get_total_supply (ch_stage first_chain)) \<and>
   ch_acc first_chain = scan_state_accumulator toy_crypto (ch_store first_chain) \<and>
   tip_height (ch_tip first_chain) = 1 \<and> get_block_hash (ch_stage first_chain) 1 \<noteq> None \<and>
   kv_get (ch_store (snd (connect_block toy_crypto True first_block first_chain))) sr_dirty_key = None"
proof -
  have "reachable toy_crypto [] genesis" unfolding genesis_def by (rule reachable.opened)
  then have r: "reachable toy_crypto [] first_chain" unfolding first_chain_def by (rule reachable.connect)
  have "kv_ok (ch_store genesis)" using genesis_parts(3) by (simp add: healthy_def chain_ok_def store_ok_def)
  then have "kv_get (ch_store first_chain) sr_dirty_key = None"
    using connect_mark [of genesis toy_crypto True first_block] genesis_unmarked
    by (simp add: first_chain_def marked_def)
  note inv = reachable_chain_invariant [OF r this, of True first_block]
  then have "\<forall>h. 1 \<le> h \<and> h \<le> (1 :: u32) \<longrightarrow> (\<exists>bh blk. get_block_hash (ch_stage first_chain) h = Some bh \<and>
      get_block (ch_stage first_chain) bh = Some blk)"
    unfolding first_chain_tip(1) by blast
  from spec [OF this, of 1] have "get_block_hash (ch_stage first_chain) 1 \<noteq> None" by auto
  with inv first_chain_tip(1) show ?thesis by blast
qed

theorem state_root_commits_to_store_witness:
  "hd_state_root (blk_header first_block) = state_root toy_crypto
     (scan_state_accumulator toy_crypto (ch_store (snd (connect_block toy_crypto True first_block genesis))))"
proof (rule state_root_commits_to_store)
  show "connect_block toy_crypto True first_block genesis =
      (True, snd (connect_block toy_crypto True first_block genesis))"
    using first_block_connects by (metis prod.collapse)
qed (use genesis_parts(3) in \<open>simp_all add: healthy_def chain_ok_def store_ok_def get_balance_store
    get_total_supply_store ch_store_def word_le_nat_alt supply_cap_unat\<close>)

text \<open>C5. An accepted block can be read back, and the node can be stopped: from the store the block
  leaves, a newly opened chain has the accumulator of the running one and loads the same tip
  (hash, height, timestamp and weight); the block is found by hash and by height.\<close>

theorem restart_after_connect:
  assumes "kv_ok (ch_store ch)" and "connect_block c an blk ch = (True, ch')"
  shows "get_block (ch_stage ch') (Block_hash c blk) = Some blk \<and>
    get_block_hash (ch_stage ch') (tip_height (ch_tip ch) + 1) = Some (Block_hash c blk) \<and>
    get_block_height (ch_stage ch') (Block_hash c blk) = Some (tip_height (ch_tip ch) + 1) \<and>
    get_block_full_hash (ch_stage ch') (tip_height (ch_tip ch) + 1) =
      Some (Block_full_hash c (Block_serialize blk)) \<and>
    ch_acc (Chain_open c rows (ch_stage ch')) = ch_acc ch' \<and>
    load_tip (ch_stage (Chain_open c rows (ch_stage ch'))) = Some (ch_tip ch') \<and>
    ch_tip ch' = \<lparr>tip_hash = Block_hash c blk, tip_height = tip_height (ch_tip ch) + 1,
      tip_timestamp_ms = hd_timestamp_ms (blk_header blk),
      tip_weight = tip_weight (ch_tip ch) + count_plays blk\<rparr>"
proof -
  obtain b t where r: "run_block c blk ch = (b, t)" by fastforce
  with assms(2) have b: "b" and ch': "ch' = connected c blk t ch" and a: "admissible c an blk ch"
    by (auto simp: connect_block_cases split: if_splits)
  have "Block_validate c blk" using a by (auto simp: admissible_def validate_block_def split: if_splits)
  note reads = connected_reads [OF assms(1) r [unfolded eqTrueI [OF b]] this ch']
  have "length (serialize_vec v) = 2048" for v by (simp add: serialize_vec_def length_concat_pairs)
  then have "Chain_open c rows (ch_stage ch') = \<lparr>ch_stage = ch_stage ch', ch_acc = ch_acc ch',
      ch_tip = ChainTip_empty, ch_checkpoints = restore_checkpoints (db_store (ch_stage ch'))
        (add_config_checkpoints (hardcoded_checkpoints rows) Map.empty)\<rparr>"
    by (simp add: Chain_open_def Let_def reads(7) deserialize_serialize_vec)
  with reads show ?thesis
    by (simp add: next_height_def) (simp add: ch' connected_def next_height_def next_weight_def)
qed

theorem restart_after_connect_witness:
  "load_tip (ch_stage (Chain_open toy_crypto []
     (ch_stage (snd (connect_block toy_crypto True first_block genesis))))) =
   Some (ch_tip (snd (connect_block toy_crypto True first_block genesis)))"
proof -
  have "connect_block toy_crypto True first_block genesis =
      (True, snd (connect_block toy_crypto True first_block genesis))"
    using first_block_connects by (metis prod.collapse)
  moreover have "kv_ok (ch_store genesis)"
    using genesis_parts(3) by (simp add: healthy_def chain_ok_def store_ok_def)
  ultimately show ?thesis using restart_after_connect by blast
qed

section \<open>Fork choice, reorganisation and replay\<close>

text \<open>C8. Fork choice is a strict total order on tips with distinct hashes: two nodes that see the
  same tips agree on the best one, whatever order they see them in.\<close>

theorem fork_choice_total_order:
  "\<not> tip_is_better a a \<and>
   (tip_is_better a b \<and> tip_is_better b d \<longrightarrow> tip_is_better a d) \<and>
   \<not> (tip_is_better a b \<and> tip_is_better b a) \<and>
   (tip_hash a \<noteq> tip_hash b \<longrightarrow> tip_is_better a b \<or> tip_is_better b a)"
proof (intro conjI impI)
  show "tip_is_better a d" if "tip_is_better a b \<and> tip_is_better b d"
    using that by (auto simp: tip_is_better_def split: if_splits)
qed (auto simp: tip_is_better_def)

theorem fork_choice_total_order_witness:
  "tip_is_better \<lparr>tip_hash = 0, tip_height = 1, tip_timestamp_ms = 0, tip_weight = 5\<rparr> ChainTip_empty"
proof -
  let ?a = "\<lparr>tip_hash = 0, tip_height = 1, tip_timestamp_ms = 0, tip_weight = 5\<rparr>"
  let ?b = "\<lparr>tip_hash = 0, tip_height = 1, tip_timestamp_ms = 0, tip_weight = 1\<rparr>"
  have "tip_is_better ?a ?b" "tip_is_better ?b ChainTip_empty"
    by (simp_all add: tip_is_better_def ChainTip_empty_def)
  with fork_choice_total_order [of ?a ?b ChainTip_empty] show ?thesis by blast
qed

text \<open>C7. What a reorganisation can end in. It is refused and nothing has changed; or it succeeds,
  and then the branch is a non-empty chain of valid blocks from the fork block, meets the
  checkpoints, does not fork below the finality depth, beats the tip under fork choice, and the
  tip is now its last block; or the branch failed to replay and the error says so.\<close>

theorem reorg_outcomes:
  "(case reorg_to_branch c fork_hash fork_height branch ch of
      (Some e, ch') \<Rightarrow> e = Failed_revalidation \<or> ch' = ch
    | (None, ch') \<Rightarrow>
        branch \<noteq> [] \<and> get_block_height (ch_stage ch) fork_hash = Some fork_height \<and>
        check_links c fork_hash branch = None \<and>
        branch_checkpoints_ok c (ch_checkpoints ch) (fork_height + 1) branch \<and>
        \<not> (FINALITY_DEPTH < tip_height (ch_tip ch) \<and>
           fork_height < tip_height (ch_tip ch) - FINALITY_DEPTH) \<and>
        tip_is_better (branch_tip c fork_height (get_weight (ch_stage ch) fork_hash) branch) (ch_tip ch) \<and>
        tip_hash (ch_tip ch') = Block_hash c (last branch))"
  by (cases rule: reorg_cases [of c fork_hash fork_height branch ch]) (auto simp: acceptable_def)

text \<open>Finality: once the tip is more than \<open>FINALITY_DEPTH\<close> blocks high, no branch that forks
  deeper than that below the tip is adopted, whatever its weight; the chain is unchanged.\<close>

theorem deep_fork_refused:
  assumes "FINALITY_DEPTH < tip_height (ch_tip ch)"
    and "fork_height < tip_height (ch_tip ch) - FINALITY_DEPTH"
  shows "\<exists>e. reorg_to_branch c fork_hash fork_height branch ch = (Some e, ch)"
  using assms by (cases rule: reorg_cases [of c fork_hash fork_height branch ch]) (auto simp: acceptable_def)

theorem deep_fork_refused_witness:
  "\<exists>e. reorg_to_branch toy_crypto 0 3 [first_block]
     (genesis\<lparr>ch_tip := \<lparr>tip_hash = 0, tip_height = 1004, tip_timestamp_ms = 0, tip_weight = 0\<rparr>\<rparr>) =
     (Some e, genesis\<lparr>ch_tip := \<lparr>tip_hash = 0, tip_height = 1004, tip_timestamp_ms = 0, tip_weight = 0\<rparr>\<rparr>)"
  by (rule deep_fork_refused) (simp_all add: FINALITY_DEPTH_def)

text \<open>C6. Replay heals, and keeps what it can: whatever the derived rows of the store were, if every
  height up to the tip leads to a stored block then the rebuild runs to the end and reports
  success, the balances then sum to the supply within the cap, the accumulator is that of a scan
  of the store, and the mark of an unfinished replay is gone. The blocks up to the new tip are a
  chain of valid blocks from the first on that meets the checkpoints, and the weight is that of
  their plays. The tip is rolled back only to the block before one that \<open>connect_block\<close> refuses in
  the replayed state (on a chain whose store is the rebuilt one except for the rows of the tip,
  of the accumulator and of the mark).\<close>

theorem rebuild_restores_invariant:
  assumes "kv_ok (ch_store ch)"
    and "\<forall>h. 1 \<le> h \<and> h \<le> tip_height (ch_tip ch) \<longrightarrow>
      (\<exists>bh blk. get_block_hash (ch_stage ch) h = Some bh \<and> get_block (ch_stage ch) bh = Some blk)"
    and "rebuild_derived_state c ch = (b, ch')"
  shows "b \<and> (\<Sum>a\<in>UNIV. unat (get_balance (ch_stage ch') a)) = unat (get_total_supply (ch_stage ch')) \<and>
    get_total_supply (ch_stage ch') \<le> SUPPLY_CAP \<and>
    ch_acc ch' = scan_state_accumulator c (ch_store ch') \<and>
    kv_get (ch_store ch') sr_dirty_key = None \<and>
    tip_height (ch_tip ch') \<le> tip_height (ch_tip ch) \<and>
    kept c (ch_checkpoints ch) (ch_store ch) 0 (heights 1 (tip_height (ch_tip ch'))) \<and>
    tip_weight (ch_tip ch') =
      foldl (\<lambda>w h. w + plays_at (ch_store ch) h) 0 (heights 1 (tip_height (ch_tip ch'))) \<and>
    (tip_height (ch_tip ch') = tip_height (ch_tip ch) \<or>
     tip_hash (ch_tip ch') = hash_or 0 (ch_store ch) (heights 1 (tip_height (ch_tip ch'))) \<and>
     (\<exists>bh blk db. row_block (ch_store ch) (tip_height (ch_tip ch') + 1) = Some (bh, blk) \<and>
        other_rows_agree db (ch_store ch') \<and>
        (Block_hash c blk = bh \<longrightarrow> (\<forall>an. \<not> fst (connect_block c an blk
           (ch'\<lparr>ch_stage := (ch_stage ch')\<lparr>db_store := db\<rparr>, ch_checkpoints := ch_checkpoints ch\<rparr>))))))"
proof -
  have rows: "rows_upto (ch_store ch) (tip_height (ch_tip ch))"
    using assms(2) by (simp add: rows_upto_def get_block_hash_at get_block_at ch_store_def)
  note laws = rebuild_completes [OF assms(1) rows assms(3)]
  then have run: "rebuild_derived_state c ch = (True, ch')" using assms(3) by simp
  have "kv_get (ch_store ch') sr_dirty_key = None"
    using rebuild_healthy(2) [OF assms(1) rows, of c] run by (simp add: marked_def)
  with laws rebuild_keeps(1-3) [OF assms(1) run] have held: "b \<and>
    (\<Sum>a\<in>UNIV. unat (get_balance (ch_stage ch') a)) = unat (get_total_supply (ch_stage ch')) \<and>
    get_total_supply (ch_stage ch') \<le> SUPPLY_CAP \<and>
    ch_acc ch' = scan_state_accumulator c (ch_store ch') \<and>
    kv_get (ch_store ch') sr_dirty_key = None \<and>
    tip_height (ch_tip ch') \<le> tip_height (ch_tip ch) \<and>
    kept c (ch_checkpoints ch) (ch_store ch) 0 (heights 1 (tip_height (ch_tip ch'))) \<and>
    tip_weight (ch_tip ch') =
      foldl (\<lambda>w h. w + plays_at (ch_store ch) h) 0 (heights 1 (tip_height (ch_tip ch')))"
    by (simp add: chain_ok_def store_ok_def get_balance_store get_total_supply_store ch_store_def
        word_le_nat_alt supply_cap_unat)
  show ?thesis
  proof (cases "tip_height (ch_tip ch') = tip_height (ch_tip ch)")
    case False
    with held have "tip_height (ch_tip ch') < tip_height (ch_tip ch)" by (auto simp: order.strict_iff_order)
    with held rebuild_keeps(4,5) [OF assms(1) run] show ?thesis by simp
  qed (use held in simp)
qed

text \<open>A block without a song or transactions sets no pin.\<close>

lemma plain_block_pins:
  assumes "connect_block c an blk ch = (True, ch')" and "blk_transactions blk = []" and "blk_song blk = None"
    and "ch_checkpoints ch = Map.empty"
  shows "ch_checkpoints ch' = Map.empty"
proof -
  obtain t where t: "run_block c blk ch = (True, t)" "connected c blk t ch = ch'"
    using assms(1) by (auto simp: connect_block_cases split: if_splits prod.splits)
  have "st_checkpoints t = Map.empty"
    using t(1) assms(2,3) by (auto simp: run_block_def staged_def write_song_rows_def drop_pending_song_def
        write_block_rows_eq fresh_stage_def)
  moreover have "st_checkpoints (sealed c blk t) = st_checkpoints t"
    by (simp add: sealed_def assms(2,3) drain_mempool_def put_batch_def with_acc_def)
  ultimately show ?thesis using assms(4) by (simp add: connected_def flip: t(2))
qed

text \<open>The chain of one block: the replay keeps it.\<close>

lemma first_chain_replayed:
  "tip_height (ch_tip (snd (rebuild_derived_state toy_crypto first_chain))) = 1"
proof -
  have kv: "kv_ok (ch_store genesis)" using genesis_parts(3) by (simp add: healthy_def chain_ok_def store_ok_def)
  obtain t where t: "run_block toy_crypto first_block genesis = (True, t)"
    "first_chain = connected toy_crypto first_block t genesis"
    "admissible toy_crypto True first_block genesis" "root_gate toy_crypto first_block (acc_vec_of t)"
    using first_chain_connected by (auto simp: connect_block_cases split: if_splits prod.splits)
  have valid: "Block_validate toy_crypto first_block"
    using t(3) by (auto simp: admissible_def validate_block_def split: if_splits)
  note at = at_connected [OF kv t(1) Block_validate_ok [OF valid], folded t(2)]
  have no: "blk_transactions first_block = []" "blk_song first_block = None"
    by (simp_all add: first_block_def sample_block_def)
  have "ch_checkpoints genesis = Map.empty"
    by (simp add: genesis_def Chain_open_def empty_stage_def db_get_def Let_def
        restore_checkpoints_def kv_scan_def add_config_checkpoints_def hardcoded_checkpoints_def List.map_filter_def)
  note cps = plain_block_pins [OF first_chain_connected no this]
  let ?r = "replay_start (ch_stage first_chain)"
  have kv1: "kv_ok (db_store (ch_stage first_chain))"
    using healthy_connect [OF genesis_parts(3), of True first_block]
    by (simp add: first_chain_def healthy_def chain_ok_def store_ok_def ch_store_def)
  have rows: "get_block_hash (rp_stage ?r) 1 = Some (Block_hash toy_crypto first_block)"
    "get_block (rp_stage ?r) (Block_hash toy_crypto first_block) = Some first_block"
    using kv1 at by (simp_all add: get_block_hash_at get_block_at replay_start_def Let_def db_put_now_def
        at_cleared kv_ok_put ch_store_def next_height_def genesis_parts)
  have scan0: "scan_state_accumulator toy_crypto [] = 0"
    by (simp add: scan_eq_state_sum state_sum_def)
  have "acc_vec_of t = 0"
    using t(1) no scan0 by (auto simp: run_block_def staged_def write_song_rows_def drop_pending_song_def
        write_block_rows_eq fresh_stage_def acc_vec_of_def copy_from_def genesis_def Chain_open_def
        empty_stage_def db_get_def Let_def)
  then have root: "root_gate toy_crypto first_block 0" using t(4) by simp
  have acc0: "rp_acc ?r = 0" by (simp add: replay_start_def Let_def)
  have "hd_prev_hash (blk_header first_block) = 0" by (simp add: first_block_def sample_block_def)
  with valid no have "\<not> replay_rejects toy_crypto Map.empty 1 (Block_hash toy_crypto first_block) first_block ?r"
    by (simp add: replay_rejects_def checkpoint_ok_def is_duplicate_song_def replay_start_def Let_def)
  with rows root no have "fst (replay_one toy_crypto Map.empty 1 ?r) = Replayed \<and>
      rp_last (snd (replay_one toy_crypto Map.empty 1 ?r)) = 1"
    by (simp add: replay_one_def Let_def write_song_rows_def acc_vec_of_def apply_transactions_def acc0
        reset_new fresh_stage_def) (simp add: copy_from_def)?
  moreover have "heights 1 1 = [1]" by (simp add: heights_def)
  ultimately show ?thesis
    by (cases "replay_one toy_crypto Map.empty 1 ?r")
      (simp add: rebuild_derived_state_def first_chain_tip cps Let_def)
qed

theorem rebuild_restores_invariant_witness:
  "fst (rebuild_derived_state toy_crypto first_chain) \<and>
   tip_height (ch_tip (snd (rebuild_derived_state toy_crypto first_chain))) = 1 \<and>
   kept toy_crypto (ch_checkpoints first_chain) (ch_store first_chain) 0 [1] \<and>
   ch_acc (snd (rebuild_derived_state toy_crypto first_chain)) =
     scan_state_accumulator toy_crypto (ch_store (snd (rebuild_derived_state toy_crypto first_chain)))"
proof -
  have h: "healthy toy_crypto first_chain"
    using healthy_connect [OF genesis_parts(3), of True first_block] by (simp add: first_chain_def)
  then have kv: "kv_ok (ch_store first_chain)" and rows: "\<forall>h. 1 \<le> h \<and> h \<le> tip_height (ch_tip first_chain) \<longrightarrow>
      (\<exists>bh blk. get_block_hash (ch_stage first_chain) h = Some bh \<and> get_block (ch_stage first_chain) bh = Some blk)"
    by (simp_all add: healthy_def chain_ok_def store_ok_def rows_upto_def get_block_hash_at get_block_at ch_store_def)
  obtain b ch' where run: "rebuild_derived_state toy_crypto first_chain = (b, ch')" by fastforce
  have "heights 1 1 = [1]" by (simp add: heights_def)
  moreover have "tip_height (ch_tip ch') = 1" using first_chain_replayed run by simp
  ultimately show ?thesis
    using rebuild_restores_invariant [OF kv rows run] run by auto
qed

text \<open>A rebuild that rolls the tip back keeps the timestamp of the tip it discarded, while
  loading the tip from the store takes it from the block: the two disagree whenever the blocks'
  timestamps do, and fork choice compares timestamps.\<close>

theorem rebuild_keeps_discarded_timestamp:
  "tip_timestamp_ms (ch_tip (snd (rebuild_derived_state c ch))) = tip_timestamp_ms (ch_tip ch)"
  by (simp add: rebuild_derived_state_def Let_def split: prod.split)

text \<open>Pins are never forgotten while the node runs: a rebuild, and so a reorganisation to a
  branch without the checkpoint transaction, leaves every height that was pinned pinned.\<close>

theorem rebuild_keeps_pins:
  "dom (ch_checkpoints ch) \<subseteq> dom (ch_checkpoints (snd (rebuild_derived_state c ch)))"
proof -
  let ?f = "\<lambda>m (k, v). if length v \<noteq> 32 then m
    else case stoull (drop 3 k) of None \<Rightarrow> m
      | Some h \<Rightarrow> m((ucast h :: u32) \<mapsto> (mk_arr v :: hash256))"
  have step: "dom m \<subseteq> dom (?f m x)" for m :: "u32 \<Rightarrow> hash256 option" and x
    by (cases x) (auto split: option.split)
  have "dom m \<subseteq> dom (foldl ?f m xs)" for m and xs :: kv
  proof (induction xs arbitrary: m)
    case (Cons x xs)
    from step [of m x] Cons.IH [of "?f m x"] show ?case by (simp only: foldl_Cons)
  qed simp
  then have "dom m \<subseteq> dom (restore_checkpoints db m)" for db m
    by (simp only: restore_checkpoints_def)
  then show ?thesis by (auto simp: rebuild_derived_state_def Let_def split: prod.split)
qed

end
