(* ===== verification/Footprint.thy ===== *)
theory Footprint
  imports Handler_Laws2
begin

text \<open>
  Which rows a transaction writes. A key belongs to the table named by the text up to its
  first colon; \<open>rows_of p\<close> is what the batch collects for table \<open>p\<close>. The writers of the
  database append to one or two tables each, and a handler writes only the tables of its
  footprint, whether it accepts or refuses.
\<close>

section \<open>The rows a batch collects for a table\<close>

definition rows_of :: "string \<Rightarrow> 'a dbst_scheme \<Rightarrow> write_op list" where
  "rows_of p s = filter (\<lambda>x. key_class (kvs.op_key x) = Some p) (db_batch s)"

lemma key_class_names [simp]:
  "key_class (balance_key a) = Some ''a:''" "key_class supply_key = Some ''c:''"
  "key_class (session_key h) = Some ''u:''" "key_class (play_credit_key h a) = Some ''pp:''"
  "key_class (rating_key h a) = Some ''rv:''" "key_class (epoch_key h e) = Some ''us:''"
  "key_class (checkpoint_key n) = Some ''cp:''" "key_class (slashed_key a) = Some ''slashed:''"
  "key_class (vote_prefix h @ r) = Some ''propvote:''"
  by (simp_all add: key_class_def supply_key_def balance_key_def session_key_def
      play_credit_key_def rating_key_def epoch_key_def checkpoint_key_def slashed_key_def
      vote_prefix_def)

lemma rows_put [simp]:
  "rows_of p (put_batch c k v s) = rows_of p s @ (if key_class k = Some p then [Put k v] else [])"
  "rows_of p (del_batch c k s) = rows_of p s @ (if key_class k = Some p then [Del k] else [])"
  "rows_of p (raw_del k s) = rows_of p s @ (if key_class k = Some p then [Del k] else [])"
  by (simp_all add: rows_of_def put_batch_def del_batch_def raw_del_def)

lemma rows_updates [simp]:
  "rows_of p (u\<lparr>st_votes := v\<rparr>) = rows_of p u" "rows_of p (u\<lparr>st_nonce := n\<rparr>) = rows_of p u"
  "rows_of p (u\<lparr>st_plays := q\<rparr>) = rows_of p u" "rows_of p (u\<lparr>st_sessions := w\<rparr>) = rows_of p u"
  "rows_of p (u\<lparr>st_checkpoints := k\<rparr>) = rows_of p u" "rows_of p (t\<lparr>lg_bal := x\<rparr>) = rows_of p t"
  "rows_of p (t\<lparr>lg_supply := y\<rparr>) = rows_of p t"
  by (simp_all add: rows_of_def)

lemma rows_writers [simp]:
  "rows_of p (set_nonce c ad n s) =
     rows_of p s @ (if p = ''nv:'' then [Put (''nv:'' @ hex_addr ad) (le_bytes 8 n)] else [])"
  "rows_of p (set_founder c ad s) =
     rows_of p s @ (if p = ''founder:'' then [Put ''founder:'' (arr_bytes ad)] else [])"
  "rows_of p (set_username c nm ad s) =
     rows_of p s @ (if p = ''un:'' then [Put (''un:'' @ lower nm) (arr_bytes ad)] else []) @
       (if p = ''addrun:'' then [Put (''addrun:'' @ hex_addr ad) (str_bytes (lower nm))] else [])"
  "rows_of p (set_mod_level c ad lv s) =
     rows_of p s @ (if p = ''mlvl:'' then [if lv = 0 then Del (''mlvl:'' @ hex_addr ad)
         else Put (''mlvl:'' @ hex_addr ad) [lv]] else []) @
       (if p = ''m:'' then [if lv = 0 then Del (''m:'' @ hex_addr ad)
         else Put (''m:'' @ hex_addr ad) []] else [])"
  "p \<noteq> ''mpub:'' \<Longrightarrow> rows_of p (set_mod_pubkey c ad pk s) = rows_of p s"
  "p \<noteq> ''mact:'' \<Longrightarrow> rows_of p (set_mod_active_block c ad h s) = rows_of p s"
  "p \<noteq> ''a:'' \<Longrightarrow> rows_of p (set_balance c ad n s) = rows_of p s"
  "p \<noteq> ''c:'' \<Longrightarrow> rows_of p (set_total_supply c n s) = rows_of p s"
  "p \<noteq> ''s:'' \<Longrightarrow> rows_of p (set_song_state c ch st s) = rows_of p s"
  "p \<noteq> ''pp:'' \<Longrightarrow> rows_of p (mark_play_credit c ch ad s) = rows_of p s"
  "p \<noteq> ''d:'' \<Longrightarrow> rows_of p (mark_song_deleted c ch s) = rows_of p s"
  "p \<noteq> ''label:'' \<Longrightarrow> rows_of p (set_label c nm df s) = rows_of p s"
  "p \<noteq> ''art_label:'' \<Longrightarrow> rows_of p (assign_artist_label c ad nm s) = rows_of p s"
  "p \<noteq> ''prop:'' \<Longrightarrow> rows_of p (put_proposal c ch raw s) = rows_of p s"
  "p \<noteq> ''propstatus:'' \<Longrightarrow> rows_of p (set_proposal_status c ch lv s) = rows_of p s"
  "p \<noteq> ''propvote:'' \<Longrightarrow> rows_of p (add_proposal_vote c ch ad s) = rows_of p s"
  "p \<noteq> ''rv:'' \<Longrightarrow> p \<noteq> ''ra:'' \<Longrightarrow> rows_of p (set_rating c ch ad lv s) = rows_of p s"
  "p \<noteq> ''rc:'' \<Longrightarrow> rows_of p (set_rating_counts c ch rc s) = rows_of p s"
  "p \<noteq> ''rt:'' \<Longrightarrow> rows_of p (set_rating_policy c po s) = rows_of p s"
  "p \<noteq> ''rh:'' \<Longrightarrow> rows_of p (set_rating_hide c ch hi s) = rows_of p s"
  by (auto simp: put_batch_u32_def put_batch_u64_def set_nonce_def set_balance_def
      set_total_supply_def set_song_state_def mark_play_credit_def mark_song_deleted_def
      set_founder_def set_mod_level_def set_mod_pubkey_def set_mod_active_block_def set_label_def
      assign_artist_label_def set_username_def put_proposal_def set_proposal_status_def
      add_proposal_vote_def set_rating_def set_rating_counts_def set_rating_policy_def
      set_rating_hide_def Let_def key_class_def balance_key_def supply_key_def play_credit_key_def
      vote_prefix_def rating_key_def)

lemma rows_foldl:
  "(\<And>s x. rows_of p (f s x) = rows_of p s) \<Longrightarrow> rows_of p (foldl f s xs) = rows_of p s"
  by (induction xs arbitrary: s) simp_all

lemma rows_writers2 [simp]:
  "p \<noteq> ''s:'' \<Longrightarrow> p \<noteq> ''pp:'' \<Longrightarrow> rows_of p (update_song_state c pr n s) = rows_of p s"
  "p \<noteq> ''a:'' \<Longrightarrow> rows_of p (wr_bal c a v t) = rows_of p t"
  "p \<noteq> ''c:'' \<Longrightarrow> rows_of p (wr_supply c v t) = rows_of p t"
  by (simp_all add: update_song_state_def wr_bal_def wr_supply_def Let_def)

lemma rows_ledger [simp]:
  "p \<noteq> ''a:'' \<Longrightarrow> p \<noteq> ''c:'' \<Longrightarrow> rows_of p (Ledger_credit c a v t) = rows_of p t"
  "p \<noteq> ''a:'' \<Longrightarrow> p \<noteq> ''c:'' \<Longrightarrow> rows_of p (Ledger_credit_many c outs t) = rows_of p t"
  "p \<noteq> ''a:'' \<Longrightarrow> rows_of p (snd (Ledger_debit c a v t)) = rows_of p t"
  "p \<noteq> ''a:'' \<Longrightarrow> rows_of p (snd (Ledger_transfer c a d v t)) = rows_of p t"
  "p \<noteq> ''c:'' \<Longrightarrow> rows_of p (Ledger_decrement_supply c v t) = rows_of p t"
  "rows_of p (advance_nonce c a n u) =
     rows_of p u @ (if p = ''nv:'' then [Put (''nv:'' @ hex_addr a) (le_bytes 8 n)] else [])"
  "p \<noteq> ''propvote:'' \<Longrightarrow> rows_of p (record_vote c h a u) = rows_of p u"
  by (auto simp: Ledger_credit_def Ledger_credit_many_def Ledger_debit_def Ledger_transfer_def
      Ledger_decrement_supply_def advance_nonce_def record_applied_nonce_def record_vote_def Let_def
      intro!: rows_foldl)

section \<open>The footprint of a handler\<close>

locale footprint =
  fixes handle :: "crypto \<Rightarrow> 'tx \<Rightarrow> u32 \<Rightarrow> stage \<Rightarrow> bool \<times> stage"
    and tables :: "string list"
  assumes handle_frame: "p \<notin> set tables \<Longrightarrow> rows_of p (snd (handle c tx h s)) = rows_of p s"
begin

lemma decoded_frame:
  "p \<notin> set tables \<Longrightarrow> rows_of p (snd (decoded d (\<lambda>tx. handle c tx h) raw s)) = rows_of p s"
  by (simp add: decoded_def handle_frame split: option.split)

end

text \<open>The tables each type of transaction may write.\<close>

fun type_tables :: "TxType \<Rightarrow> string list" where
  "type_tables TRANSFER = [''a:'', ''nv:'']"
| "type_tables MINT = [''a:'', ''c:'', ''u:'', ''s:'', ''pp:'']"
| "type_tables MODERATOR_OP =
     [''mlvl:'', ''m:'', ''mpub:'', ''mact:'', ''founder:'', ''label:'', ''art_label:'', ''nv:'']"
| "type_tables MODERATOR_PROPOSAL =
     [''prop:'', ''propvote:'', ''propstatus:'', ''d:'', ''a:'', ''mlvl:'', ''m:'', ''mpub:'', ''mact:'',
      ''rt:'', ''nv:'']"
| "type_tables USERNAME_REGISTER = [''un:'', ''addrun:'', ''nv:'']"
| "type_tables SLASH = [''slashed:'', ''nv:'']"
| "type_tables RELAY_REWARD = [''a:'', ''c:'', ''nv:'']"
| "type_tables NODE_AUTH = [''v:'', ''va:'', ''nv:'']"
| "type_tables CHECKPOINT = [''cp:'', ''nv:'']"
| "type_tables RATING = [''rc:'', ''rv:'', ''ra:'', ''rh:'', ''d:'', ''nv:'']"
| "type_tables SETTLEMENT_MINT = [''a:'', ''c:'', ''u:'', ''us:'', ''s:'', ''pp:'']"

interpretation transfer_rows: footprint "\<lambda>c tx (h :: u32). apply_transfer c tx" "type_tables TRANSFER"
proof unfold_locales
  fix p c and tx :: TransferTx and h :: u32 and s :: stage
  assume p: "p \<notin> set (type_tables TRANSFER)"
  let ?r = "Ledger_transfer c (tr_from_address tx) (tr_to_address tx) (tr_amount tx) s"
  have "rows_of p (snd ?r) = rows_of p s" using p by simp
  with p show "rows_of p (snd (apply_transfer c tx s)) = rows_of p s"
    by (cases ?r) (simp add: apply_transfer_def Let_def)
qed

interpretation mint_rows: footprint "\<lambda>c m h. apply_mint_tx c m h" "type_tables MINT"
  by unfold_locales (auto simp: apply_mint_tx_def apply_mint_def Let_def)

interpretation username_rows: footprint "\<lambda>c tx (h :: u32). apply_username_register c tx"
    "type_tables USERNAME_REGISTER"
  by unfold_locales (simp add: apply_username_register_def Let_def)

interpretation slash_rows: footprint "\<lambda>c tx (h :: u32). apply_slash c tx" "type_tables SLASH"
  by unfold_locales (auto simp: apply_slash_def Let_def)

interpretation relay_reward_rows: footprint "\<lambda>c tx (h :: u32). apply_relay_reward c tx"
    "type_tables RELAY_REWARD"
  by unfold_locales (simp add: apply_relay_reward_def Let_def)

interpretation node_auth_rows: footprint "\<lambda>c tx (h :: u32). apply_node_auth c tx" "type_tables NODE_AUTH"
  by unfold_locales (auto simp: apply_node_auth_def Let_def key_class_def)

interpretation checkpoint_rows: footprint "\<lambda>c tx (h :: u32). apply_checkpoint c tx"
    "type_tables CHECKPOINT"
  by unfold_locales (auto simp: apply_checkpoint_def Let_def)

interpretation rating_rows: footprint apply_rating "type_tables RATING"
  by unfold_locales (simp add: apply_rating_def Let_def)

interpretation moderator_rows: footprint apply_moderator_op "type_tables MODERATOR_OP"
proof unfold_locales
  fix p c tx h s
  assume p: "p \<notin> set (type_tables MODERATOR_OP)"
  have "rows_of p t = rows_of p s" if "tag_label_edit c j s = Some t" for t j
    using that p by (cases rule: label_edit_cases) simp_all
  with p show "rows_of p (snd (apply_moderator_op c tx h s)) = rows_of p s"
    by (simp add: apply_moderator_op_def Let_def split: option.split)
qed

lemma settle_one_tables:
  "p \<notin> set (type_tables SETTLEMENT_MINT) \<Longrightarrow>
   rows_of p (snd (settle_one c h node base pr ws)) = rows_of p (snd ws)"
  by (auto simp: settle_one_def Let_def split: option.split)

lemma settle_fold_tables:
  "p \<notin> set (type_tables SETTLEMENT_MINT) \<Longrightarrow>
   rows_of p (snd (fold (settle_one c h node base) prs ws)) = rows_of p (snd ws)"
  by (induction prs arbitrary: ws) (simp_all add: settle_one_tables del: type_tables.simps)

interpretation settlement_rows: footprint apply_settlement_mint "type_tables SETTLEMENT_MINT"
proof unfold_locales
  fix p c tx h and s :: stage
  assume p: "p \<notin> set (type_tables SETTLEMENT_MINT)"
  show "rows_of p (snd (apply_settlement_mint c tx h s)) = rows_of p s"
  proof (cases rule: apply_settlement_mint_cases [of c tx h s])
    case (2 node prs)
    then show ?thesis
      using settle_fold_tables [OF p, of c h node "rd_supply s" prs "settle_start s"] p
      by (auto simp: settle_start_def Let_def split: prod.split)
  qed simp
qed

section \<open>Proposals\<close>

lemma Ledger_transfer_rows:
  "Ledger_transfer c a d v s = (ok, t) \<Longrightarrow> p \<noteq> ''a:'' \<Longrightarrow> rows_of p t = rows_of p s"
  using rows_ledger(4) [of p c a d v s] by simp

lemma release_shares_tables:
  "p \<noteq> ''a:'' \<Longrightarrow> rows_of p (snd (release_shares c e amount cr xs s)) = rows_of p s"
  by (induction c e amount cr xs s rule: release_shares.induct)
    (auto simp: Let_def dest: Ledger_transfer_rows split: prod.split)

lemma release_escrow_tables: "p \<noteq> ''a:'' \<Longrightarrow> rows_of p (snd (release_escrow c q s)) = rows_of p s"
  by (simp add: release_escrow_def Let_def release_shares_tables)

definition execution_tables :: "string list" where
  "execution_tables = [''propstatus:'', ''d:'', ''a:'', ''mlvl:'', ''m:'', ''mpub:'', ''mact:'', ''rt:'']"

lemma execute_proposal_tables:
  "p \<notin> set execution_tables \<Longrightarrow> rows_of p (snd (execute_proposal c q ph h s)) = rows_of p s"
  by (auto simp: execute_proposal_def execution_tables_def Let_def release_escrow_tables case_prod_beta)

lemma file_proposal_tables:
  assumes "p \<notin> set (type_tables MODERATOR_PROPOSAL)"
  shows "rows_of p (snd (file_proposal c tx h e approved s)) = rows_of p s"
proof -
  have "p \<noteq> ''nv:''" "p \<noteq> ''prop:''" "p \<noteq> ''propvote:''" "p \<notin> set execution_tables"
    using assms by (simp_all add: execution_tables_def)
  then show ?thesis
    using execute_proposal_tables [of p]
    by (simp add: file_proposal_def Let_def case_prod_beta)
qed

lemma cast_vote_tables:
  assumes "p \<notin> set (type_tables MODERATOR_PROPOSAL)"
  shows "rows_of p (snd (cast_vote c tx h e needed s)) = rows_of p s"
proof -
  have "p \<noteq> ''nv:''" "p \<noteq> ''propvote:''" "p \<notin> set execution_tables"
    using assms by (simp_all add: execution_tables_def)
  then show ?thesis
    using execute_proposal_tables [of p]
    by (auto simp add: cast_vote_def Let_def case_prod_beta 
        split: option.split)
qed

interpretation proposal_rows: footprint apply_proposal "type_tables MODERATOR_PROPOSAL"
  by unfold_locales
    (simp add: apply_proposal_def Let_def file_proposal_tables cast_vote_tables
      del: type_tables.simps)

lemma apply_typed_tables:
  "p \<notin> set (type_tables t) \<Longrightarrow> rows_of p (snd (apply_typed c h t raw s)) = rows_of p s"
  by (cases t)
    (simp_all del: type_tables.simps add: transfer_rows.decoded_frame mint_rows.decoded_frame
      moderator_rows.decoded_frame proposal_rows.decoded_frame username_rows.decoded_frame
      slash_rows.decoded_frame relay_reward_rows.decoded_frame node_auth_rows.decoded_frame
      checkpoint_rows.decoded_frame rating_rows.decoded_frame settlement_rows.decoded_frame)

end
