(* ===== verification/Replay_Laws.thy ===== *)
theory Replay_Laws
  imports Footprint
begin

text \<open>
  Replay protection. Nine of the eleven handlers carry a nonce: the locale \<open>nonced\<close> is their
  contract, an accepted transaction carries the sender's next nonce and moves it by one, in
  the staging and in the batch. The two reward handlers use play sessions instead. From both
  follows what a whole list of transactions does to nonces and sessions.
\<close>

section \<open>The staging that guards against replay\<close>

definition guards :: "stage \<Rightarrow> (address \<Rightarrow> u64 option) \<times> hash256 set" where
  "guards u = (st_nonce u, st_sessions u)"

lemma guards_put [simp]:
  "guards (put_batch c k v u) = guards u" "guards (del_batch c k u) = guards u"
  "guards (raw_del k u) = guards u"
  by (simp_all add: guards_def put_batch_def del_batch_def raw_del_def)

lemma guards_updates [simp]:
  "guards (u\<lparr>st_votes := v\<rparr>) = guards u" "guards (u\<lparr>st_plays := q\<rparr>) = guards u"
  "guards (u\<lparr>st_checkpoints := k\<rparr>) = guards u" "guards (u\<lparr>lg_bal := x\<rparr>) = guards u"
  "guards (u\<lparr>lg_supply := y\<rparr>) = guards u"
  "guards (u\<lparr>st_nonce := n\<rparr>) = (n, snd (guards u))"
  "guards (u\<lparr>st_sessions := w\<rparr>) = (fst (guards u), w)"
  by (simp_all add: guards_def)

lemma guards_writers [simp]:
  "guards (set_nonce c ad n u) = guards u" "guards (set_founder c ad u) = guards u"
  "guards (set_username c nm ad u) = guards u" "guards (set_mod_level c ad lv u) = guards u"
  "guards (set_mod_pubkey c ad pk u) = guards u" "guards (set_mod_active_block c ad h u) = guards u"
  "guards (set_balance c ad n u) = guards u" "guards (set_total_supply c n u) = guards u"
  "guards (set_song_state c ch st u) = guards u" "guards (mark_play_credit c ch ad u) = guards u"
  "guards (mark_song_deleted c ch u) = guards u" "guards (set_label c nm df u) = guards u"
  "guards (assign_artist_label c ad nm u) = guards u" "guards (put_proposal c ch raw u) = guards u"
  "guards (set_proposal_status c ch lv u) = guards u" "guards (add_proposal_vote c ch ad u) = guards u"
  "guards (set_rating c ch ad lv u) = guards u" "guards (set_rating_counts c ch rc u) = guards u"
  "guards (set_rating_policy c po u) = guards u" "guards (set_rating_hide c ch hi u) = guards u"
  by (simp_all add: put_batch_u32_def put_batch_u64_def set_nonce_def set_balance_def
      set_total_supply_def set_song_state_def mark_play_credit_def mark_song_deleted_def
      set_founder_def set_mod_level_def set_mod_pubkey_def set_mod_active_block_def set_label_def
      assign_artist_label_def set_username_def put_proposal_def set_proposal_status_def
      add_proposal_vote_def set_rating_def set_rating_counts_def set_rating_policy_def
      set_rating_hide_def Let_def)

lemma guards_foldl:
  "(\<And>u x. guards (f u x) = guards u) \<Longrightarrow> guards (foldl f u xs) = guards u"
  by (induction xs arbitrary: u) simp_all

lemma guards_wr [simp]:
  "guards (update_song_state c pr n u) = guards u" "guards (wr_bal c a v u) = guards u"
  "guards (wr_supply c x u) = guards u"
  by (simp_all add: update_song_state_def wr_bal_def wr_supply_def Let_def)

lemma guards_ledger [simp]:
  "guards (Ledger_credit c a v u) = guards u" "guards (Ledger_credit_many c outs u) = guards u"
  "guards (snd (Ledger_debit c a v u)) = guards u" "guards (snd (Ledger_transfer c a d v u)) = guards u"
  "guards (Ledger_decrement_supply c v u) = guards u" "guards (record_vote c h a u) = guards u"
  "guards (advance_nonce c a n u) = ((fst (guards u))(a \<mapsto> n), snd (guards u))"
proof -
  show "guards (advance_nonce c a n u) = ((fst (guards u))(a \<mapsto> n), snd (guards u))"
    by (simp add: advance_nonce_def record_applied_nonce_def) (simp add: guards_def set_nonce_def
        put_batch_u64_def put_batch_def)
qed (auto simp: Ledger_credit_def Ledger_credit_many_def Ledger_debit_def Ledger_transfer_def
      Ledger_decrement_supply_def record_vote_def Let_def intro!: guards_foldl)

lemma Ledger_transfer_guards: "Ledger_transfer c a d v s = (ok, t) \<Longrightarrow> guards t = guards s"
  using guards_ledger(4) [of c a d v s] by simp

section \<open>Handlers with a nonce\<close>

text \<open>What accepting a transaction does to nonces: \<open>Some (a, n)\<close> is a transaction of \<open>a\<close> with
  nonce \<open>n\<close>, \<open>None\<close> one without a nonce.\<close>

definition nonce_step :: "stage \<Rightarrow> (address \<times> u64) option \<Rightarrow> stage \<Rightarrow> bool" where
  "nonce_step s an t \<longleftrightarrow> db_store t = db_store s \<and>
     (case an of
        None \<Rightarrow> st_nonce t = st_nonce s \<and> rows_of ''nv:'' t = rows_of ''nv:'' s
      | Some (a, n) \<Rightarrow> n = next_expected_nonce s a \<and> st_nonce t = (st_nonce s)(a \<mapsto> n + 1) \<and>
          st_sessions t = st_sessions s \<and>
          rows_of ''nv:'' t = rows_of ''nv:'' s @ [Put (''nv:'' @ hex_addr a) (le_bytes 8 (n + 1))])"

locale nonced = tx_handler handle
  for handle :: "crypto \<Rightarrow> 'tx \<Rightarrow> u32 \<Rightarrow> stage \<Rightarrow> bool \<times> stage" +
  fixes sender :: "'tx \<Rightarrow> address" and nonce :: "'tx \<Rightarrow> u64"
  assumes accepted_nonce: "fst (handle c tx h s) \<Longrightarrow> nonce tx = next_expected_nonce s (sender tx)"
    and accepted_guards: "fst (handle c tx h s) \<Longrightarrow> guards (snd (handle c tx h s)) =
      ((fst (guards s))(sender tx \<mapsto> nonce tx + 1), snd (guards s))"
    and accepted_row: "fst (handle c tx h s) \<Longrightarrow> rows_of ''nv:'' (snd (handle c tx h s)) =
      rows_of ''nv:'' s @ [Put (''nv:'' @ hex_addr (sender tx)) (le_bytes 8 (nonce tx + 1))]"
begin

text \<open>Applied a second time, at once, the transaction is refused.\<close>

lemma no_replay:
  assumes "handle c tx h s = (True, t)"
  shows "\<not> fst (handle c tx h' t)"
proof
  assume "fst (handle c tx h' t)"
  from accepted_nonce [OF this] have "nonce tx = next_expected_nonce t (sender tx)" .
  moreover from assms accepted_guards [of c tx h s]
  have "st_nonce t (sender tx) = Some (nonce tx + 1)" by (simp add: guards_def)
  ultimately show False by (simp add: next_expected_nonce_def)
qed

lemma decoded_step:
  "fst (decoded d (\<lambda>tx. handle c tx h) raw s) \<Longrightarrow>
   nonce_step s (map_option (\<lambda>tx. (sender tx, nonce tx)) (d raw))
     (snd (decoded d (\<lambda>tx. handle c tx h) raw s))"
  using accepted_nonce accepted_guards accepted_row
  by (auto simp: decoded_def nonce_step_def handle_store guards_def split: option.splits)

end

interpretation transfer_nonced: nonced "\<lambda>c tx (h :: u32). apply_transfer c tx" tr_from_address tr_nonce
proof unfold_locales
  fix c and tx :: TransferTx and h :: u32 and s :: stage
  let ?r = "Ledger_transfer c (tr_from_address tx) (tr_to_address tx) (tr_amount tx) s"
  have r: "rows_of ''nv:'' (snd ?r) = rows_of ''nv:'' s" "guards (snd ?r) = guards s" by simp_all
  assume "fst (apply_transfer c tx s)"
  then show "tr_nonce tx = next_expected_nonce s (tr_from_address tx)"
    "guards (snd (apply_transfer c tx s)) =
       ((fst (guards s))(tr_from_address tx \<mapsto> tr_nonce tx + 1), snd (guards s))"
    "rows_of ''nv:'' (snd (apply_transfer c tx s)) = rows_of ''nv:'' s @
       [Put (''nv:'' @ hex_addr (tr_from_address tx)) (le_bytes 8 (tr_nonce tx + 1))]"
    using r by (cases ?r; simp add: apply_transfer_def Let_def split: if_splits)+
qed

interpretation relay_reward_nonced: nonced "\<lambda>c tx (h :: u32). apply_relay_reward c tx"
    rr_issuer_address rr_nonce
  by unfold_locales (simp_all add: apply_relay_reward_def Let_def split: if_splits)

interpretation node_auth_nonced: nonced "\<lambda>c tx (h :: u32). apply_node_auth c tx"
    na_issuer_address na_nonce
  by unfold_locales (simp_all add: apply_node_auth_def Let_def key_class_def split: if_splits)

interpretation checkpoint_nonced: nonced "\<lambda>c tx (h :: u32). apply_checkpoint c tx"
    cp_issuer_address cp_nonce
  by unfold_locales (simp_all add: apply_checkpoint_def Let_def split: if_splits)

interpretation username_nonced: nonced "\<lambda>c tx (h :: u32). apply_username_register c tx" un_owner un_nonce
  by unfold_locales (simp_all add: apply_username_register_def Let_def split: if_splits)

interpretation slash_nonced: nonced "\<lambda>c tx (h :: u32). apply_slash c tx" sl_reporter_address sl_nonce
  by unfold_locales (simp_all add: apply_slash_def Let_def split: if_splits)

interpretation rating_nonced: nonced apply_rating rt_rater rt_nonce
proof unfold_locales
  fix c tx h and s :: stage
  assume ok: "fst (apply_rating c tx h s)"
  then have played: "has_play_credit s (rt_content_hash tx) (rt_rater tx) \<or>
      (rt_content_hash tx, rt_rater tx) \<in> st_plays s"
    and rest: "RatingTx_verify_signature c tx" "rt_nonce tx = next_expected_nonce s (rt_rater tx)"
      "get_content_height s (rt_content_hash tx) \<noteq> None"
    by (auto simp: apply_rating_def Let_def split: if_splits)
  have "\<not> (\<not> has_play_credit s (rt_content_hash tx) (rt_rater tx) \<and>
      (rt_content_hash tx, rt_rater tx) \<notin> st_plays s)" using played by blast
  note go = apply_rating_def if_not_P [OF this] rest Let_def
  show "rt_nonce tx = next_expected_nonce s (rt_rater tx)" by (rule rest)
  show "guards (snd (apply_rating c tx h s)) =
      ((fst (guards s))(rt_rater tx \<mapsto> rt_nonce tx + 1), snd (guards s))"
    by (simp add: go)
  show "rows_of ''nv:'' (snd (apply_rating c tx h s)) = rows_of ''nv:'' s @
      [Put (''nv:'' @ hex_addr (rt_rater tx)) (le_bytes 8 (rt_nonce tx + 1))]"
    by (simp add: go)
qed

lemma tag_label_edit_keeps:
  assumes "tag_label_edit c j s = Some t"
  shows "guards t = guards s" and "rows_of ''nv:'' t = rows_of ''nv:'' s"
  using assms by (cases rule: label_edit_cases; simp)+

text \<open>What an accepted moderator operation was: a bootstrap, a revocation or a metadata edit.\<close>

definition bootstrapped :: "crypto \<Rightarrow> ModeratorOpTx \<Rightarrow> u32 \<Rightarrow> stage \<Rightarrow> stage" where
  "bootstrapped c tx h s = set_founder c (mop_subject tx) (set_mod_active_block c (mop_subject tx) h
     (set_mod_pubkey c (mop_subject tx) (mop_subject_pubkey tx)
       (set_mod_level c (mop_subject tx) ModLevel_FOUNDER s)))"

lemma moderator_accepted:
  assumes "fst (apply_moderator_op c tx h s)"
  obtains (grant) "founder_bootstrap s tx"
      "snd (apply_moderator_op c tx h s) =
         advance_nonce c (mop_proposer tx) (mop_nonce tx + 1) (bootstrapped c tx h s)"
  | (revoke) "get_mod_level s (mop_proposer tx) = ModLevel_FOUNDER"
      "get_founder s \<noteq> None" "get_founder s \<noteq> Some (mop_subject tx)"
      "get_mod_level s (mop_subject tx) \<noteq> 0"
      "snd (apply_moderator_op c tx h s) =
         advance_nonce c (mop_proposer tx) (mop_nonce tx + 1) (set_mod_level c (mop_subject tx) 0 s)"
  | (edit) t where "get_mod_level s (mop_proposer tx) = ModLevel_FOUNDER" "get_founder s \<noteq> None"
      "tag_label_edit c (mop_meta_json tx) s = Some t"
      "snd (apply_moderator_op c tx h s) = advance_nonce c (mop_proposer tx) (mop_nonce tx + 1) t"
proof -
  from assms consider "mop_op_code tx = ModOp_GRANT" "founder_bootstrap s tx"
    | "mop_op_code tx \<noteq> ModOp_GRANT" "mop_op_code tx = ModOp_REVOKE"
    | "mop_op_code tx \<noteq> ModOp_GRANT" "mop_op_code tx \<noteq> ModOp_REVOKE" "mop_op_code tx = ModOp_TAG_LABEL_EDIT"
    by (auto simp: apply_moderator_op_def Let_def split: if_splits)
  then show ?thesis
  proof cases
    case 1
    then show ?thesis using assms
      by (intro grant) (auto simp: apply_moderator_op_def bootstrapped_def Let_def split: if_splits)
  next
    case 2
    then show ?thesis using assms
      by (cases "get_founder s"; intro revoke)
        (auto simp: apply_moderator_op_def Let_def split: if_splits)
  next
    case 3
    then show ?thesis using assms
      by (cases "get_founder s"; cases "tag_label_edit c (mop_meta_json tx) s")
        (auto simp: apply_moderator_op_def Let_def intro!: edit split: if_splits)
  qed
qed

interpretation moderator_nonced: nonced apply_moderator_op mop_proposer mop_nonce
proof unfold_locales
  fix c tx h and s :: stage
  assume ok: "fst (apply_moderator_op c tx h s)"
  then show "mop_nonce tx = next_expected_nonce s (mop_proposer tx)"
    by (auto simp: apply_moderator_op_def Let_def split: if_splits)
  show "guards (snd (apply_moderator_op c tx h s)) =
      ((fst (guards s))(mop_proposer tx \<mapsto> mop_nonce tx + 1), snd (guards s))"
    using ok by (cases rule: moderator_accepted) (simp_all add: bootstrapped_def tag_label_edit_keeps)
  show "rows_of ''nv:'' (snd (apply_moderator_op c tx h s)) = rows_of ''nv:'' s @
      [Put (''nv:'' @ hex_addr (mop_proposer tx)) (le_bytes 8 (mop_nonce tx + 1))]"
    using ok by (cases rule: moderator_accepted) (simp_all add: bootstrapped_def tag_label_edit_keeps)
qed

section \<open>Proposals\<close>

lemma release_shares_guards: "guards (snd (release_shares c e amount cr xs s)) = guards s"
  by (induction c e amount cr xs s rule: release_shares.induct)
    (auto simp: Let_def dest: Ledger_transfer_guards split: prod.split)

lemma release_escrow_guards: "guards (snd (release_escrow c q s)) = guards s"
  by (simp add: release_escrow_def Let_def release_shares_guards)

lemma execute_proposal_guards: "guards (snd (execute_proposal c q ph h s)) = guards s"
  by (simp add: execute_proposal_def Let_def release_escrow_guards case_prod_beta)

lemma execute_proposal_nv: "rows_of ''nv:'' (snd (execute_proposal c q ph h s)) = rows_of ''nv:'' s"
  by (rule execute_proposal_tables) (simp add: execution_tables_def)

text \<open>What an accepted proposal or vote did: it recorded the vote, and the execution if the vote
  decided it.\<close>

definition decided :: "crypto \<Rightarrow> ProposalTx \<Rightarrow> hash256 \<Rightarrow> u32 \<Rightarrow> bool \<Rightarrow> stage \<Rightarrow> stage" where
  "decided c p ph h yes s = (if yes then snd (execute_proposal c p ph h s) else s)"

lemma decided_keeps:
  "guards (decided c p ph h yes s) = guards s"
  "rows_of ''nv:'' (decided c p ph h yes s) = rows_of ''nv:'' s"
  by (simp_all add: decided_def execute_proposal_guards execute_proposal_nv)

lemma file_proposal_accepted:
  assumes "fst (file_proposal c tx h e approved s)"
  shows "snd (file_proposal c tx h e approved s) =
    (let ph = ProposalTx_tx_hash c tx;
         u = record_vote c ph (prop_proposer tx) (put_proposal c ph (ProposalTx_serialize tx) s)
     in advance_nonce c (prop_proposer tx) (e + 1) (decided c tx ph h (approved u ph) u))"
    and "\<not> has_proposal s (ProposalTx_tx_hash c tx)"
  using assms by (auto simp: file_proposal_def decided_def Let_def case_prod_beta split: if_splits)

lemma cast_vote_accepted:
  assumes "fst (cast_vote c tx h e needed s)"
  obtains raw p yes where "get_proposal s (prop_target_hash tx) = Some raw"
    "ProposalTx_deserialize raw = Some p"
    "get_proposal_status s (prop_target_hash tx) = PROP_PENDING"
    "\<not> has_proposal_vote s (prop_target_hash tx) (prop_proposer tx)"
    "prop_proposer tx \<notin> st_votes s (prop_target_hash tx)"
    "yes = (let u = record_vote c (prop_target_hash tx) (prop_proposer tx) s in
       if prop_kind p = Proposal_GRANT_MODERATOR then grant_is_unanimous u (prop_target_hash tx)
       else needed \<le> effective_vote_count u (prop_target_hash tx))"
    "snd (cast_vote c tx h e needed s) = advance_nonce c (prop_proposer tx) (e + 1)
       (decided c p (prop_target_hash tx) h yes (record_vote c (prop_target_hash tx) (prop_proposer tx) s))"
proof -
  from assms obtain raw p where r: "get_proposal s (prop_target_hash tx) = Some raw"
    "ProposalTx_deserialize raw = Some p"
    by (auto simp: cast_vote_def Let_def split: option.splits if_splits)
  show ?thesis
    by (rule that [OF r _ _ _ refl])
      (use assms r in \<open>auto simp: cast_vote_def decided_def Let_def case_prod_beta split: if_splits\<close>)
qed

interpretation proposal_nonced: nonced apply_proposal prop_proposer prop_nonce
proof unfold_locales
  fix c tx h and s :: stage
  assume ok: "fst (apply_proposal c tx h s)"
  then show n: "prop_nonce tx = next_expected_nonce s (prop_proposer tx)"
    by (auto simp: apply_proposal_def Let_def split: if_splits)
  let ?e = "next_expected_nonce s (prop_proposer tx)"
  from ok consider approved where "apply_proposal c tx h s = file_proposal c tx h ?e approved s"
    | needed where "apply_proposal c tx h s = cast_vote c tx h ?e needed s"
    by (auto simp: apply_proposal_def Let_def split: if_splits)
  then have "guards (snd (apply_proposal c tx h s)) =
      ((fst (guards s))(prop_proposer tx \<mapsto> prop_nonce tx + 1), snd (guards s)) \<and>
    rows_of ''nv:'' (snd (apply_proposal c tx h s)) = rows_of ''nv:'' s @
      [Put (''nv:'' @ hex_addr (prop_proposer tx)) (le_bytes 8 (prop_nonce tx + 1))]"
  proof cases
    case 1
    with ok have "fst (file_proposal c tx h ?e approved s)" by simp
    from file_proposal_accepted(1) [OF this] 1 n show ?thesis by (simp add: Let_def decided_keeps)
  next
    case 2
    with ok have "fst (cast_vote c tx h ?e needed s)" by simp
    then show ?thesis by (cases rule: cast_vote_accepted) (simp add: 2 n decided_keeps)
  qed
  then show "guards (snd (apply_proposal c tx h s)) =
      ((fst (guards s))(prop_proposer tx \<mapsto> prop_nonce tx + 1), snd (guards s))"
    "rows_of ''nv:'' (snd (apply_proposal c tx h s)) = rows_of ''nv:'' s @
      [Put (''nv:'' @ hex_addr (prop_proposer tx)) (le_bytes 8 (prop_nonce tx + 1))]"
    by simp_all
qed

section \<open>Sessions\<close>

text \<open>\<open>t\<close> has used the sessions \<open>ss\<close> since \<open>s\<close>, each new to the store and to the block.\<close>

definition spends :: "stage \<Rightarrow> hash256 list \<Rightarrow> stage \<Rightarrow> bool" where
  "spends s ss t \<longleftrightarrow>
     db_store t = db_store s \<and> st_sessions t = st_sessions s \<union> set ss \<and>
     rows_of ''u:'' t = rows_of ''u:'' s @ map (\<lambda>x. Put (session_key x) []) ss \<and>
     distinct ss \<and> set ss \<inter> st_sessions s = {} \<and> (\<forall>x\<in>set ss. \<not> is_session_used s x)"

lemma spends_Nil: "spends s [] s"
  by (simp add: spends_def)

lemma spends_frame:
  "db_store t = db_store s \<Longrightarrow> snd (guards t) = snd (guards s) \<Longrightarrow> rows_of ''u:'' t = rows_of ''u:'' s \<Longrightarrow>
   spends s [] t"
  by (simp add: spends_def guards_def)

lemma spends_trans: "spends s xs t \<Longrightarrow> spends t ys u \<Longrightarrow> spends s (xs @ ys) u"
  by (auto simp: spends_def is_session_used_def db_get_def)

lemma check_play_session: "check_play c pr s h = None \<Longrightarrow> \<not> is_session_used s (pp_session_id pr)"
  by (auto simp: check_play_def)

lemma guards_mint:
  assumes "fst (apply_mint c m n u)"
  shows "guards (snd (apply_mint c m n u)) = guards u"
    and "rows_of ''u:'' (snd (apply_mint c m n u)) =
      rows_of ''u:'' u @ [Put (session_key (pp_session_id (mt_proof m))) []]"
  using assms by (simp_all add: apply_mint_def Let_def split: if_splits)

lemma mint_accepted:
  assumes "fst (apply_mint_tx c m h s)"
  shows "validate_mint c m s h = None" and "fst (guards (snd (apply_mint_tx c m h s))) = fst (guards s)"
    and "spends s [pp_session_id (mt_proof m)] (snd (apply_mint_tx c m h s))"
proof -
  let ?x = "pp_session_id (mt_proof m)" and ?t = "snd (apply_mint_tx c m h s)"
  let ?u = "s\<lparr>st_sessions := insert ?x (st_sessions s)\<rparr>"
  show v: "validate_mint c m s h = None"
    using assms by (simp add: apply_mint_tx_def split: if_splits)
  have x: "?x \<notin> st_sessions s" using assms by (simp add: apply_mint_tx_def split: if_splits)
  with assms v have t: "apply_mint_tx c m h s =
      apply_mint c m (get_play_count ?u (pp_content_hash (mt_proof m))) ?u"
    by (simp add: apply_mint_tx_def Let_def)
  then have "fst (apply_mint c m (get_play_count ?u (pp_content_hash (mt_proof m))) ?u)"
    using assms by simp
  note g = guards_mint [OF this, folded t]
  show "fst (guards ?t) = fst (guards s)" using g(1) by simp
  have "\<not> is_session_used s ?x"
    using check_play_session validate_mint_None(1) [OF v] by blast
  moreover have "st_sessions ?t = insert ?x (st_sessions s)"
    using g(1) by (simp add: guards_def)
  ultimately show "spends s [?x] ?t"
    using x g(2) by (simp add: spends_def mint_handler.handle_store)
qed

text \<open>One constituent is skipped, or it is settled.\<close>

definition settled :: "crypto \<Rightarrow> PlayProof \<Rightarrow> u64 \<Rightarrow> stage \<Rightarrow> stage" where
  "settled c pr pc s =
     (let t = update_song_state c pr pc (put_batch c (session_key (pp_session_id pr)) []
            (s\<lparr>st_sessions := insert (pp_session_id pr) (st_sessions s)\<rparr>))
      in t\<lparr>st_plays := insert (pp_content_hash pr, pp_player_address pr) (st_plays t)\<rparr>)"

lemma settled_keeps:
  "guards (settled c pr pc s) = (fst (guards s), insert (pp_session_id pr) (st_sessions s))"
  "rows_of ''u:'' (settled c pr pc s) = rows_of ''u:'' s @ [Put (session_key (pp_session_id pr)) []]"
  by (simp_all add: settled_def Let_def)

end
