(* ===== verification/Pay_Laws.thy ===== *)
theory Pay_Laws
  imports Replay_Laws
begin

text \<open>
  What a play pays: the balances an accepted mint and an accepted settlement leave, as the
  balances before and the outputs of the plays whose sessions they use up. The mint of one play
  and the settlement of many are both instances of \<open>tx_pays\<close>, which says of any accepted
  transaction which sessions it spends and who is paid for them.
\<close>

section \<open>Lists of payments\<close>

text \<open>What a list of payments adds to one balance, before and after it is summed per address.\<close>

definition paid_to :: "address \<Rightarrow> (address \<times> u64) list \<Rightarrow> u64" where
  "paid_to a xs = sum_list (map (\<lambda>(b, v). if b = a then v else 0) xs)"

lemma paid_to_amap_add: "paid_to a (amap_add b v m) = (if b = a then v else 0) + paid_to a m"
  by (induction b v m rule: amap_add.induct) (auto simp: paid_to_def)

lemma paid_to_per_addr: "paid_to a (per_addr outs) = paid_to a outs"
proof -
  have "paid_to a (foldl (\<lambda>m (b, v). if v = 0 then m else amap_add b v m) m outs) = paid_to a m + paid_to a outs"
    for m
  proof (induction outs arbitrary: m)
    case (Cons x outs)
    then show ?case by (cases x) (auto simp: paid_to_amap_add, simp_all add: paid_to_def)
  qed (simp add: paid_to_def)
  from this [of "[]"] show ?thesis by (simp add: per_addr_def) (simp add: paid_to_def)
qed

lemma bal_credit_many: "rd_bal (Ledger_credit_many c outs s) a = rd_bal s a + paid_to a outs"
proof -
  have "rd_bal (foldl (\<lambda>s (b, v). wr_bal c b (rd_bal s b + v) s) s xs) a = rd_bal s a + paid_to a xs" for xs
    by (induction xs arbitrary: s) (auto simp: lg.bal_set_bal paid_to_def)
  then show ?thesis
    by (simp add: Ledger_credit_many_def Let_def lg.bal_set_supply paid_to_per_addr)
qed

definition outs_pay :: "address \<Rightarrow> MintOutput list \<Rightarrow> u64" where
  "outs_pay a os = paid_to a (map (\<lambda>o'. (mo_recipient o', mo_amount o')) os)"

lemma paid_to_credits:
  "paid_to a (foldl (\<lambda>m o'. amap_add (mo_recipient o') (mo_amount o') m) m os) = paid_to a m + outs_pay a os"
  by (induction os arbitrary: m) (auto simp: outs_pay_def paid_to_amap_add, simp_all add: paid_to_def)

section \<open>A mint\<close>

lemma bal_keep:
  "rd_bal (s\<lparr>st_plays := q\<rparr>) a = rd_bal s a" "rd_bal (s\<lparr>st_sessions := z\<rparr>) a = rd_bal s a"
  "rd_bal (update_song_state c pr n s) a = rd_bal s a" "rd_bal (put_batch c k w s) a = rd_bal s a"
  by (rule rd_bal_cong; simp add: update_song_state_def mark_play_credit_def set_song_state_def Let_def)+

lemma supply_keep:
  "rd_supply (s\<lparr>st_plays := q\<rparr>) = rd_supply s" "rd_supply (s\<lparr>st_sessions := z\<rparr>) = rd_supply s"
  "rd_supply (update_song_state c pr n s) = rd_supply s" "rd_supply (put_batch c k w s) = rd_supply s"
  by (rule rd_supply_cong; simp add: update_song_state_def mark_play_credit_def set_song_state_def Let_def)+

definition mint_pays :: "MintTx \<Rightarrow> stage \<Rightarrow> stage \<Rightarrow> bool" where
  "mint_pays m s t \<longleftrightarrow> mt_burn_amount m \<le> rd_bal s (pp_player_address (mt_proof m)) \<and>
     (\<forall>a. rd_bal t a = (if a = pp_player_address (mt_proof m) then rd_bal s a - mt_burn_amount m else rd_bal s a) +
        outs_pay a (mt_outputs m))"

lemma apply_mint_pays:
  assumes "apply_mint_tx c m h s = (True, t)"
  shows "mint_pays m s t"
proof -
  let ?u = "s\<lparr>st_sessions := insert (pp_session_id (mt_proof m)) (st_sessions s)\<rparr>"
  have "validate_mint c m s h = None" using mint_accepted(1) [of c m h s] assms by simp
  with assms have m: "apply_mint c m (get_play_count ?u (pp_content_hash (mt_proof m))) ?u = (True, t)"
    by (auto simp: apply_mint_tx_def Let_def split: if_splits)
  then have "mt_burn_amount m \<le> rd_bal s (pp_player_address (mt_proof m))"
    by (auto simp: apply_mint_def bal_keep not_less Let_def word_gt_0 split: if_splits)
  moreover have "rd_bal t a =
      (if a = pp_player_address (mt_proof m) then rd_bal s a - mt_burn_amount m else rd_bal s a) +
      outs_pay a (mt_outputs m)" for a
    using m
    by (auto simp: apply_mint_def Let_def outs_pay_def bal_credit_many bal_keep Ledger_decrement_supply_def
        Ledger_debit_def lg.bal_set_supply lg.bal_set_bal word_gt_0 split: if_splits)
  ultimately show ?thesis by (simp add: mint_pays_def)
qed

section \<open>A settlement\<close>

text \<open>The plays a settlement pays, each with the outputs its session, song and play count give.\<close>

type_synonym paid_play = "PlayProof \<times> MintOutput list"

definition recomputed :: "crypto \<Rightarrow> u32 \<Rightarrow> address \<Rightarrow> stage \<Rightarrow> paid_play \<Rightarrow> bool" where
  "recomputed c h node s = (\<lambda>(pr, outs). check_play c pr s h = None \<and>
     (\<exists>song pc. get_song_section s (pp_content_hash pr) = Some song \<and>
        outs = compute_mint_outputs c pr song pc node))"

definition plays_pay :: "address \<Rightarrow> paid_play list \<Rightarrow> u64" where
  "plays_pay a plays = sum_list (map (\<lambda>(pr, outs). outs_pay a outs) plays)"

definition sessions_of :: "paid_play list \<Rightarrow> hash256 list" where
  "sessions_of plays = map (\<lambda>(pr, outs). pp_session_id pr) plays"

lemma plays_simps [simp]:
  "plays_pay a [] = 0" "plays_pay a (x # ps) = outs_pay a (snd x) + plays_pay a ps"
  "sessions_of [] = []" "sessions_of (x # ps) = pp_session_id (fst x) # sessions_of ps"
  by (simp_all add: plays_pay_def sessions_of_def case_prod_beta)

lemma recomputed_cong: "db_store t = db_store s \<Longrightarrow> recomputed c h node t = recomputed c h node s"
proof -
  assume e: "db_store t = db_store s"
  then have e: "db_get t = db_get s" by (simp add: db_get_def fun_eq_iff)
  have "check_play c pr t h = check_play c pr s h" "get_song_section t x = get_song_section s x" for pr x
    unfolding check_play_def is_session_used_def get_song_section_def
      get_content_height_def get_u32_def get_block_hash_def read_hash_row_def get_block_def e by (rule refl)+
  then show ?thesis by (simp add: recomputed_def)
qed

text \<open>What the walk has done since a stage: the sessions used, and the credits collected for them.\<close>

definition walked :: "crypto \<Rightarrow> u32 \<Rightarrow> address \<Rightarrow> settle_walk \<times> stage \<Rightarrow> paid_play list \<Rightarrow>
    settle_walk \<times> stage \<Rightarrow> bool" where
  "walked c h node ws plays ws' \<longleftrightarrow>
     spends (snd ws) (sessions_of plays) (snd ws') \<and> list_all (recomputed c h node (snd ws)) plays \<and>
     (\<forall>a. paid_to a (sw_credits (fst ws')) = paid_to a (sw_credits (fst ws)) + plays_pay a plays) \<and>
     (\<forall>a. rd_bal (snd ws') a = rd_bal (snd ws) a) \<and>
     fst (guards (snd ws')) = fst (guards (snd ws))"

lemma walked_Nil: "walked c h node ws [] ws"
  by (simp add: walked_def spends_Nil)

lemma walked_trans:
  assumes "walked c h node ws xs ws'" and "walked c h node ws' ys ws''"
  shows "walked c h node ws (xs @ ys) ws''"
proof -
  have "db_store (snd ws') = db_store (snd ws)" using assms(1) by (simp add: walked_def spends_def)
  then have "recomputed c h node (snd ws') = recomputed c h node (snd ws)" by (rule recomputed_cong)
  moreover have "sessions_of (xs @ ys) = sessions_of xs @ sessions_of ys"
    "plays_pay a (xs @ ys) = plays_pay a xs + plays_pay a ys" for a
    by (simp_all add: sessions_of_def plays_pay_def)
  moreover have "spends (snd ws) (sessions_of xs @ sessions_of ys) (snd ws'')"
    using assms by (auto simp: walked_def intro: spends_trans)
  ultimately show ?thesis using assms by (simp add: walked_def add.assoc)
qed

lemma settled_bal: "rd_bal (settled c pr pc s) a = rd_bal s a"
  by (simp add: settled_def Let_def bal_keep)

text \<open>One constituent is skipped, or its session is new and it is paid.\<close>

lemma settle_one_walked:
  "\<exists>plays. walked c h node ws plays (settle_one c h node base pr ws) \<and> fst ` set plays \<subseteq> {pr}"
proof (cases "settle_one c h node base pr ws = ws")
  case True
  then show ?thesis using walked_Nil by (intro exI [of _ "[]"]) simp
next
  case False
  obtain w s where ws: "ws = (w, s)" by (cases ws)
  have new: "check_play c pr s h = None" "pp_session_id pr \<notin> st_sessions s"
    using False by (auto simp: ws settle_one_def Let_def split: if_splits)
  obtain song where song: "get_song_section s (pp_content_hash pr) = Some song"
  proof (cases "get_song_section s (pp_content_hash pr)")
    case None
    then have "settle_one c h node base pr ws = ws" by (simp add: ws settle_one_def Let_def)
    with False show ?thesis by simp
  qed
  define pc where "pc = (case sw_song_ord w (pp_content_hash pr) of Some n \<Rightarrow> n
      | None \<Rightarrow> get_play_count s (pp_content_hash pr))"
  let ?outs = "compute_mint_outputs c pr song pc node" and ?one = "settle_one c h node base pr ws"
  have one: "snd ?one = settled c pr pc s"
    "sw_credits (fst ?one) = foldl (\<lambda>m o'. amap_add (mo_recipient o') (mo_amount o') m) (sw_credits w) ?outs"
    using False new song
    by (auto simp: ws settle_one_def pc_def [symmetric] settled_def Let_def split: if_splits)
  have "st_sessions (settled c pr pc s) = insert (pp_session_id pr) (st_sessions s)"
    using settled_keeps(1) [of c pr pc s] by (simp add: guards_def)
  moreover have "db_store (settled c pr pc s) = db_store s"
    using settle_one_store [of c h node base pr ws] one(1) by (simp add: ws)
  ultimately have "spends s [pp_session_id pr] (settled c pr pc s)"
    using new check_play_session [OF new(1)] by (simp add: spends_def settled_keeps)
  then have "walked c h node ws [(pr, ?outs)] ?one"
    using new song
    by (auto simp: walked_def ws [symmetric] one paid_to_credits settled_bal settled_keeps recomputed_def)
      (auto simp: ws settled_keeps)
  then show ?thesis by (intro exI [of _ "[(pr, ?outs)]"]) simp
qed

lemma settle_fold_walked:
  "\<exists>plays. walked c h node ws plays (fold (settle_one c h node base) prs ws) \<and> fst ` set plays \<subseteq> set prs"
proof (induction prs arbitrary: ws)
  case Nil
  then show ?case using walked_Nil by (intro exI [of _ "[]"]) simp
next
  case (Cons pr prs)
  obtain xs where xs: "walked c h node ws xs (settle_one c h node base pr ws)" "fst ` set xs \<subseteq> {pr}"
    using settle_one_walked by blast
  obtain ys where ys: "walked c h node (settle_one c h node base pr ws) ys
      (fold (settle_one c h node base) prs (settle_one c h node base pr ws))" "fst ` set ys \<subseteq> set prs"
    using Cons.IH by blast
  from walked_trans [OF xs(1) ys(1)] xs(2) ys(2) show ?case
    by (intro exI [of _ "xs @ ys"]) auto
qed

text \<open>The body a settlement names in the store.\<close>

definition settle_body_of :: "SettlementMintTx \<Rightarrow> stage \<Rightarrow> PlayProof list option" where
  "settle_body_of tx s = Option.bind (db_get s (''sb:'' @ hex_hash (sm_constituents_merkle_root tx)))
     deserialize_settle_body"

definition settlement_pays :: "crypto \<Rightarrow> u32 \<Rightarrow> SettlementMintTx \<Rightarrow> stage \<Rightarrow> hash256 list \<Rightarrow> stage \<Rightarrow> bool" where
  "settlement_pays c h tx s ss t \<longleftrightarrow> (\<exists>plays body. settle_body_of tx s = Some body \<and>
     fst ` set plays \<subseteq> set body \<and> ss = sessions_of plays \<and>
     list_all (recomputed c h (sm_serving_node_wallet tx) s) plays \<and>
     (\<forall>a. rd_bal t a = rd_bal s a + plays_pay a plays))"

lemma apply_settlement_pays:
  assumes "apply_settlement_mint c tx h s = (True, t)"
  obtains ss where "spends s ss t" and "settlement_pays c h tx s ss t" and "fst (guards t) = fst (guards s)"
proof -
  obtain body w u where body: "settle_body_of tx s = Some body"
    and fld: "fold (settle_one c h (sm_serving_node_wallet tx) (rd_supply s)) (sort_key play_order body)
      (settle_start s) = (w, u)"
    and t: "t = put_batch c (epoch_key (sm_serving_node_id tx) (sm_epoch_id tx)) []
      (Ledger_credit_many c (sw_credits w) u)"
    using assms
    by (auto simp: apply_settlement_mint_def settle_body_of_def settle_start_def Let_def
        split: option.splits if_splits prod.splits)
  from settle_fold_walked [of c h "sm_serving_node_wallet tx" "settle_start s" "rd_supply s" "sort_key play_order body"]
  obtain plays where w: "walked c h (sm_serving_node_wallet tx) (settle_start s) plays (w, u)"
    and "fst ` set plays \<subseteq> set body" unfolding fld by auto
  from w have sp: "spends s (sessions_of plays) u" and "list_all (recomputed c h (sm_serving_node_wallet tx) s) plays"
    and "fst (guards u) = fst (guards s)" and credits: "paid_to a (sw_credits w) = plays_pay a plays"
    and "rd_bal u a = rd_bal s a" for a
    by (simp_all add: walked_def settle_start_def) (simp add: paid_to_def)
  moreover have "rd_bal t a = rd_bal u a + paid_to a (sw_credits w)" for a
    by (simp add: t bal_keep bal_credit_many)
  ultimately have "settlement_pays c h tx s (sessions_of plays) t"
    using body \<open>fst ` set plays \<subseteq> set body\<close>
    unfolding settlement_pays_def by (intro exI [of _ plays] exI [of _ body]) simp
  moreover have "spends u [] t" and "guards t = guards u" by (simp_all add: t spends_frame)
  ultimately show ?thesis
    using that [of "sessions_of plays"] spends_trans [OF sp, of "[]" t] \<open>fst (guards u) = fst (guards s)\<close> by simp
qed

lemma settlement_nonces: "fst (guards (snd (apply_settlement_mint c tx h s))) = fst (guards s)"
proof (cases rule: apply_settlement_mint_cases [of c tx h s])
  case (2 node prs)
  then show ?thesis
    using settle_fold_walked [of c h node "settle_start s" "rd_supply s" prs]
    by (auto simp: walked_def settle_start_def split: prod.split)
qed simp

section \<open>One transaction and a list of them\<close>

fun typed_nonce :: "TxType \<Rightarrow> bytes \<Rightarrow> (address \<times> u64) option" where
  "typed_nonce TRANSFER raw = map_option (\<lambda>tx. (tr_from_address tx, tr_nonce tx)) (TransferTx_deserialize raw)"
| "typed_nonce MODERATOR_OP raw = map_option (\<lambda>tx. (mop_proposer tx, mop_nonce tx)) (ModeratorOpTx_deserialize raw)"
| "typed_nonce MODERATOR_PROPOSAL raw = map_option (\<lambda>tx. (prop_proposer tx, prop_nonce tx)) (ProposalTx_deserialize raw)"
| "typed_nonce USERNAME_REGISTER raw = map_option (\<lambda>tx. (un_owner tx, un_nonce tx)) (UsernameTx_deserialize raw)"
| "typed_nonce SLASH raw = map_option (\<lambda>tx. (sl_reporter_address tx, sl_nonce tx)) (SlashTx_deserialize raw)"
| "typed_nonce RELAY_REWARD raw = map_option (\<lambda>tx. (rr_issuer_address tx, rr_nonce tx)) (RelayRewardTx_deserialize raw)"
| "typed_nonce NODE_AUTH raw = map_option (\<lambda>tx. (na_issuer_address tx, na_nonce tx)) (NodeAuthTx_deserialize raw)"
| "typed_nonce CHECKPOINT raw = map_option (\<lambda>tx. (cp_issuer_address tx, cp_nonce tx)) (CheckpointTx_deserialize raw)"
| "typed_nonce RATING raw = map_option (\<lambda>tx. (rt_rater tx, rt_nonce tx)) (RatingTx_deserialize raw)"
| "typed_nonce _ raw = None"

text \<open>The sender and the nonce of a raw transaction.\<close>

definition raw_nonce :: "bytes \<Rightarrow> (address \<times> u64) option" where
  "raw_nonce raw = (case raw of [] \<Rightarrow> None
     | b # _ \<Rightarrow> Option.bind (tx_type_of b) (\<lambda>t. typed_nonce t raw))"

text \<open>A raw transaction read as one type.\<close>

definition raw_as :: "TxType \<Rightarrow> (bytes \<Rightarrow> 't option) \<Rightarrow> bytes \<Rightarrow> 't option" where
  "raw_as ty d raw = (case raw of [] \<Rightarrow> None | b # _ \<Rightarrow> if tx_type_of b = Some ty then d raw else None)"

text \<open>The sessions an accepted transaction uses up, and what it pays for them: a mint its own session
  and its outputs, a settlement some of the plays of its body and their recomputed outputs, any
  other transaction none.\<close>

definition tx_pays :: "crypto \<Rightarrow> u32 \<Rightarrow> bytes \<Rightarrow> stage \<Rightarrow> hash256 list \<Rightarrow> stage \<Rightarrow> bool" where
  "tx_pays c h raw s ss t \<longleftrightarrow> (case raw_as MINT MintTx_deserialize raw of
       Some m \<Rightarrow> ss = [pp_session_id (mt_proof m)] \<and> mint_pays m s t
     | None \<Rightarrow> (case raw_as SETTLEMENT_MINT SettlementMintTx_deserialize raw of
           Some tx \<Rightarrow> settlement_pays c h tx s ss t
         | None \<Rightarrow> ss = []))"

lemma apply_typed_nonce:
  assumes "fst (apply_typed c h t raw s)"
  shows "nonce_step s (typed_nonce t raw) (snd (apply_typed c h t raw s))"
proof -
  have none: "nonce_step s None (snd (apply_typed c h t raw s))" if "t = MINT \<or> t = SETTLEMENT_MINT"
  proof -
    have "st_nonce (snd (apply_typed c h t raw s)) = st_nonce s"
      using that assms mint_accepted(2) settlement_nonces
      by (auto simp: decoded_def guards_def split: option.splits)
    moreover have "rows_of ''nv:'' (snd (apply_typed c h t raw s)) = rows_of ''nv:'' s"
      using that by (intro apply_typed_tables) auto
    ultimately show ?thesis by (simp add: nonce_step_def apply_typed_store)
  qed
  show ?thesis
    using assms none
    by (cases t) (simp_all add: transfer_nonced.decoded_step moderator_nonced.decoded_step
      proposal_nonced.decoded_step username_nonced.decoded_step slash_nonced.decoded_step
      relay_reward_nonced.decoded_step node_auth_nonced.decoded_step checkpoint_nonced.decoded_step
      rating_nonced.decoded_step)
qed

lemma apply_raw_tx_cases:
  obtains "raw = []" "apply_raw_tx c h raw s = (True, s)"
  | b r where "raw = b # r" "tx_type_of b = None" "apply_raw_tx c h raw s = (False, s)"
  | b r t where "raw = b # r" "tx_type_of b = Some t" "apply_raw_tx c h raw s = apply_typed c h t raw s"
proof (cases raw)
  case (Cons b r)
  then show ?thesis by (cases "tx_type_of b") (auto simp: apply_raw_tx_def intro: that)
qed (simp add: apply_raw_tx_def that)

lemma apply_raw_nonce:
  assumes "fst (apply_raw_tx c h raw s)"
  shows "nonce_step s (raw_nonce raw) (snd (apply_raw_tx c h raw s))"
proof (cases rule: apply_raw_tx_cases [of raw c h s])
  case 3
  with assms show ?thesis by (simp add: raw_nonce_def apply_typed_nonce)
qed (use assms in \<open>simp_all add: raw_nonce_def nonce_step_def\<close>)

lemma apply_raw_pays:
  assumes "fst (apply_raw_tx c h raw s)"
  obtains ss where "spends s ss (snd (apply_raw_tx c h raw s))"
    and "tx_pays c h raw s ss (snd (apply_raw_tx c h raw s))"
proof (cases rule: apply_raw_tx_cases [of raw c h s])
  case 1
  then show ?thesis using spends_Nil by (intro that [of "[]"]) (simp_all add: tx_pays_def raw_as_def)
next
  case 2
  with assms show ?thesis by simp
next
  case (3 b r ty)
  let ?t = "snd (apply_raw_tx c h raw s)"
  have ok: "fst (apply_typed c h ty raw s)" using assms 3 by simp
  consider (mint) "ty = MINT" | (settle) "ty = SETTLEMENT_MINT" | (plain) "ty \<noteq> MINT" "ty \<noteq> SETTLEMENT_MINT" by blast
  then show ?thesis
  proof cases
    case mint
    then obtain m where m: "MintTx_deserialize raw = Some m" "apply_raw_tx c h raw s = apply_mint_tx c m h s"
      using ok 3 by (auto simp: decoded_def split: option.splits)
    then have "apply_mint_tx c m h s = (True, ?t)" using assms by (metis prod.collapse)
    with apply_mint_pays [OF this] mint_accepted(3) [of c m h s] show ?thesis
      using 3 mint m by (intro that) (simp_all add: tx_pays_def raw_as_def)
  next
    case settle
    then obtain tx where tx: "SettlementMintTx_deserialize raw = Some tx"
      "apply_raw_tx c h raw s = apply_settlement_mint c tx h s"
      using ok 3 by (auto simp: decoded_def split: option.splits)
    then have "apply_settlement_mint c tx h s = (True, ?t)" using assms by (metis prod.collapse)
    then obtain ss where "spends s ss ?t" "settlement_pays c h tx s ss ?t" by (rule apply_settlement_pays)
    then show ?thesis using 3 settle tx(1) by (intro that) (simp_all add: tx_pays_def raw_as_def)
  next
    case plain
    then obtain a n where "typed_nonce ty raw = Some (a, n)"
      using ok by (cases ty) (auto simp: decoded_def split: option.splits)
    then have "nonce_step s (Some (a, n)) ?t" using apply_typed_nonce [OF ok] 3 by simp
    moreover have "rows_of ''u:'' ?t = rows_of ''u:'' s"
      unfolding 3(3) using plain by (intro apply_typed_tables) (cases ty; simp)
    ultimately have "spends s [] ?t" by (intro spends_frame) (simp_all add: nonce_step_def guards_def)
    then show ?thesis using 3 plain by (intro that) (simp_all add: tx_pays_def raw_as_def)
  qed
qed

text \<open>The nonces of one sender, in block order, and what a list of transactions does to them.\<close>

definition nonces_of :: "address \<Rightarrow> bytes list \<Rightarrow> u64 list" where
  "nonces_of a txs = List.map_filter (\<lambda>raw. case raw_nonce raw of None \<Rightarrow> None
     | Some (b, n) \<Rightarrow> if b = a then Some n else None) txs"

lemma nonces_of_simps [simp]:
  "nonces_of a [] = []"
  "nonces_of a (raw # txs) = (case raw_nonce raw of None \<Rightarrow> nonces_of a txs
     | Some (b, n) \<Rightarrow> if b = a then n # nonces_of a txs else nonces_of a txs)"
  by (auto simp: nonces_of_def List.map_filter_def split: option.split)

definition counting :: "u64 \<Rightarrow> u64 list \<Rightarrow> bool" where
  "counting n ns \<longleftrightarrow> ns = map (\<lambda>i. n + of_nat i) [0..<length ns]"

lemma counting_simps [simp]:
  "counting n []" "counting n (m # ns) \<longleftrightarrow> m = n \<and> counting (n + 1) ns"
proof -
  have "map (\<lambda>i. n + of_nat i) [0..<Suc k] = n # map (\<lambda>i. n + 1 + of_nat i) [0..<k]" for k
    by (simp add: map_upt_Suc add.assoc del: upt_Suc)
  then show "counting n (m # ns) \<longleftrightarrow> m = n \<and> counting (n + 1) ns"
    by (simp add: counting_def del: upt_Suc)
qed (simp add: counting_def)

lemma next_expected_step:
  "nonce_step s (Some (b, n)) t \<Longrightarrow> next_expected_nonce t a = (if a = b then n + 1 else next_expected_nonce s a)"
  "nonce_step s None t \<Longrightarrow> next_expected_nonce t a = next_expected_nonce s a"
  by (auto simp: nonce_step_def next_expected_nonce_def get_nonce_def get_u64_def db_get_def
      split: option.split)

lemma apply_tx_list_Cons:
  assumes "apply_tx_list c h (raw # txs) s = (True, t)"
  obtains u where "apply_raw_tx c h raw s = (True, u)" "apply_tx_list c h txs u = (True, t)"
  using assms by (cases "apply_raw_tx c h raw s") (auto split: if_splits)

lemma apply_tx_list_nonces:
  "apply_tx_list c h txs s = (True, t) \<Longrightarrow>
   counting (next_expected_nonce s a) (nonces_of a txs) \<and>
   next_expected_nonce t a = next_expected_nonce s a + of_nat (length (nonces_of a txs))"
proof (induction txs arbitrary: s)
  case (Cons raw txs)
  from Cons.prems obtain u where u: "apply_raw_tx c h raw s = (True, u)" "apply_tx_list c h txs u = (True, t)"
    by (rule apply_tx_list_Cons)
  from apply_raw_nonce [of c h raw s] u(1) have "nonce_step s (raw_nonce raw) u" by simp
  show ?case
  proof (cases "raw_nonce raw")
    case None
    with \<open>nonce_step s (raw_nonce raw) u\<close> have "next_expected_nonce u a = next_expected_nonce s a"
      by (intro next_expected_step(2)) simp
    with Cons.IH [OF u(2)] None show ?thesis by simp
  next
    case (Some bn)
    then obtain b n where bn: "raw_nonce raw = Some (b, n)" by (cases bn) simp
    with \<open>nonce_step s (raw_nonce raw) u\<close> have step: "nonce_step s (Some (b, n)) u" by simp
    then have "n = next_expected_nonce s b" by (simp add: nonce_step_def)
    with next_expected_step(1) [OF step, of a] Cons.IH [OF u(2)] bn show ?thesis
      by (cases "b = a") simp_all
  qed
qed simp

end
