(* ===== verification/Block_Effects.thy ===== *)
theory Block_Effects
  imports Pay_Laws Chain_Laws
begin

text \<open>
  From one transaction to a block, and from the batch to the store: the sessions a list of
  transactions uses, the rows it collects for a table, and what the store holds under a key
  of that table once the block is connected. The tables the block itself writes (its own
  rows, the song index, the mempool) are disjoint from those of the transactions.
\<close>

section \<open>Sessions of a list of transactions\<close>

text \<open>A list of transactions, applied in order, with the sessions each of them uses up.\<close>

fun paid_run :: "crypto \<Rightarrow> u32 \<Rightarrow> stage \<Rightarrow> bytes list \<Rightarrow> hash256 list list \<Rightarrow> stage \<Rightarrow> bool" where
  "paid_run c h s [] [] t \<longleftrightarrow> t = s"
| "paid_run c h s (raw # txs) (ss # pays) t \<longleftrightarrow>
     (let (ok, u) = apply_raw_tx c h raw s in ok \<and> tx_pays c h raw s ss u \<and> paid_run c h u txs pays t)"
| "paid_run c h s _ _ t \<longleftrightarrow> False"

lemma apply_tx_list_sessions:
  "apply_tx_list c h txs s = (True, t) \<Longrightarrow> \<exists>pays. paid_run c h s txs pays t \<and> spends s (concat pays) t"
proof (induction txs arbitrary: s)
  case Nil
  then show ?case using spends_Nil by (intro exI [of _ "[]"]) simp
next
  case (Cons raw txs)
  from Cons.prems obtain u where u: "apply_raw_tx c h raw s = (True, u)" "apply_tx_list c h txs u = (True, t)"
    by (rule apply_tx_list_Cons)
  then have "fst (apply_raw_tx c h raw s)" by simp
  then obtain ss where "spends s ss u" "tx_pays c h raw s ss u" by (rule apply_raw_pays) (simp add: u)
  moreover from Cons.IH [OF u(2)] obtain pays where "paid_run c h u txs pays t" "spends u (concat pays) t" by blast
  ultimately show ?case using u(1) spends_trans by (intro exI [of _ "ss # pays"]) auto
qed

section \<open>The rows of a list of transactions\<close>

text \<open>If every transaction appends rows that satisfy \<open>P\<close>, a condition on the committed store, so
  does the whole list.\<close>

definition appends :: "string \<Rightarrow> (kv \<Rightarrow> write_op \<Rightarrow> bool) \<Rightarrow> stage \<Rightarrow> stage \<Rightarrow> bool" where
  "appends p P s t \<longleftrightarrow> (\<exists>ops. rows_of p t = rows_of p s @ ops \<and> (\<forall>x\<in>set ops. P (db_store s) x))"

lemma appends_same: "rows_of p t = rows_of p s \<Longrightarrow> appends p P s t"
  by (simp add: appends_def)

lemma apply_tx_list_appends:
  assumes step: "\<And>raw s. fst (apply_raw_tx c h raw s) \<Longrightarrow> appends p P s (snd (apply_raw_tx c h raw s))"
  shows "apply_tx_list c h txs s = (True, t) \<Longrightarrow> appends p P s t"
proof (induction txs arbitrary: s)
  case (Cons raw txs)
  from Cons.prems obtain u where u: "apply_raw_tx c h raw s = (True, u)" "apply_tx_list c h txs u = (True, t)"
    by (rule apply_tx_list_Cons)
  from step [of raw s] u(1) have "appends p P s u" by simp
  moreover have "db_store u = db_store s" using raw_tx.handle_store [of c h raw s] u(1) by simp
  moreover have "appends p P u t" by (rule Cons.IH [OF u(2)])
  ultimately show ?case by (auto simp: appends_def)
qed (simp add: appends_same)

lemma apply_raw_appends:
  assumes "fst (apply_raw_tx c h raw s)"
    and "\<And>t. fst (apply_typed c h t raw s) \<Longrightarrow> p \<in> set (type_tables t) \<Longrightarrow>
      appends p P s (snd (apply_typed c h t raw s))"
  shows "appends p P s (snd (apply_raw_tx c h raw s))"
proof (cases rule: apply_raw_tx_cases [of raw c h s])
  case (3 b r t)
  show ?thesis
  proof (cases "p \<in> set (type_tables t)")
    case True
    then show ?thesis using assms 3 by simp
  next
    case False
    with 3 show ?thesis by (simp add: appends_same apply_typed_tables del: type_tables.simps)
  qed
qed (simp_all add: appends_same)

section \<open>The rows of the block itself\<close>

definition block_tables :: "string list" where
  "block_tables = [''b:'', ''h:'', ''cw:'', ''n:'', ''k:'', ''t:'', ''sr:'', ''f:'', ''fph:'', ''i:'', ''sm:'',
     ''ia:'', ''ig:'', ''bh:'', ''sp:'', ''p:'', ''pt:'']"

lemma key_class_block [simp]:
  "key_class (block_key x) = Some ''b:''" "key_class (block_height_key x) = Some ''h:''"
  "key_class (weight_key x) = Some ''cw:''" "key_class (height_key n) = Some ''n:''"
  "key_class (full_hash_key n) = Some ''k:''" "key_class tip_key = Some ''t:''"
  "key_class sr_vec_key = Some ''sr:''" "key_class (bucket_key b) = Some ''i:''"
  by (simp_all add: key_class_def block_key_def block_height_key_def weight_key_def height_key_def
      full_hash_key_def tip_key_def sr_vec_key_def bucket_key_def)

lemma rows_index: "key_class k \<noteq> Some p \<Longrightarrow> rows_of p (add_to_index c k ch s) = rows_of p s"
  by (cases "db_get s k") (auto simp: add_to_index_def Let_def)

lemma rows_bucket: "p \<noteq> ''i:'' \<Longrightarrow> rows_of p (add_to_bucket c b ch s) = rows_of p s"
  by (auto simp: add_to_bucket_def Let_def)

lemma rows_song:
  assumes "p \<notin> set block_tables"
  shows "rows_of p (write_song_rows c blk h s) = rows_of p s"
    and "rows_of p (drop_pending_song c blk s) = rows_of p s"
proof -
  have ne: "key_class (''f:'' @ r) \<noteq> Some p" "key_class (''fph:'' @ r) \<noteq> Some p"
    "key_class (''sm:'' @ r) \<noteq> Some p" "key_class (''ia:'' @ r) \<noteq> Some p"
    "key_class (''ig:'' @ r) \<noteq> Some p" "key_class (''bh:'' @ r) \<noteq> Some p"
    "key_class (''sp:'' @ r) \<noteq> Some p" "p \<noteq> ''i:''" for r
    using assms by (auto simp: block_tables_def key_class_def)
  have "rows_of p (put_fingerprint c song s) = rows_of p s" for song and s :: stage
    using ne by (auto simp: put_fingerprint_def Let_def rows_foldl rows_bucket simp del: append_Cons append_Nil
        split: option.split)
  then show "rows_of p (write_song_rows c blk h s) = rows_of p s"
    using ne by (simp add: write_song_rows_def set_content_height_def put_batch_u32_def rows_index
        add_to_genre_index_def add_to_artist_index_def put_song_meta_def Let_def
        del: append_Cons append_Nil split: option.split)
  show "rows_of p (drop_pending_song c blk s) = rows_of p s"
    using ne by (simp add: drop_pending_song_def del: append_Cons append_Nil split: option.split)
qed

lemma rows_fresh: "rows_of p (fresh_stage acc db) = []"
  by (simp add: rows_of_def fresh_stage_def)

lemma rows_staged:
  assumes "p \<notin> set block_tables"
  shows "rows_of p (staged c blk h w acc db) = []"
proof -
  have "rows_of p (write_block_rows c blk h w s) = rows_of p s" for s :: stage
    using assms by (auto simp: write_block_rows_def put_batch_u32_def put_batch_u64_def block_tables_def Let_def)
  with assms show ?thesis by (simp add: staged_def rows_song rows_fresh)
qed

lemma rows_sealed:
  assumes "p \<notin> set block_tables"
  shows "rows_of p (sealed c blk t) = rows_of p t"
proof -
  have "rows_of p (drain_mempool c txs s) = rows_of p s" for txs and s :: stage
    unfolding drain_mempool_def
    by (rule rows_foldl) (use assms in \<open>auto simp: block_tables_def key_class_def\<close>)
  then show ?thesis
    using assms by (auto simp: sealed_def with_acc_def rows_of_def put_batch_def block_tables_def)
qed

section \<open>From the batch to the store\<close>

lemma get_write_class:
  assumes "kv_ok db" and "key_class k = Some p"
  shows "kv_get (kv_write db ops) k =
    kv_get (kv_write db (filter (\<lambda>x. key_class (kvs.op_key x) = Some p) ops)) k"
proof (induction ops rule: rev_induct)
  case (snoc x ops)
  note ok = kv_ok_write [OF assms(1)]
  from snoc assms(2) show ?case
    by (cases x) (auto simp: kv_get_put [OF ok] kv_get_del)
qed simp

lemma pending_rows:
  "kv_ok (db_store s) \<Longrightarrow> key_class k = Some p \<Longrightarrow>
   kv_get (pending s) k = kv_get (kv_write (db_store s) (rows_of p s)) k"
  unfolding pending_def rows_of_def by (rule get_write_class)

text \<open>What an accepted block leaves under the keys of a table that only transactions write.\<close>

lemma connected_row:
  assumes "connect_block c an blk ch = (True, ch')" and "kv_ok (ch_store ch)"
  obtains t where "apply_tx_list c (next_height ch) (blk_transactions blk)
      (staged c blk (next_height ch) (next_weight blk ch) (ch_acc ch) (ch_store ch)) = (True, t)"
    and "db_store t = ch_store ch"
    and "\<And>p k. p \<notin> set block_tables \<Longrightarrow> key_class k = Some p \<Longrightarrow>
      kv_get (ch_store ch') k = kv_get (kv_write (ch_store ch) (rows_of p t)) k"
proof -
  obtain b t where r: "run_block c blk ch = (b, t)" by fastforce
  with assms(1) have b: b and ch': "ch' = connected c blk t ch"
    by (auto simp: connect_block_cases split: if_splits)
  note st = run_block_laws(2) [OF r]
  show ?thesis
  proof (rule that)
    show "apply_tx_list c (next_height ch) (blk_transactions blk)
      (staged c blk (next_height ch) (next_weight blk ch) (ch_acc ch) (ch_store ch)) = (True, t)"
      using r b by (simp add: run_block_def)
    fix p k assume p: "p \<notin> set block_tables" and k: "key_class k = Some p"
    have "kv_ok (db_store (sealed c blk t))" using assms(2) sealed_laws(1) [OF st] by simp
    from pending_rows [OF this k] show
      "kv_get (ch_store ch') k = kv_get (kv_write (ch_store ch) (rows_of p t)) k"
      by (simp add: ch' rows_sealed [OF p] sealed_laws(1) [OF st])
  qed (rule st)
qed

text \<open>Rows that all satisfy \<open>P\<close>: a key keeps its value if no row that may be appended has it.\<close>

lemma unchanged_row:
  assumes "kv_ok db" and "\<forall>x\<in>set ops. kvs.op_key x \<noteq> k"
  shows "kv_get (kv_write db ops) k = kv_get db k"
  using kvs.get_commit_other [OF assms(1), of k ops] assms(2) by (auto simp: kv_write_eq)

text \<open>The tables of nonces and sessions are not tables of the block.\<close>

lemma rows_nv_free: "''nv:'' \<notin> set block_tables" and rows_u_free: "''u:'' \<notin> set block_tables"
  by (simp_all add: block_tables_def)

lemma session_key_inject [simp]: "session_key x = session_key y \<longleftrightarrow> x = y"
  by (simp add: session_key_def hex_hash_def arr_eq_iff)

lemma sessions_written:
  assumes "kv_ok db"
  shows "kv_get (kv_write db (map (\<lambda>x. Put (session_key x) []) ss)) (session_key y) \<noteq> None \<longleftrightarrow>
    kv_get db (session_key y) \<noteq> None \<or> y \<in> set ss"
proof (induction ss rule: rev_induct)
  case (snoc x ss)
  then show ?case using kv_ok_write [OF assms] by (auto simp: kv_get_put)
qed simp

end
