(* ===== verification/Row_Laws.thy ===== *)
theory Row_Laws
  imports Block_Effects
begin

text \<open>
  What may be appended to the tables of nonces, sessions, user names, the founder and the
  moderator levels, as a condition on the committed store, for one transaction of any type
  and from there for a block.
\<close>

section \<open>Nonces\<close>

definition nonce_key :: "address \<Rightarrow> string" where
  "nonce_key a = ''nv:'' @ hex_addr a"

lemma nonce_key_simps [simp]:
  "key_class (nonce_key a) = Some ''nv:''" "nonce_key a = nonce_key b \<longleftrightarrow> a = b"
  by (simp_all add: nonce_key_def key_class_def hex_addr_def arr_eq_iff)

lemma get_nonce_store: "get_nonce s a = kv_u64 (db_store s) (nonce_key a)"
  by (simp add: get_nonce_def get_u64_def db_get_def kv_u64_def value_or_def nonce_key_def
      split: option.splits)

definition nonces_written :: "stage \<Rightarrow> bool" where
  "nonces_written s \<longleftrightarrow>
     (\<forall>a. kv_u64 (kv_write (db_store s) (rows_of ''nv:'' s)) (nonce_key a) = next_expected_nonce s a)"

lemma nonces_written_step:
  assumes "nonces_written s" and "nonce_step s an t" and ok: "kv_ok (db_store s)"
  shows "nonces_written t"
proof (cases an)
  case None
  with assms show ?thesis
    using next_expected_step(2) [of s t] by (simp add: nonces_written_def nonce_step_def)
next
  case (Some bn)
  obtain b n where bn: "bn = (b, n)" by (cases bn)
  with Some assms(2) have step: "nonce_step s (Some (b, n)) t" by simp
  then have rows: "rows_of ''nv:'' t = rows_of ''nv:'' s @ [Put (nonce_key b) (le_bytes 8 (n + 1))]"
    and st: "db_store t = db_store s" by (simp_all add: nonce_step_def nonce_key_def)
  show ?thesis
    using assms(1) kv_ok_write [OF ok]
    by (auto simp: nonces_written_def rows st kv_u64_put next_expected_step(1) [OF step])
qed

lemma apply_tx_list_nonces_written:
  "apply_tx_list c h txs s = (True, t) \<Longrightarrow> nonces_written s \<Longrightarrow> kv_ok (db_store s) \<Longrightarrow> nonces_written t"
proof (induction txs arbitrary: s)
  case (Cons raw txs)
  from Cons.prems(1) obtain u where u: "apply_raw_tx c h raw s = (True, u)"
    "apply_tx_list c h txs u = (True, t)" by (rule apply_tx_list_Cons)
  from apply_raw_nonce [of c h raw s] u(1) have "nonce_step s (raw_nonce raw) u" by simp
  from nonces_written_step [OF Cons.prems(2) this Cons.prems(3)] have "nonces_written u" .
  moreover have "kv_ok (db_store u)"
    using Cons.prems(3) raw_tx.handle_store [of c h raw s] u(1) by simp
  ultimately show ?case by (rule Cons.IH [OF u(2)])
qed simp

lemma reset_staged: "reset_staging (staged c blk h w acc db) = staged c blk h w acc db"
proof -
  have "reset_staging (fresh_stage acc db) = fresh_stage acc db"
    by (simp add: reset_staging_def Ledger_reset_def fresh_stage_def)
  then show ?thesis by (simp add: staged_def)
qed

lemma staged_bal: "rd_bal (staged c blk h w acc db) a = kv_u64 db (balance_key a)"
proof -
  have "lg_bal (reset_staging t) = Map.empty" for t
    by (simp add: reset_staging_def Ledger_reset_def)
  from this [of "staged c blk h w acc db"] have "lg_bal (staged c blk h w acc db) = Map.empty"
    unfolding reset_staged .
  then show ?thesis by (simp add: rd_bal_def get_balance_store)
qed

lemma staged_nonces:
  "next_expected_nonce (staged c blk h w acc db) a = kv_u64 db (nonce_key a)"
  "nonces_written (staged c blk h w acc db)"
proof -
  let ?s = "staged c blk h w acc db"
  have "reset_staging ?s = ?s" by (rule reset_staged)
  moreover have "st_nonce (reset_staging t) = Map.empty" for t
    by (simp add: reset_staging_def Ledger_reset_def)
  ultimately have "st_nonce ?s = Map.empty" by metis
  then show n: "next_expected_nonce ?s a = kv_u64 db (nonce_key a)" for a
    by (simp add: next_expected_nonce_def get_nonce_store)
  show "nonces_written ?s"
    by (simp add: nonces_written_def n rows_staged block_tables_def)
qed

section \<open>Reading the committed store\<close>

definition view :: "kv \<Rightarrow> dbst" where
  "view db = \<lparr>db_store = db, db_batch = [], db_acc = None\<rparr>"

lemma view_reads:
  "get_founder s = get_founder (view (db_store s))"
  "get_mod_level s a = get_mod_level (view (db_store s)) a"
  "username_taken s nm = username_taken (view (db_store s)) nm"
  "lookup_username s nm = lookup_username (view (db_store s)) nm"
  "get_addr_username s a = get_addr_username (view (db_store s)) a"
  "is_session_used s x = is_session_used (view (db_store s)) x"
  by (simp_all add: view_def get_founder_def get_mod_level_def username_taken_def lookup_username_def
      get_addr_username_def is_session_used_def db_get_def)

section \<open>What may be appended\<close>

definition name_row :: "kv \<Rightarrow> write_op \<Rightarrow> bool" where
  "name_row db x \<longleftrightarrow> (\<exists>nm (a :: address). x = Put (''un:'' @ lower nm) (arr_bytes a) \<and>
     username_is_well_formed nm \<and> \<not> username_taken (view db) nm)"

definition owner_row :: "kv \<Rightarrow> write_op \<Rightarrow> bool" where
  "owner_row db x \<longleftrightarrow> (\<exists>nm a. x = Put (''addrun:'' @ hex_addr a) (str_bytes (lower nm)) \<and>
     get_addr_username (view db) a = None)"

definition founder_row :: "kv \<Rightarrow> write_op \<Rightarrow> bool" where
  "founder_row db x \<longleftrightarrow> (\<exists>a :: address. x = Put ''founder:'' (arr_bytes a)) \<and> get_founder (view db) = None"

definition level_key :: "address \<Rightarrow> string" where
  "level_key a = ''mlvl:'' @ hex_addr a"

text \<open>A level is set by the bootstrap of the first founder, removed from anyone but the founder,
  or granted to anyone but the founder as one of the two grantable levels.\<close>

definition level_row :: "kv \<Rightarrow> write_op \<Rightarrow> bool" where
  "level_row db x \<longleftrightarrow>
     (\<exists>a. x = Put (level_key a) [ModLevel_FOUNDER]) \<and> get_founder (view db) = None \<or>
     (\<exists>a. x = Del (level_key a) \<and> get_founder (view db) \<noteq> None \<and> get_founder (view db) \<noteq> Some a \<and>
        get_mod_level (view db) a \<noteq> 0) \<or>
     (\<exists>a lv. x = Put (level_key a) [lv] \<and> grantable lv \<and> get_founder (view db) \<noteq> Some a)"

lemma username_rows_appended:
  assumes "fst (apply_username_register c tx s)"
  shows "appends ''un:'' name_row s (snd (apply_username_register c tx s))"
    and "appends ''addrun:'' owner_row s (snd (apply_username_register c tx s))"
proof -
  from assms have ok: "username_is_well_formed (un_name tx)" "\<not> username_taken s (un_name tx)"
    "get_addr_username s (un_owner tx) = None"
    and t: "snd (apply_username_register c tx s) = advance_nonce c (un_owner tx)
      (next_expected_nonce s (un_owner tx) + 1) (set_username c (un_name tx) (un_owner tx) s)"
    by (auto simp: apply_username_register_def Let_def split: if_splits)
  show "appends ''un:'' name_row s (snd (apply_username_register c tx s))"
    using ok view_reads(3) [of s "un_name tx"] unfolding appends_def t
    by (intro exI [of _ "[Put (''un:'' @ lower (un_name tx)) (arr_bytes (un_owner tx))]"])
      (auto simp: name_row_def)
  show "appends ''addrun:'' owner_row s (snd (apply_username_register c tx s))"
    using ok view_reads(5) [of s "un_owner tx"] unfolding appends_def t
    by (intro exI [of _ "[Put (''addrun:'' @ hex_addr (un_owner tx)) (str_bytes (lower (un_name tx)))]"])
      (auto simp: owner_row_def)
qed

lemma tag_label_edit_rows:
  "tag_label_edit c j s = Some t \<Longrightarrow> p \<in> {''founder:'', ''mlvl:''} \<Longrightarrow> rows_of p t = rows_of p s"
  by (erule label_edit_cases) auto

lemma moderator_rows_appended:
  assumes "fst (apply_moderator_op c tx h s)"
  shows "appends ''founder:'' founder_row s (snd (apply_moderator_op c tx h s))"
    and "appends ''mlvl:'' level_row s (snd (apply_moderator_op c tx h s))"
proof -
  have "appends ''founder:'' founder_row s (snd (apply_moderator_op c tx h s)) \<and>
    appends ''mlvl:'' level_row s (snd (apply_moderator_op c tx h s))"
    using assms
  proof (cases rule: moderator_accepted)
    case grant
    have "get_founder (view (db_store s)) = None"
      using grant(1) view_reads(1) [of s] by (simp add: founder_bootstrap_def)
    then show ?thesis
      by (auto simp: grant(2) bootstrapped_def appends_def founder_row_def level_row_def level_key_def
          ModLevel_FOUNDER_def)
  next
    case revoke
    then show ?thesis
      using view_reads(1) [of s] view_reads(2) [of s "mop_subject tx"]
      by (simp add: appends_def level_row_def level_key_def)
  next
    case (edit t)
    then show ?thesis by (simp add: appends_same tag_label_edit_rows)
  qed
  then show "appends ''founder:'' founder_row s (snd (apply_moderator_op c tx h s))"
    "appends ''mlvl:'' level_row s (snd (apply_moderator_op c tx h s))" by simp_all
qed

lemma execute_proposal_levels: "appends ''mlvl:'' level_row s (snd (execute_proposal c p ph h s))"
proof (cases "prop_kind p = Proposal_GRANT_MODERATOR \<and> grantable (grant_level (prop_amount p)) \<and>
    get_founder s \<noteq> Some (prop_target_addr p)")
  case True
  then have "grantable (grant_level (prop_amount p))" and "grant_level (prop_amount p) \<noteq> 0"
    by (auto simp: grantable_def ModLevel_VOICE_def ModLevel_OP_def)
  with True view_reads(1) [of s] show ?thesis
    by (auto simp: execute_proposal_def Let_def appends_def level_row_def level_key_def
        Proposal_GRANT_MODERATOR_def Proposal_HIDE_CONTENT_def Proposal_RELEASE_ESCROW_def)
next
  case False
  have "rows_of ''mlvl:'' (snd (release_escrow c p s)) = rows_of ''mlvl:'' s"
    by (rule release_escrow_tables) simp
  with False show ?thesis
    by (intro appends_same) (auto simp: execute_proposal_def Let_def case_prod_beta)
qed

lemma proposal_levels_appended:
  assumes "fst (apply_proposal c tx h s)"
  shows "appends ''mlvl:'' level_row s (snd (apply_proposal c tx h s))"
proof -
  have dec: "appends ''mlvl:'' level_row u (decided c p ph h yes u)" for p ph yes u
    using execute_proposal_levels by (simp add: decided_def appends_same)
  let ?e = "next_expected_nonce s (prop_proposer tx)"
  from assms consider approved where "apply_proposal c tx h s = file_proposal c tx h ?e approved s"
    | needed where "apply_proposal c tx h s = cast_vote c tx h ?e needed s"
    by (auto simp: apply_proposal_def Let_def split: if_splits)
  then show ?thesis
  proof cases
    case 1
    with assms have "fst (file_proposal c tx h ?e approved s)" by simp
    from file_proposal_accepted(1) [OF this] 1
      dec [of "record_vote c (ProposalTx_tx_hash c tx) (prop_proposer tx)
        (put_proposal c (ProposalTx_tx_hash c tx) (ProposalTx_serialize tx) s)"]
    show ?thesis by (simp add: Let_def appends_def record_vote_keeps)
  next
    case 2
    with assms have "fst (cast_vote c tx h ?e needed s)" by simp
    then show ?thesis
      by (cases rule: cast_vote_accepted)
        (use 2 dec [of "record_vote c (prop_target_hash tx) (prop_proposer tx) s"] in
          \<open>simp add: appends_def record_vote_keeps\<close>)
  qed
qed

section \<open>For every transaction and for a block\<close>

lemma raw_rows_appended:
  assumes "fst (apply_raw_tx c h raw s)"
  shows "appends ''un:'' name_row s (snd (apply_raw_tx c h raw s))"
    and "appends ''addrun:'' owner_row s (snd (apply_raw_tx c h raw s))"
    and "appends ''founder:'' founder_row s (snd (apply_raw_tx c h raw s))"
    and "appends ''mlvl:'' level_row s (snd (apply_raw_tx c h raw s))"
proof -
  have only: "(''un:'' \<in> set (type_tables t) \<longleftrightarrow> t = USERNAME_REGISTER) \<and>
      (''addrun:'' \<in> set (type_tables t) \<longleftrightarrow> t = USERNAME_REGISTER) \<and>
      (''founder:'' \<in> set (type_tables t) \<longleftrightarrow> t = MODERATOR_OP) \<and>
      (''mlvl:'' \<in> set (type_tables t) \<longleftrightarrow> t = MODERATOR_OP \<or> t = MODERATOR_PROPOSAL)" for t
    by (cases t) simp_all
  show "appends ''un:'' name_row s (snd (apply_raw_tx c h raw s))"
    by (rule apply_raw_appends [OF assms])
      (auto simp: only decoded_def username_rows_appended simp del: type_tables.simps split: option.splits)
  show "appends ''addrun:'' owner_row s (snd (apply_raw_tx c h raw s))"
    by (rule apply_raw_appends [OF assms])
      (auto simp: only decoded_def username_rows_appended simp del: type_tables.simps split: option.splits)
  show "appends ''founder:'' founder_row s (snd (apply_raw_tx c h raw s))"
    by (rule apply_raw_appends [OF assms])
      (auto simp: only decoded_def moderator_rows_appended simp del: type_tables.simps split: option.splits)
  show "appends ''mlvl:'' level_row s (snd (apply_raw_tx c h raw s))"
    by (rule apply_raw_appends [OF assms])
      (auto simp: only decoded_def moderator_rows_appended proposal_levels_appended
        simp del: type_tables.simps split: option.splits)
qed

lemma connected_appends:
  assumes "connect_block c an blk ch = (True, ch')" and "kv_ok (ch_store ch)"
    and "p \<notin> set block_tables"
    and "\<And>raw h s. fst (apply_raw_tx c h raw s) \<Longrightarrow> appends p P s (snd (apply_raw_tx c h raw s))"
  obtains ops where "\<forall>x\<in>set ops. P (ch_store ch) x"
    and "\<And>k. key_class k = Some p \<Longrightarrow> kv_get (ch_store ch') k = kv_get (kv_write (ch_store ch) ops) k"
proof -
  from connected_row [OF assms(1,2)] obtain t where
    t: "apply_tx_list c (next_height ch) (blk_transactions blk)
      (staged c blk (next_height ch) (next_weight blk ch) (ch_acc ch) (ch_store ch)) = (True, t)"
    and row: "\<And>k. key_class k = Some p \<Longrightarrow>
      kv_get (ch_store ch') k = kv_get (kv_write (ch_store ch) (rows_of p t)) k"
    using assms(3) by metis
  from apply_tx_list_appends [OF assms(4) t]
  have "\<forall>x\<in>set (rows_of p t). P (ch_store ch) x"
    by (auto simp: appends_def rows_staged [OF assms(3)])
  then show ?thesis using row by (rule that)
qed

text \<open>A key no appended row can have keeps its value.\<close>

lemma connected_unchanged:
  assumes "connect_block c an blk ch = (True, ch')" and ok: "kv_ok (ch_store ch)"
    and k: "key_class k = Some p" and "p \<notin> set block_tables"
    and "\<And>raw h s. fst (apply_raw_tx c h raw s) \<Longrightarrow> appends p P s (snd (apply_raw_tx c h raw s))"
    and free: "\<And>x. P (ch_store ch) x \<Longrightarrow> kvs.op_key x \<noteq> k"
  shows "kv_get (ch_store ch') k = kv_get (ch_store ch) k"
proof -
  from connected_appends [OF assms(1,2,4,5)] obtain ops where
    ops: "\<forall>x\<in>set ops. P (ch_store ch) x"
    and row: "\<And>k. key_class k = Some p \<Longrightarrow> kv_get (ch_store ch') k = kv_get (kv_write (ch_store ch) ops) k"
    by blast
  have "kv_get (kv_write (ch_store ch) ops) k = kv_get (ch_store ch) k"
    by (rule unchanged_row [OF ok]) (use ops free in blast)
  with row [OF k] show ?thesis by simp
qed

lemma tables_free:
  "''un:'' \<notin> set block_tables" "''addrun:'' \<notin> set block_tables" "''founder:'' \<notin> set block_tables"
  "''mlvl:'' \<notin> set block_tables"
  by (simp_all add: block_tables_def)

lemma key_class_rows:
  "key_class (''un:'' @ r) = Some ''un:''" "key_class (''addrun:'' @ r) = Some ''addrun:''"
  "key_class ''founder:'' = Some ''founder:''" "key_class (level_key a) = Some ''mlvl:''"
  by (simp_all add: key_class_def level_key_def)

end
