(* ===== verification/Tx_Samples.thy ===== *)
theory Tx_Samples
  imports Row_Laws Chain_Properties
begin

text \<open>
  Concrete chains and blocks at which the properties of transactions are applied: a genesis
  with further rows in its store, blocks on top of it that connect, the registration of a
  name and a mint for a play of a song that is on chain.
\<close>

section \<open>Blocks to apply the properties at\<close>

text \<open>A block with the given transactions on top of a chain, with the root the chain answers.\<close>

definition next_block :: "chain \<Rightarrow> bytes list \<Rightarrow> Block" where
  "next_block ch txs =
     (let b = (sample_block txs)\<lparr>blk_header := (blk_header (sample_block txs))\<lparr>hd_prev_hash := tip_hash (ch_tip ch)\<rparr>\<rparr>
      in b\<lparr>blk_header := (blk_header b)\<lparr>hd_state_root := fst (compute_candidate_state_root toy_crypto b ch)\<rparr>\<rparr>)"

lemma next_block_transactions [simp]: "blk_transactions (next_block ch txs) = txs"
  by (simp add: next_block_def sample_block_def)

lemma next_block_connects:
  assumes "length txs \<le> 3" and "length (concat (map write_raw_tx txs)) \<le> 1000"
    and "ch_checkpoints ch = Map.empty"
    and "fst (apply_tx_list toy_crypto (next_height ch) txs (fresh_stage (ch_acc ch) (ch_store ch)))"
  shows "connect_block toy_crypto True (next_block ch txs) ch =
    (True, snd (connect_block toy_crypto True (next_block ch txs) ch))"
proof -
  let ?b = "(sample_block txs)\<lparr>blk_header := (blk_header (sample_block txs))\<lparr>hd_prev_hash := tip_hash (ch_tip ch)\<rparr>\<rparr>"
  have same: "run_candidate toy_crypto (next_block ch txs) ch = run_candidate toy_crypto ?b ch"
    by (simp add: run_candidate_def next_block_def sample_block_def write_song_rows_def)
  have "Block_validate toy_crypto (next_block ch txs)"
    using sample_block_valid [OF assms(1,2)]
    by (simp add: Block_validate_iff next_block_def)
      (simp add: sample_block_def Block_serialize_def BlockHeader_serialize_def length_simps
        Block_compute_song_body_hash_def)
  then have "admissible toy_crypto True (next_block ch txs) ch"
    by (simp add: admissible_def validate_block_def checkpoint_ok_def assms(3))
      (simp add: next_block_def sample_block_def is_duplicate_song_def)
  moreover have "fst (run_candidate toy_crypto (next_block ch txs) ch)"
    using assms(4) by (simp add: run_candidate_def write_song_rows_def)
      (simp add: next_block_def sample_block_def)
  moreover have "hd_state_root (blk_header (next_block ch txs)) =
      fst (compute_candidate_state_root toy_crypto (next_block ch txs) ch)"
    using same by (simp add: compute_candidate_eq) (simp add: next_block_def compute_candidate_eq)
  ultimately have "fst (connect_block toy_crypto True (next_block ch txs) ch)"
    by (simp add: connect_block_iff)
  then show ?thesis by (metis prod.collapse)
qed

lemma genesis_store: "ch_store genesis = [(sr_vec_key, serialize_vec (scan_state_accumulator toy_crypto []))]"
  by (simp add: genesis_def Chain_open_def empty_stage_def db_get_def Let_def ch_store_def db_put_now_def)

lemma genesis_get: "key_class k \<noteq> Some ''sr:'' \<Longrightarrow> kv_get (ch_store genesis) k = None"
  by (auto simp: genesis_store kv_get_def)

lemma genesis_ok: "kv_ok (ch_store genesis)"
  using genesis_parts(3) by (simp add: healthy_def chain_ok_def store_ok_def)

text \<open>A genesis with more rows, and reads from it.\<close>

definition genesis_with :: "(string \<times> bytes) list \<Rightarrow> chain" where
  "genesis_with rows = with_store (kv_write (ch_store genesis) (map (\<lambda>(k, v). Put k v) rows)) genesis"

lemma genesis_with_store [simp]:
  "ch_store (genesis_with rows) = kv_write (ch_store genesis) (map (\<lambda>(k, v). Put k v) rows)"
  "db_store (ch_stage (genesis_with rows)) = kv_write (ch_store genesis) (map (\<lambda>(k, v). Put k v) rows)"
  "ch_checkpoints (genesis_with rows) = Map.empty" "next_height (genesis_with rows) = 1"
  by (simp_all add: genesis_with_def with_store_def ch_store_def next_height_def genesis_parts)
    (simp_all add: genesis_def Chain_open_def empty_stage_def db_get_def Let_def restore_checkpoints_def
      kv_scan_def add_config_checkpoints_def hardcoded_checkpoints_def List.map_filter_def)

lemma genesis_with_ok: "kv_ok (ch_store (genesis_with rows))"
  by (simp add: kv_ok_write genesis_ok)

lemma kv_get_rows:
  "kv_get (kv_write (ch_store genesis) (map (\<lambda>(k, v). Put k v) rows)) k =
     (case map_of (rev rows) k of Some v \<Rightarrow> Some v | None \<Rightarrow> kv_get (ch_store genesis) k)"
proof (induction rows rule: rev_induct)
  case (snoc kv rows)
  then show ?case
    using kv_ok_write [OF genesis_ok] by (cases kv) (auto simp: kv_get_put)
qed simp

lemma genesis_with_get:
  "key_class k \<noteq> Some ''sr:'' \<Longrightarrow> kv_get (ch_store (genesis_with rows)) k = map_of (rev rows) k"
  by (simp add: kv_get_rows genesis_get split: option.split)

abbreviation fresh_at :: "lanes \<Rightarrow> (string \<times> bytes) list \<Rightarrow> stage" where
  "fresh_at acc rows \<equiv> fresh_stage acc (ch_store (genesis_with rows))"

abbreviation fresh_with :: "(string \<times> bytes) list \<Rightarrow> stage" where
  "fresh_with rows \<equiv> fresh_at (ch_acc (genesis_with rows)) rows"

lemma fresh_with_get:
  "key_class k \<noteq> Some ''sr:'' \<Longrightarrow> db_get (fresh_at acc rows) k = map_of (rev rows) k"
  by (simp add: db_get_def fresh_stage_def kv_get_rows genesis_get split: option.split)

lemma fresh_reads:
  "rd_bal (fresh_stage acc db) a = kv_u64 db (balance_key a)"
  "rd_supply (fresh_stage acc db) = kv_u64 db supply_key"
  "next_expected_nonce (fresh_stage acc db) a = kv_u64 db (nonce_key a)"
  by (simp_all add: rd_bal_def rd_supply_def next_expected_nonce_def get_balance_store
      get_total_supply_store get_nonce_store fresh_stage_def)

lemma genesis_with_zero:
  "key_class k \<noteq> Some ''sr:'' \<Longrightarrow> map_of (rev rows) k = None \<Longrightarrow> kv_u64 (ch_store (genesis_with rows)) k = 0"
  unfolding kv_u64_def by (subst genesis_with_get) simp_all

text \<open>The registration of a name.\<close>

definition name_tx :: UsernameTx where
  "name_tx = \<lparr>un_name = ''anna'', un_owner = 0, un_owner_pubkey = 0, un_nonce = 0, un_signature = 0\<rparr>"

lemma apply_name_tx: "apply_raw_tx c h (UsernameTx_serialize name_tx) s = apply_username_register c name_tx s"
proof -
  have "UsernameTx_deserialize (UsernameTx_serialize name_tx) = Some name_tx"
    by (rule username.deser_ser_nil) (simp add: UsernameTx_ok_def name_tx_def)
  then show ?thesis
    by (simp add: apply_raw_tx_def UsernameTx_serialize_def tx_type_of_def all_tx_types_def decoded_def)
qed

lemma toy_address_zero: "mk_arr (arr_bytes (0 :: pubkey33)) = (0 :: address)"
  by (simp add: arr_eq_iff arr_bytes_zero arr_bytes_mk_arr_take)

lemma name_tx_accepted:
  assumes "next_expected_nonce s 0 = 0" and "\<not> username_taken s ''anna''" and "get_addr_username s 0 = None"
  shows "fst (apply_username_register toy_crypto name_tx s)"
  using assms by (simp add: apply_username_register_def name_tx_def UsernameTx_verify_signature_def
      verify_inline_def username_is_well_formed_def toy_address_zero)

lemma length_name_tx: "length (UsernameTx_serialize name_tx) \<le> 200"
  by (simp add: UsernameTx_serialize_def UsernameTx_body_def name_tx_def length_simps)

text \<open>On a chain with no row for nonces and names, the block with this transaction connects.\<close>

abbreviation name_block :: "(string \<times> bytes) list \<Rightarrow> Block" where
  "name_block rows \<equiv> next_block (genesis_with rows) [UsernameTx_serialize name_tx]"

lemma name_block_connects:
  assumes "list_all (\<lambda>(k, v). key_class k \<notin> {Some ''nv:'', Some ''un:'', Some ''addrun:''}) rows"
  shows "connect_block toy_crypto True (name_block rows) (genesis_with rows) =
    (True, snd (connect_block toy_crypto True (name_block rows) (genesis_with rows)))"
proof (rule next_block_connects)
  let ?s = "fresh_with rows"
  have none: "db_get ?s k = None" if "key_class k \<in> {Some ''nv:'', Some ''un:'', Some ''addrun:''}" for k
  proof -
    have "k \<notin> fst ` set rows" using assms that by (auto simp: list_all_iff)
    then have "map_of (rev rows) k = None" by (simp add: map_of_eq_None_iff)
    with that show ?thesis by (subst fresh_with_get) auto
  qed
  have "db_get ?s (''nv:'' @ hex_addr 0) = None" by (rule none) (simp add: key_class_def)
  then have "get_nonce ?s 0 = 0" by (simp add: get_nonce_def get_u64_def value_or_def)
  moreover have "st_nonce ?s = Map.empty" by (simp add: fresh_stage_def)
  ultimately have "next_expected_nonce ?s 0 = 0" by (simp add: next_expected_nonce_def)
  moreover have "db_get ?s (''un:'' @ lower ''anna'') = None" "db_get ?s (''addrun:'' @ hex_addr 0) = None"
    by (rule none; simp add: key_class_def)+
  then have "\<not> username_taken ?s ''anna''" "get_addr_username ?s 0 = None"
    by (simp_all add: username_taken_def get_addr_username_def)
  ultimately have "fst (apply_username_register toy_crypto name_tx ?s)" by (rule name_tx_accepted)
  then show "fst (apply_tx_list toy_crypto (next_height (genesis_with rows)) [UsernameTx_serialize name_tx] ?s)"
    by (cases "apply_username_register toy_crypto name_tx ?s") (simp add: apply_name_tx)
qed (use length_name_tx in \<open>simp_all add: write_raw_tx_def length_simps\<close>)

section \<open>A mint\<close>

definition mint_play :: PlayProof where
  "mint_play = sample_play\<lparr>pp_serving_node_pubkey := mk_arr [7],
     pp_serving_node_id := mk_arr (arr_bytes (mk_arr [7] :: pubkey33)), pp_version := 3\<rparr>"

definition sample_song :: SongSection where
  "sample_song = \<lparr>song_audio_format = 0, song_content_hash = mk_arr [2],
     song_compressed_fingerprint = [], song_duration_ms = 30000, song_title = ''t'',
     song_artist = ''a'', song_artist_address = mk_arr [4], song_genre = ''g'', song_album = ''b'',
     song_year = 2024, song_track_number = 1, song_royalty_splits = []\<rparr>"

definition song_block :: Block where
  "song_block = (sample_block [])\<lparr>blk_song := Some sample_song\<rparr>"

text \<open>The root of a settlement body with this play alone.\<close>

definition play_root :: hash256 where
  "play_root = merkle_root_bytes toy_crypto [PlayProof_serialize mint_play]"

definition song_rows :: "(string \<times> bytes) list" where
  "song_rows = [(''bh:'' @ hex_hash (mk_arr [2]), le_bytes 4 (1 :: u32)),
     (height_key 1, arr_bytes (mk_arr [3] :: hash256)),
     (block_key (mk_arr [3]), Block_serialize song_block),
     (''v:'' @ hex_hash 0, arr_bytes (mk_arr [7] :: pubkey33)),
     (''sb:'' @ hex_hash play_root, serialize_settle_body [mint_play])]"

lemma song_block_roundtrip: "Block_deserialize (Block_serialize song_block) = Some song_block"
proof -
  have "Block_ok song_block"
    by (simp add: Block_ok_def song_block_def sample_block_def BlockHeader_ok_def song_fields_ok_def
        sample_song_def)
  from Block_roundtrip [OF this, of "[]"] show ?thesis by simp
qed

lemma song_on_genesis: "get_song_section (fresh_at acc song_rows) (mk_arr [2]) = Some sample_song"
proof -
  have "db_get (fresh_at acc song_rows) (''bh:'' @ hex_hash (mk_arr [2])) = Some (le_bytes 4 (1 :: u32))"
    "db_get (fresh_at acc song_rows) (height_key 1) = Some (arr_bytes (mk_arr [3] :: hash256))"
    "db_get (fresh_at acc song_rows) (block_key (mk_arr [3])) = Some (Block_serialize song_block)"
    by (subst fresh_with_get; simp add: song_rows_def height_key_def block_key_def key_class_def)+
  then show ?thesis
    by (simp add: get_song_section_def get_content_height_def get_u32_def song_block_roundtrip)
      (simp add: song_block_def)
qed

definition sample_mint :: MintTx where
  "sample_mint = \<lparr>mt_proof = mint_play,
     mt_outputs = compute_mint_outputs toy_crypto mint_play sample_song 0
       (address_from_pubkey toy_crypto (mk_arr [7])),
     mt_burn_amount = 0\<rparr>"

lemma mk_arr_nonzero: "bs \<noteq> [] \<Longrightarrow> hd bs \<noteq> 0 \<Longrightarrow> (mk_arr bs :: 'n::len arr) \<noteq> 0"
  by (cases bs; cases "LENGTH('n)") (auto simp: arr_eq_iff arr_bytes_zero arr_bytes_mk_arr_take)

lemma sample_mint_valid: "validate_mint toy_crypto sample_mint (fresh_at acc song_rows) 1 = None"
proof -
  have "db_get (fresh_at acc song_rows) (session_key (mk_arr [1])) = None"
    by (subst fresh_with_get) (simp_all add: song_rows_def session_key_def height_key_def block_key_def key_class_def)
  then have c: "check_play toy_crypto mint_play (fresh_at acc song_rows) 1 = None"
    by (simp add: check_play_def is_session_used_def mint_play_def sample_play_def
        COSIGN_ACTIVATION_HEIGHT_def Let_def word_le_nat_alt)
  have "db_get (fresh_at acc song_rows) (''s:'' @ hex_hash (mk_arr [2])) = None"
    by (subst fresh_with_get) (simp_all add: song_rows_def key_class_def height_key_def block_key_def)
  then have "get_play_count (fresh_at acc song_rows) (mk_arr [2]) = 0"
    by (simp add: get_play_count_def get_song_state_def SongState_default_def)
  then have "recompute_mint toy_crypto mint_play (fresh_at acc song_rows) =
      Inr (mt_outputs sample_mint, mt_burn_amount sample_mint)"
    using song_on_genesis
    by (simp add: recompute_mint_def Let_def sample_mint_def)
      (simp add: mint_play_def sample_play_def FULL_REWARD_THRESHOLD_def)
  with c show ?thesis by (simp add: validate_mint_def) (simp add: sample_mint_def)
qed

lemma fresh_supply: "rd_supply (fresh_at acc song_rows) = 0"
proof -
  have "db_get (fresh_at acc song_rows) supply_key = None"
    by (subst fresh_with_get) (simp_all add: song_rows_def supply_key_def height_key_def block_key_def key_class_def)
  then have "get_total_supply (fresh_at acc song_rows) = 0"
    by (simp add: get_total_supply_def get_u64_def value_or_def)
  then show ?thesis by (simp add: rd_supply_def) (simp add: fresh_stage_def)
qed

lemma sample_outputs:
  "mt_outputs sample_mint = [mk_output (escrow_address_for toy_crypto (mk_arr [4])) 100000000,
     mk_output (mk_arr (arr_bytes (mk_arr [7] :: pubkey33))) 100000000, mk_output (mk_arr [5]) 100000000,
     mk_output (mk_arr [8]) 100000000, mk_output (mk_arr [9]) 100000000]"
proof -
  have "(mk_arr (arr_bytes (mk_arr [7] :: pubkey33)) :: address) \<noteq> 0" "(mk_arr [5] :: address) \<noteq> 0"
    "(mk_arr [8] :: address) \<noteq> 0" "(mk_arr [9] :: address) \<noteq> 0" "(mk_arr [8] :: address) \<noteq> mk_arr [5]"
    by (rule mk_arr_nonzero; simp add: arr_bytes_mk_arr_take)+
      (auto simp: arr_eq_iff arr_bytes_mk_arr_take)
  then show ?thesis
    by (simp add: sample_mint_def compute_mint_outputs_def artist_outputs_def valid_splits_def sample_song_def
        FULL_REWARD_THRESHOLD_def FULL_DISCOVERER_REWARD_def FULL_ARTIST_REWARD_def FULL_NODE_REWARD_def
        FULL_SEEDER_REWARD_def FULL_MININODE_REWARD_def)
      (simp add: mint_play_def sample_play_def)
qed

lemma sample_mint_accepted: "fst (apply_mint_tx toy_crypto sample_mint 1 (fresh_at acc song_rows))"
proof -
  have nz: "escrow_address_for toy_crypto (mk_arr [4]) \<noteq> 0" "(mk_arr (arr_bytes (mk_arr [7] :: pubkey33)) :: address) \<noteq> 0"
    "(mk_arr [5] :: address) \<noteq> 0" "(mk_arr [8] :: address) \<noteq> 0" "(mk_arr [9] :: address) \<noteq> 0"
    unfolding escrow_address_for_def toy_crypto_simps
    by (rule mk_arr_nonzero; simp add: arr_bytes_mk_arr_take str_bytes_def byte_of_char_def)+
  have "mint_total (mt_outputs sample_mint) = 500000000" "mt_burn_amount sample_mint = 0"
    by (simp add: sample_outputs mint_total_def mk_output_def) (simp add: sample_mint_def)
  moreover have "\<not> list_ex (\<lambda>o'. mo_recipient o' = 0) (mt_outputs sample_mint)"
    by (simp add: sample_outputs mk_output_def nz)
  moreover have "rd_supply (fresh_at acc song_rows\<lparr>st_sessions := x\<rparr>) = 0" for x
    using fresh_supply rd_supply_cong [of "fresh_at acc song_rows\<lparr>st_sessions := x\<rparr>" "fresh_at acc song_rows"]
    by simp
  moreover have "st_sessions (fresh_at acc song_rows) = {}" by (simp add: fresh_stage_def)
  ultimately show ?thesis
    by (simp add: apply_mint_tx_def sample_mint_valid [simplified] apply_mint_def Let_def SUPPLY_CAP_def)
qed

lemma apply_sample_mint: "apply_raw_tx c h (MintTx_serialize sample_mint) s = apply_mint_tx c sample_mint h s"
proof -
  have "MintTx_ok sample_mint"
    by (simp add: MintTx_ok_def sample_outputs) (simp add: sample_mint_def mint_play_def PlayProof_normal_def sample_play_def)
  then have "MintTx_deserialize (MintTx_serialize sample_mint) = Some sample_mint"
    by (rule mint.deser_ser_nil)
  then show ?thesis
    by (simp add: apply_raw_tx_def MintTx_serialize_def Let_def tx_type_of_def all_tx_types_def decoded_def)
qed

text \<open>A settlement of the same play, signed by the same node, accepted wherever the epoch is open.\<close>

definition sample_settlement :: SettlementMintTx where
  "sample_settlement = \<lparr>sm_serving_node_id = 0, sm_serving_node_wallet = mk_arr (arr_bytes (mk_arr [7] :: pubkey33)),
     sm_epoch_id = 1, sm_constituents_merkle_root = play_root, sm_constituent_count = 1, sm_node_signature = 0\<rparr>"

lemma settle_body_sample: "settle_body_of sample_settlement (fresh_at acc song_rows) = Some [mint_play]"
proof -
  have "db_get (fresh_at acc song_rows) (''sb:'' @ hex_hash play_root) = Some (serialize_settle_body [mint_play])"
    by (subst fresh_with_get) (simp_all add: song_rows_def height_key_def block_key_def key_class_def)
  moreover have "deserialize_settle_body (serialize_settle_body [mint_play]) = Some [mint_play]"
    using deserialize_serialize_settle_body [of "[mint_play]" "[]"]
    by (simp add: MAX_SETTLE_BODY_PROOFS_def mint_play_def sample_play_def PlayProof_normal_def)
  ultimately show ?thesis by (simp add: settle_body_of_def sample_settlement_def)
qed

lemma sample_settlement_accepted:
  assumes "db_store s = db_store (fresh_at acc song_rows)"
  shows "fst (apply_settlement_mint toy_crypto sample_settlement h s)"
proof -
  have get: "db_get s k = db_get (fresh_at acc song_rows) k" for k using assms by (simp add: db_get_def)
  have "db_get s (''v:'' @ hex_hash 0) = Some (arr_bytes (mk_arr [7] :: pubkey33))"
    "db_get s (epoch_key 0 1) = None"
    unfolding get epoch_key_def by (subst fresh_with_get;
      simp add: song_rows_def height_key_def block_key_def key_class_def)+
  moreover have "db_get s (''sb:'' @ hex_hash play_root) = db_get (fresh_at acc song_rows) (''sb:'' @ hex_hash play_root)"
    by (rule get)
  ultimately show ?thesis
    using settle_body_sample [of acc]
    by (auto simp: apply_settlement_mint_def settle_body_of_def sample_settlement_def bind_eq_Some_conv
        MAX_CONSTITUENTS_PER_SETTLEMENT_def play_root_def Let_def case_prod_beta)
qed

lemma settlement_as_tx:
  "SettlementMintTx_deserialize (SettlementMintTx_serialize sample_settlement) = Some sample_settlement"
  "apply_raw_tx c h (SettlementMintTx_serialize sample_settlement) s = apply_settlement_mint c sample_settlement h s"
proof -
  show d: "SettlementMintTx_deserialize (SettlementMintTx_serialize sample_settlement) = Some sample_settlement"
    by (rule settlement.deser_ser_nil) simp
  show "apply_raw_tx c h (SettlementMintTx_serialize sample_settlement) s = apply_settlement_mint c sample_settlement h s"
    using d by (simp add: apply_raw_tx_def SettlementMintTx_serialize_def Let_def tx_type_of_def all_tx_types_def decoded_def)
qed

abbreviation mint_block :: Block where
  "mint_block \<equiv> next_block (genesis_with song_rows)
     [MintTx_serialize sample_mint, SettlementMintTx_serialize sample_settlement]"

lemma mint_block_connects:
  "connect_block toy_crypto True mint_block (genesis_with song_rows) =
    (True, snd (connect_block toy_crypto True mint_block (genesis_with song_rows)))"
proof (rule next_block_connects)
  let ?s = "fresh_with song_rows"
  obtain t where t: "apply_mint_tx toy_crypto sample_mint 1 ?s = (True, t)"
    using sample_mint_accepted [of "ch_acc (genesis_with song_rows)"]
    by (cases "apply_mint_tx toy_crypto sample_mint 1 ?s") simp
  have "db_store t = db_store ?s"
    using mint_handler.handle_store [of toy_crypto sample_mint 1 ?s] t by simp
  then have "fst (apply_settlement_mint toy_crypto sample_settlement 1 t)" by (rule sample_settlement_accepted)
  then show "fst (apply_tx_list toy_crypto (next_height (genesis_with song_rows))
      [MintTx_serialize sample_mint, SettlementMintTx_serialize sample_settlement] ?s)"
    using t by (cases "apply_settlement_mint toy_crypto sample_settlement 1 t")
      (simp add: apply_sample_mint settlement_as_tx)
  have "length (MintTx_serialize sample_mint) \<le> 800"
    by (simp add: MintTx_serialize_def sample_outputs write_MintOutput_def mk_output_def length_simps)
      (simp add: sample_mint_def mint_play_def sample_play_def PlayProof_size_def)
  moreover have "length (SettlementMintTx_serialize sample_settlement) \<le> 180"
    by (simp add: SettlementMintTx_serialize_def length_simps)
  ultimately show "length (concat (map write_raw_tx [MintTx_serialize sample_mint,
      SettlementMintTx_serialize sample_settlement])) \<le> 1000"
    by (simp add: write_raw_tx_def length_simps)
qed simp_all

text \<open>The stages above satisfy the invariant when they start from the scan of their store.\<close>

lemma sound_fresh_rows:
  assumes "list_all (\<lambda>(k, v). key_class k \<notin> {Some ''a:'', Some ''c:''}) rows"
  shows "sound toy_crypto (fresh_at (scan_state_accumulator toy_crypto (ch_store (genesis_with rows))) rows)"
proof (rule sound_fresh)
  have "kv_get (ch_store (genesis_with rows)) k = None" if "key_class k \<in> {Some ''a:'', Some ''c:''}" for k
  proof -
    have "k \<notin> fst ` set rows" using assms that by (auto simp: list_all_iff)
    then have "map_of (rev rows) k = None" by (simp add: map_of_eq_None_iff)
    with that show ?thesis by (subst genesis_with_get) auto
  qed
  then have "kv_u64 (ch_store (genesis_with rows)) (balance_key a) = 0"
    "kv_u64 (ch_store (genesis_with rows)) supply_key = 0" for a
    by (simp_all add: kv_u64_def)
  with genesis_with_ok [of rows] show "store_ok (ch_store (genesis_with rows))"
    by (simp add: store_ok_def)
qed

end
