(* ===== verification/Tx_Properties.thy ===== *)
theory Tx_Properties
  imports Tx_Samples
begin

text \<open>
  Properties of the transactions of a block: replay protection by nonces and by sessions, what
  can never be taken away from a founder or an owner of a name, and what each type of
  transaction may write.
\<close>

section \<open>Replay\<close>

text \<open>C9. Nonces run without gaps: the transactions of one sender in an accepted block carry
  consecutive nonces that start at the number the store holds, in block order, and the block
  leaves the next one in the store. No transaction with a nonce is applied twice, neither in
  the block nor in the next one.\<close>

theorem block_nonces_consecutive:
  assumes "kv_ok (ch_store ch)" and "connect_block c an blk ch = (True, ch')"
  shows "nonces_of a (blk_transactions blk) =
      map (\<lambda>i. get_nonce (ch_stage ch) a + of_nat i) [0..<length (nonces_of a (blk_transactions blk))] \<and>
    get_nonce (ch_stage ch') a =
      get_nonce (ch_stage ch) a + of_nat (length (nonces_of a (blk_transactions blk)))"
proof -
  let ?s = "staged c blk (next_height ch) (next_weight blk ch) (ch_acc ch) (ch_store ch)"
  from connected_row [OF assms(2,1)] obtain t where
    t: "apply_tx_list c (next_height ch) (blk_transactions blk) ?s = (True, t)"
    and st: "db_store t = ch_store ch"
    and row: "kv_get (ch_store ch') (nonce_key a) =
      kv_get (kv_write (ch_store ch) (rows_of ''nv:'' t)) (nonce_key a)"
    by (metis nonce_key_simps(1) rows_nv_free)
  have "nonces_written t"
    using apply_tx_list_nonces_written [OF t staged_nonces(2)] assms(1) by simp
  with st row have "get_nonce (ch_stage ch') a = next_expected_nonce t a"
    by (simp add: nonces_written_def get_nonce_store ch_store_def [symmetric] kv_u64_def)
  with apply_tx_list_nonces [OF t, of a] show ?thesis
    by (simp add: staged_nonces(1) counting_def get_nonce_store ch_store_def [symmetric])
qed

theorem block_nonces_consecutive_witness:
  "let ch = genesis_with []; blk = name_block []
   in nonces_of 0 (blk_transactions blk) = [0] \<and>
      get_nonce (ch_stage (snd (connect_block toy_crypto True blk ch))) 0 = 1"
proof -
  let ?ch = "genesis_with []"
  have "nonces_of 0 [UsernameTx_serialize name_tx] = [0]"
  proof -
    have "UsernameTx_deserialize (UsernameTx_serialize name_tx) = Some name_tx"
      by (rule username.deser_ser_nil) (simp add: UsernameTx_ok_def name_tx_def)
    then show ?thesis
      by (simp add: raw_nonce_def UsernameTx_serialize_def tx_type_of_def all_tx_types_def)
        (simp add: name_tx_def)
  qed
  moreover have "kv_get (ch_store ?ch) (nonce_key 0) = None"
    by (subst genesis_with_get) simp_all
  then have "get_nonce (ch_stage ?ch) 0 = 0"
    by (simp add: get_nonce_store kv_u64_def)
  ultimately show ?thesis
    using block_nonces_consecutive [OF genesis_with_ok name_block_connects [of "[]"], of 0]
    by (simp add: Let_def)
qed

text \<open>C10. A play session is paid once: the transactions of an accepted block use up sessions, each
  of them new to the store and used once in the block, by mints and settlements together. Every
  mint uses its own session and pays its outputs; every settlement pays, out of its stored body,
  just the plays whose sessions it uses up, each with the outputs its song and a play count
  give; no other transaction uses a session. After the block exactly those sessions are used in
  addition to the old ones.\<close>

theorem block_sessions_fresh:
  assumes "kv_ok (ch_store ch)" and "connect_block c an blk ch = (True, ch')"
  shows "\<exists>s t pays. db_store s = ch_store ch \<and> (\<forall>a. rd_bal s a = get_balance (ch_stage ch) a) \<and>
    paid_run c (tip_height (ch_tip ch) + 1) s (blk_transactions blk) pays t \<and>
    distinct (concat pays) \<and>
    (\<forall>x. is_session_used (ch_stage ch') x \<longleftrightarrow>
       is_session_used (ch_stage ch) x \<or> x \<in> set (concat pays)) \<and>
    (\<forall>x\<in>set (concat pays). \<not> is_session_used (ch_stage ch) x)"
proof -
  let ?s = "staged c blk (next_height ch) (next_weight blk ch) (ch_acc ch) (ch_store ch)"
  from connected_row [OF assms(2,1)] obtain t where
    t: "apply_tx_list c (next_height ch) (blk_transactions blk) ?s = (True, t)"
    and row: "\<And>x. kv_get (ch_store ch') (session_key x) =
      kv_get (kv_write (ch_store ch) (rows_of ''u:'' t)) (session_key x)"
    by (metis key_class_names(3) rows_u_free)
  from apply_tx_list_sessions [OF t] obtain pays where
    pays: "paid_run c (next_height ch) ?s (blk_transactions blk) pays t" "spends ?s (concat pays) t" by blast
  have "rows_of ''u:'' t = map (\<lambda>x. Put (session_key x) []) (concat pays)"
    using pays(2) by (simp add: spends_def rows_staged [OF rows_u_free])
  then have used: "is_session_used (ch_stage ch') x \<longleftrightarrow>
      is_session_used (ch_stage ch) x \<or> x \<in> set (concat pays)" for x
    using row [of x] sessions_written [OF assms(1), of "concat pays" x]
    by (simp add: is_session_used_def db_get_def ch_store_def)
  have fresh: "distinct (concat pays) \<and> (\<forall>x\<in>set (concat pays). \<not> is_session_used (ch_stage ch) x)"
    using pays(2) by (simp add: spends_def is_session_used_def db_get_def ch_store_def)
  have "rd_bal ?s a = get_balance (ch_stage ch) a" for a
    by (simp add: staged_bal get_balance_store ch_store_def)
  with pays(1) used fresh show ?thesis
    unfolding next_height_def [symmetric]
    by (intro exI [of _ ?s] exI [of _ t] exI [of _ pays]) simp
qed

text \<open>A block with the mint of a play and a settlement of the same play: the session is used
  afterwards, the settlement is accepted, and it pays nothing.\<close>

theorem block_sessions_fresh_witness:
  "\<exists>s u t. apply_raw_tx toy_crypto 1 (MintTx_serialize sample_mint) s = (True, u) \<and>
     apply_raw_tx toy_crypto 1 (SettlementMintTx_serialize sample_settlement) u = (True, t) \<and>
     rd_bal t = rd_bal u \<and>
     is_session_used (ch_stage (snd (connect_block toy_crypto True mint_block (genesis_with song_rows)))) (mk_arr [1])"
proof -
  let ?ch = "genesis_with song_rows" and ?m = "MintTx_serialize sample_mint"
  let ?ch' = "snd (connect_block toy_crypto True mint_block ?ch)"
  have "MintTx_ok sample_mint"
    by (simp add: MintTx_ok_def sample_outputs) (simp add: sample_mint_def mint_play_def PlayProof_normal_def sample_play_def)
  then have "MintTx_deserialize ?m = Some sample_mint" by (rule mint.deser_ser_nil)
  then have m: "raw_as MINT MintTx_deserialize ?m = Some sample_mint"
    by (simp add: raw_as_def MintTx_serialize_def Let_def tx_type_of_def all_tx_types_def)
  let ?x = "SettlementMintTx_serialize sample_settlement"
  have x: "raw_as MINT MintTx_deserialize ?x = None"
    "raw_as SETTLEMENT_MINT SettlementMintTx_deserialize ?x = Some sample_settlement"
    using settlement_as_tx(1)
    by (simp_all add: raw_as_def SettlementMintTx_serialize_def tx_type_of_def all_tx_types_def)
  have sess: "pp_session_id (mt_proof sample_mint) = mk_arr [1]" "pp_session_id mint_play = mk_arr [1]"
    by (simp_all add: sample_mint_def mint_play_def sample_play_def)
  have h: "tip_height (ch_tip ?ch) + 1 = 1" using genesis_with_store(4) [of song_rows] by (simp only: next_height_def)
  from block_sessions_fresh [OF genesis_with_ok mint_block_connects, unfolded next_block_transactions h]
  obtain s t pays where
    s: "db_store s = ch_store ?ch" and run: "paid_run toy_crypto 1 s [?m, ?x] pays t"
    and dist: "distinct (concat pays)"
    and used: "\<And>y. y \<in> set (concat pays) \<Longrightarrow> is_session_used (ch_stage ?ch') y"
    by metis
  from run obtain u ss ss' where pays: "pays = [ss, ss']"
    and 1: "apply_raw_tx toy_crypto 1 ?m s = (True, u)" "tx_pays toy_crypto 1 ?m s ss u"
    and 2: "apply_raw_tx toy_crypto 1 ?x u = (True, t)" "tx_pays toy_crypto 1 ?x u ss' t"
    by (auto simp: Let_def split: prod.splits elim!: paid_run.elims)
  have ss: "ss = [mk_arr [1]]" using 1(2) m by (simp add: tx_pays_def sess)
  from 2(2) x obtain plays body where body: "settle_body_of sample_settlement u = Some body"
    and plays: "fst ` set plays \<subseteq> set body" "ss' = sessions_of plays" "\<And>a. rd_bal t a = rd_bal u a + plays_pay a plays"
    by (auto simp: tx_pays_def settlement_pays_def)
  have "db_store u = db_store (fresh_with song_rows)"
    using raw_tx.handle_store [of toy_crypto 1 ?m s] 1(1) s by (simp add: fresh_stage_def)
  then have "settle_body_of sample_settlement u = Some [mint_play]"
    using settle_body_sample [of "ch_acc ?ch"] by (simp add: settle_body_of_def db_get_def)
  with body plays(1,2) have "set ss' \<subseteq> {mk_arr [1]}" by (auto simp: sessions_of_def sess)
  with dist have "ss' = []" by (cases ss') (auto simp: pays ss)
  with plays(2) have "plays = []" by (simp add: sessions_of_def)
  with plays(3) have "rd_bal t = rd_bal u" by auto
  moreover have "is_session_used (ch_stage ?ch') (mk_arr [1])" by (rule used) (simp add: pays ss)
  ultimately show ?thesis using 1(1) 2(1) by blast
qed

section \<open>What a block cannot take away\<close>

text \<open>C11. The founder is permanent: once the store names a founder, an accepted block changes
  neither the founder nor the founder's level, whatever its transactions are.\<close>

theorem founder_is_permanent:
  assumes "kv_ok (ch_store ch)" and "connect_block c an blk ch = (True, ch')"
    and "get_founder (ch_stage ch) = Some f"
  shows "get_founder (ch_stage ch') = Some f \<and> get_mod_level (ch_stage ch') f = get_mod_level (ch_stage ch) f"
proof -
  have f: "get_founder (view (ch_store ch)) = Some f"
    using assms(3) view_reads(1) [of "ch_stage ch"] by (simp add: ch_store_def)
  have "kv_get (ch_store ch') ''founder:'' = kv_get (ch_store ch) ''founder:''"
    by (rule connected_unchanged [OF assms(2,1) key_class_rows(3) tables_free(3) raw_rows_appended(3)])
      (auto simp: founder_row_def f)
  moreover have "kv_get (ch_store ch') (level_key f) = kv_get (ch_store ch) (level_key f)"
    by (rule connected_unchanged [OF assms(2,1) key_class_rows(4) tables_free(4) raw_rows_appended(4)])
      (auto simp: level_row_def level_key_def hex_addr_def arr_eq_iff f)
  ultimately show ?thesis
    using assms(3) by (simp add: get_founder_def get_mod_level_def db_get_def ch_store_def level_key_def)
qed

theorem founder_is_permanent_witness:
  "let rows = [(''founder:'', arr_bytes (mk_arr [9] :: address))]
   in get_founder (ch_stage (snd (connect_block toy_crypto True (name_block rows) (genesis_with rows)))) =
      Some (mk_arr [9])"
proof -
  let ?rows = "[(''founder:'', arr_bytes (mk_arr [9] :: address))]"
  have "kv_get (ch_store (genesis_with ?rows)) ''founder:'' = Some (arr_bytes (mk_arr [9] :: address))"
    by (subst genesis_with_get) (simp_all add: key_class_def)
  then have "get_founder (ch_stage (genesis_with ?rows)) = Some (mk_arr [9])"
    by (simp add: get_founder_def db_get_def)
  moreover have "list_all (\<lambda>(k, v). key_class k \<notin> {Some ''nv:'', Some ''un:'', Some ''addrun:''}) ?rows"
    by (simp add: key_class_def)
  ultimately show ?thesis
    using founder_is_permanent [OF genesis_with_ok name_block_connects [of ?rows], of "mk_arr [9]"]
    by (simp add: Let_def)
qed

text \<open>C12. Names are first come, first served across blocks: a name that resolves to a wallet, and a
  wallet that has a name, keep it in every accepted block.\<close>

theorem username_is_permanent:
  assumes "kv_ok (ch_store ch)" and "connect_block c an blk ch = (True, ch')"
  shows "(lookup_username (ch_stage ch) nm = Some a \<longrightarrow> lookup_username (ch_stage ch') nm = Some a) \<and>
    (get_addr_username (ch_stage ch) a = Some nm \<longrightarrow> get_addr_username (ch_stage ch') a = Some nm)"
proof (intro conjI impI)
  assume l: "lookup_username (ch_stage ch) nm = Some a"
  then have taken: "username_taken (view (ch_store ch)) nm"
    by (auto simp: lookup_username_def username_taken_def view_def db_get_def ch_store_def split: option.splits)
  have "kv_get (ch_store ch') (''un:'' @ lower nm) = kv_get (ch_store ch) (''un:'' @ lower nm)"
    by (rule connected_unchanged [OF assms(2,1) key_class_rows(1) tables_free(1) raw_rows_appended(1)])
      (use taken in \<open>auto simp: name_row_def username_taken_def\<close>)
  with l show "lookup_username (ch_stage ch') nm = Some a"
    by (simp add: lookup_username_def db_get_def ch_store_def)
next
  assume l: "get_addr_username (ch_stage ch) a = Some nm"
  then have has: "get_addr_username (view (ch_store ch)) a \<noteq> None"
    by (auto simp: get_addr_username_def view_def db_get_def ch_store_def)
  have "kv_get (ch_store ch') (''addrun:'' @ hex_addr a) = kv_get (ch_store ch) (''addrun:'' @ hex_addr a)"
    by (rule connected_unchanged [OF assms(2,1) key_class_rows(2) tables_free(2) raw_rows_appended(2)])
      (use has in \<open>auto simp: owner_row_def get_addr_username_def\<close>)
  with l show "get_addr_username (ch_stage ch') a = Some nm"
    by (simp add: get_addr_username_def db_get_def ch_store_def)
qed

text \<open>A chain on which another wallet has a name.\<close>

definition bert_rows :: "(string \<times> bytes) list" where
  "bert_rows = [(''un:bert'', arr_bytes (mk_arr [9] :: address))]"

lemma bert_free: "fst (apply_tx_list toy_crypto 1 [UsernameTx_serialize name_tx] (fresh_with bert_rows))"
proof -
  have "db_get (fresh_with bert_rows) (''nv:'' @ hex_addr 0) = None"
    "db_get (fresh_with bert_rows) (''un:'' @ lower ''anna'') = None"
    "db_get (fresh_with bert_rows) (''addrun:'' @ hex_addr 0) = None"
    by (subst fresh_with_get; simp add: bert_rows_def key_class_def lower_def lower_char_def)+
  moreover have "st_nonce (fresh_with bert_rows) = Map.empty" by (simp add: fresh_stage_def)
  ultimately have "fst (apply_username_register toy_crypto name_tx (fresh_with bert_rows))"
    by (intro name_tx_accepted) (simp_all add: next_expected_nonce_def get_nonce_def get_u64_def
        value_or_def username_taken_def get_addr_username_def)
  then show ?thesis
    by (cases "apply_username_register toy_crypto name_tx (fresh_with bert_rows)") (simp add: apply_name_tx)
qed

theorem username_is_permanent_witness:
  "lookup_username (ch_stage (snd (connect_block toy_crypto True (name_block bert_rows)
     (genesis_with bert_rows)))) ''bert'' = Some (mk_arr [9])"
proof -
  have "kv_get (ch_store (genesis_with bert_rows)) (''un:'' @ lower ''bert'') = Some (arr_bytes (mk_arr [9] :: address))"
    by (subst genesis_with_get) (simp_all add: bert_rows_def key_class_def lower_def lower_char_def)
  then have "lookup_username (ch_stage (genesis_with bert_rows)) ''bert'' = Some (mk_arr [9])"
    by (simp add: lookup_username_def db_get_def)
  moreover have "connect_block toy_crypto True (name_block bert_rows) (genesis_with bert_rows) =
      (True, snd (connect_block toy_crypto True (name_block bert_rows) (genesis_with bert_rows)))"
    by (rule next_block_connects)
      (use bert_free length_name_tx in \<open>simp_all add: write_raw_tx_def length_simps\<close>)
  ultimately show ?thesis using username_is_permanent [OF genesis_with_ok] by blast
qed

end
