(* ===== verification/Money_Properties.thy ===== *)
theory Money_Properties
  imports Tx_Samples
begin

text \<open>
  Properties of money: what an accepted transfer and an accepted mint do to balances and
  supply, how much a play can earn, and the burn curve.
\<close>

section \<open>Transfers\<close>

text \<open>C13. An accepted transfer to another wallet moves exactly its amount: the sender could pay,
  every other balance and the supply are as before, and no sum wraps. An accepted transfer to
  the sender changes no balance and not the supply, whatever its amount.\<close>

theorem transfer_moves_amount:
  assumes "sound c s" and "apply_transfer c tx s = (True, t)"
  shows "(tr_from_address tx \<noteq> tr_to_address tx \<longrightarrow>
      tr_amount tx \<le> rd_bal s (tr_from_address tx) \<and>
      unat (rd_bal t (tr_from_address tx)) = unat (rd_bal s (tr_from_address tx)) - unat (tr_amount tx) \<and>
      unat (rd_bal t (tr_to_address tx)) = unat (rd_bal s (tr_to_address tx)) + unat (tr_amount tx)) \<and>
    (\<forall>a. tr_from_address tx = tr_to_address tx \<or> a \<noteq> tr_from_address tx \<and> a \<noteq> tr_to_address tx \<longrightarrow>
      rd_bal t a = rd_bal s a) \<and>
    rd_supply t = rd_supply s"
proof -
  let ?a = "tr_from_address tx" and ?b = "tr_to_address tx" and ?v = "tr_amount tx"
  obtain u where u: "Ledger_transfer c ?a ?b ?v s = (True, u)"
    and t: "t = advance_nonce c ?a (next_expected_nonce s ?a + 1) u"
    using assms(2) by (auto simp: apply_transfer_def Let_def split: if_splits prod.splits)
  have same: "rd_bal t a = rd_bal u a" "rd_supply t = rd_supply u" for a
    unfolding t by (rule rd_bal_cong rd_supply_cong; simp add: advance_nonce_def record_applied_nonce_def
        set_nonce_def put_batch_u64_def)+
  show ?thesis
  proof (cases "?a = ?b")
    case True
    then have "u = s" using u by (simp add: Ledger_transfer_def split: if_splits)
    with True same show ?thesis by simp
  next
    case ne: False
    have le: "?v \<le> rd_bal s ?a"
      using u ne by (auto simp: Ledger_transfer_def Let_def not_less split: if_splits)
    have u_bal: "rd_bal u a = (if a = ?a then rd_bal s ?a - ?v else if a = ?b then rd_bal s ?b + ?v
        else rd_bal s a)" and u_supply: "rd_supply u = rd_supply s" for a
      using u ne
      by (auto simp: Ledger_transfer_def Let_def lg.bal_set_bal lg.supply_set_bal split: if_splits)
    have "unat (rd_bal s ?a) + unat (rd_bal s ?b) \<le> 2 * 10 ^ 17"
      using lg.two_bal_le_total [OF ne, of s] assms(1)
      by (simp add: sound_def lg.conserved_def)
    moreover have "unat ?v \<le> unat (rd_bal s ?a)" using le by (simp add: word_le_nat_alt)
    ultimately have "unat (rd_bal s ?b) + unat ?v < 2 ^ 64" by simp
    then have "unat (rd_bal s ?b + ?v) = unat (rd_bal s ?b) + unat ?v"
      unfolding unat_add_mod by (rule mod_less)
    then show ?thesis
      using le ne unat_sub_u64 [OF le] by (simp add: same u_bal u_supply)
  qed
qed

text \<open>A transfer to oneself is not checked against the balance: any amount is accepted from anyone
  who signs with the next nonce.\<close>

lemma self_transfer_needs_no_balance:
  assumes "TransferTx_verify_signature c tx" and "tr_nonce tx = next_expected_nonce s (tr_from_address tx)"
    and "tr_from_address tx = tr_to_address tx"
  shows "fst (apply_transfer c tx s)"
  using assms by (simp add: apply_transfer_def Ledger_transfer_def Let_def)

text \<open>A wallet with 100 units, and its first transfer.\<close>

definition payer :: address where
  "payer = mk_arr (arr_bytes (mk_arr [1] :: pubkey33))"

definition funded :: stage where
  "funded = Ledger_credit toy_crypto payer 100
     (fresh_at (scan_state_accumulator toy_crypto (ch_store (genesis_with []))) [])"

lemma payer_nonzero: "payer \<noteq> 0"
  unfolding payer_def by (rule mk_arr_nonzero) (simp_all add: arr_bytes_mk_arr_take)

lemma funded_balance: "rd_bal funded payer = 100" "sound toy_crypto funded"
proof -
  let ?s = "fresh_at (scan_state_accumulator toy_crypto (ch_store (genesis_with []))) []"
  have zero: "rd_bal ?s payer = 0" "rd_supply ?s = 0"
    unfolding fresh_reads by (rule genesis_with_zero; simp)+
  then show "rd_bal funded payer = 100"
    by (simp add: funded_def Ledger_credit_def Let_def lg.bal_set_supply lg.bal_set_bal)
  have "sound toy_crypto ?s" by (rule sound_fresh_rows) simp
  then show "sound toy_crypto funded" unfolding funded_def by (rule sound_credit) (simp only: zero, simp)
qed

definition sample_transfer :: TransferTx where
  "sample_transfer = \<lparr>tr_from_address = payer, tr_to_address = 0, tr_amount = 40, tr_nonce = 0,
     tr_from_pubkey = mk_arr [1], tr_signature = 0\<rparr>"

lemma sample_transfer_accepted: "fst (apply_transfer toy_crypto sample_transfer funded)"
proof -
  let ?s = "fresh_at (scan_state_accumulator toy_crypto (ch_store (genesis_with []))) []"
  have "next_expected_nonce ?s payer = 0"
    unfolding fresh_reads by (rule genesis_with_zero) simp_all
  moreover have "db_store funded = db_store ?s" by (simp add: funded_def)
  moreover have "st_nonce funded = st_nonce ?s"
    using guards_ledger(1) [of toy_crypto payer 100 ?s] by (simp add: funded_def guards_def)
  ultimately have "next_expected_nonce funded payer = 0"
    by (simp only: next_expected_nonce_def get_nonce_store)
  then show ?thesis
    using funded_balance(1) payer_nonzero
    by (simp add: apply_transfer_def sample_transfer_def TransferTx_verify_signature_def verify_inline_def
        Ledger_transfer_def Let_def) (simp add: payer_def)
qed

theorem transfer_moves_amount_witness:
  "unat (rd_bal (snd (apply_transfer toy_crypto sample_transfer funded)) payer) = 60"
proof -
  obtain t where t: "apply_transfer toy_crypto sample_transfer funded = (True, t)"
    using sample_transfer_accepted by (cases "apply_transfer toy_crypto sample_transfer funded") simp
  have "payer \<noteq> 0" "tr_from_address sample_transfer = payer" "tr_to_address sample_transfer = 0"
    "tr_amount sample_transfer = 40" by (simp_all add: payer_nonzero sample_transfer_def)
  with transfer_moves_amount [OF funded_balance(2) t] show ?thesis
    using funded_balance(1) t by simp
qed

section \<open>Mints\<close>

lemma supply_credit_many: "rd_supply (Ledger_credit_many c outs s) = rd_supply s + total_minted outs"
proof -
  have "rd_supply (foldl (\<lambda>s (a, v). wr_bal c a (rd_bal s a + v) s) s xs) = rd_supply s" for xs
    by (induction xs arbitrary: s) (auto simp: lg.supply_set_bal)
  then show ?thesis
    by (auto simp: Ledger_credit_many_def Let_def lg.supply_set_supply word_gt_0)
qed

lemma total_minted_outputs: "total_minted (map (\<lambda>o'. (mo_recipient o', mo_amount o')) os) = mint_total os"
proof -
  have "foldl (\<lambda>t (a, v). if v = 0 then t else t + v) z (map (\<lambda>o'. (mo_recipient o', mo_amount o')) os) =
      foldl (\<lambda>t o'. t + mo_amount o') z os" for z
    by (induction os arbitrary: z) simp_all
  then show ?thesis by (simp add: total_minted_def mint_total_def)
qed

text \<open>What the outputs of a mint pay one address, in natural numbers.\<close>

definition outputs_to :: "address \<Rightarrow> MintOutput list \<Rightarrow> nat" where
  "outputs_to a os = (\<Sum>o'\<leftarrow>os. if mo_recipient o' = a then unat (mo_amount o') else 0)"

lemma outputs_to_le: "outputs_to a os \<le> sum_outputs os"
  by (induction os) (auto simp: outputs_to_def sum_outputs_def)

lemma unat_paid_to:
  assumes "sum_outputs os < 2 ^ 64"
  shows "unat (outs_pay a os) = outputs_to a os"
  using assms
proof (induction os)
  case (Cons o' os)
  let ?w = "outs_pay a os"
  have lt: "unat (mo_amount o') + sum_outputs os < 2 ^ 64" using Cons.prems by (simp add: sum_outputs_def)
  then have IH: "unat ?w = outputs_to a os" using Cons.IH by simp
  have "unat (mo_amount o' + ?w) = unat (mo_amount o') + unat ?w"
    unfolding unat_add_mod by (rule mod_less) (use lt outputs_to_le [of a os] IH in simp)
  with IH show ?case by (simp add: outs_pay_def paid_to_def outputs_to_def)
qed (simp add: outs_pay_def paid_to_def outputs_to_def)

text \<open>C14. A mint pays what every node recomputes and no more: its outputs and its burn are those of
  the play, the song and the play count on chain; every wallet receives exactly the outputs that
  name it, the player pays the burn, and no other balance changes; the supply changes by the
  outputs less the burn and stays within the cap; and one play pays at most five tokens.\<close>

theorem mint_pays_what_is_recomputed:
  assumes "sound c s" and "apply_mint_tx c m h s = (True, t)"
  shows "recompute_mint c (mt_proof m) s = Inr (mt_outputs m, mt_burn_amount m) \<and>
    (\<forall>a. unat (rd_bal t a) + (if a = pp_player_address (mt_proof m) then unat (mt_burn_amount m) else 0) =
       unat (rd_bal s a) + outputs_to a (mt_outputs m)) \<and>
    mt_burn_amount m \<le> rd_bal s (pp_player_address (mt_proof m)) \<and>
    mt_burn_amount m \<le> rd_supply s \<and>
    rd_supply t = rd_supply s - mt_burn_amount m + mint_total (mt_outputs m) \<and>
    rd_supply t \<le> SUPPLY_CAP \<and>
    unat (mint_total (mt_outputs m)) = sum_outputs (mt_outputs m) \<and>
    sum_outputs (mt_outputs m) \<le> 5 * 10 ^ 8"
proof -
  let ?u = "s\<lparr>st_sessions := insert (pp_session_id (mt_proof m)) (st_sessions s)\<rparr>"
  let ?burn = "mt_burn_amount m" and ?p = "pp_player_address (mt_proof m)"
  have v: "validate_mint c m s h = None" using mint_accepted(1) [of c m h s] assms(2) by simp
  note b = validated_outputs_bound [OF v]
  have total: "unat (mint_total (mt_outputs m)) = sum_outputs (mt_outputs m)"
    by (rule unat_mint_total) (use b in simp)
  have "sound c t" using mint_handler.handle_sound [OF assms(1), of m h] assms(2) by simp
  then have cap: "rd_supply t \<le> SUPPLY_CAP"
    using sound_supply_bound [of c t] by (simp add: word_le_nat_alt supply_cap_unat)
  from assms(2) v have m: "apply_mint c m (get_play_count ?u (pp_content_hash (mt_proof m))) ?u = (True, t)"
    by (auto simp: apply_mint_tx_def Let_def split: if_splits)
  note pays = apply_mint_pays [OF assms(2), unfolded mint_pays_def]
  have afford: "?burn \<le> rd_bal s ?p" using pays by blast
  then have le: "?burn \<le> rd_supply s"
    using lg.bal_le_total [of s ?p] assms(1)
    by (auto simp: sound_def lg.conserved_def word_le_nat_alt)
  have supp: "rd_supply t = rd_supply s - ?burn + mint_total (mt_outputs m)"
    using m le
    by (auto simp: apply_mint_def Let_def supply_credit_many total_minted_outputs supply_keep bal_keep
        Ledger_decrement_supply_def Ledger_debit_def lg.supply_set_supply lg.supply_set_bal word_gt_0
        split: if_splits)
  have "unat (rd_bal t a) + (if a = ?p then unat ?burn else 0) =
      unat (rd_bal s a) + outputs_to a (mt_outputs m)" for a
  proof -
    let ?r = "if a = ?p then rd_bal s a - ?burn else rd_bal s a"
    have r: "unat ?r + (if a = ?p then unat ?burn else 0) = unat (rd_bal s a)"
      using afford unat_sub_u64 [OF afford] by (simp add: word_le_nat_alt)
    have "unat (outs_pay a (mt_outputs m)) = outputs_to a (mt_outputs m)" by (rule unat_paid_to) (use b in simp)
    moreover have "outputs_to a (mt_outputs m) \<le> 5 * 10 ^ 8" using outputs_to_le [of a "mt_outputs m"] b by simp
    moreover have "unat (rd_bal s a) \<le> 2 * 10 ^ 17"
      using lg.bal_le_total [of s a] assms(1) by (simp add: sound_def lg.conserved_def)
    ultimately have "unat (?r + outs_pay a (mt_outputs m)) = unat ?r + outputs_to a (mt_outputs m)"
      unfolding unat_add_mod using r by (subst mod_less) auto
    with r pays show ?thesis by simp
  qed
  with validate_mint_None(2) [OF v] afford le supp cap total b show ?thesis by blast
qed

theorem mint_pays_what_is_recomputed_witness:
  "let t = snd (apply_mint_tx toy_crypto sample_mint 1
       (fresh_at (scan_state_accumulator toy_crypto (ch_store (genesis_with song_rows))) song_rows))
   in rd_supply t = 500000000 \<and> rd_bal t (mk_arr [8]) = 100000000 \<and> rd_bal t (mk_arr [6]) = 0"
proof -
  let ?s = "fresh_at (scan_state_accumulator toy_crypto (ch_store (genesis_with song_rows))) song_rows"
  have "sound toy_crypto ?s"
    by (rule sound_fresh_rows) (simp add: song_rows_def key_class_def height_key_def block_key_def)
  moreover obtain t where t: "apply_mint_tx toy_crypto sample_mint 1 ?s = (True, t)"
    using sample_mint_accepted [of "scan_state_accumulator toy_crypto (ch_store (genesis_with song_rows))"]
    by (cases "apply_mint_tx toy_crypto sample_mint 1 ?s") (simp del: genesis_with_store)
  ultimately have pays: "rd_supply t = rd_supply ?s - mt_burn_amount sample_mint + mint_total (mt_outputs sample_mint)"
    "unat (rd_bal t a) + (if a = pp_player_address (mt_proof sample_mint) then unat (mt_burn_amount sample_mint) else 0) =
       unat (rd_bal ?s a) + outputs_to a (mt_outputs sample_mint)" for a
    using mint_pays_what_is_recomputed by blast+
  have none: "mt_burn_amount sample_mint = 0" by (simp add: sample_mint_def)
  have "mint_total (mt_outputs sample_mint) = 500000000"
    by (simp add: sample_outputs mint_total_def mk_output_def)
  moreover have "rd_bal ?s a = 0" for a
    unfolding fresh_reads
    by (rule genesis_with_zero)
      (simp_all add: song_rows_def balance_key_def height_key_def block_key_def key_class_def)
  moreover have outs: "outputs_to (mk_arr [8]) (mt_outputs sample_mint) = 100000000"
    "outputs_to (mk_arr [6]) (mt_outputs sample_mint) = 0"
    unfolding sample_outputs outputs_to_def mk_output_def escrow_address_for_def toy_crypto_simps
    by (simp_all add: arr_eq_iff arr_bytes_mk_arr_take str_bytes_def byte_of_char_def)
  ultimately have supp: "rd_supply t = 500000000"
    and bal: "unat (rd_bal t a) = outputs_to a (mt_outputs sample_mint)" for a
    using pays(1) pays(2) [of a] none
      fresh_supply [of "scan_state_accumulator toy_crypto (ch_store (genesis_with song_rows))"]
    by (simp_all del: genesis_with_store split: if_splits)
  have "rd_bal t (mk_arr [8]) = 100000000" "rd_bal t (mk_arr [6]) = 0"
    unfolding word_unat_eq_iff bal outs by simp_all
  with t supp show ?thesis by (simp del: genesis_with_store)
qed

text \<open>The artist lane of a play is exactly one token, except that the shares of royalty splits to
  the zero address are neither paid nor kept in escrow: they are lost. All lanes together pay at
  most five tokens.\<close>

theorem artist_lane_is_one_token:
  assumes "length (song_royalty_splits song) \<le> 255"
  shows "sum_outputs (artist_outputs c song pc) + 10 ^ 4 * lost_bp song = 10 ^ 8 \<and>
    sum_outputs (compute_mint_outputs c pr song pc node) \<le> 5 * 10 ^ 8"
  using sum_artist_outputs [OF assms] sum_mint_outputs_bound [OF assms] by blast

theorem artist_lane_is_one_token_witness:
  "let song = sample_song\<lparr>song_royalty_splits :=
      [\<lparr>rs_address = mk_arr [6], rs_basis_points = 7500\<rparr>, \<lparr>rs_address = 0, rs_basis_points = 2500\<rparr>]\<rparr>
   in sum_outputs (artist_outputs toy_crypto song 20000) = 75000000"
proof -
  let ?song = "sample_song\<lparr>song_royalty_splits :=
      [\<lparr>rs_address = mk_arr [6], rs_basis_points = 7500\<rparr>, \<lparr>rs_address = 0, rs_basis_points = 2500\<rparr>]\<rparr>"
  have "(mk_arr [6] :: address) \<noteq> 0" by (rule mk_arr_nonzero) simp_all
  then have "lost_bp ?song = 2500"
    by (simp add: lost_bp_def valid_splits_def splits_bp_sum_def bp_total_def bp_paid_def)
  moreover have "sum_outputs (artist_outputs toy_crypto ?song 20000) + 10 ^ 4 * lost_bp ?song = 10 ^ 8"
    using artist_lane_is_one_token [of ?song] by simp
  ultimately show ?thesis by (simp add: Let_def)
qed

section \<open>The burn curve\<close>

text \<open>C15. The burn rate is the cubic of the distance above the floor, computed without overflow: zero
  below the floor, below a thousand tokens until the cap, prohibitive from the cap on, and it
  never falls when the supply grows.\<close>

theorem burn_rate_curve:
  "(t < SUPPLY_FLOOR \<longrightarrow> compute_burn_rate t = 0) \<and>
   (SUPPLY_FLOOR \<le> t \<and> t < SUPPLY_CAP \<longrightarrow>
      unat (compute_burn_rate t) = burn_spec (unat t - 10 ^ 17) \<and> unat (compute_burn_rate t) < 10 ^ 11) \<and>
   (SUPPLY_CAP \<le> t \<longrightarrow> compute_burn_rate t = 0xFFFFFFFFFFFFFFFF) \<and>
   (t \<le> u \<longrightarrow> compute_burn_rate t \<le> compute_burn_rate u)"
proof -
  have floor: "x < SUPPLY_FLOOR \<Longrightarrow> compute_burn_rate x = 0" for x by (simp add: compute_burn_rate_def)
  have mid: "unat (compute_burn_rate x) = burn_spec (unat x - 10 ^ 17) \<and> unat (compute_burn_rate x) < 10 ^ 11"
    if "SUPPLY_FLOOR \<le> x" "x < SUPPLY_CAP" for x
  proof -
    have "unat x - 10 ^ 17 < 10 ^ 17"
      using that(2) unfolding word_less_nat_alt burn_consts by simp
    with burn_spec_bound compute_burn_rate_between [OF that] show ?thesis by simp
  qed
  have cap: "SUPPLY_CAP \<le> x \<Longrightarrow> compute_burn_rate x = 0xFFFFFFFFFFFFFFFF" for x
  proof -
    assume x: "SUPPLY_CAP \<le> x"
    then have "\<not> x < SUPPLY_FLOOR"
      by (simp add: word_less_nat_alt word_le_nat_alt burn_consts)
    with x show ?thesis by (simp add: compute_burn_rate_def)
  qed
  have "compute_burn_rate t \<le> compute_burn_rate u" if le: "t \<le> u"
  proof (cases "t < SUPPLY_FLOOR")
    case True
    then show ?thesis by (simp add: floor)
  next
    case tf: False
    show ?thesis
    proof (cases "SUPPLY_CAP \<le> u")
      case True
      then show ?thesis using unat_less_u64 [of "compute_burn_rate t"]
        by (simp add: cap [OF True] word_le_nat_alt del: unat_less_u64)
    next
      case uc: False
      have t: "SUPPLY_FLOOR \<le> t" "t < SUPPLY_CAP" and u: "SUPPLY_FLOOR \<le> u" "u < SUPPLY_CAP"
        using tf uc le by (auto simp: not_less not_le intro: order.trans order.strict_trans1)
      have "burn_spec (unat t - 10 ^ 17) \<le> burn_spec (unat u - 10 ^ 17)"
        using le by (intro burn_spec_mono diff_le_mono) (simp add: word_le_nat_alt)
      then show ?thesis using mid [OF t] mid [OF u] by (simp add: word_le_nat_alt)
    qed
  qed
  with floor mid cap show ?thesis by blast
qed

theorem burn_rate_curve_witness:
  "unat (compute_burn_rate 150000000000000000) = 12500000000 \<and>
   compute_burn_rate 150000000000000000 \<le> compute_burn_rate 160000000000000000"
  using burn_rate_curve [of 150000000000000000 160000000000000000]
  by (simp add: SUPPLY_FLOOR_def SUPPLY_CAP_def burn_spec_def)

end
