(* ===== verification/Rule_Properties.thy ===== *)
theory Rule_Properties
  imports Tx_Samples
begin

text \<open>
  Properties of the rules of the chain: what a transaction of each type may write, who may
  reward, authorise and pin, how a moderator is appointed, when a song is hidden, and what
  slashing evidence, settlements and names do not guarantee.
\<close>

section \<open>Footprints\<close>

text \<open>C27. A transaction writes only the tables of its type, whether it is accepted or refused: no
  transfer touches a moderator, no rating a balance, no proposal a name.\<close>

theorem transaction_footprint:
  assumes "p \<notin> set (type_tables t)"
  shows "rows_of p (snd (apply_typed c h t raw s)) = rows_of p s"
  using assms by (rule apply_typed_tables)

theorem transaction_footprint_witness:
  "\<forall>c h raw s. rows_of ''a:'' (snd (apply_typed c h RATING raw s)) = rows_of ''a:'' s"
  using transaction_footprint [of "''a:''" RATING] by simp

section \<open>Authority\<close>

text \<open>Rewards for relays, authorisations of nodes and checkpoints come from the founder alone,
  signed by the founder's key, and a reward is bounded and within the cap.\<close>

theorem founder_only:
  "(fst (apply_relay_reward c rr s) \<longrightarrow> get_founder s = Some (rr_issuer_address rr) \<and>
      RelayRewardTx_verify_signature c rr \<and> rr_count rr \<noteq> 0 \<and> rr_count rr \<le> kMaxUnitsPerTx) \<and>
   (fst (apply_node_auth c na s) \<longrightarrow> get_founder s = Some (na_issuer_address na) \<and>
      NodeAuthTx_verify_signature c na \<and> sha256 c (arr_bytes (na_node_pubkey na)) = na_node_id na) \<and>
   (fst (apply_checkpoint c cp s) \<longrightarrow> get_founder s = Some (cp_issuer_address cp) \<and>
      CheckpointTx_verify_signature c cp)"
proof (intro conjI)
  show "fst (apply_relay_reward c rr s) \<longrightarrow> get_founder s = Some (rr_issuer_address rr) \<and>
      RelayRewardTx_verify_signature c rr \<and> rr_count rr \<noteq> 0 \<and> rr_count rr \<le> kMaxUnitsPerTx"
    by (simp add: apply_relay_reward_def Let_def not_less)
  show "fst (apply_node_auth c na s) \<longrightarrow> get_founder s = Some (na_issuer_address na) \<and>
      NodeAuthTx_verify_signature c na \<and> sha256 c (arr_bytes (na_node_pubkey na)) = na_node_id na"
    by (simp add: apply_node_auth_def Let_def)
  show "fst (apply_checkpoint c cp s) \<longrightarrow> get_founder s = Some (cp_issuer_address cp) \<and>
      CheckpointTx_verify_signature c cp"
    by (simp add: apply_checkpoint_def Let_def)
qed

text \<open>The founder of the sample chain pins a block.\<close>

definition pin_tx :: CheckpointTx where
  "pin_tx = \<lparr>cp_height = 7, cp_block_hash = mk_arr [1], cp_issuer_address = 0, cp_issuer_pubkey = 0,
     cp_nonce = 0, cp_signature = 0\<rparr>"

lemma pin_tx_accepted:
  "fst (apply_checkpoint toy_crypto pin_tx (fresh_at acc [(''founder:'', arr_bytes (0 :: address))]))"
proof -
  let ?s = "fresh_at acc [(''founder:'', arr_bytes (0 :: address))]"
  have "db_get ?s ''founder:'' = Some (arr_bytes (0 :: address))"
    by (subst fresh_with_get) (simp_all add: key_class_def)
  then have "get_founder ?s = Some 0" by (simp add: get_founder_def)
  moreover have "next_expected_nonce ?s 0 = 0"
    unfolding fresh_reads by (rule genesis_with_zero) (simp_all add: nonce_key_def key_class_def)
  ultimately show ?thesis
    by (simp add: apply_checkpoint_def pin_tx_def CheckpointTx_verify_signature_def verify_inline_def
        toy_address_zero Let_def)
qed

theorem founder_only_witness:
  "get_founder (fresh_at 0 [(''founder:'', arr_bytes (0 :: address))]) = Some (cp_issuer_address pin_tx)"
  using founder_only [where cp = pin_tx and c = toy_crypto] pin_tx_accepted by blast

section \<open>Appointment of moderators\<close>

lemma decided_levels:
  "rows_of ''mlvl:'' (decided c p ph h yes u) \<noteq> rows_of ''mlvl:'' u \<Longrightarrow>
   yes \<and> prop_kind p = Proposal_GRANT_MODERATOR"
proof (rule ccontr)
  assume ch: "rows_of ''mlvl:'' (decided c p ph h yes u) \<noteq> rows_of ''mlvl:'' u"
    and no: "\<not> (yes \<and> prop_kind p = Proposal_GRANT_MODERATOR)"
  have "rows_of ''mlvl:'' (snd (release_escrow c p u)) = rows_of ''mlvl:'' u"
    by (rule release_escrow_tables) simp
  with no have "rows_of ''mlvl:'' (decided c p ph h yes u) = rows_of ''mlvl:'' u"
    by (auto simp: decided_def execute_proposal_def Let_def case_prod_beta)
  with ch show False by simp
qed

lemma governance_reads:
  "db_store u = db_store s \<Longrightarrow> vote_eligible u = vote_eligible s"
  "db_store u = db_store s \<Longrightarrow> has_proposal_vote u x m = has_proposal_vote s x m"
  "db_store u = db_store s \<Longrightarrow> get_founder u = get_founder s"
  by (simp_all add: vote_eligible_def list_active_moderators_def for_each_with_prefix_def
      get_mod_level_def has_proposal_vote_def get_founder_def db_get_def)

text \<open>C28. Appointments are unanimous: if an accepted proposal or vote changes anyone's level, then
  there are moderators of level OP or above, and every one of them has a vote on record for that
  very proposal, in the store or in this block.\<close>

theorem appointment_is_unanimous:
  assumes "apply_proposal c tx h s = (True, t)"
    and "rows_of ''mlvl:'' t \<noteq> rows_of ''mlvl:'' s"
    and "ph = (if prop_kind tx = Proposal_VOTE_YES then prop_target_hash tx else ProposalTx_tx_hash c tx)"
  shows "vote_eligible s \<noteq> [] \<and>
    (\<forall>m\<in>set (vote_eligible s). has_proposal_vote s ph m \<or> m \<in> st_votes s ph \<or> m = prop_proposer tx)"
proof -
  let ?e = "next_expected_nonce s (prop_proposer tx)"
  have votes: "st_votes (record_vote c x v u) = (st_votes u)(x := insert v (st_votes u x))" for x v u
    by (simp add: record_vote_def add_proposal_vote_def put_batch_def Let_def)
  have unan: "vote_eligible s \<noteq> [] \<and>
      (\<forall>m\<in>set (vote_eligible s). has_proposal_vote s x m \<or> m \<in> st_votes s x \<or> m = prop_proposer tx)"
    if "grant_is_unanimous (record_vote c x (prop_proposer tx) u) x" "db_store u = db_store s"
      "st_votes u = st_votes s" for u x
  proof -
    have "db_store (record_vote c x (prop_proposer tx) u) = db_store s"
      using that(2) by (simp add: record_vote_keeps)
    from that(1,3) governance_reads [OF this] show ?thesis
      by (auto simp: grant_is_unanimous_def votes list_all_iff)
  qed
  from assms(1) have "fst (apply_proposal c tx h s)" by simp
  then consider (filed) "prop_kind tx \<noteq> Proposal_VOTE_YES" "prop_kind tx = Proposal_GRANT_MODERATOR"
        "apply_proposal c tx h s = file_proposal c tx h ?e grant_is_unanimous s"
    | (other) approved where "prop_kind tx \<noteq> Proposal_VOTE_YES" "prop_kind tx \<noteq> Proposal_GRANT_MODERATOR"
        "apply_proposal c tx h s = file_proposal c tx h ?e approved s"
    | (vote) needed where "prop_kind tx = Proposal_VOTE_YES"
        "apply_proposal c tx h s = cast_vote c tx h ?e needed s"
    by (auto simp: apply_proposal_def Let_def split: if_splits)
  then show ?thesis
  proof cases
    case filed
    let ?ph = "ProposalTx_tx_hash c tx"
    let ?u = "put_proposal c ?ph (ProposalTx_serialize tx) s"
    have "fst (file_proposal c tx h ?e grant_is_unanimous s)" using assms(1) filed by simp
    from file_proposal_accepted(1) [OF this] assms(1,2) filed
    have "rows_of ''mlvl:'' (decided c tx ?ph h (grant_is_unanimous (record_vote c ?ph (prop_proposer tx) ?u) ?ph)
        (record_vote c ?ph (prop_proposer tx) ?u)) \<noteq> rows_of ''mlvl:'' (record_vote c ?ph (prop_proposer tx) ?u)"
      by (simp add: Let_def)
    from decided_levels [OF this] have "grant_is_unanimous (record_vote c ?ph (prop_proposer tx) ?u) ?ph" by simp
    from unan [OF this] filed show ?thesis
      by (simp add: assms(3) put_proposal_def) (simp add: put_batch_def)
  next
    case other
    let ?ph = "ProposalTx_tx_hash c tx"
    let ?u = "record_vote c ?ph (prop_proposer tx) (put_proposal c ?ph (ProposalTx_serialize tx) s)"
    have "fst (file_proposal c tx h ?e approved s)" using assms(1) other by simp
    from file_proposal_accepted(1) [OF this] assms(1,2) other
    have "rows_of ''mlvl:'' (decided c tx ?ph h (approved ?u ?ph) ?u) \<noteq> rows_of ''mlvl:'' ?u"
      by (simp add: Let_def)
    from decided_levels [OF this] other show ?thesis by simp
  next
    case vote
    then have "fst (cast_vote c tx h ?e needed s)" using assms(1) by (metis fst_conv)
    then show ?thesis
    proof (cases rule: cast_vote_accepted)
      case (1 raw p yes)
      let ?u = "record_vote c (prop_target_hash tx) (prop_proposer tx) s"
      have "rows_of ''mlvl:'' (decided c p (prop_target_hash tx) h yes ?u) \<noteq> rows_of ''mlvl:'' ?u"
        using 1(7) assms(1,2) vote by simp
      from decided_levels [OF this] 1(6)
      have "grant_is_unanimous ?u (prop_target_hash tx)" by (simp add: Let_def)
      from unan [OF this] vote show ?thesis by (simp add: assms(3))
    qed
  qed
qed

text \<open>A chain with one moderator, who proposes another one.\<close>

definition mod_rows :: "(string \<times> bytes) list" where
  "mod_rows = [(''founder:'', arr_bytes (0 :: address)), (level_key 0, [3])]"

definition grant_tx :: ProposalTx where
  "grant_tx = \<lparr>prop_kind = 4, prop_target_hash = 0, prop_target_addr = mk_arr [6], prop_amount = 2,
     prop_proposer = 0, prop_proposer_pubkey = 0, prop_nonce = 0, prop_subject_pubkey = mk_arr [6],
     prop_signature = 0\<rparr>"

lemma mod_rows_get:
  assumes "key_class k \<noteq> Some ''sr:''"
  shows "db_get (fresh_at acc mod_rows) k =
    (if k = level_key 0 then Some [3] else if k = ''founder:'' then Some (arr_bytes (0 :: address)) else None)"
  using fresh_with_get [OF assms, of acc mod_rows]
  by (simp add: mod_rows_def level_key_def split: if_splits)

lemma mod_scan: "(k, v) \<in> set (for_each_with_prefix (fresh_at acc mod_rows) ''mlvl:'') \<longleftrightarrow>
    k = level_key 0 \<and> v = [3]"
proof -
  let ?s = "fresh_at acc mod_rows"
  have ok: "kv_ok (db_store ?s)"
    using genesis_with_ok [of mod_rows] by (simp add: fresh_stage_def)
  have "(k, v) \<in> set (for_each_with_prefix ?s ''mlvl:'') \<longleftrightarrow> starts_with k ''mlvl:'' \<and> db_get ?s k = Some v"
    unfolding for_each_with_prefix_def kv_scan_eq_filter [OF ok] db_get_def kv_get_member [OF ok, symmetric]
    by auto
  also have "\<dots> \<longleftrightarrow> k = level_key 0 \<and> v = [3]"
  proof (cases "starts_with k ''mlvl:''")
    case True
    then have "key_class k \<noteq> Some ''sr:''" "k \<noteq> ''founder:''"
      by (auto simp: starts_with_iff key_class_def)
    with mod_rows_get [of k acc] True show ?thesis by auto
  next
    case False
    then show ?thesis by (auto simp: level_key_def starts_with_iff)
  qed
  finally show ?thesis .
qed

lemma active_mods: "set (list_active_moderators (fresh_at acc mod_rows)) = {0}"
proof -
  let ?s = "fresh_at acc mod_rows"
  have scan: "set (for_each_with_prefix ?s ''mlvl:'') = {(level_key 0, [3])}"
    using mod_scan [of _ _ acc] by auto
  have dec: "map_option mk_arr (from_hex_loop (drop 5 (level_key 0))) = Some (0 :: address)"
    by (simp add: level_key_def hex_addr_def from_hex_loop_to_hex)
  have len: "length (level_key 0) = 45" by (simp add: level_key_def hex_addr_def)
  show ?thesis
    unfolding list_active_moderators_def List.map_filter_def set_map set_filter scan
    using dec len by auto
qed

definition mod_stage :: "lanes \<Rightarrow> stage" where
  "mod_stage acc = fresh_at acc mod_rows"

lemma mod_reads:
  shows "get_founder (mod_stage acc) = Some 0"
    and "get_mod_level (mod_stage acc) a = (if a = 0 then 3 else 0)"
    and "has_proposal (mod_stage acc) hh = False"
    and "next_expected_nonce (mod_stage acc) a = 0"
proof -
  have "db_get (mod_stage acc) ''founder:'' = Some (arr_bytes (0 :: address))"
    unfolding mod_stage_def by (subst mod_rows_get) (simp_all add: key_class_def level_key_def)
  then show "get_founder (mod_stage acc) = Some 0" by (simp add: get_founder_def)
  have "db_get (mod_stage acc) (level_key a) = (if a = 0 then Some [3] else None)"
    unfolding mod_stage_def by (subst mod_rows_get) (simp_all add: key_class_def level_key_def hex_addr_def arr_eq_iff)
  then show "get_mod_level (mod_stage acc) a = (if a = 0 then 3 else 0)"
    by (simp add: get_mod_level_def level_key_def)
  have "db_get (mod_stage acc) (''prop:'' @ hex_hash hh) = None"
    unfolding mod_stage_def by (subst mod_rows_get) (simp_all add: key_class_def level_key_def)
  then show "has_proposal (mod_stage acc) hh = False" by (simp add: has_proposal_def)
  show "next_expected_nonce (mod_stage acc) a = 0"
    unfolding mod_stage_def fresh_reads mod_rows_def
    by (rule genesis_with_zero) (simp_all add: nonce_key_def level_key_def key_class_def)
qed

lemma mod_eligible: "set (vote_eligible (mod_stage acc)) = {0}"
  unfolding vote_eligible_def set_filter mod_reads active_mods [of acc, folded mod_stage_def] by (auto simp: ModLevel_OP_def)

lemma grant_address: "address_from_pubkey toy_crypto (mk_arr [6]) = mk_arr [6]"
  by (simp add: arr_eq_iff arr_bytes_mk_arr_take)

lemma grant_fields: "proposal_fields_ok (mod_stage acc) grant_tx"
proof -
  have "(mk_arr [6] :: address) \<noteq> 0" by (rule mk_arr_nonzero) simp_all
  then show ?thesis
    by (simp add: proposal_fields_ok_def grant_tx_def mod_reads grantable_def grant_level_def code_simps
        ModLevel_OP_def ModLevel_VOICE_def)
qed

lemma rows_mod: "rows_of p (mod_stage acc) = []"
  by (simp add: mod_stage_def rows_fresh)

lemma grant_accepted:
  shows "fst (apply_proposal toy_crypto grant_tx h (mod_stage acc))"
    and "rows_of ''mlvl:'' (snd (apply_proposal toy_crypto grant_tx h (mod_stage acc))) =
      [Put (level_key (mk_arr [6])) [2]]"
proof -
  let ?s = "mod_stage acc" and ?ph = "ProposalTx_tx_hash toy_crypto grant_tx"
  let ?u = "record_vote toy_crypto ?ph 0 (put_proposal toy_crypto ?ph (ProposalTx_serialize grant_tx) ?s)"
  have ne: "(mk_arr [6] :: address) \<noteq> 0" by (rule mk_arr_nonzero) simp_all
  have st: "db_store ?u = db_store ?s" by (simp add: record_vote_keeps put_proposal_def)
  have "set (vote_eligible ?u) = {0}" "get_founder ?u = Some 0"
    using mod_eligible [of acc] mod_reads(1) [of acc] governance_reads(1,3) [OF st] by simp_all
  moreover have "0 \<in> st_votes ?u ?ph" by (simp add: record_vote_def Let_def)
  ultimately have go: "grant_is_unanimous ?u ?ph" "get_founder ?u = Some 0"
    by (auto simp: grant_is_unanimous_def list_all_iff length_greater_0_conv)
  have sig: "ProposalTx_verify_signature toy_crypto grant_tx"
    using grant_address toy_address_zero
    by (simp add: ProposalTx_verify_signature_def grant_tx_def)
  have eq: "apply_proposal toy_crypto grant_tx h ?s =
      file_proposal toy_crypto grant_tx h 0 grant_is_unanimous ?s"
    using grant_fields [of acc] sig
    by (simp add: apply_proposal_def mod_reads Let_def) (simp add: grant_tx_def code_simps)
  have x: "execute_proposal toy_crypto grant_tx ?ph h ?u =
    (True, set_proposal_status toy_crypto ?ph PROP_EXECUTED (set_mod_active_block toy_crypto (mk_arr [6]) h
       (set_mod_pubkey toy_crypto (mk_arr [6]) (mk_arr [6]) (set_mod_level toy_crypto (mk_arr [6]) 2 ?u))))"
    using go(2) ne
    by (simp add: execute_proposal_def grant_tx_def code_simps grant_level_def grantable_def ModLevel_OP_def
        ModLevel_VOICE_def Let_def)
  have "file_proposal toy_crypto grant_tx h 0 grant_is_unanimous ?s =
    (True, advance_nonce toy_crypto 0 1 (snd (execute_proposal toy_crypto grant_tx ?ph h ?u)))"
    using go(1) x by (simp add: file_proposal_def mod_reads Let_def grant_tx_def)
  then show "fst (apply_proposal toy_crypto grant_tx h ?s)"
    "rows_of ''mlvl:'' (snd (apply_proposal toy_crypto grant_tx h ?s)) = [Put (level_key (mk_arr [6])) [2]]"
    using eq x rows_mod by (simp_all add: level_key_def)
qed

theorem appointment_is_unanimous_witness:
  "\<forall>acc. has_proposal_vote (mod_stage acc) (ProposalTx_tx_hash toy_crypto grant_tx) 0 \<or>
     0 \<in> st_votes (mod_stage acc) (ProposalTx_tx_hash toy_crypto grant_tx) \<or>
     0 = prop_proposer grant_tx"
proof
  fix acc
  let ?s = "mod_stage acc"
  obtain t where t: "apply_proposal toy_crypto grant_tx 1 ?s = (True, t)"
    using grant_accepted(1) [of 1 acc] by (cases "apply_proposal toy_crypto grant_tx 1 ?s") simp
  then have "rows_of ''mlvl:'' t \<noteq> rows_of ''mlvl:'' ?s"
    using grant_accepted(2) [of 1 acc] by (simp add: rows_mod)
  from appointment_is_unanimous [OF t this refl] mod_eligible [of acc]
  show "has_proposal_vote ?s (ProposalTx_tx_hash toy_crypto grant_tx) 0 \<or>
     0 \<in> st_votes ?s (ProposalTx_tx_hash toy_crypto grant_tx) \<or> 0 = prop_proposer grant_tx"
    by (simp add: grant_tx_def code_simps)
qed

end
