(* ===== verification/Producer.thy ===== *)
theory Producer
  imports Chain "HOL-Library.Product_Lexorder"
begin

text \<open>
  \<open>src/bopwire/src/consensus/candidate.h\<close> and \<open>candidate.cpp\<close>: the block producer. One pass of
  \<open>heartbeat_loop\<close> picks a song, checks and orders the mempool, caps it, drops what does not
  apply, builds a block and commits it. The clock is an argument (\<open>now\<close>), the thread, its
  condition variable and the \<open>.blk\<close> files are left out, and \<open>announcer_\<close> is the list of hashes it
  was called with. \<open>last_block_at_ms_\<close> is written and never read by the code; it is left out.
  Byte counts are natural numbers: they are sizes of vectors in memory.
\<close>

definition PROPAGATION_WINDOW_MS :: u64 where "PROPAGATION_WINDOW_MS = 30000"

definition MAX_TXS_PER_SENDER_PER_BLOCK :: u32 where "MAX_TXS_PER_SENDER_PER_BLOCK = 256"

record PendingRegistration =
  pg_content_hash :: hash256
  pg_fingerprint_hash :: hash256
  pg_compressed_fingerprint :: string
  pg_audio_format :: u8
  pg_duration_ms :: u32
  pg_title :: string
  pg_artist :: string
  pg_artist_address :: address
  pg_genre :: string
  pg_album :: string
  pg_year :: u16
  pg_track_number :: u16
  pg_royalty_splits :: "RoyaltySplit list"
  pg_announcing_peer_id :: string
  pg_submit_ms :: u64
  pg_retries :: u8

record producer =
  pr_chain :: chain
  pr_songs :: "(hash256 \<times> PendingRegistration) list"
  pr_running :: bool
  pr_wake_requested :: bool
  pr_announced :: "hash256 list"

section \<open>The map of pending songs\<close>

text \<open>A \<open>std::map\<close> is its list of entries in ascending order of the keys.\<close>

fun map_insert :: "'k::linorder \<Rightarrow> 'v \<Rightarrow> ('k \<times> 'v) list \<Rightarrow> ('k \<times> 'v) list" where
  "map_insert k v [] = [(k, v)]"
| "map_insert k v ((k', v') # m) =
     (if k < k' then (k, v) # (k', v') # m
      else if k = k' then (k, v) # m
      else (k', v') # map_insert k v m)"

definition map_erase :: "'k \<Rightarrow> ('k \<times> 'v) list \<Rightarrow> ('k \<times> 'v) list" where
  "map_erase k m = filter (\<lambda>(k', _). k' \<noteq> k) m"

definition enqueue_registration :: "PendingRegistration \<Rightarrow> producer \<Rightarrow> producer" where
  "enqueue_registration r p =
     p\<lparr>pr_songs := map_insert (pg_content_hash r) r (pr_songs p), pr_wake_requested := True\<rparr>"

definition pending_registration_count :: "producer \<Rightarrow> nat" where
  "pending_registration_count p = length (pr_songs p)"

definition wake :: "producer \<Rightarrow> producer" where
  "wake p = p\<lparr>pr_wake_requested := True\<rparr>"

definition stop_producer :: "producer \<Rightarrow> producer" where
  "stop_producer p = p\<lparr>pr_running := False\<rparr>"

section \<open>Selecting a song\<close>

text \<open>Direct writes to the database, outside any batch.\<close>

definition on_store :: "(kv \<Rightarrow> kv) \<Rightarrow> chain \<Rightarrow> chain" where
  "on_store f ch = ch\<lparr>ch_stage := (ch_stage ch)\<lparr>db_store := f (db_store (ch_stage ch))\<rparr>\<rparr>"

definition age_at :: "u64 \<Rightarrow> u64 \<Rightarrow> u64" where
  "age_at now submit_ms = (if submit_ms \<le> now then now - submit_ms else 0)"

definition pg_on_chain :: "crypto \<Rightarrow> chain \<Rightarrow> PendingRegistration \<Rightarrow> bool" where
  "pg_on_chain c ch r \<longleftrightarrow>
     song_on_chain c (ch_stage ch) (pg_content_hash r) (pg_compressed_fingerprint r)"

fun select_song :: "crypto \<Rightarrow> u64 \<Rightarrow> (hash256 \<times> PendingRegistration) list \<Rightarrow> chain \<Rightarrow>
    PendingRegistration option \<times> (hash256 \<times> PendingRegistration) list \<times> chain" where
  "select_song c now [] ch = (None, [], ch)"
| "select_song c now ((k, r) # m) ch =
     (if 3 \<le> pg_retries r \<or> age_at now (pg_submit_ms r) < PROPAGATION_WINDOW_MS then
        (let (x, m, ch) = select_song c now m ch in (x, (k, r) # m, ch))
      else if pg_on_chain c ch r then select_song c now m (on_store (del_pending_song k) ch)
      else (Some r, (k, r) # m, ch))"

section \<open>Checking the mempool\<close>

record TxSlot =
  sl_hash :: hash256
  sl_raw :: bytes
  sl_sender :: address
  sl_nonce :: u64
  sl_submit_ms :: u64

definition signed_by :: "(bytes \<Rightarrow> 't option) \<Rightarrow> ('t \<Rightarrow> bool) \<Rightarrow> ('t \<Rightarrow> address) \<Rightarrow> ('t \<Rightarrow> u64) \<Rightarrow>
    bytes \<Rightarrow> (address \<times> u64) option" where
  "signed_by deser good sender nonce raw =
     (case deser raw of None \<Rightarrow> None
      | Some tx \<Rightarrow> if good tx then Some (sender tx, nonce tx) else None)"

definition bogus_bootstrap :: "ModeratorOpTx \<Rightarrow> bool" where
  "bogus_bootstrap tx \<longleftrightarrow> mop_op_code tx = ModOp_GRANT \<and> mop_level tx = ModLevel_FOUNDER \<and>
     mop_proposer tx = mop_subject tx \<and> founder_is_pinned \<and> mop_subject tx \<noteq> PINNED_FOUNDER_ADDRESS"

text \<open>The pre-flight: sender and nonce of a transaction that may stay, \<open>None\<close> for one to drop.\<close>

fun preflight_typed :: "crypto \<Rightarrow> TxType \<Rightarrow> bytes \<Rightarrow> (address \<times> u64) option" where
  "preflight_typed c TRANSFER =
     signed_by TransferTx_deserialize (TransferTx_verify_signature c) tr_from_address tr_nonce"
| "preflight_typed c MODERATOR_OP =
     signed_by ModeratorOpTx_deserialize
       (\<lambda>tx. ModeratorOpTx_verify_signature c tx \<and> \<not> bogus_bootstrap tx) mop_proposer mop_nonce"
| "preflight_typed c MODERATOR_PROPOSAL =
     signed_by ProposalTx_deserialize (ProposalTx_verify_signature c) prop_proposer prop_nonce"
| "preflight_typed c USERNAME_REGISTER =
     signed_by UsernameTx_deserialize (UsernameTx_verify_signature c) un_owner un_nonce"
| "preflight_typed c RATING =
     signed_by RatingTx_deserialize (RatingTx_verify_signature c) rt_rater rt_nonce"
| "preflight_typed c MINT = signed_by MintTx_deserialize (\<lambda>_. True) (\<lambda>_. 0) (\<lambda>_. 0)"
| "preflight_typed c RELAY_REWARD =
     signed_by RelayRewardTx_deserialize (RelayRewardTx_verify_signature c) rr_issuer_address rr_nonce"
| "preflight_typed c SLASH = (\<lambda>_. None)"
| "preflight_typed c NODE_AUTH = (\<lambda>_. None)"
| "preflight_typed c CHECKPOINT = (\<lambda>_. None)"
| "preflight_typed c SETTLEMENT_MINT = (\<lambda>_. None)"

definition preflight :: "crypto \<Rightarrow> bytes \<Rightarrow> (address \<times> u64) option" where
  "preflight c raw = (case raw of [] \<Rightarrow> None
     | b # _ \<Rightarrow> (case tx_type_of b of None \<Rightarrow> None | Some t \<Rightarrow> preflight_typed c t raw))"

fun check_mempool :: "crypto \<Rightarrow> (hash256 \<times> bytes) list \<Rightarrow> chain \<Rightarrow> TxSlot list \<times> chain" where
  "check_mempool c [] ch = ([], ch)"
| "check_mempool c ((h, raw) # txs) ch =
     (case preflight c raw of
        None \<Rightarrow> check_mempool c txs (on_store (del_pending_tx h) ch)
      | Some (sender, nonce) \<Rightarrow>
          (let slot = \<lparr>sl_hash = h, sl_raw = raw, sl_sender = sender, sl_nonce = nonce,
                 sl_submit_ms = value_or (get_pending_tx_submit_ms (ch_store ch) h) 0\<rparr>;
               (slots, ch) = check_mempool c txs ch
           in (slot # slots, ch)))"

section \<open>Ordering, inclusion and caps\<close>

definition slot_key :: "TxSlot \<Rightarrow> address \<times> u64 \<times> hash256" where
  "slot_key s = (sl_sender s, sl_nonce s, sl_hash s)"

definition sort_slots :: "TxSlot list \<Rightarrow> TxSlot list" where
  "sort_slots = sort_key slot_key"

definition include_slots :: "u64 \<Rightarrow> PendingRegistration option \<Rightarrow> TxSlot list \<Rightarrow> TxSlot list" where
  "include_slots now reg slots = (case reg of
       Some r \<Rightarrow> filter (\<lambda>s. sl_submit_ms s \<le> pg_submit_ms r) slots
     | None \<Rightarrow> filter (\<lambda>s. \<not> age_at now (sl_submit_ms s) < PROPAGATION_WINDOW_MS) slots)"

definition metered :: "bytes \<Rightarrow> bool" where
  "metered raw \<longleftrightarrow> (case raw of [] \<Rightarrow> False
     | b # _ \<Rightarrow> tx_type_of b \<in> {Some TRANSFER, Some USERNAME_REGISTER, Some MODERATOR_PROPOSAL,
          Some MODERATOR_OP, Some RATING})"

text \<open>The loop of the per-sender cap, with its state: current sender, count, dropping.\<close>

fun cap_loop :: "address option \<Rightarrow> u32 \<Rightarrow> bool \<Rightarrow> TxSlot list \<Rightarrow> TxSlot list" where
  "cap_loop cur n dropping [] = []"
| "cap_loop cur n dropping (s # slots) =
     (let fresh = (cur \<noteq> Some (sl_sender s));
          n = (if fresh then 0 else n);
          dropping = (if fresh then False else dropping);
          cur = Some (sl_sender s)
      in if dropping then cap_loop cur n dropping slots
         else if metered (sl_raw s) then
           (if MAX_TXS_PER_SENDER_PER_BLOCK < n + 1 then cap_loop cur (n + 1) True slots
            else s # cap_loop cur (n + 1) dropping slots)
         else s # cap_loop cur n dropping slots)"

definition cap_senders :: "TxSlot list \<Rightarrow> TxSlot list" where
  "cap_senders = cap_loop None 0 False"

definition block_reserve :: "PendingRegistration option \<Rightarrow> nat" where
  "block_reserve reg = 512 + (case reg of None \<Rightarrow> 0 | Some r \<Rightarrow>
     1 + 32 + 2 + length (pg_compressed_fingerprint r) + 4 + 2 + length (pg_title r) +
     2 + length (pg_artist r) + 20 + 2 + length (pg_genre r) + 2 + length (pg_album r) +
     2 + 2 + 1 + length (pg_royalty_splits r) * 22)"

text \<open>The counts are those before the slot at hand.\<close>

fun take_prefix :: "nat \<Rightarrow> nat \<Rightarrow> nat \<Rightarrow> TxSlot list \<Rightarrow> TxSlot list" where
  "take_prefix budget taken cum [] = []"
| "take_prefix budget taken cum (s # slots) =
     (if MAX_TXS_PER_BLOCK \<le> taken then []
      else let cum = cum + length (sl_raw s) + 4 in
      if budget < cum then [] else s # take_prefix budget (taken + 1) cum slots)"

definition cap_block :: "PendingRegistration option \<Rightarrow> TxSlot list \<Rightarrow> TxSlot list" where
  "cap_block reg = take_prefix (MAX_BLOCK_SIZE - block_reserve reg) 0 0"

section \<open>The applicability gate\<close>

definition erase_at :: "nat \<Rightarrow> 'a list \<Rightarrow> 'a list" where
  "erase_at i xs = take i xs @ drop (Suc i) xs"

lemma first_unappliable_range:
  "first_unappliable_from c h before txs s = (i, t) \<Longrightarrow>
   i = -1 \<or> int (length before) \<le> i \<and> i < int (length before + length txs)"
proof (induction txs arbitrary: before s)
  case (Cons tx txs)
  show ?case
  proof (cases "fst (apply_tx_list c h (before @ [tx]) (reset_staging (new_batch s)))")
    case True
    then show ?thesis using Cons.prems Cons.IH [of "before @ [tx]"]
      by (fastforce simp: case_prod_beta Let_def)
  qed (use Cons.prems in \<open>simp add: case_prod_beta Let_def\<close>)
qed simp

lemma first_unappliable_index:
  assumes "(i, ch') = first_unappliable_tx c txs ch" and "\<not> i < 0"
  shows "nat i < length txs"
proof -
  have "fst (first_unappliable_from c (tip_height (ch_tip ch) + 1) [] txs (ch_stage ch)) = i"
    using assms(1) by (simp add: first_unappliable_tx_def case_prod_beta)
  then have "i = -1 \<or> i < int (length txs)"
    using first_unappliable_range [of c _ "[]" txs "ch_stage ch" i] by (metis prod.collapse list.size(3) add_0)
  with assms(2) show ?thesis by auto
qed

lemma length_erase_at [simp]: "i < length xs \<Longrightarrow> length (erase_at i xs) < length xs"
  by (simp add: erase_at_def)

text \<open>
  The loop \<open>for (;;)\<close>: the trial application, the culprit erased from the body and from the
  mempool, again until nothing is found. It ends because the body shrinks.
\<close>

function applicability_gate :: "crypto \<Rightarrow> TxSlot list \<Rightarrow> chain \<Rightarrow> TxSlot list \<times> chain" where
  "applicability_gate c included ch =
     (let (bad, ch) = first_unappliable_tx c (map sl_raw included) ch in
      if bad < 0 then (included, ch)
      else applicability_gate c (erase_at (nat bad) included)
             (on_store (del_pending_tx (sl_hash (included ! nat bad))) ch))"
  by pat_completeness auto
termination
  by (relation "measure (\<lambda>(c, included, ch). length included)")
    (auto dest: first_unappliable_index)

declare applicability_gate.simps [simp del]

section \<open>Building and committing a block\<close>

definition song_of :: "PendingRegistration \<Rightarrow> SongSection" where
  "song_of r =
     \<lparr>song_audio_format = pg_audio_format r, song_content_hash = pg_content_hash r,
      song_compressed_fingerprint = pg_compressed_fingerprint r,
      song_duration_ms = pg_duration_ms r, song_title = pg_title r, song_artist = pg_artist r,
      song_artist_address = pg_artist_address r, song_genre = pg_genre r, song_album = pg_album r,
      song_year = pg_year r, song_track_number = pg_track_number r,
      song_royalty_splits = pg_royalty_splits r\<rparr>"

definition assemble_block ::
    "crypto \<Rightarrow> hash256 \<Rightarrow> u64 \<Rightarrow> PendingRegistration option \<Rightarrow> bytes list \<Rightarrow> Block" where
  "assemble_block c prev ts reg txs =
     (let header = \<lparr>hd_version = BLOCK_VERSION, hd_prev_hash = prev,
            hd_merkle_root = Block_compute_merkle_root c txs, hd_fingerprint_hash = 0,
            hd_content_hash = 0, hd_timestamp_ms = ts, hd_state_root = 0, hd_song_body_hash = 0\<rparr>;
          block = \<lparr>blk_header = header, blk_song = None, blk_transactions = txs\<rparr>
      in case reg of None \<Rightarrow> block
         | Some r \<Rightarrow>
             let block = block\<lparr>blk_song := Some (song_of r),
                   blk_header := header\<lparr>hd_content_hash := pg_content_hash r,
                     hd_fingerprint_hash := sha256 c (str_bytes (pg_compressed_fingerprint r))\<rparr>\<rparr>
             in block\<lparr>blk_header := (blk_header block)\<lparr>hd_song_body_hash :=
                  Block_compute_song_body_hash c block\<rparr>\<rparr>)"

definition stamp_root :: "crypto \<Rightarrow> Block \<Rightarrow> chain \<Rightarrow> Block \<times> chain" where
  "stamp_root c blk ch =
     (if 4 \<le> hd_version (blk_header blk) then
        (let (root, ch) = compute_candidate_state_root c blk ch
         in (blk\<lparr>blk_header := (blk_header blk)\<lparr>hd_state_root := root\<rparr>\<rparr>, ch))
      else (blk, ch))"

definition commit_block :: "crypto \<Rightarrow> bool \<Rightarrow> Block \<Rightarrow> producer \<Rightarrow> bool \<times> producer" where
  "commit_block c allow_new_chain blk p =
     (let (blk, ch) = stamp_root c blk (pr_chain p);
          (ok, ch) = connect_block c allow_new_chain blk ch
      in if \<not> ok then (False, p\<lparr>pr_chain := ch\<rparr>)
         else (True, p\<lparr>pr_chain := ch, pr_announced := pr_announced p @ [Block_hash c blk]\<rparr>))"

section \<open>A pass of the loop\<close>

definition block_time :: "PendingRegistration option \<Rightarrow> TxSlot list \<Rightarrow> u64" where
  "block_time reg included = (case reg of Some r \<Rightarrow> pg_submit_ms r
     | None \<Rightarrow> foldl (\<lambda>ts s. if ts < sl_submit_ms s then sl_submit_ms s else ts) 0 included)"

text \<open>The song after a failed commit: its retries go up; it is dropped on the third or when it is
  on chain.\<close>

definition retry_song :: "crypto \<Rightarrow> PendingRegistration \<Rightarrow> producer \<Rightarrow> producer" where
  "retry_song c r p =
     (let dup = pg_on_chain c (pr_chain p) r in
      case map_of (pr_songs p) (pg_content_hash r) of
        None \<Rightarrow> p
      | Some entry \<Rightarrow>
          let entry = entry\<lparr>pg_retries := pg_retries entry + 1\<rparr> in
          if dup \<or> 3 \<le> pg_retries entry then
            p\<lparr>pr_chain := on_store (del_pending_song (pg_content_hash r)) (pr_chain p),
              pr_songs := map_erase (pg_content_hash r) (pr_songs p)\<rparr>
          else p\<lparr>pr_songs := map_insert (pg_content_hash r) entry (pr_songs p)\<rparr>)"

definition after_failure ::
    "crypto \<Rightarrow> PendingRegistration option \<Rightarrow> TxSlot list \<Rightarrow> producer \<Rightarrow> producer" where
  "after_failure c reg included p =
     (let song = (\<lambda>p. case reg of None \<Rightarrow> p | Some r \<Rightarrow> retry_song c r p) in
      if included = [] then song p
      else let (bad, ch) = first_unappliable_tx c (map sl_raw included) (pr_chain p);
               p = p\<lparr>pr_chain := ch\<rparr>
           in if 0 \<le> bad
              then p\<lparr>pr_chain := on_store (del_pending_tx (sl_hash (included ! nat bad))) ch\<rparr>
              else song p)"

text \<open>The body a pass settles on, before the block is built.\<close>

definition build_body :: "crypto \<Rightarrow> u64 \<Rightarrow> PendingRegistration option \<Rightarrow> chain \<Rightarrow> TxSlot list \<times> chain" where
  "build_body c now reg ch =
     (let (slots, ch) = check_mempool c (get_all_pending_txs (ch_store ch)) ch;
          included = include_slots now reg (sort_slots slots);
          included = cap_block reg (cap_senders included)
      in applicability_gate c included ch)"

definition producer_pass :: "crypto \<Rightarrow> bool \<Rightarrow> u64 \<Rightarrow> producer \<Rightarrow> bool \<times> producer" where
  "producer_pass c allow_new_chain now p =
     (let (reg, songs, ch) = select_song c now (pr_songs p) (pr_chain p);
          (included, ch) = build_body c now reg ch;
          p = p\<lparr>pr_songs := songs, pr_chain := ch\<rparr>
      in if reg = None \<and> included = [] then (False, p)
         else
           let blk = assemble_block c (tip_hash (ch_tip ch)) (block_time reg included) reg
                       (map sl_raw included);
               (ok, p) = commit_block c allow_new_chain blk p
           in if \<not> ok then (False, after_failure c reg included p)
              else (True, case reg of None \<Rightarrow> p
                 | Some r \<Rightarrow> p\<lparr>pr_songs := map_erase (pg_content_hash r) (pr_songs p)\<rparr>))"

text \<open>An iteration of the thread: \<open>None\<close> when it was stopped while it waited.\<close>

definition heartbeat_step :: "crypto \<Rightarrow> bool \<Rightarrow> u64 \<Rightarrow> producer \<Rightarrow> (bool \<times> producer) option" where
  "heartbeat_step c allow_new_chain now p =
     (let p = p\<lparr>pr_wake_requested := False\<rparr> in
      if \<not> pr_running p then None else Some (producer_pass c allow_new_chain now p))"

end
