(* ===== verification/Producer_Laws.thy ===== *)
theory Producer_Laws
  imports Producer Reorg_Laws "HOL-Library.Sublist"
begin

text \<open>
  The laws of the block producer: the body it settles on applies, fits in a block and is a
  subsequence of the ordered mempool; a block built from it is one that \<open>connect_block\<close> accepts.
\<close>

section \<open>Outcomes do not depend on batch and accumulator\<close>

definition core :: "stage \<Rightarrow> stage" where
  "core s = s\<lparr>db_batch := [], db_acc := None\<rparr>"

lemma core_pre: "core s = pre (True, []) (s\<lparr>db_batch := []\<rparr>)"
  by (simp add: core_def pre_def)

lemma apply_tx_list_core: "fst (apply_tx_list c h txs (core s)) = fst (apply_tx_list c h txs s)"
proof -
  have "fst (apply_tx_list c h txs s) = fst (apply_tx_list c h txs (s\<lparr>db_batch := []\<rparr>))"
    by (subst as_pre [of s]) (simp add: tx_list.handle_pre)
  then show ?thesis by (simp add: core_pre tx_list.handle_pre)
qed

lemma core_put [simp]:
  "core (put_batch c k v s) = core s" "core (del_batch c k s) = core s"
  by (simp_all add: core_def put_batch_def del_batch_def)

lemma core_foldl: "(\<And>s x. core (f s x) = core s) \<Longrightarrow> core (foldl f s xs) = core s"
  by (induction xs arbitrary: s) simp_all

lemma core_index [simp]:
  "core (add_to_index c k ch s) = core s" "core (add_to_bucket c b ch s) = core s"
  by (simp_all add: add_to_index_def add_to_bucket_def Let_def)

lemma core_put_fingerprint [simp]: "core (put_fingerprint c song s) = core s"
  by (simp add: put_fingerprint_def Let_def core_foldl split: option.split)

lemma core_song_rows [simp]: "core (write_song_rows c blk h s) = core s"
  by (simp add: write_song_rows_def set_content_height_def put_batch_u32_def add_to_genre_index_def
      add_to_artist_index_def put_song_meta_def Let_def split: option.split)

lemma core_fresh: "core (fresh_stage acc db) = core (reset_staging (new_batch s))" if "db_store s = db"
  using that by (simp add: core_def fresh_stage_def reset_staging_def new_batch_def Ledger_reset_def)

lemma run_candidate_applies:
  "fst (run_candidate c blk ch) =
     fst (apply_tx_list c (next_height ch) (blk_transactions blk) (reset_staging (new_batch (ch_stage ch))))"
proof -
  have "core (write_song_rows c blk (next_height ch) (fresh_stage (ch_acc ch) (ch_store ch))) =
      core (reset_staging (new_batch (ch_stage ch)))"
    by (simp add: core_fresh [of "ch_stage ch"] ch_store_def)
  then show ?thesis unfolding run_candidate_def by (metis apply_tx_list_core)
qed

section \<open>The probe for an unappliable transaction\<close>

lemma first_unappliable_applies:
  assumes "fst (first_unappliable_from c h before txs s) < 0"
    and "fst (apply_tx_list c h before (reset_staging (new_batch s)))"
  shows "fst (apply_tx_list c h (before @ txs) (reset_staging (new_batch s)))"
  using assms
proof (induction txs arbitrary: before s)
  case (Cons tx txs)
  let ?r = "apply_tx_list c h (before @ [tx]) (reset_staging (new_batch s))"
  have ok: "fst ?r" using Cons.prems(1) by (auto simp: case_prod_beta Let_def split: if_splits)
  let ?s = "new_batch (snd ?r)"
  have "db_store ?s = db_store s"
    by (simp add: new_batch_def tx_list.handle_store)
  then have same: "reset_staging (new_batch ?s) = reset_staging (new_batch s)"
    by (simp add: reset_staging_def new_batch_def Ledger_reset_def)
  have "fst (first_unappliable_from c h (before @ [tx]) txs ?s) < 0"
    using Cons.prems(1) ok by (simp add: case_prod_beta Let_def)
  from Cons.IH [OF this] same ok show ?case by simp
qed simp

lemma probe_clean:
  assumes "first_unappliable_tx c txs ch = (i, ch')" and "i < 0"
  shows "fst (apply_tx_list c (next_height ch) txs (reset_staging (new_batch (ch_stage ch))))"
proof -
  have "fst (first_unappliable_from c (next_height ch) [] txs (ch_stage ch)) < 0"
    using assms by (simp add: first_unappliable_tx_def case_prod_beta next_height_def)
  from first_unappliable_applies [OF this] show ?thesis by simp
qed

section \<open>What the mempool operations leave alone\<close>

definition mempool_classes :: "string list" where
  "mempool_classes = [''p:'', ''pt:'', ''sp:'']"

definition same_but_mempool :: "chain \<Rightarrow> chain \<Rightarrow> bool" where
  "same_but_mempool ch ch' \<longleftrightarrow>
     ch_tip ch' = ch_tip ch \<and> ch_acc ch' = ch_acc ch \<and> ch_checkpoints ch' = ch_checkpoints ch \<and>
     (\<forall>k. key_class k \<notin> Some ` set mempool_classes \<longrightarrow> kv_get (ch_store ch') k = kv_get (ch_store ch) k)"

lemma same_but_mempool_refl: "same_but_mempool ch ch"
  by (simp add: same_but_mempool_def)

lemma same_but_mempool_trans [trans]:
  "same_but_mempool a b \<Longrightarrow> same_but_mempool b d \<Longrightarrow> same_but_mempool a d"
  by (simp add: same_but_mempool_def)

lemma same_chain_mempool: "same_chain ch ch' \<Longrightarrow> same_but_mempool ch ch'"
  by (simp add: same_chain_def same_but_mempool_def)

lemma drop_rows_mempool:
  "same_but_mempool ch (on_store (del_pending_tx h) ch)"
  "same_but_mempool ch (on_store (del_pending_song h) ch)"
  by (auto simp: same_but_mempool_def on_store_def ch_store_def del_pending_tx_def
      del_pending_song_def kv_get_del mempool_classes_def key_class_def)

lemma song_on_chain_mempool:
  assumes "same_but_mempool ch ch'"
  shows "song_on_chain c (ch_stage ch') h fp = song_on_chain c (ch_stage ch) h fp"
proof -
  have get: "db_get (ch_stage ch') k = db_get (ch_stage ch) k"
    if "key_class k \<notin> Some ` set mempool_classes" for k
    using assms that by (simp add: same_but_mempool_def db_get_def ch_store_def)
  have "get_content_height (ch_stage ch') x = get_content_height (ch_stage ch) x" for x
    by (simp add: get_content_height_def get_u32_def get mempool_classes_def key_class_def)
  moreover have f: "get_fingerprint (ch_stage ch') = get_fingerprint (ch_stage ch)"
    by (simp add: fun_eq_iff get_fingerprint_def get mempool_classes_def key_class_def)
  moreover have "get_bucket (ch_stage ch') b = get_bucket (ch_stage ch) b" for b
    by (simp add: get_bucket_def get bucket_key_def mempool_classes_def key_class_def)
  ultimately show ?thesis by (simp add: song_on_chain_iff matches_fp_def)
qed

lemma select_song_laws:
  "select_song c now m ch = (x, m', ch') \<Longrightarrow>
   same_but_mempool ch ch' \<and> set m' \<subseteq> set m \<and>
   (\<forall>r. x = Some r \<longrightarrow> \<not> pg_on_chain c ch' r \<and> (\<exists>k. (k, r) \<in> set m') \<and>
      pg_retries r < 3 \<and> PROPAGATION_WINDOW_MS \<le> age_at now (pg_submit_ms r))"
proof (induction m arbitrary: ch x m' ch')
  case Nil
  then show ?case by (simp add: same_but_mempool_refl)
next
  case (Cons e m)
  obtain k r where e: "e = (k, r)" by (cases e)
  consider "3 \<le> pg_retries r \<or> age_at now (pg_submit_ms r) < PROPAGATION_WINDOW_MS"
    | "\<not> (3 \<le> pg_retries r \<or> age_at now (pg_submit_ms r) < PROPAGATION_WINDOW_MS)" "pg_on_chain c ch r"
    | "\<not> (3 \<le> pg_retries r \<or> age_at now (pg_submit_ms r) < PROPAGATION_WINDOW_MS)" "\<not> pg_on_chain c ch r"
    by blast
  then show ?case
  proof cases
    case 1
    obtain y m'' ch'' where s: "select_song c now m ch = (y, m'', ch'')" by (metis prod_cases3)
    from Cons.IH [OF s] Cons.prems 1 s e show ?thesis by auto
  next
    case 2
    then have "select_song c now m (on_store (del_pending_song k) ch) = (x, m', ch')"
      using Cons.prems e by simp
    from Cons.IH [OF this] same_but_mempool_trans [OF drop_rows_mempool(2)]
    show ?thesis by (auto simp: e)
  next
    case 3
    then show ?thesis using Cons.prems e by (auto simp: same_but_mempool_refl)
  qed
qed

lemma check_mempool_laws:
  "check_mempool c txs ch = (slots, ch') \<Longrightarrow>
   same_but_mempool ch ch' \<and>
   map (\<lambda>s. (sl_hash s, sl_raw s)) slots = filter (\<lambda>(h, raw). preflight c raw \<noteq> None) txs \<and>
   (\<forall>s\<in>set slots. preflight c (sl_raw s) = Some (sl_sender s, sl_nonce s))"
proof (induction txs arbitrary: ch slots ch')
  case Nil
  then show ?case by (simp add: same_but_mempool_refl)
next
  case (Cons e txs)
  obtain h raw where e: "e = (h, raw)" by (cases e)
  show ?case
  proof (cases "preflight c raw")
    case None
    then have "check_mempool c txs (on_store (del_pending_tx h) ch) = (slots, ch')"
      using Cons.prems e by simp
    from Cons.IH [OF this] None show ?thesis
      by (auto simp: e intro: same_but_mempool_trans [OF drop_rows_mempool(1)])
  next
    case (Some sn)
    obtain sl ch1 where s: "check_mempool c txs ch = (sl, ch1)" by fastforce
    from Cons.IH [OF s] Some Cons.prems s e show ?thesis
      by (cases sn) (auto simp: case_prod_beta Let_def)
  qed
qed

section \<open>Caps and gate keep a subsequence\<close>

lemma subseq_erase_at: "subseq (erase_at i xs) xs"
proof -
  have "subseq (drop (Suc i) xs) (drop i xs)"
    by (cases "drop i xs") (simp_all add: drop_Suc list_emb_Cons flip: tl_drop)
  then have "subseq (take i xs @ drop (Suc i) xs) (take i xs @ drop i xs)"
    by (rule list_emb_append_mono [OF subseq_order.order_refl])
  then show ?thesis by (simp add: erase_at_def)
qed

lemma subseq_cap_loop: "subseq (cap_loop cur n d slots) slots"
  by (induction slots arbitrary: cur n d) (auto simp: Let_def)

lemma take_prefix_take: "\<exists>n. take_prefix budget taken cum slots = take n slots"
proof (induction slots arbitrary: taken cum)
  case (Cons s slots)
  obtain n where n: "take_prefix budget (taken + 1) (cum + length (sl_raw s) + 4) slots = take n slots"
    using Cons.IH by blast
  have "take_prefix budget taken cum (s # slots) = take 0 (s # slots) \<or>
      take_prefix budget taken cum (s # slots) = take (Suc n) (s # slots)"
    using n by (simp add: Let_def)
  then show ?case by blast
qed simp

definition framed_size :: "TxSlot list \<Rightarrow> nat" where
  "framed_size slots = sum_list (map (\<lambda>s. length (sl_raw s) + 4) slots)"

lemma take_prefix_bounds:
  "taken \<le> MAX_TXS_PER_BLOCK \<Longrightarrow> length (take_prefix budget taken cum slots) + taken \<le> MAX_TXS_PER_BLOCK"
  "cum \<le> budget \<Longrightarrow> framed_size (take_prefix budget taken cum slots) + cum \<le> budget"
proof (induction slots arbitrary: taken cum)
  case (Cons s slots)
  case 1
  then show ?case using Cons.IH(1) [of "taken + 1" "cum + length (sl_raw s) + 4"] by (simp add: Let_def)
next
  case (Cons s slots)
  case 2
  then show ?case
    using Cons.IH(2) [of "cum + length (sl_raw s) + 4" "taken + 1"]
    by (cases "budget < cum + length (sl_raw s) + 4") (simp_all add: Let_def framed_size_def)
qed (simp_all add: framed_size_def)

lemma framed_size_subseq: "subseq xs ys \<Longrightarrow> framed_size xs \<le> framed_size ys"
  by (induction rule: list_emb.induct) (auto simp: framed_size_def)

lemma gate_laws:
  "applicability_gate c included ch = (included', ch') \<Longrightarrow>
   subseq included' included \<and> same_but_mempool ch ch' \<and>
   fst (apply_tx_list c (next_height ch') (map sl_raw included') (reset_staging (new_batch (ch_stage ch'))))"
proof (induction c included ch rule: applicability_gate.induct)
  case (1 c included ch)
  obtain bad ch1 where p: "first_unappliable_tx c (map sl_raw included) ch = (bad, ch1)" by fastforce
  have same: "same_chain ch ch1" using first_unappliable_keeps [of ch c "map sl_raw included"] p by simp
  show ?case
  proof (cases "bad < 0")
    case True
    then have eq: "included' = included" "ch' = ch1"
      using "1.prems" p by (simp_all add: applicability_gate.simps [of c included ch])
    have "reset_staging (new_batch (ch_stage ch1)) = reset_staging (new_batch (ch_stage ch))"
      using same by (simp add: same_chain_def ch_store_def reset_staging_def new_batch_def Ledger_reset_def)
    with probe_clean [OF p True] same eq show ?thesis
      by (simp add: same_chain_mempool same_chain_def next_height_def)
  next
    case False
    let ?i = "nat bad"
    let ?ch2 = "on_store (del_pending_tx (sl_hash (included ! ?i))) ch1"
    have "applicability_gate c (erase_at ?i included) ?ch2 = (included', ch')"
      using "1.prems" p False by (simp add: applicability_gate.simps [of c included ch])
    from "1.IH" [OF refl p [symmetric] False this]
    show ?thesis
      using subseq_erase_at [of ?i included] same_chain_mempool [OF same] drop_rows_mempool(1) [of ch1]
      by (meson subseq_order.order_trans same_but_mempool_trans)
  qed
qed

lemma build_body_laws:
  assumes "build_body c now reg ch = (included, ch')"
  shows "same_but_mempool ch ch'"
    and "fst (apply_tx_list c (next_height ch') (map sl_raw included)
           (reset_staging (new_batch (ch_stage ch'))))"
    and "length included \<le> MAX_TXS_PER_BLOCK"
    and "framed_size included \<le> MAX_BLOCK_SIZE - block_reserve reg"
    and "\<exists>slots ch1. check_mempool c (get_all_pending_txs (ch_store ch)) ch = (slots, ch1) \<and>
           subseq included (sort_slots slots)"
proof -
  obtain slots ch1 where s: "check_mempool c (get_all_pending_txs (ch_store ch)) ch = (slots, ch1)"
    by fastforce
  let ?inc = "cap_block reg (cap_senders (include_slots now reg (sort_slots slots)))"
  from assms s have g: "applicability_gate c ?inc ch1 = (included, ch')"
    by (simp add: build_body_def Let_def)
  note g = gate_laws [OF g]
  show "same_but_mempool ch ch'"
    using check_mempool_laws [OF s] g same_but_mempool_trans by blast
  show "fst (apply_tx_list c (next_height ch') (map sl_raw included)
      (reset_staging (new_batch (ch_stage ch'))))" using g by blast
  have b: "length ?inc \<le> MAX_TXS_PER_BLOCK" "framed_size ?inc \<le> MAX_BLOCK_SIZE - block_reserve reg"
    using take_prefix_bounds(1) [of 0] take_prefix_bounds(2) [of 0] by (simp_all add: cap_block_def)
  then show "length included \<le> MAX_TXS_PER_BLOCK"
    using g list_emb_length order_trans by blast
  show "framed_size included \<le> MAX_BLOCK_SIZE - block_reserve reg"
    using g b(2) framed_size_subseq order_trans by blast
  have "subseq ?inc (cap_senders (include_slots now reg (sort_slots slots)))"
    using take_prefix_take [of _ 0 0] subseq_order.order_refl
    by (metis cap_block_def prefix_imp_subseq take_is_prefix)
  also have "subseq \<dots> (include_slots now reg (sort_slots slots))"
    by (simp add: cap_senders_def subseq_cap_loop)
  also have "subseq \<dots> (sort_slots slots)"
    by (simp add: include_slots_def split: option.split)
  finally show "\<exists>slots ch1. check_mempool c (get_all_pending_txs (ch_store ch)) ch = (slots, ch1) \<and>
      subseq included (sort_slots slots)"
    using s g subseq_order.order_trans by blast
qed

section \<open>The block\<close>

lemma framed_size_txs: "length (concat (map (write_raw_tx \<circ> sl_raw) slots)) = framed_size slots"
  by (induction slots) (simp_all add: framed_size_def write_raw_tx_def)

lemma assemble_parts [simp]:
  "blk_transactions (assemble_block c prev ts reg txs) = txs"
  "hd_version (blk_header (assemble_block c prev ts reg txs)) = BLOCK_VERSION"
  "hd_prev_hash (blk_header (assemble_block c prev ts reg txs)) = prev"
  "hd_timestamp_ms (blk_header (assemble_block c prev ts reg txs)) = ts"
  "blk_song (assemble_block c prev ts reg txs) = map_option song_of reg"
  by (simp_all add: assemble_block_def Let_def split: option.split)

lemma length_song_body:
  "length (write_song_body (song_of r)) =
     1 + 32 + 2 + length (pg_compressed_fingerprint r) + 4 + 2 + length (pg_title r) +
     2 + length (pg_artist r) + 20 + 2 + length (pg_genre r) + 2 + length (pg_album r) +
     2 + 2 + 1 + length (pg_royalty_splits r) * 22"
proof -
  have "length (concat (map write_RoyaltySplit xs)) = length xs * 22" for xs
    by (induction xs) (simp_all add: write_RoyaltySplit_def)
  then show ?thesis by (simp add: write_song_body_def song_of_def)
qed

lemma length_header: "length (BlockHeader_serialize h) \<le> 204"
  by (simp add: BlockHeader_serialize_def)

lemma length_block:
  "length (Block_serialize b) = length (BlockHeader_serialize (blk_header b)) +
     (case blk_song b of None \<Rightarrow> 1 | Some s \<Rightarrow> 1 + length (write_song_body s)) + 12 +
     length (concat (map write_raw_tx (blk_transactions b)))"
  by (simp add: Block_serialize_def SEPARATOR_LENGTH_def split: option.split)

text \<open>A block under construction, with whatever state root it is given later.\<close>

definition rooted :: "hash256 \<Rightarrow> Block \<Rightarrow> Block" where
  "rooted root blk = blk\<lparr>blk_header := (blk_header blk)\<lparr>hd_state_root := root\<rparr>\<rparr>"

lemma rooted_parts [simp]:
  "blk_transactions (rooted root blk) = blk_transactions blk" "blk_song (rooted root blk) = blk_song blk"
  "hd_state_root (blk_header (rooted root blk)) = root"
  "hd_version (blk_header (rooted root blk)) = hd_version (blk_header blk)"
  "hd_prev_hash (blk_header (rooted root blk)) = hd_prev_hash (blk_header blk)"
  "hd_merkle_root (blk_header (rooted root blk)) = hd_merkle_root (blk_header blk)"
  "hd_content_hash (blk_header (rooted root blk)) = hd_content_hash (blk_header blk)"
  "hd_fingerprint_hash (blk_header (rooted root blk)) = hd_fingerprint_hash (blk_header blk)"
  "hd_song_body_hash (blk_header (rooted root blk)) = hd_song_body_hash (blk_header blk)"
  "Block_compute_song_body_hash c (rooted root blk) = Block_compute_song_body_hash c blk"
  by (simp_all add: rooted_def Block_compute_song_body_hash_def)

lemma body_hash_song: "Block_compute_song_body_hash c b = Block_compute_song_body_hash c b'"
  if "blk_song b = blk_song b'"
  using that by (simp add: Block_compute_song_body_hash_def)

lemma assembled_validates:
  assumes "length slots \<le> MAX_TXS_PER_BLOCK" and "framed_size slots \<le> MAX_BLOCK_SIZE - block_reserve reg"
    and "block_reserve reg \<le> MAX_BLOCK_SIZE"
    and "case reg of None \<Rightarrow> True | Some r \<Rightarrow> song_fields_ok (song_of r)"
  shows "Block_validate c (rooted root (assemble_block c prev ts reg (map sl_raw slots)))"
proof -
  let ?b = "rooted root (assemble_block c prev ts reg (map sl_raw slots))"
  have "length (Block_serialize ?b) \<le> 204 +
      (case reg of None \<Rightarrow> 1 | Some r \<Rightarrow> 1 + length (write_song_body (song_of r))) + 12 + framed_size slots"
    using length_header [of "blk_header ?b"]
    by (cases reg) (simp_all add: length_block framed_size_txs)
  also have "\<dots> \<le> MAX_BLOCK_SIZE"
    using assms(2,3) by (cases reg) (simp_all add: block_reserve_def length_song_body)
  finally have size: "length (Block_serialize ?b) \<le> MAX_BLOCK_SIZE" .
  show ?thesis
  proof (cases reg)
    case None
    then show ?thesis using assms(1) size
      by (simp add: Block_validate_iff)
        (simp add: assemble_block_def Block_compute_song_body_hash_def)
  next
    case (Some r)
    have "hd_song_body_hash (blk_header (assemble_block c prev ts reg (map sl_raw slots))) =
        Block_compute_song_body_hash c (assemble_block c prev ts reg (map sl_raw slots))"
      by (simp add: Some assemble_block_def Let_def Block_compute_song_body_hash_def)
    then show ?thesis using assms(1,4) size Some
      by (simp add: Block_validate_iff) (simp add: assemble_block_def Let_def song_of_def)
  qed
qed

lemma song_reserve: "song_fields_ok (song_of r) \<Longrightarrow> block_reserve (Some r) \<le> MAX_BLOCK_SIZE"
  by (simp add: song_fields_ok_def song_of_def block_reserve_def MAX_BLOCK_SIZE_def)

lemma run_candidate_rooted: "run_candidate c (rooted root blk) ch = run_candidate c blk ch"
  by (simp add: run_candidate_def write_song_rows_def)

lemma commit_block_ok:
  assumes "4 \<le> hd_version (blk_header blk)" and "\<And>root. admissible c an (rooted root blk) (pr_chain p)"
    and "fst (run_candidate c blk (pr_chain p))"
  shows "fst (commit_block c an blk p)"
proof -
  obtain root ch where r: "compute_candidate_state_root c blk (pr_chain p) = (root, ch)" by fastforce
  have same: "same_chain (pr_chain p) ch" using compute_candidate_keeps [of "pr_chain p" c blk] r by simp
  have "fst (compute_candidate_state_root c (rooted root blk) (pr_chain p)) = root"
    using r by (simp add: compute_candidate_eq run_candidate_rooted) (simp flip: compute_candidate_eq)
  then have "fst (connect_block c an (rooted root blk) (pr_chain p))"
    using assms by (simp add: connect_block_iff run_candidate_rooted)
  then have "fst (connect_block c an (rooted root blk) ch)"
    using connect_block_cong(1) [OF same] by simp
  then show ?thesis
    using assms(1) r by (simp add: commit_block_def stamp_root_def rooted_def case_prod_beta Let_def)
qed

end
