(* ===== verification/Producer_Properties.thy ===== *)
theory Producer_Properties
  imports Producer_Laws Tx_Samples
begin

text \<open>
  Properties of the block producer: it cannot be wedged, its gate ends, the order of a block
  is the same on every node, no sender fills a block, and which types it never carries.
\<close>

section \<open>A pass with something to carry mints a block\<close>

lemma producer_pass_mints:
  assumes sel: "select_song c now (pr_songs p) (pr_chain p) = (reg, songs, ch1)"
    and body: "build_body c now reg ch1 = (included, ch2)"
    and start: "an \<or> tip_height (ch_tip (pr_chain p)) \<noteq> 0"
    and pin: "ch_checkpoints (pr_chain p) (next_height (pr_chain p)) = None"
    and song: "case reg of None \<Rightarrow> True | Some r \<Rightarrow> song_fields_ok (song_of r)"
    and some: "reg \<noteq> None \<or> included \<noteq> []"
  shows "fst (producer_pass c an now p)"
proof -
  let ?blk = "assemble_block c (tip_hash (ch_tip ch2)) (block_time reg included) reg (map sl_raw included)"
  let ?p = "p\<lparr>pr_songs := songs, pr_chain := ch2\<rparr>"
  note s = select_song_laws [OF sel] and b = build_body_laws [OF body]
  have same: "same_but_mempool (pr_chain p) ch2" "same_but_mempool ch1 ch2"
    using s b(1) same_but_mempool_trans by blast+
  have dup: "\<not> is_duplicate_song c (ch_stage ch2) (rooted root ?blk)" for root
    using s song_on_chain_mempool [OF same(2)]
    by (cases reg) (simp_all add: is_duplicate_song_def pg_on_chain_def song_of_def)
  have "block_reserve None \<le> MAX_BLOCK_SIZE" by (simp add: block_reserve_def MAX_BLOCK_SIZE_def)
  then have reserve: "block_reserve reg \<le> MAX_BLOCK_SIZE"
    using song song_reserve by (cases reg) auto
  have valid: "Block_validate c (rooted root ?blk)" for root
    by (rule assembled_validates [OF b(3,4) reserve song])
  have "admissible c an (rooted root ?blk) ch2" for root
    using start pin same(1) dup valid
    by (auto simp: admissible_def validate_block_def checkpoint_ok_def next_height_def same_but_mempool_def)
  moreover have "fst (run_candidate c ?blk ch2)"
    using b(2) by (simp add: run_candidate_applies)
  ultimately have "fst (commit_block c an ?blk ?p)"
    by (intro commit_block_ok) (simp_all add: BLOCK_VERSION_def)
  with sel body some show ?thesis by (auto simp: producer_pass_def case_prod_beta Let_def)
qed

lemma producer_pass_iff:
  assumes "an \<or> tip_height (ch_tip (pr_chain p)) \<noteq> 0"
    and "ch_checkpoints (pr_chain p) (tip_height (ch_tip (pr_chain p)) + 1) = None"
    and "\<forall>(k, r)\<in>set (pr_songs p). song_fields_ok (song_of r)"
  shows "fst (producer_pass c an now p) \<longleftrightarrow>
    (let (reg, songs, ch) = select_song c now (pr_songs p) (pr_chain p)
     in reg \<noteq> None \<or> fst (build_body c now reg ch) \<noteq> [])"
proof -
  obtain reg songs ch1 where sel: "select_song c now (pr_songs p) (pr_chain p) = (reg, songs, ch1)"
    by (metis prod_cases3)
  obtain included ch2 where body: "build_body c now reg ch1 = (included, ch2)" by fastforce
  have song: "case reg of None \<Rightarrow> True | Some r \<Rightarrow> song_fields_ok (song_of r)"
    using select_song_laws [OF sel] assms(3) by (cases reg) auto
  show ?thesis
  proof (cases "reg \<noteq> None \<or> included \<noteq> []")
    case True
    with producer_pass_mints [OF sel body assms(1) assms(2) [folded next_height_def] song]
    show ?thesis using sel body by simp
  next
    case False
    then show ?thesis using sel body by (simp add: producer_pass_def)
  qed
qed

text \<open>C16. The producer cannot be wedged: whatever transactions the mempool holds, a pass that has
  picked a well-formed song, or is left with a transaction, mints a block that
  \<open>connect_block\<close> accepts. (The chain has a block or may start one, and no pin awaits the new
  height.)\<close>

theorem producer_never_wedges:
  assumes "an \<or> tip_height (ch_tip (pr_chain p)) \<noteq> 0"
    and "ch_checkpoints (pr_chain p) (tip_height (ch_tip (pr_chain p)) + 1) = None"
    and "\<forall>(k, r)\<in>set (pr_songs p). song_fields_ok (song_of r)"
  shows "fst (producer_pass c an now p) \<longleftrightarrow>
    (let (reg, songs, ch) = select_song c now (pr_songs p) (pr_chain p)
     in reg \<noteq> None \<or> fst (build_body c now reg ch) \<noteq> [])"
  using assms by (rule producer_pass_iff)

definition waiting_song :: PendingRegistration where
  "waiting_song = \<lparr>pg_content_hash = mk_arr [2], pg_fingerprint_hash = 0, pg_compressed_fingerprint = [],
     pg_audio_format = 0, pg_duration_ms = 200000, pg_title = ''one'', pg_artist = ''two'',
     pg_artist_address = mk_arr [4], pg_genre = [], pg_album = [], pg_year = 2024, pg_track_number = 1,
     pg_royalty_splits = [], pg_announcing_peer_id = [], pg_submit_ms = 1000, pg_retries = 0\<rparr>"

definition first_producer :: producer where
  "first_producer = \<lparr>pr_chain = genesis, pr_songs = [(mk_arr [2], waiting_song)], pr_running = True,
     pr_wake_requested = False, pr_announced = []\<rparr>"

lemma waiting_song_new: "\<not> pg_on_chain toy_crypto genesis waiting_song"
proof -
  have none: "db_get (ch_stage genesis) k = None" if "key_class k \<noteq> Some ''sr:''" for k
    using that genesis_get [of k] by (auto simp: db_get_def ch_store_def)
  then show ?thesis
    by (simp add: pg_on_chain_def waiting_song_def song_on_chain_def get_content_height_def get_u32_def
        get_fingerprint_def key_class_def)
qed

lemma first_selected:
  "select_song toy_crypto 40000 (pr_songs first_producer) genesis =
     (Some waiting_song, pr_songs first_producer, genesis)"
  using waiting_song_new
  by (simp add: first_producer_def)
    (simp add: waiting_song_def age_at_def PROPAGATION_WINDOW_MS_def)

theorem producer_never_wedges_witness: "fst (producer_pass toy_crypto True 40000 first_producer)"
proof -
  have "ch_checkpoints genesis n = None" for n
    by (simp add: genesis_def Chain_open_def empty_stage_def db_get_def Let_def restore_checkpoints_def
        kv_scan_def add_config_checkpoints_def hardcoded_checkpoints_def List.map_filter_def)
  moreover have "song_fields_ok (song_of waiting_song)"
    by (simp add: song_fields_ok_def song_of_def waiting_song_def)
  ultimately have "fst (producer_pass toy_crypto True 40000 first_producer) \<longleftrightarrow>
    (let (reg, songs, ch) = select_song toy_crypto 40000 (pr_songs first_producer) (pr_chain first_producer)
     in reg \<noteq> None \<or> fst (build_body toy_crypto 40000 reg ch) \<noteq> [])"
    by (intro producer_never_wedges) (simp_all add: first_producer_def)
  moreover have "pr_chain first_producer = genesis" by (simp add: first_producer_def)
  ultimately show ?thesis using first_selected by simp
qed

section \<open>The gate\<close>

text \<open>C29. The applicability gate, a loop without a bound in the code, ends: it probes at most one time
  more than the body has transactions, what it keeps applies as a whole, is the body itself when
  that applies already, and is otherwise shorter by the transactions it took out of the mempool.\<close>

theorem applicability_gate_ends:
  "(\<exists>kept ch'. applicability_gate c body ch = (kept, ch') \<and> subseq kept body \<and>
      fst (apply_tx_list c (tip_height (ch_tip ch') + 1) (map sl_raw kept)
        (reset_staging (new_batch (ch_stage ch'))))) \<and>
   (fst (first_unappliable_tx c (map sl_raw body) ch) < 0 \<longleftrightarrow> fst (applicability_gate c body ch) = body)"
proof (intro conjI)
  obtain kept ch' where g: "applicability_gate c body ch = (kept, ch')" by fastforce
  from gate_laws [OF g] g show "\<exists>kept ch'. applicability_gate c body ch = (kept, ch') \<and> subseq kept body \<and>
      fst (apply_tx_list c (tip_height (ch_tip ch') + 1) (map sl_raw kept)
        (reset_staging (new_batch (ch_stage ch'))))"
    by (simp add: next_height_def)
  obtain bad ch1 where p: "first_unappliable_tx c (map sl_raw body) ch = (bad, ch1)" by fastforce
  have "kept \<noteq> body" if "\<not> bad < 0"
  proof -
    let ?ch2 = "on_store (del_pending_tx (sl_hash (body ! nat bad))) ch1"
    have "applicability_gate c (erase_at (nat bad) body) ?ch2 = (kept, ch')"
      using g p that by (simp add: applicability_gate.simps [of c body ch])
    then have "length kept \<le> length (erase_at (nat bad) body)"
      using gate_laws list_emb_length by blast
    moreover have "length (erase_at (nat bad) body) < length body"
      using first_unappliable_index [OF p [symmetric] that] by simp
    ultimately show ?thesis by auto
  qed
  then show "fst (first_unappliable_tx c (map sl_raw body) ch) < 0 \<longleftrightarrow> fst (applicability_gate c body ch) = body"
  proof (cases "bad < 0")
    case True
    with p show ?thesis by (simp add: applicability_gate.simps [of c body ch])
  next
    case False
    with \<open>\<not> bad < 0 \<Longrightarrow> kept \<noteq> body\<close> p g show ?thesis by simp
  qed
qed

section \<open>Order and caps\<close>

lemma slot_key_order: "sl_hash a \<noteq> sl_hash b \<Longrightarrow> slot_key a \<noteq> slot_key b"
  by (simp add: slot_key_def)

lemma sorted_sender_nonces:
  "sorted (map slot_key xs) \<Longrightarrow> sorted (map sl_nonce (filter (\<lambda>s. sl_sender s = a) xs))"
  by (induction xs) (auto simp: slot_key_def)

text \<open>Nodes that hold the same transactions put them in the same order, however their mempools
  list them: the sort is by sender, nonce and hash, and hashes are distinct. Within a sender the
  nonces ascend.\<close>

theorem mempool_order_canonical:
  assumes "set slots = set slots'" and "distinct (map sl_hash slots)" and "distinct (map sl_hash slots')"
  shows "sort_slots slots = sort_slots slots' \<and>
    sorted (map sl_nonce (filter (\<lambda>s. sl_sender s = a) (sort_slots slots)))"
proof
  have inj: "inj_on sl_hash (set slots)" using assms(2) by (simp add: distinct_map)
  then have "inj_on slot_key (set slots)" by (auto simp: inj_on_def slot_key_def)
  with assms show "sort_slots slots = sort_slots slots'"
    unfolding sort_slots_def
    by (intro map_sorted_distinct_set_unique [where f = slot_key]) (simp_all add: distinct_map)
  show "sorted (map sl_nonce (filter (\<lambda>s. sl_sender s = a) (sort_slots slots)))"
    by (rule sorted_sender_nonces) (simp add: sort_slots_def)
qed

definition twin_slots :: "TxSlot list" where
  "twin_slots = [\<lparr>sl_hash = mk_arr [2], sl_raw = [2], sl_sender = 0, sl_nonce = 0, sl_submit_ms = 0\<rparr>,
     \<lparr>sl_hash = mk_arr [1], sl_raw = [2], sl_sender = 0, sl_nonce = 0, sl_submit_ms = 0\<rparr>]"

theorem mempool_order_canonical_witness: "sort_slots twin_slots = sort_slots (rev twin_slots)"
proof -
  have "(mk_arr [2] :: hash256) \<noteq> mk_arr [1]"
    by (auto simp: arr_eq_iff arr_bytes_mk_arr_take)
  then have "distinct (map sl_hash twin_slots)" by (simp add: twin_slots_def)
  from mempool_order_canonical [OF _ this, of "rev twin_slots"] this show ?thesis by (simp add: rev_map [symmetric])
qed

text \<open>What the cap leaves of one sender's run.\<close>

definition of_sender :: "address \<Rightarrow> TxSlot list \<Rightarrow> TxSlot list" where
  "of_sender a = filter (\<lambda>s. sl_sender s = a)"

definition metered_count :: "TxSlot list \<Rightarrow> nat" where
  "metered_count xs = length (filter (\<lambda>s. metered (sl_raw s)) xs)"

lemma cap_loop_one_sender:
  "\<forall>s\<in>set xs. sl_sender s = a \<Longrightarrow> unat n \<le> 256 \<Longrightarrow>
   \<exists>m. cap_loop (Some a) n d xs = take m xs \<and> unat n + metered_count (take m xs) \<le> 256"
proof (induction xs arbitrary: n d)
  case Nil
  then show ?case by (simp add: metered_count_def)
next
  case (Cons s xs)
  have stop: "\<exists>m. take m xs = [] \<and> take m (s # xs) = []" by (rule exI [of _ 0]) simp
  have dropped: "cap_loop (Some a) k True ys = []" if "\<forall>y\<in>set ys. sl_sender y = a" for k ys
    using that by (induction ys) auto
  have step: "\<exists>m. cap_loop (Some a) n d (s # xs) = take m (s # xs) \<and>
      unat n + metered_count (take m (s # xs)) \<le> 256"
    if k: "cap_loop (Some a) n d (s # xs) = s # cap_loop (Some a) k d xs" "unat k \<le> 256"
      "unat k = unat n + (if metered (sl_raw s) then 1 else 0)" for k
  proof -
    obtain m where "cap_loop (Some a) k d xs = take m xs" "unat k + metered_count (take m xs) \<le> 256"
      using Cons.IH [of k d] Cons.prems(1) k(2) by auto
    with k show ?thesis
      by (intro exI [of _ "Suc m"], cases "metered (sl_raw s)")
        (simp_all add: metered_count_def del: cap_loop.simps)
  qed
  consider "d" | "\<not> d" "\<not> metered (sl_raw s)"
    | "\<not> d" "metered (sl_raw s)" "unat n < 256" | "\<not> d" "metered (sl_raw s)" "unat n = 256"
    using Cons.prems(2) by linarith
  then show ?case
  proof cases
    case 1
    then have "cap_loop (Some a) n d (s # xs) = take 0 (s # xs)" using Cons.prems(1) dropped by simp
    then show ?thesis using Cons.prems(2) by (intro exI [of _ 0]) (simp add: metered_count_def)
  next
    case 2
    show ?thesis by (rule step [of n]) (use 2 Cons.prems in simp_all)
  next
    case 3
    have k: "unat (n + 1) = unat n + 1" using 3(3) by (simp add: unat_word_ariths)
    then have "\<not> MAX_TXS_PER_SENDER_PER_BLOCK < n + 1"
      using 3(3) by (simp add: MAX_TXS_PER_SENDER_PER_BLOCK_def word_less_nat_alt)
    then show ?thesis by (intro step [of "n + 1"]) (use 3 Cons.prems k in simp_all)
  next
    case 4
    have "unat (n + 1) = 257" using 4(3) by (simp add: unat_word_ariths)
    then have "MAX_TXS_PER_SENDER_PER_BLOCK < n + 1"
      by (simp add: MAX_TXS_PER_SENDER_PER_BLOCK_def word_less_nat_alt)
    then have "cap_loop (Some a) n d (s # xs) = take 0 (s # xs)" using 4 Cons.prems(1) dropped by simp
    then show ?thesis using Cons.prems(2) by (intro exI [of _ 0]) (simp add: metered_count_def)
  qed
qed

lemma cap_loop_other: "\<forall>s\<in>set xs. sl_sender s \<noteq> a \<Longrightarrow> of_sender a (cap_loop cur n d xs) = []"
  by (induction xs arbitrary: cur n d) (simp_all add: of_sender_def Let_def)

lemma cap_loop_then_other:
  "\<forall>s\<in>set ys. sl_sender s \<noteq> a \<Longrightarrow> of_sender a (cap_loop cur n d (xs @ ys)) = of_sender a (cap_loop cur n d xs)"
proof (induction xs arbitrary: cur n d)
  case (Cons x xs)
  then show ?case by (simp add: of_sender_def Let_def)
qed (use cap_loop_other in \<open>simp add: of_sender_def\<close>)

lemma cap_loop_after_other:
  assumes "\<forall>s\<in>set xs. sl_sender s \<noteq> a" and "cur \<noteq> Some a" and "\<forall>s\<in>set ys. sl_sender s = a"
  shows "of_sender a (cap_loop cur n d (xs @ ys)) = of_sender a (cap_loop (Some a) 0 False ys)"
  using assms
proof (induction xs arbitrary: cur n d)
  case Nil
  then show ?case by (cases ys) (simp_all add: Let_def)
next
  case (Cons x xs)
  then show ?case by (simp add: of_sender_def Let_def)
qed

lemma split_sorted:
  assumes "sorted (map sl_sender slots)"
  shows "slots = filter (\<lambda>s. sl_sender s < a) slots @ of_sender a slots @ filter (\<lambda>s. a < sl_sender s) slots"
  using assms
proof (induction slots)
  case (Cons s slots)
  have "sl_sender s \<le> sl_sender t" if "t \<in> set slots" for t using Cons.prems that by simp
  then have "a < sl_sender s \<Longrightarrow> filter (\<lambda>s. sl_sender s < a) slots = [] \<and> of_sender a slots = []"
    "a = sl_sender s \<Longrightarrow> filter (\<lambda>s. sl_sender s < a) slots = []"
    by (fastforce simp: filter_empty_conv of_sender_def)+
  then show ?case using Cons by (cases "sl_sender s" a rule: linorder_cases) (auto simp: of_sender_def)
qed (simp add: of_sender_def)

text \<open>No sender starves the others: of each sender's run in the ordered mempool a block keeps a
  prefix, so its nonces stay contiguous, with at most 256 metered transactions.\<close>

theorem sender_cap_is_prefix:
  assumes "sorted (map sl_sender slots)"
  shows "\<exists>m. of_sender a (cap_senders slots) = take m (of_sender a slots) \<and>
    metered_count (take m (of_sender a slots)) \<le> unat MAX_TXS_PER_SENDER_PER_BLOCK"
proof -
  let ?lo = "filter (\<lambda>s. sl_sender s < a) slots" and ?hi = "filter (\<lambda>s. a < sl_sender s) slots"
  have "of_sender a (cap_senders slots) = of_sender a (cap_loop None 0 False (?lo @ of_sender a slots))"
    unfolding cap_senders_def
    by (subst split_sorted [OF assms, of a]) (use cap_loop_then_other [of ?hi a None 0 False "?lo @ of_sender a slots"] in auto)
  also have "\<dots> = of_sender a (cap_loop (Some a) 0 False (of_sender a slots))"
    by (rule cap_loop_after_other) (auto simp: of_sender_def)
  finally have eq: "of_sender a (cap_senders slots) = of_sender a (cap_loop (Some a) 0 False (of_sender a slots))" .
  obtain m where m: "cap_loop (Some a) 0 False (of_sender a slots) = take m (of_sender a slots)"
      "metered_count (take m (of_sender a slots)) \<le> 256"
    using cap_loop_one_sender [of "of_sender a slots" a 0 False] by (auto simp: of_sender_def)
  have "of_sender a (take m (of_sender a slots)) = take m (of_sender a slots)"
    by (auto simp: of_sender_def filter_id_conv dest: in_set_takeD)
  with m show ?thesis unfolding eq by (auto simp: MAX_TXS_PER_SENDER_PER_BLOCK_def)
qed

definition busy_sender :: "TxSlot list" where
  "busy_sender = replicate 1000 \<lparr>sl_hash = 0, sl_raw = [1], sl_sender = 0, sl_nonce = 0, sl_submit_ms = 0\<rparr>"

lemma busy_sender_sender: "s \<in> set busy_sender \<Longrightarrow> sl_sender s = 0" "sorted (map sl_sender busy_sender)"
  by (simp_all add: busy_sender_def)

theorem sender_cap_is_prefix_witness: "metered_count (cap_senders busy_sender) \<le> 256"
proof -
  have "set (cap_senders busy_sender) \<subseteq> set busy_sender"
    using subseq_cap_loop [of None 0 False busy_sender] by (auto simp: cap_senders_def elim: list_emb_set)
  then have "of_sender 0 (cap_senders busy_sender) = cap_senders busy_sender"
    using busy_sender_sender(1) by (auto simp: of_sender_def filter_id_conv)
  then show ?thesis
    using sender_cap_is_prefix [OF busy_sender_sender(2), of 0] by (auto simp: MAX_TXS_PER_SENDER_PER_BLOCK_def)
qed

section \<open>What the producer never carries\<close>

definition unproduced :: "TxType set" where
  "unproduced = {SLASH, NODE_AUTH, CHECKPOINT, SETTLEMENT_MINT}"

lemma preflight_type:
  "preflight c raw = Some x \<Longrightarrow> \<exists>b r t. raw = b # r \<and> tx_type_of b = Some t \<and> t \<notin> unproduced"
proof -
  assume p: "preflight c raw = Some x"
  then obtain b r t where r: "raw = b # r" "tx_type_of b = Some t"
    by (auto simp: preflight_def split: list.splits option.splits)
  with p have "preflight_typed c t raw = Some x" by (simp add: preflight_def)
  then have "t \<notin> unproduced" by (cases t) (auto simp: unproduced_def)
  with r show ?thesis by blast
qed

text \<open>C30. A produced block never carries a slashing, a node authorisation, a checkpoint or a
  settlement: the pre-flight has no case for these types, although a node accepts them into its
  mempool and the chain can apply them.\<close>

theorem producer_drops_privileged:
  "list_all (\<lambda>s. tx_type_of (hd (sl_raw s)) \<in>
       {Some TRANSFER, Some MINT, Some MODERATOR_OP, Some MODERATOR_PROPOSAL, Some USERNAME_REGISTER,
        Some RELAY_REWARD, Some RATING}) (fst (build_body c now reg ch))"
proof -
  obtain included ch' where b: "build_body c now reg ch = (included, ch')" by fastforce
  obtain slots ch1 where sl: "check_mempool c (get_all_pending_txs (ch_store ch)) ch = (slots, ch1)"
    and sub: "subseq included (sort_slots slots)"
    using build_body_laws(5) [OF b] by blast
  have "tx_type_of (hd (sl_raw s)) \<in> {Some TRANSFER, Some MINT, Some MODERATOR_OP,
      Some MODERATOR_PROPOSAL, Some USERNAME_REGISTER, Some RELAY_REWARD, Some RATING}"
    if "s \<in> set included" for s
  proof -
    have "s \<in> set slots" using that sub by (auto simp: sort_slots_def elim: list_emb_set)
    then have "preflight c (sl_raw s) = Some (sl_sender s, sl_nonce s)"
      using check_mempool_laws [OF sl] by blast
    from preflight_type [OF this] obtain t where "tx_type_of (hd (sl_raw s)) = Some t" "t \<notin> unproduced"
      by auto
    then show ?thesis by (cases t) (simp_all add: unproduced_def)
  qed
  then show ?thesis using b by (simp add: list_all_iff)
qed

end
