(* ===== verification/Keccak.thy ===== *)
theory Keccak
  imports Hash
begin

text \<open>
  \<open>src/bopwire/src/crypto/keccak256.cpp\<close> (and its port \<open>keccak256_c.c\<close>, the same text in C), and
  the EIP-55 addresses of \<open>crypto/keys.cpp\<close>. The permutation works on 25 lanes in place; it is
  shown to be the permutation of the standard, given by coordinates, and the hash to be the
  sponge over the padded message.
\<close>

section \<open>The permutation\<close>

definition kRoundConstants :: "u64 list" where
  "kRoundConstants =
     [0x0000000000000001, 0x0000000000008082, 0x800000000000808a, 0x8000000080008000,
      0x000000000000808b, 0x0000000080000001, 0x8000000080008081, 0x8000000000008009,
      0x000000000000008a, 0x0000000000000088, 0x0000000080008009, 0x000000008000000a,
      0x000000008000808b, 0x800000000000008b, 0x8000000000008089, 0x8000000000008003,
      0x8000000000008002, 0x8000000000000080, 0x000000000000800a, 0x800000008000000a,
      0x8000000080008081, 0x8000000000008080, 0x0000000080000001, 0x8000000080008008]"

definition kRho :: "nat list" where
  "kRho = [1, 3, 6, 10, 15, 21, 28, 36, 45, 55, 2, 14, 27, 41, 56, 8, 25, 43, 62, 18, 39, 61, 20, 44]"

definition kPi :: "nat list" where
  "kPi = [10, 7, 11, 17, 18, 3, 5, 16, 8, 21, 24, 4, 15, 23, 19, 13, 12, 2, 20, 14, 22, 9, 6, 1]"

definition rotl64 :: "u64 \<Rightarrow> nat \<Rightarrow> u64" where
  "rotl64 v n = push_bit n v OR drop_bit (64 - n) v"

definition theta :: "u64 list \<Rightarrow> u64 list" where
  "theta s =
     (let c = map (\<lambda>x. s ! x XOR s ! (x + 5) XOR s ! (x + 10) XOR s ! (x + 15) XOR s ! (x + 20)) [0..<5] in
      foldl (\<lambda>s x.
        let d = c ! ((x + 4) mod 5) XOR rotl64 (c ! ((x + 1) mod 5)) 1 in
        foldl (\<lambda>s y. s[x + y := s ! (x + y) XOR d]) s [0, 5, 10, 15, 20]) s [0..<5])"

definition rho_pi :: "u64 list \<Rightarrow> u64 list" where
  "rho_pi s = snd (foldl (\<lambda>(t, s) i. let j = kPi ! i in (s ! j, s[j := rotl64 t (kRho ! i)]))
     (s ! 1, s) [0..<24])"

definition chi :: "u64 list \<Rightarrow> u64 list" where
  "chi s = foldl (\<lambda>s y.
     let b = map (\<lambda>x. s ! (y + x)) [0..<5] in
     foldl (\<lambda>s x. s[y + x := b ! x XOR (NOT (b ! ((x + 1) mod 5)) AND b ! ((x + 2) mod 5))]) s [0..<5])
     s [0, 5, 10, 15, 20]"

definition iota :: "nat \<Rightarrow> u64 list \<Rightarrow> u64 list" where
  "iota round s = s[0 := s ! 0 XOR kRoundConstants ! round]"

definition keccak_f :: "u64 list \<Rightarrow> u64 list" where
  "keccak_f s = foldl (\<lambda>s round. iota round (chi (rho_pi (theta s)))) s [0..<24]"

section \<open>The hash\<close>

definition kRate :: nat where "kRate = 136"

definition load64_le :: "bytes \<Rightarrow> u64" where
  "load64_le p = foldl (\<lambda>v i. v OR push_bit (8 * i) (ucast (p ! i))) 0 [0..<8]"

definition store64_le :: "u64 \<Rightarrow> bytes" where
  "store64_le v = map (\<lambda>i. ucast (drop_bit (8 * i) v AND 0xFF)) [0..<8]"

definition absorb_block :: "bytes \<Rightarrow> u64 list \<Rightarrow> u64 list" where
  "absorb_block data s = foldl (\<lambda>s i. s[i := s ! i XOR load64_le (drop (8 * i) data)]) s [0..<17]"

function absorb :: "bytes \<Rightarrow> u64 list \<Rightarrow> bytes \<times> u64 list" where
  "absorb data s =
     (if kRate \<le> length data then absorb (drop kRate data) (keccak_f (absorb_block data s))
      else (data, s))"
  by pat_completeness auto
termination
  by (relation "measure (\<lambda>(data, s). length data)") (auto simp: kRate_def)

declare absorb.simps [simp del]

definition pad_block :: "bytes \<Rightarrow> bytes" where
  "pad_block data =
     (let block = data @ replicate (kRate - length data) 0;
          block = block[length data := 0x01]
      in block[kRate - 1 := block ! (kRate - 1) OR 0x80])"

definition keccak256 :: "bytes \<Rightarrow> hash256" where
  "keccak256 data =
     (let (rest, s) = absorb data (replicate 25 0);
          s = keccak_f (absorb_block (pad_block rest) s)
      in mk_arr (concat (map (\<lambda>i. store64_le (s ! i)) [0..<4])))"

section \<open>The standard\<close>

text \<open>
  The state by coordinates, the five steps of FIPS 202, and the offsets of \<open>\<rho>\<close> by the walk the
  standard gives: from \<open>(1, 0)\<close> in steps \<open>(x, y) \<mapsto> (y, 2x + 3y)\<close> with triangular numbers.
\<close>

definition lanes_of :: "(nat \<Rightarrow> nat \<Rightarrow> u64) \<Rightarrow> u64 list" where
  "lanes_of A = map (\<lambda>i. A (i mod 5) (i div 5)) [0..<25]"

definition fips_column :: "(nat \<Rightarrow> nat \<Rightarrow> u64) \<Rightarrow> nat \<Rightarrow> u64" where
  "fips_column A x = A x 0 XOR A x 1 XOR A x 2 XOR A x 3 XOR A x 4"

definition fips_theta :: "(nat \<Rightarrow> nat \<Rightarrow> u64) \<Rightarrow> nat \<Rightarrow> nat \<Rightarrow> u64" where
  "fips_theta A x y = A x y XOR (fips_column A ((x + 4) mod 5) XOR rotl64 (fips_column A ((x + 1) mod 5)) 1)"

fun fips_walk :: "nat \<Rightarrow> nat \<times> nat" where
  "fips_walk 0 = (1, 0)"
| "fips_walk (Suc t) = (let (x, y) = fips_walk t in (y, (2 * x + 3 * y) mod 5))"

definition fips_offset :: "nat \<Rightarrow> nat \<Rightarrow> nat" where
  "fips_offset x y = (case List.find (\<lambda>t. fips_walk t = (x, y)) [0..<24] of None \<Rightarrow> 0
     | Some t \<Rightarrow> (t + 1) * (t + 2) div 2 mod 64)"

definition fips_rho :: "(nat \<Rightarrow> nat \<Rightarrow> u64) \<Rightarrow> nat \<Rightarrow> nat \<Rightarrow> u64" where
  "fips_rho A x y = rotl64 (A x y) (fips_offset x y)"

definition fips_pi :: "(nat \<Rightarrow> nat \<Rightarrow> u64) \<Rightarrow> nat \<Rightarrow> nat \<Rightarrow> u64" where
  "fips_pi A x y = A ((x + 3 * y) mod 5) x"

definition fips_chi :: "(nat \<Rightarrow> nat \<Rightarrow> u64) \<Rightarrow> nat \<Rightarrow> nat \<Rightarrow> u64" where
  "fips_chi A x y = A x y XOR (NOT (A ((x + 1) mod 5) y) AND A ((x + 2) mod 5) y)"

text \<open>
  The round constants of the standard: bit \<open>2 ^ j - 1\<close> of the constant of round \<open>r\<close> is the output of
  a linear feedback shift register of eight bits after \<open>j + 7 r\<close> steps.
\<close>

definition fips_lfsr_step :: "bool list \<Rightarrow> bool list" where
  "fips_lfsr_step b = [b ! 7, b ! 0, b ! 1, b ! 2, b ! 3 \<noteq> b ! 7, b ! 4 \<noteq> b ! 7, b ! 5 \<noteq> b ! 7, b ! 6]"

fun fips_lfsr :: "nat \<Rightarrow> bool list \<Rightarrow> bool list" where
  "fips_lfsr 0 b = []"
| "fips_lfsr (Suc n) b = hd b # fips_lfsr n (fips_lfsr_step b)"

definition fips_round_bits :: "bool list" where
  "fips_round_bits = fips_lfsr 168 [True, False, False, False, False, False, False, False]"

definition fips_constant :: "bool list \<Rightarrow> nat \<Rightarrow> u64" where
  "fips_constant b r = foldl (\<lambda>v j. if b ! (j + 7 * r) then v OR push_bit (2 ^ j - 1) 1 else v) 0 [0..<7]"

definition fips_iota :: "nat \<Rightarrow> (nat \<Rightarrow> nat \<Rightarrow> u64) \<Rightarrow> nat \<Rightarrow> nat \<Rightarrow> u64" where
  "fips_iota r A x y = (if x = 0 \<and> y = 0 then A 0 0 XOR fips_constant fips_round_bits r else A x y)"

definition fips_f :: "(nat \<Rightarrow> nat \<Rightarrow> u64) \<Rightarrow> nat \<Rightarrow> nat \<Rightarrow> u64" where
  "fips_f A = foldl (\<lambda>A r. fips_iota r (fips_chi (fips_pi (fips_rho (fips_theta A))))) A [0..<24]"

lemma upto_lists:
  "[0..<4] = [0, 1, 2, 3 :: nat]" "[0..<5] = [0, 1, 2, 3, 4 :: nat]"
  "[0..<24] = [0, 1, 2, 3, 4, 5, 6, 7, 8, 9, 10, 11, 12, 13, 14, 15, 16, 17, 18, 19, 20, 21, 22, 23 :: nat]"
  "[0..<25] = [0, 1, 2, 3, 4, 5, 6, 7, 8, 9, 10, 11, 12, 13, 14, 15, 16, 17, 18, 19, 20, 21, 22, 23, 24 :: nat]"
  by code_simp+

lemma lanes_explicit:
  "lanes_of A = [A 0 0, A 1 0, A 2 0, A 3 0, A 4 0, A 0 1, A 1 1, A 2 1, A 3 1, A 4 1,
     A 0 2, A 1 2, A 2 2, A 3 2, A 4 2, A 0 3, A 1 3, A 2 3, A 3 3, A 4 3,
     A 0 4, A 1 4, A 2 4, A 3 4, A 4 4]"
  by (simp add: lanes_of_def upto_lists)

text \<open>The second loop of \<open>\<theta>\<close>, for five column words.\<close>

lemma theta_columns:
  "foldl (\<lambda>s x. foldl (\<lambda>s y. s[x + y := s ! (x + y) XOR (d x)]) s [0, 5, 10, 15, 20]) (lanes_of A) [0..<5] =
   lanes_of (\<lambda>x y. A x y XOR d x)"
  unfolding lanes_explicit upto_lists by simp

lemma theta_lanes: "theta (lanes_of A) = lanes_of (fips_theta A)"
proof -
  let ?c = "map (\<lambda>x. lanes_of A ! x XOR lanes_of A ! (x + 5) XOR lanes_of A ! (x + 10) XOR
      lanes_of A ! (x + 15) XOR lanes_of A ! (x + 20)) [0..<5]"
  have "?c = map (fips_column A) [0..<5]"
    unfolding lanes_explicit upto_lists by (simp add: fips_column_def)
  then have "theta (lanes_of A) = lanes_of (\<lambda>x y. A x y XOR
      (map (fips_column A) [0..<5] ! ((x + 4) mod 5) XOR rotl64 (map (fips_column A) [0..<5] ! ((x + 1) mod 5)) 1))"
    unfolding theta_def Let_def by (simp only: theta_columns)
  moreover have "fips_theta A = (\<lambda>x y. A x y XOR
      (map (fips_column A) [0..<5] ! ((x + 4) mod 5) XOR rotl64 (map (fips_column A) [0..<5] ! ((x + 1) mod 5)) 1))"
    by (simp add: fips_theta_def fun_eq_iff)
  ultimately show ?thesis by simp
qed

lemma rotl64_0 [simp]: "rotl64 v 0 = v"
proof -
  have "drop_bit 64 v = 0" by (rule bit_word_eqI) (simp add: bit_drop_bit_eq)
  then show ?thesis by (simp add: rotl64_def)
qed

lemma fips_offsets:
  "map (\<lambda>i. fips_offset (i mod 5) (i div 5)) [0..<25] =
     [0, 1, 62, 28, 27, 36, 44, 6, 55, 20, 3, 10, 43, 25, 39, 41, 45, 15, 21, 8, 18, 2, 61, 56, 14]"
  by code_simp

lemma rho_pi_lanes: "rho_pi (lanes_of A) = lanes_of (fips_pi (fips_rho A))"
proof -
  have off: "fips_offset (i mod 5) (i div 5) =
     [0, 1, 62, 28, 27, 36, 44, 6, 55, 20, 3, 10, 43, 25, 39, 41, 45, 15, 21, 8, 18, 2, 61, 56, 14] ! i"
    if "i < 25" for i
    unfolding fips_offsets [symmetric] using that by simp
  show ?thesis
    unfolding rho_pi_def lanes_explicit upto_lists
    using off [of 0] off [of 1] off [of 2] off [of 3] off [of 4] off [of 5] off [of 6] off [of 7] off [of 8]
      off [of 9] off [of 10] off [of 11] off [of 12] off [of 13] off [of 14] off [of 15] off [of 16] off [of 17]
      off [of 18] off [of 19] off [of 20] off [of 21] off [of 22] off [of 23] off [of 24]
    by (simp add: kPi_def kRho_def fips_pi_def fips_rho_def Let_def)
qed

lemma chi_lanes: "chi (lanes_of A) = lanes_of (fips_chi A)"
  unfolding lanes_explicit chi_def upto_lists
  by (simp add: fips_chi_def flip: numeral_2_eq_2)

lemma fips_constants: "map (fips_constant fips_round_bits) [0..<24] = kRoundConstants"
  by code_simp

lemma iota_lanes: "r < 24 \<Longrightarrow> iota r (lanes_of A) = lanes_of (fips_iota r A)"
  unfolding lanes_explicit fips_constants [symmetric] iota_def fips_iota_def by simp

lemma keccak_f_lanes: "keccak_f (lanes_of A) = lanes_of (fips_f A)"
proof -
  have "foldl (\<lambda>s r. iota r (chi (rho_pi (theta s)))) (lanes_of A) rs =
      lanes_of (foldl (\<lambda>A r. fips_iota r (fips_chi (fips_pi (fips_rho (fips_theta A))))) A rs)" if "\<forall>r\<in>set rs. r < 24" for rs
    using that by (induction rs arbitrary: A) (simp_all add: theta_lanes rho_pi_lanes chi_lanes iota_lanes)
  then show ?thesis by (simp add: keccak_f_def fips_f_def)
qed

section \<open>The sponge\<close>

definition coords :: "u64 list \<Rightarrow> nat \<Rightarrow> nat \<Rightarrow> u64" where
  "coords s x y = s ! (x + 5 * y)"

lemma lanes_coords: "length s = 25 \<Longrightarrow> lanes_of (coords s) = s"
  by (intro nth_equalityI) (simp_all add: lanes_of_def coords_def)

definition xor_block :: "bytes \<Rightarrow> u64 list \<Rightarrow> u64 list" where
  "xor_block b s = map (\<lambda>i. if i < 17 then s ! i XOR load64_le (drop (8 * i) b) else s ! i) [0..<25]"

definition pad_tail :: "nat \<Rightarrow> bytes" where
  "pad_tail n = (if n = 135 then [0x81] else 0x01 # replicate (134 - n) 0 @ [0x80])"

definition rate_blocks :: "bytes \<Rightarrow> bytes list" where
  "rate_blocks p = map (\<lambda>i. take 136 (drop (136 * i) p)) [0..<length p div 136]"

definition sponge :: "bytes \<Rightarrow> u64 list" where
  "sponge data = foldl (\<lambda>s b. lanes_of (fips_f (coords (xor_block b s)))) (replicate 25 0)
     (rate_blocks (data @ pad_tail (length data mod 136)))"

lemma absorb_block_eq: "length s = 25 \<Longrightarrow> absorb_block b s = xor_block b s"
proof -
  assume len: "length s = 25"
  have "foldl (\<lambda>s i. s[i := s ! i XOR load64_le (drop (8 * i) b)]) s [0..<n] =
      map (\<lambda>i. if i < n then s ! i XOR load64_le (drop (8 * i) b) else s ! i) [0..<25]" if "n \<le> 25" for n
    using that
  proof (induction n)
    case 0
    then show ?case using len map_nth [of s] by simp
  next
    case (Suc n)
    then show ?case by (auto simp: len nth_list_update intro!: nth_equalityI)
  qed
  from this [of 17] show ?thesis by (simp add: absorb_block_def xor_block_def)
qed

lemma length_xor_block [simp]: "length (xor_block b s) = 25"
  by (simp add: xor_block_def)

lemma length_lanes [simp]: "length (lanes_of A) = 25"
  by (simp add: lanes_of_def)

lemma permute_eq: "length s = 25 \<Longrightarrow> keccak_f (absorb_block b s) = lanes_of (fips_f (coords (xor_block b s)))"
  by (metis absorb_block_eq keccak_f_lanes lanes_coords length_xor_block)

lemma rate_blocks_Cons:
  "136 \<le> length p \<Longrightarrow> rate_blocks p = take 136 p # rate_blocks (drop 136 p)"
proof -
  assume "136 \<le> length p"
  then have n: "length p div 136 = Suc ((length p - 136) div 136)"
    by (simp add: le_div_geq)
  show ?thesis
    unfolding rate_blocks_def n by (simp add: upt_conv_Cons add.commute flip: map_Suc_upt del: upt_Suc)
qed

lemma load_take: "8 * i + 8 \<le> n \<Longrightarrow> load64_le (drop (8 * i) (take n p)) = load64_le (drop (8 * i) p)"
  unfolding load64_le_def by (intro foldl_cong) (auto simp: drop_take)

lemma xor_block_take: "xor_block (take 136 p) s = xor_block p s"
  by (auto simp: xor_block_def load_take)

lemma absorb_laws:
  "absorb data s = (rest, s') \<Longrightarrow> length s = 25 \<Longrightarrow>
   length rest = length data mod 136 \<and> length s' = 25 \<and>
   foldl (\<lambda>s b. lanes_of (fips_f (coords (xor_block b s)))) s (rate_blocks (data @ q)) =
   foldl (\<lambda>s b. lanes_of (fips_f (coords (xor_block b s)))) s' (rate_blocks (rest @ q))"
proof (induction data s rule: absorb.induct)
  case (1 data s)
  show ?case
  proof (cases "136 \<le> length data")
    case True
    then have "absorb (drop 136 data) (keccak_f (absorb_block data s)) = (rest, s')"
      using "1.prems"(1) by (simp add: absorb.simps [of data] kRate_def)
    from "1.IH" [unfolded kRate_def, OF True this] permute_eq [OF "1.prems"(2)] True
    have "length rest = length (drop 136 data) mod 136" "length s' = 25"
      "foldl (\<lambda>s b. lanes_of (fips_f (coords (xor_block b s)))) (lanes_of (fips_f (coords (xor_block data s))))
        (rate_blocks (drop 136 data @ q)) =
       foldl (\<lambda>s b. lanes_of (fips_f (coords (xor_block b s)))) s' (rate_blocks (rest @ q))"
      by simp_all
    moreover have "rate_blocks (data @ q) = take 136 data # rate_blocks (drop 136 data @ q)"
      using rate_blocks_Cons [of "data @ q"] True by simp
    ultimately show ?thesis using True xor_block_take [of data] by (simp add: le_mod_geq)
  next
    case False
    then show ?thesis using "1.prems" by (simp add: absorb.simps [of data] kRate_def)
  qed
qed

lemma pad_block_eq: "length rest < 136 \<Longrightarrow> pad_block rest = rest @ pad_tail (length rest)"
proof -
  assume n: "length rest < 136"
  show ?thesis
  proof (cases "length rest = 135")
    case True
    then show ?thesis
      by (simp add: pad_block_def kRate_def pad_tail_def list_update_append nth_append Let_def)
  next
    case False
    define k where "k = 134 - length rest"
    have len: "length rest + Suc k = 135" using n False by (simp add: k_def)
    have "replicate (136 - length rest) (0 :: u8) = 0 # replicate k 0 @ [0]"
    proof -
      have "136 - length rest = Suc (Suc k)" using n False by (simp add: k_def)
      then show ?thesis by (simp add: replicate_append_same)
    qed
    then have "pad_block rest = (rest @ 0x01 # replicate k 0 @ [0])[135 := (rest @ 0x01 # replicate k 0 @ [0]) ! 135 OR 0x80]"
      by (simp add: pad_block_def kRate_def list_update_append Let_def)
    also have "\<dots> = rest @ 0x01 # replicate k 0 @ [0x80]"
      using len by (simp add: list_update_append nth_append flip: len)
    finally show ?thesis using False by (simp add: pad_tail_def k_def)
  qed
qed

text \<open>The hash is the sponge of the standard over the message with Ethereum's padding.\<close>

lemma keccak256_sponge: "keccak256 data = mk_arr (concat (map store64_le (take 4 (sponge data))))"
proof -
  obtain rest s where a: "absorb data (replicate 25 0) = (rest, s)" by fastforce
  note l = absorb_laws [OF a]
  have r: "length rest < 136" "length rest = length data mod 136" "length s = 25" using l by simp_all
  have "length (pad_block rest) = 136" by (simp add: pad_block_def kRate_def r(1) less_imp_le Let_def)
  then have "rate_blocks (pad_block rest) = [pad_block rest]" by (simp add: rate_blocks_def)
  then have sp: "sponge data = keccak_f (absorb_block (pad_block rest) s)"
    using l [of "pad_tail (length data mod 136)"] pad_block_eq [OF r(1)] permute_eq [OF r(3)]
    by (simp add: sponge_def r(2))
  have len: "length (sponge data) = 25" using sp permute_eq [OF r(3)] by simp
  have "take 4 (sponge data) = map (\<lambda>i. sponge data ! i) [0..<4]"
    using len by (intro nth_equalityI) simp_all
  then show ?thesis using a sp by (simp add: keccak256_def o_def)
qed

end
