(* ===== verification/Address.thy ===== *)
theory Address
  imports Keccak
begin

text \<open>
  The address form of \<open>src/bopwire/src/crypto/keys.cpp\<close>: EIP-55 checksummed hexadecimal. A
  canonical form reads back, in any single case too, and a mixed-case string is read only when
  it is the canonical form of what it denotes.
\<close>

definition upper_char :: "char \<Rightarrow> char" where
  "upper_char ch = char_of ((of_char ch :: nat) - 32)"

definition is_lower_af :: "char \<Rightarrow> bool" where
  "is_lower_af ch \<longleftrightarrow> (let n = (of_char ch :: nat) in 97 \<le> n \<and> n \<le> 102)"

definition is_upper_af :: "char \<Rightarrow> bool" where
  "is_upper_af ch \<longleftrightarrow> (let n = (of_char ch :: nat) in 65 \<le> n \<and> n \<le> 70)"

definition is_digit_09 :: "char \<Rightarrow> bool" where
  "is_digit_09 ch \<longleftrightarrow> (let n = (of_char ch :: nat) in 48 \<le> n \<and> n \<le> 57)"

definition hash_nibble :: "hash256 \<Rightarrow> nat \<Rightarrow> nat" where
  "hash_nibble h i = (let b = unat (arr_bytes h ! (i div 2)) in if i mod 2 = 0 then b div 16 else b mod 16)"

definition checksum_char :: "hash256 \<Rightarrow> nat \<Rightarrow> char \<Rightarrow> char" where
  "checksum_char h i ch = (if 8 \<le> hash_nibble h i \<and> is_lower_af ch then upper_char ch else ch)"

definition to_checksum_hex :: "address \<Rightarrow> string" where
  "to_checksum_hex a =
     (let lower = to_hex (arr_bytes a); h = keccak256 (str_bytes lower)
      in ''0x'' @ map (\<lambda>i. checksum_char h i (lower ! i)) [0..<40])"

definition strip_0x :: "string \<Rightarrow> string" where
  "strip_0x s = (if length s = 42 \<and> s ! 0 = CHR ''0'' \<and> (s ! 1 = CHR ''x'' \<or> s ! 1 = CHR ''X'')
     then drop 2 s else s)"

definition parse_address_checksummed :: "string \<Rightarrow> address option" where
  "parse_address_checksummed s =
     (let h = strip_0x s in
      if length h \<noteq> 40 then None
      else if \<not> list_all (\<lambda>ch. is_lower_af ch \<or> is_upper_af ch \<or> is_digit_09 ch) h then None
      else case from_hex_loop h of None \<Rightarrow> None
       | Some b \<Rightarrow>
           let out = mk_arr b in
           if list_ex is_upper_af h \<and> list_ex is_lower_af h \<and> drop 2 (to_checksum_hex out) \<noteq> h
           then None else Some out)"

section \<open>Lemmas\<close>

lemma hex_digit_chars:
  "n < 16 \<Longrightarrow> is_lower_af (hex_digit n) \<or> is_digit_09 (hex_digit n)"
  "n < 16 \<Longrightarrow> \<not> is_upper_af (hex_digit n)"
proof -
  assume "n < 16"
  then have "n \<in> set [0..<16]" by simp
  moreover have "list_all (\<lambda>n. (is_lower_af (hex_digit n) \<or> is_digit_09 (hex_digit n)) \<and>
      \<not> is_upper_af (hex_digit n)) [0..<16]" by code_simp
  ultimately show "is_lower_af (hex_digit n) \<or> is_digit_09 (hex_digit n)" "\<not> is_upper_af (hex_digit n)"
    unfolding list_all_iff by blast+
qed

lemma to_hex_chars:
  "ch \<in> set (to_hex b) \<Longrightarrow> is_lower_af ch \<or> is_digit_09 ch" "ch \<in> set (to_hex b) \<Longrightarrow> \<not> is_upper_af ch"
proof -
  assume "ch \<in> set (to_hex b)"
  then obtain n where "ch = hex_digit n" "n < 16"
  proof -
    obtain w :: u8 where w: "ch = hex_digit (unat w div 16) \<or> ch = hex_digit (unat w mod 16)"
      using \<open>ch \<in> set (to_hex b)\<close> by (auto simp: to_hex_def)
    have "unat w < 256" using unsigned_less [of w] by simp
    then have "unat w div 16 < 16" "unat w mod 16 < 16" by simp_all
    with w that show thesis by blast
  qed
  then show "is_lower_af ch \<or> is_digit_09 ch" "\<not> is_upper_af ch"
    using hex_digit_chars by blast+
qed

lemma upper_char_af:
  assumes "is_lower_af ch"
  shows "is_upper_af (upper_char ch)" and "nibble (upper_char ch) = nibble ch"
proof -
  have "(of_char ch :: nat) \<in> {97, 98, 99, 100, 101, 102}"
    using assms by (auto simp: is_lower_af_def Let_def)
  also have "{97, 98, 99, 100, 101, 102 :: nat} = of_char ` set ''abcdef''" by simp
  finally have "ch \<in> set ''abcdef''" by (auto simp only: of_char_eq_iff image_iff)
  moreover have "list_all (\<lambda>ch. is_upper_af (upper_char ch) \<and> nibble (upper_char ch) = nibble ch) ''abcdef''"
    by (simp add: upper_char_def nibble_def is_upper_af_def Let_def)
  ultimately show "is_upper_af (upper_char ch)" "nibble (upper_char ch) = nibble ch"
    unfolding list_all_iff by blast+
qed

lemma from_hex_loop_cong: "map nibble xs = map nibble ys \<Longrightarrow> from_hex_loop xs = from_hex_loop ys"
proof (induction xs arbitrary: ys rule: from_hex_loop.induct)
  case (1 hi lo r)
  obtain hi' lo' r' where ys: "ys = hi' # lo' # r'" "nibble hi' = nibble hi" "nibble lo' = nibble lo"
      "map nibble r = map nibble r'"
    using "1.prems" by (auto simp: Cons_eq_map_conv)
  with "1.IH" show ?case by (cases "nibble hi"; cases "nibble lo") simp_all
qed (auto simp: map_eq_Cons_conv Cons_eq_map_conv)

lemma checksum_char_laws:
  assumes "is_lower_af ch \<or> is_digit_09 ch"
  shows "nibble (checksum_char h i ch) = nibble ch"
    and "is_lower_af (checksum_char h i ch) \<or> is_upper_af (checksum_char h i ch) \<or> is_digit_09 (checksum_char h i ch)"
  using assms upper_char_af by (auto simp: checksum_char_def)

lemma checksum_body:
  fixes a :: address
  defines "h \<equiv> drop 2 (to_checksum_hex a)"
  shows "length h = 40" and "strip_0x (to_checksum_hex a) = h" and "strip_0x h = h"
    and "list_all (\<lambda>ch. is_lower_af ch \<or> is_upper_af ch \<or> is_digit_09 ch) h"
    and "from_hex_loop h = Some (arr_bytes a)"
proof -
  let ?l = "to_hex (arr_bytes a)" and ?k = "keccak256 (str_bytes (to_hex (arr_bytes a)))"
  have h: "h = map (\<lambda>i. checksum_char ?k i (?l ! i)) [0..<40]"
    by (simp add: h_def to_checksum_hex_def Let_def)
  have chars: "is_lower_af (?l ! i) \<or> is_digit_09 (?l ! i)" if "i < 40" for i
    using to_hex_chars(1) [of "?l ! i" "arr_bytes a"] that by (simp add: nth_mem)
  show "length h = 40" by (simp add: h)
  then show "strip_0x (to_checksum_hex a) = h" "strip_0x h = h"
    by (simp_all add: strip_0x_def h_def to_checksum_hex_def Let_def)
  show "list_all (\<lambda>ch. is_lower_af ch \<or> is_upper_af ch \<or> is_digit_09 ch) h"
    using checksum_char_laws(2) [OF chars] by (auto simp: h list_all_iff)
  have "map nibble h = map nibble ?l"
    by (intro nth_equalityI) (simp_all add: h checksum_char_laws(1) [OF chars])
  then show "from_hex_loop h = Some (arr_bytes a)"
    using from_hex_loop_cong from_hex_loop_to_hex by metis
qed

end
