(* ===== verification/Mempool.thy ===== *)
theory Mempool
  imports Producer_Laws Address
begin

text \<open>
  The shared mempools of \<open>src/bopwire/src/api/rats_api.cpp\<close>: what a node does with a flooded
  transaction (\<open>ingest_tx\<close>), settlement body (\<open>ingest_settle_body\<close>) and song registration
  (\<open>ingest_fpsubmit\<close>), and how it rebuilds the producer's songs at start. Sending to peers is
  left out: the results say whether a message is forwarded. An exception of the JSON library
  ends a handler without effect (the callbacks catch it), which is \<open>None\<close> here; at start nothing
  catches the one thrown while a stored registration is read, and loading ends there.
\<close>

section \<open>Reading a registration\<close>

definition json_value_u64 :: "json \<Rightarrow> string \<Rightarrow> u64 \<Rightarrow> u64 option" where
  "json_value_u64 j key dflt = do {
     kvs \<leftarrow> json_object j;
     case map_of kvs key of None \<Rightarrow> Some dflt
     | Some (JNumber n) \<Rightarrow> Some (word_of_int n)
     | Some (JBool b) \<Rightarrow> Some (if b then 1 else 0)
     | Some _ \<Rightarrow> None
   }"

text \<open>A royalty split of the envelope: \<open>Some None\<close> for one that is skipped.\<close>

definition reg_split :: "json \<Rightarrow> RoyaltySplit option option" where
  "reg_split j = (case json_object j of None \<Rightarrow> Some None
     | Some kvs \<Rightarrow> (case map_of kvs ''address'' of
         Some (JString str) \<Rightarrow> (case parse_address_checksummed str of None \<Rightarrow> Some None
           | Some ra \<Rightarrow> do {
               bp \<leftarrow> json_value_int j ''basis_points'' 0;
               Some (Some \<lparr>rs_address = ra, rs_basis_points = ucast bp\<rparr>)
             })
       | _ \<Rightarrow> Some None))"

fun reg_splits :: "json list \<Rightarrow> RoyaltySplit list option" where
  "reg_splits [] = Some []"
| "reg_splits (j # js) = do {
     x \<leftarrow> reg_split j;
     xs \<leftarrow> reg_splits js;
     Some (case x of None \<Rightarrow> xs | Some split \<Rightarrow> split # xs)
   }"

definition reg_fits :: "PendingRegistration \<Rightarrow> bool" where
  "reg_fits r \<longleftrightarrow> length (pg_compressed_fingerprint r) \<le> 0xFFFF \<and>
     length (pg_title r) \<le> 0xFFFF \<and>
     length (pg_artist r) \<le> 0xFFFF \<and> length (pg_genre r) \<le> 0xFFFF \<and> length (pg_album r) \<le> 0xFFFF \<and>
     length (pg_royalty_splits r) \<le> 255"

text \<open>\<open>None\<close>: a member of the wrong type makes the JSON library throw; \<open>Some None\<close>: the function
  returns false.\<close>

definition pending_reg_from_fpsubmit :: "crypto \<Rightarrow> json \<Rightarrow> PendingRegistration option option" where
  "pending_reg_from_fpsubmit c env = do {
     ch_hex \<leftarrow> json_value_string env ''content_hash'' [];
     case parse_hash256 ch_hex of None \<Rightarrow> Some None | Some ch \<Rightarrow> do {
     fp \<leftarrow> json_value_string env ''compressed_fingerprint'' [];
     if fp = [] then Some None else do {
       fmt \<leftarrow> json_value_string env ''audio_format'' ''ogg'';
       dur \<leftarrow> json_value_int env ''duration_ms'' 0;
       title \<leftarrow> json_value_string env ''title'' [];
       artist \<leftarrow> json_value_string env ''artist'' [];
       genre \<leftarrow> json_value_string env ''genre'' [];
       album \<leftarrow> json_value_string env ''album'' [];
       year \<leftarrow> json_value_int env ''year'' 0;
       track \<leftarrow> json_value_int env ''track_number'' 0;
       submit \<leftarrow> json_value_u64 env ''submit_ms'' 0;
       aa \<leftarrow> json_value_string env ''artist_address'' [];
       splits \<leftarrow> reg_splits (case json_member_array env ''royalty_splits'' of None \<Rightarrow> [] | Some xs \<Rightarrow> xs);
       let r = \<lparr>pg_content_hash = ch, pg_fingerprint_hash = sha256 c (str_bytes fp),
             pg_compressed_fingerprint = fp, pg_audio_format = audio_format_code (audio_format_from_string fmt),
             pg_duration_ms = dur, pg_title = title, pg_artist = artist,
             pg_artist_address = (case parse_address_checksummed aa of None \<Rightarrow> 0 | Some a \<Rightarrow> a),
             pg_genre = genre, pg_album = album, pg_year = ucast year, pg_track_number = ucast track,
             pg_royalty_splits = splits, pg_announcing_peer_id = [], pg_submit_ms = submit,
             pg_retries = 0\<rparr>
       in Some (if reg_fits r then Some r else None)
     }}
   }"

section \<open>The song mempool\<close>

text \<open>Parsing a payload, as at the head of \<open>ingest_fpsubmit\<close>.\<close>

definition parse_fpsubmit :: "crypto \<Rightarrow> string \<Rightarrow> PendingRegistration option" where
  "parse_fpsubmit c payload = do {
     env \<leftarrow> json_parse c payload;
     r \<leftarrow> pending_reg_from_fpsubmit c env;
     r
   }"

text \<open>Time and hash of the payload, by which two registrations of a song are compared.\<close>

definition payload_rank :: "crypto \<Rightarrow> string \<Rightarrow> (u64 \<times> hash256) option" where
  "payload_rank c payload = do {
     j \<leftarrow> json_parse c payload;
     ms \<leftarrow> json_value_u64 j ''submit_ms'' 0;
     Some (ms, sha256 c (str_bytes payload))
   }"

definition song_is_new_or_lower :: "crypto \<Rightarrow> kv \<Rightarrow> PendingRegistration \<Rightarrow> string \<Rightarrow> bool" where
  "song_is_new_or_lower c db r payload \<longleftrightarrow> (case get_pending_song db (pg_content_hash r) of None \<Rightarrow> True
     | Some existing \<Rightarrow> (case payload_rank c existing of None \<Rightarrow> True
         | Some (ex_submit, ex_hash) \<Rightarrow>
             if ex_submit < pg_submit_ms r then False
             else if ex_submit = pg_submit_ms r \<and> ex_hash \<le> sha256 c (str_bytes payload) then False
             else True))"

definition ingest_fpsubmit :: "crypto \<Rightarrow> string \<Rightarrow> producer \<Rightarrow> bool \<times> producer" where
  "ingest_fpsubmit c payload p =
     (case parse_fpsubmit c payload of None \<Rightarrow> (False, p)
      | Some r \<Rightarrow>
          if pg_on_chain c (pr_chain p) r then
            (False, p\<lparr>pr_chain := on_store (del_pending_song (pg_content_hash r)) (pr_chain p)\<rparr>)
          else if \<not> song_is_new_or_lower c (ch_store (pr_chain p)) r payload then (False, p)
          else (True, enqueue_registration r
            (p\<lparr>pr_chain := on_store (put_pending_song (pg_content_hash r) payload) (pr_chain p)\<rparr>)))"

text \<open>One row at start. Only the exception of the parser is caught (the row is pruned); one thrown
  while the members are read leaves the whole start-up, which is \<open>False\<close>.\<close>

definition load_pending_song :: "crypto \<Rightarrow> hash256 \<times> string \<Rightarrow> producer \<Rightarrow> bool \<times> producer" where
  "load_pending_song c = (\<lambda>(ch, payload) p.
     let pruned = p\<lparr>pr_chain := on_store (del_pending_song ch) (pr_chain p)\<rparr> in
     case json_parse c payload of None \<Rightarrow> (True, pruned)
     | Some env \<Rightarrow> (case pending_reg_from_fpsubmit c env of None \<Rightarrow> (False, p)
         | Some None \<Rightarrow> (True, pruned)
         | Some (Some r) \<Rightarrow> (True,
             if pg_on_chain c (pr_chain p) r then pruned else enqueue_registration r p)))"

fun load_song_rows :: "crypto \<Rightarrow> (hash256 \<times> string) list \<Rightarrow> producer \<Rightarrow> bool \<times> producer" where
  "load_song_rows c [] p = (True, p)"
| "load_song_rows c (row # rest) p = (case load_pending_song c row p of
     (True, q) \<Rightarrow> load_song_rows c rest q
   | (False, q) \<Rightarrow> (False, q))"

definition load_pending_songs :: "crypto \<Rightarrow> producer \<Rightarrow> bool \<times> producer" where
  "load_pending_songs c p = load_song_rows c (get_all_pending_songs (ch_store (pr_chain p))) p"

section \<open>The transaction mempool\<close>

definition settle_body_key :: "hash256 \<Rightarrow> string" where
  "settle_body_key root = ''sb:'' @ hex_hash root"

definition read_and :: "(bytes \<Rightarrow> 't option) \<Rightarrow> ('t \<Rightarrow> bool) \<Rightarrow> bytes \<Rightarrow> bool" where
  "read_and deser good raw \<longleftrightarrow> (case deser raw of None \<Rightarrow> False | Some tx \<Rightarrow> good tx)"

fun tx_preflight_typed :: "crypto \<Rightarrow> stage \<Rightarrow> u32 \<Rightarrow> TxType \<Rightarrow> bytes \<Rightarrow> bool" where
  "tx_preflight_typed c s h TRANSFER = read_and TransferTx_deserialize (TransferTx_verify_signature c)"
| "tx_preflight_typed c s h MODERATOR_OP = read_and ModeratorOpTx_deserialize
     (\<lambda>tx. ModeratorOpTx_verify_signature c tx \<and> \<not> bogus_bootstrap tx)"
| "tx_preflight_typed c s h MODERATOR_PROPOSAL =
     read_and ProposalTx_deserialize (ProposalTx_verify_signature c)"
| "tx_preflight_typed c s h RATING = read_and RatingTx_deserialize
     (\<lambda>tx. RatingTx_verify_signature c tx \<and> has_play_credit s (rt_content_hash tx) (rt_rater tx))"
| "tx_preflight_typed c s h USERNAME_REGISTER =
     read_and UsernameTx_deserialize (UsernameTx_verify_signature c)"
| "tx_preflight_typed c s h MINT = read_and MintTx_deserialize (\<lambda>tx. validate_mint c tx s h = None)"
| "tx_preflight_typed c s h RELAY_REWARD =
     read_and RelayRewardTx_deserialize (RelayRewardTx_verify_signature c)"
| "tx_preflight_typed c s h NODE_AUTH = read_and NodeAuthTx_deserialize (NodeAuthTx_verify_signature c)"
| "tx_preflight_typed c s h CHECKPOINT =
     read_and CheckpointTx_deserialize (CheckpointTx_verify_signature c)"
| "tx_preflight_typed c s h SETTLEMENT_MINT = read_and SettlementMintTx_deserialize
     (\<lambda>tx. sm_constituent_count tx \<noteq> 0 \<and>
        sm_constituent_count tx \<le> MAX_CONSTITUENTS_PER_SETTLEMENT \<and>
        db_get s (settle_body_key (sm_constituents_merkle_root tx)) \<noteq> None)"
| "tx_preflight_typed c s h SLASH = (\<lambda>_. False)"

definition tx_preflight_ok :: "crypto \<Rightarrow> stage \<Rightarrow> u32 \<Rightarrow> bytes \<Rightarrow> bool" where
  "tx_preflight_ok c s height raw \<longleftrightarrow> (case raw of [] \<Rightarrow> False
     | b # _ \<Rightarrow> (case tx_type_of b of None \<Rightarrow> False
         | Some t \<Rightarrow> tx_preflight_typed c s height t raw))"

definition tx_is_new_or_lower :: "kv \<Rightarrow> hash256 \<Rightarrow> u64 \<Rightarrow> bool" where
  "tx_is_new_or_lower db h submit_ms \<longleftrightarrow>
     \<not> (has_pending_tx db h \<and> value_or (get_pending_tx_submit_ms db h) 0 \<le> submit_ms)"

text \<open>The raw bytes and the time of an envelope.\<close>

definition read_tx_envelope :: "crypto \<Rightarrow> string \<Rightarrow> (bytes \<times> u64) option" where
  "read_tx_envelope c payload = do {
     env \<leftarrow> json_parse c payload;
     tx_hex \<leftarrow> json_value_string env ''tx'' [];
     let raw = from_hex tx_hex in
     if raw = [] then None
     else do { ms \<leftarrow> json_value_u64 env ''submit_ms'' 0; Some (raw, ms) }
   }"

definition ingest_raw_tx :: "crypto \<Rightarrow> bytes \<times> u64 \<Rightarrow> producer \<Rightarrow> bool \<times> producer" where
  "ingest_raw_tx c = (\<lambda>(raw, submit_ms) p.
     let h = sha256 c raw; ch = pr_chain p in
     if \<not> tx_preflight_ok c (ch_stage ch) (tip_height (ch_tip ch) + 1) raw then (False, p)
     else if \<not> tx_is_new_or_lower (ch_store ch) h submit_ms then (False, p)
     else (True, wake (p\<lparr>pr_chain :=
       on_store (put_pending_tx_submit_ms h submit_ms) (on_store (put_pending_tx h raw) ch)\<rparr>)))"

definition ingest_tx :: "crypto \<Rightarrow> string \<Rightarrow> producer \<Rightarrow> bool \<times> producer" where
  "ingest_tx c payload p = (case read_tx_envelope c payload of None \<Rightarrow> (False, p)
     | Some m \<Rightarrow> ingest_raw_tx c m p)"

section \<open>Settlement bodies\<close>

definition proof_key :: "PlayProof \<Rightarrow> hash256 \<times> hash256" where
  "proof_key pr = (pp_content_hash pr, pp_session_id pr)"

definition canonical_proofs :: "PlayProof list \<Rightarrow> PlayProof list" where
  "canonical_proofs = sort_key proof_key"

fun adjacent_twins :: "PlayProof list \<Rightarrow> bool" where
  "adjacent_twins (a # b # prs) \<longleftrightarrow> proof_key a = proof_key b \<or> adjacent_twins (b # prs)"
| "adjacent_twins _ \<longleftrightarrow> False"

definition ingest_settle_body :: "crypto \<Rightarrow> string \<Rightarrow> producer \<Rightarrow> bool \<times> producer" where
  "ingest_settle_body c body_hex p =
     (let raw = from_hex body_hex in
      if raw = [] then (False, p)
      else case deserialize_settle_body raw of None \<Rightarrow> (False, p)
      | Some proofs \<Rightarrow>
          if proofs = [] then (False, p)
          else let proofs = canonical_proofs proofs in
          if adjacent_twins proofs then (False, p)
          else let key = settle_body_key (merkle_root_bytes c (map PlayProof_serialize proofs)) in
          if kv_get (ch_store (pr_chain p)) key \<noteq> None then (False, p)
          else (True, wake (p\<lparr>pr_chain :=
            on_store (\<lambda>db. kv_put db key (serialize_settle_body proofs)) (pr_chain p)\<rparr>)))"

end
