(* ===== verification/Mempool_Laws.thy ===== *)
theory Mempool_Laws
  imports Mempool Chain_Properties
begin

text \<open>
  The laws of the mempools. A flooded message is merged into the row of its key when it is new
  or of lower rank; \<open>min_merge\<close> is the contract of such a merge, and its lemmas say that the
  order and the number of copies in which messages arrive do not matter. It is interpreted for
  transactions and for song registrations.
\<close>

section \<open>Merging by least rank\<close>

definition lower_rank :: "'r::linorder option \<Rightarrow> 'r \<Rightarrow> 'r option" where
  "lower_rank x r = Some (case x of None \<Rightarrow> r | Some y \<Rightarrow> min y r)"

lemma foldl_lower_rank:
  "foldl lower_rank x rs = (if set rs = {} then x else
     Some (Min (set rs \<union> set_option x)))"
proof (induction rs arbitrary: x)
  case (Cons r rs)
  show ?case
  proof (cases x)
    case None
    then show ?thesis using Cons.IH [of "Some r"]
      by (simp add: lower_rank_def insert_commute)
  next
    case (Some y)
    then have x: "lower_rank x r = Some (min y r)" by (simp add: lower_rank_def)
    have "Min (insert (min y r) (set rs)) = Min (insert y (insert r (set rs)))"
      by (cases rs) (simp_all add: min.assoc)
    then show ?thesis using Cons.IH [of "Some (min y r)"] x Some by (cases rs) simp_all
  qed
qed simp

locale min_merge =
  fixes step :: "'m \<Rightarrow> 's \<Rightarrow> 's"
    and look :: "'s \<Rightarrow> 'k \<Rightarrow> ('r::linorder) option"
    and key :: "'m \<Rightarrow> 'k"
    and rank :: "'m \<Rightarrow> 'r"
    and ok :: "'s \<Rightarrow> 'm \<Rightarrow> bool"
    and inv :: "'s \<Rightarrow> bool"
  assumes inv_step: "inv s \<Longrightarrow> ok s m \<Longrightarrow> inv (step m s)"
    and ok_step: "inv s \<Longrightarrow> ok s m \<Longrightarrow> ok (step m s) m' = ok s m'"
    and look_step: "inv s \<Longrightarrow> ok s m \<Longrightarrow>
      look (step m s) k = (if k = key m then lower_rank (look s k) (rank m) else look s k)"
begin

lemma look_fold:
  "inv s \<Longrightarrow> \<forall>m\<in>set ms. ok s m \<Longrightarrow>
   look (fold step ms s) k = foldl lower_rank (look s k) (map rank (filter (\<lambda>m. key m = k) ms))"
proof (induction ms arbitrary: s)
  case (Cons m ms)
  then have "look (fold step ms (step m s)) k =
      foldl lower_rank (look (step m s) k) (map rank (filter (\<lambda>m. key m = k) ms))"
    by (intro Cons.IH) (simp_all add: inv_step ok_step)
  then show ?case using Cons.prems by (auto simp: look_step)
qed simp

lemma look_fold_Min:
  assumes "inv s" and "\<forall>m\<in>set ms. ok s m"
  shows "look (fold step ms s) k =
    (let ranks = rank ` {m \<in> set ms. key m = k}
     in if ranks = {} then look s k else Some (Min (ranks \<union> set_option (look s k))))"
proof -
  have r: "set (map rank (filter (\<lambda>m. key m = k) ms)) = rank ` {m \<in> set ms. key m = k}" by auto
  show ?thesis
    unfolding look_fold [OF assms] foldl_lower_rank r Let_def ..
qed

lemma converges:
  assumes "inv s" and "\<forall>m\<in>set ms. ok s m" and "set ms = set ms'"
  shows "look (fold step ms s) = look (fold step ms' s)"
  using assms by (intro ext) (simp add: look_fold_Min)

lemma idempotent:
  assumes "inv s" and "\<forall>m\<in>set ms. ok s m" and "m \<in> set ms"
  shows "look (fold step (ms @ [m]) s) = look (fold step ms s)"
  using assms by (intro converges) auto

end

section \<open>Reads outside the mempool\<close>

lemma same_reads:
  assumes "same_but_mempool ch ch'"
  shows "has_play_credit (ch_stage ch') x a = has_play_credit (ch_stage ch) x a"
    and "validate_mint c m (ch_stage ch') h = validate_mint c m (ch_stage ch) h"
    and "db_get (ch_stage ch') (settle_body_key root) = db_get (ch_stage ch) (settle_body_key root)"
proof -
  have get: "db_get (ch_stage ch') k = db_get (ch_stage ch) k"
    if "key_class k \<notin> Some ` set mempool_classes" for k
    using assms that by (simp add: same_but_mempool_def db_get_def ch_store_def)
  show "has_play_credit (ch_stage ch') x a = has_play_credit (ch_stage ch) x a"
    by (simp add: has_play_credit_def play_credit_key_def get mempool_classes_def key_class_def)
  show "db_get (ch_stage ch') (settle_body_key root) = db_get (ch_stage ch) (settle_body_key root)"
    by (simp add: settle_body_key_def get mempool_classes_def key_class_def)
  have "is_session_used (ch_stage ch') = is_session_used (ch_stage ch)"
    by (simp add: fun_eq_iff is_session_used_def session_key_def get mempool_classes_def key_class_def)
  moreover have "get_play_count (ch_stage ch') = get_play_count (ch_stage ch)"
    by (simp add: fun_eq_iff get_play_count_def get_song_state_def get mempool_classes_def key_class_def)
  moreover have "get_total_supply (ch_stage ch') = get_total_supply (ch_stage ch)"
    by (simp add: get_total_supply_def supply_key_def get_u64_def get mempool_classes_def key_class_def)
  moreover have "get_song_section (ch_stage ch') = get_song_section (ch_stage ch)"
  proof -
    have "get_content_height (ch_stage ch') = get_content_height (ch_stage ch)"
      by (simp add: fun_eq_iff get_content_height_def get_u32_def get mempool_classes_def key_class_def)
    moreover have "db_get (ch_stage ch') (height_key n) = db_get (ch_stage ch) (height_key n)" for n
      by (simp add: height_key_def get mempool_classes_def key_class_def)
    moreover have "db_get (ch_stage ch') (block_key x) = db_get (ch_stage ch) (block_key x)" for x
      by (simp add: block_key_def get mempool_classes_def key_class_def)
    ultimately show ?thesis by (simp add: fun_eq_iff get_song_section_def cong: if_cong)
  qed
  ultimately have "check_play c pr (ch_stage ch') h = check_play c pr (ch_stage ch) h"
    "recompute_mint c pr (ch_stage ch') = recompute_mint c pr (ch_stage ch)" for pr
    by (simp_all only: check_play_def recompute_mint_def)
  then show "validate_mint c m (ch_stage ch') h = validate_mint c m (ch_stage ch) h"
    by (simp only: validate_mint_def)
qed

lemma preflight_mempool:
  assumes "same_but_mempool ch ch'"
  shows "tx_preflight_ok c (ch_stage ch') h raw = tx_preflight_ok c (ch_stage ch) h raw"
proof -
  have "tx_preflight_typed c (ch_stage ch') h t raw = tx_preflight_typed c (ch_stage ch) h t raw" for t
    by (cases t) (simp_all add: same_reads [OF assms])
  then show ?thesis by (simp add: tx_preflight_ok_def split: list.split option.split)
qed

section \<open>Transactions\<close>

definition tx_step :: "crypto \<Rightarrow> bytes \<times> u64 \<Rightarrow> producer \<Rightarrow> producer" where
  "tx_step c m p = snd (ingest_raw_tx c m p)"

definition tx_ok :: "crypto \<Rightarrow> producer \<Rightarrow> bytes \<times> u64 \<Rightarrow> bool" where
  "tx_ok c p m \<longleftrightarrow> tx_preflight_ok c (ch_stage (pr_chain p)) (tip_height (ch_tip (pr_chain p)) + 1) (fst m)"

text \<open>The mempool as a map from hashes to times.\<close>

definition tx_time :: "producer \<Rightarrow> hash256 \<Rightarrow> u64 option" where
  "tx_time p h = (if has_pending_tx (ch_store (pr_chain p)) h
     then Some (value_or (get_pending_tx_submit_ms (ch_store (pr_chain p)) h) 0) else None)"

definition store_sorted :: "producer \<Rightarrow> bool" where
  "store_sorted p \<longleftrightarrow> kv_ok (ch_store (pr_chain p))"

lemma store_on_store [simp]: "ch_store (on_store f ch) = f (ch_store ch)"
  by (simp add: on_store_def ch_store_def)

lemma put_rows_mempool:
  assumes "kv_ok (ch_store ch)"
  shows "same_but_mempool ch (on_store (put_pending_tx_submit_ms h ms) (on_store (put_pending_tx h raw) ch))"
    and "same_but_mempool ch (on_store (put_pending_song x payload) ch)"
  using assms
  by (auto simp: same_but_mempool_def put_pending_tx_submit_ms_def put_pending_tx_def put_pending_song_def
      kv_get_put kv_ok_put mempool_classes_def key_class_def) (auto simp: on_store_def)

lemma wake_chain [simp]:
  "pr_chain (wake p) = pr_chain p" "pr_songs (wake p) = pr_songs p"
  "pr_chain (enqueue_registration r p) = pr_chain p"
  by (simp_all add: wake_def enqueue_registration_def)

lemma tx_step_cases:
  "tx_step c m p = p \<and> (\<not> tx_ok c p m \<or> (\<exists>t. tx_time p (sha256 c (fst m)) = Some t \<and> t \<le> snd m)) \<or>
   tx_ok c p m \<and> pr_chain (tx_step c m p) =
     on_store (put_pending_tx_submit_ms (sha256 c (fst m)) (snd m))
       (on_store (put_pending_tx (sha256 c (fst m)) (fst m)) (pr_chain p)) \<and>
   pr_songs (tx_step c m p) = pr_songs p \<and>
     (\<forall>t. tx_time p (sha256 c (fst m)) = Some t \<longrightarrow> \<not> t \<le> snd m)"
  by (cases m) (auto simp: tx_step_def ingest_raw_tx_def tx_ok_def tx_is_new_or_lower_def tx_time_def Let_def)

lemma tx_time_put:
  assumes "kv_ok (ch_store ch)" and "pr_chain q = on_store (put_pending_tx_submit_ms h ms)
      (on_store (put_pending_tx h raw) ch)" and "pr_chain p = ch"
  shows "tx_time q k = (if k = h then Some ms else tx_time p k)"
proof -
  have "kv_get (ch_store (pr_chain q)) (''p:'' @ hex_hash k) =
      (if k = h then Some raw else kv_get (ch_store ch) (''p:'' @ hex_hash k))"
    "kv_get (ch_store (pr_chain q)) (''pt:'' @ hex_hash k) =
      (if k = h then Some (le_bytes 8 ms) else kv_get (ch_store ch) (''pt:'' @ hex_hash k))"
    using assms(1) by (simp_all add: assms(2) put_pending_tx_submit_ms_def put_pending_tx_def kv_get_put kv_ok_put)
  then show ?thesis
    by (cases "k = h") (simp_all add: tx_time_def has_pending_tx_def get_pending_tx_submit_ms_def
        value_or_def assms(3))
qed

interpretation txs: min_merge "tx_step c" tx_time "\<lambda>m. sha256 c (fst m)" snd "tx_ok c" store_sorted for c
proof unfold_locales
  fix p m
  assume inv: "store_sorted p" and ok: "tx_ok c p m"
  have kv: "kv_ok (ch_store (pr_chain p))" using inv by (simp add: store_sorted_def)
  from tx_step_cases [of c m p]
  show "store_sorted (tx_step c m p)"
    using kv by (auto simp: store_sorted_def put_pending_tx_submit_ms_def put_pending_tx_def kv_ok_put)
  show "tx_ok c (tx_step c m p) m' = tx_ok c p m'" for m'
    using tx_step_cases [of c m p]
  proof (elim disjE conjE)
    assume q: "pr_chain (tx_step c m p) = on_store (put_pending_tx_submit_ms (sha256 c (fst m)) (snd m))
       (on_store (put_pending_tx (sha256 c (fst m)) (fst m)) (pr_chain p))"
    from put_rows_mempool(1) [OF kv, of "sha256 c (fst m)" "snd m" "fst m"]
    show ?thesis unfolding tx_ok_def q by (simp add: preflight_mempool) (simp add: on_store_def)
  qed simp_all
  show "tx_time (tx_step c m p) k =
      (if k = sha256 c (fst m) then lower_rank (tx_time p k) (snd m) else tx_time p k)" for k
    using tx_step_cases [of c m p]
  proof (elim disjE conjE exE)
    assume "tx_step c m p = p" "\<not> tx_ok c p m"
    with ok show ?thesis by simp
  next
    fix t assume "tx_step c m p = p" "tx_time p (sha256 c (fst m)) = Some t" "t \<le> snd m"
    then show ?thesis by (simp add: lower_rank_def min_absorb1)
  next
    assume q: "pr_chain (tx_step c m p) = on_store (put_pending_tx_submit_ms (sha256 c (fst m)) (snd m))
       (on_store (put_pending_tx (sha256 c (fst m)) (fst m)) (pr_chain p))"
      and new: "\<forall>t. tx_time p (sha256 c (fst m)) = Some t \<longrightarrow> \<not> t \<le> snd m"
    show ?thesis
      using tx_time_put [OF kv q refl, of k] new
      by (auto simp: lower_rank_def min_def split: option.split)
  qed
qed

section \<open>Song registrations\<close>

lemma parse_fpsubmit_laws:
  assumes "parse_fpsubmit c payload = Some r"
  shows "payload_rank c payload = Some (pg_submit_ms r, sha256 c (str_bytes payload))"
    and "song_fields_ok (song_of r)" and "pg_retries r = 0"
proof -
  obtain j where j: "json_parse c payload = Some j" "pending_reg_from_fpsubmit c j = Some (Some r)"
    using assms by (auto simp: parse_fpsubmit_def bind_eq_Some_conv)
  then have "json_value_u64 j ''submit_ms'' 0 = Some (pg_submit_ms r)" "reg_fits r" "pg_retries r = 0"
    by (auto simp: pending_reg_from_fpsubmit_def bind_eq_Some_conv Let_def split: if_splits option.splits)
  with j show "payload_rank c payload = Some (pg_submit_ms r, sha256 c (str_bytes payload))"
    "song_fields_ok (song_of r)" "pg_retries r = 0"
    by (auto simp: payload_rank_def reg_fits_def song_fields_ok_def song_of_def)
qed

definition song_step :: "crypto \<Rightarrow> string \<Rightarrow> producer \<Rightarrow> producer" where
  "song_step c payload p = snd (ingest_fpsubmit c payload p)"

definition song_ok :: "crypto \<Rightarrow> producer \<Rightarrow> string \<Rightarrow> bool" where
  "song_ok c p payload \<longleftrightarrow> (case parse_fpsubmit c payload of None \<Rightarrow> False
     | Some r \<Rightarrow> \<not> pg_on_chain c (pr_chain p) r)"

definition payload_song :: "crypto \<Rightarrow> string \<Rightarrow> hash256" where
  "payload_song c payload = pg_content_hash (the (parse_fpsubmit c payload))"

definition stored_rank :: "crypto \<Rightarrow> producer \<Rightarrow> hash256 \<Rightarrow> (u64 \<times> hash256) option" where
  "stored_rank c p ch = Option.bind (get_pending_song (ch_store (pr_chain p)) ch) (payload_rank c)"

definition rows_ranked :: "crypto \<Rightarrow> producer \<Rightarrow> bool" where
  "rows_ranked c p \<longleftrightarrow> kv_ok (ch_store (pr_chain p)) \<and>
     (\<forall>ch payload. get_pending_song (ch_store (pr_chain p)) ch = Some payload \<longrightarrow> payload_rank c payload \<noteq> None)"

lemma get_put_pending_song:
  "kv_ok db \<Longrightarrow> get_pending_song (put_pending_song x payload db) ch =
     (if ch = x then Some payload else get_pending_song db ch)"
  by (simp add: get_pending_song_def put_pending_song_def kv_get_put)

lemma song_step_cases:
  assumes "song_ok c p payload" and "rows_ranked c p"
  obtains (kept) r where "song_step c payload p = p" "stored_rank c p (payload_song c payload) = Some r"
      "r \<le> the (payload_rank c payload)"
  | (stored) "pr_chain (song_step c payload p) =
        on_store (put_pending_song (payload_song c payload) payload) (pr_chain p)"
      "\<And>r. stored_rank c p (payload_song c payload) = Some r \<Longrightarrow> \<not> r \<le> the (payload_rank c payload)"
proof -
  obtain r where r: "parse_fpsubmit c payload = Some r" "\<not> pg_on_chain c (pr_chain p) r"
    using assms(1) by (auto simp: song_ok_def split: option.splits)
  note rank = parse_fpsubmit_laws(1) [OF r(1)]
  have ch: "payload_song c payload = pg_content_hash r" by (simp add: payload_song_def r)
  have step: "song_step c payload p = (if \<not> song_is_new_or_lower c (ch_store (pr_chain p)) r payload then p
      else enqueue_registration r
        (p\<lparr>pr_chain := on_store (put_pending_song (pg_content_hash r) payload) (pr_chain p)\<rparr>))"
    by (simp add: song_step_def ingest_fpsubmit_def r)
  show thesis
  proof (cases "get_pending_song (ch_store (pr_chain p)) (pg_content_hash r)")
    case None
    then show thesis by (intro stored) (simp_all add: step ch song_is_new_or_lower_def stored_rank_def)
  next
    case (Some ex)
    then obtain t where t: "payload_rank c ex = Some t"
      using assms(2) unfolding rows_ranked_def by blast
    have low: "song_is_new_or_lower c (ch_store (pr_chain p)) r payload \<longleftrightarrow>
        \<not> t \<le> (pg_submit_ms r, sha256 c (str_bytes payload))"
      using Some t by (cases t) (auto simp: song_is_new_or_lower_def)
    show thesis
      by (cases "t \<le> (pg_submit_ms r, sha256 c (str_bytes payload))")
        (rule kept [of t] stored; simp add: step ch low rank stored_rank_def Some t)+
  qed
qed

interpretation songs: min_merge "song_step c" "stored_rank c" "payload_song c"
  "\<lambda>payload. the (payload_rank c payload)" "song_ok c" "rows_ranked c" for c
proof unfold_locales
  fix p payload
  assume inv: "rows_ranked c p" and ok: "song_ok c p payload"
  have kv: "kv_ok (ch_store (pr_chain p))" using inv by (simp add: rows_ranked_def)
  have ranked: "payload_rank c payload \<noteq> None"
    using ok parse_fpsubmit_laws(1) by (fastforce simp: song_ok_def split: option.splits)
  show "rows_ranked c (song_step c payload p)"
    using inv ranked kv
    by (cases rule: song_step_cases [OF ok inv])
      (auto simp: rows_ranked_def get_put_pending_song, simp add: put_pending_song_def kv_ok_put)
  show "song_ok c (song_step c payload p) m' = song_ok c p m'" for m'
    using ok inv
  proof (cases rule: song_step_cases)
    case stored
    have "pg_on_chain c (pr_chain (song_step c payload p)) r = pg_on_chain c (pr_chain p) r" for r
      unfolding pg_on_chain_def stored(1)
      by (rule song_on_chain_mempool) (rule put_rows_mempool(2) [OF kv])
    then show ?thesis by (simp add: song_ok_def split: option.split)
  qed simp
  show "stored_rank c (song_step c payload p) k =
      (if k = payload_song c payload then lower_rank (stored_rank c p k) (the (payload_rank c payload))
       else stored_rank c p k)" for k
    using ok inv
  proof (cases rule: song_step_cases)
    case (kept r)
    then show ?thesis by (simp add: lower_rank_def min_absorb1)
  next
    case stored
    then show ?thesis using ranked
      by (auto simp: stored_rank_def stored(1) get_put_pending_song [OF kv] lower_rank_def min_def
          split: option.split)
  qed
qed

section \<open>The running node\<close>

text \<open>
  A node from an empty database: it ingests whatever is flooded to it, mints, connects blocks
  of its peers and rebuilds its songs.
\<close>

inductive node_reachable :: "crypto \<Rightarrow> (u32 \<times> string) list \<Rightarrow> producer \<Rightarrow> bool" for c rows where
  boot: "node_reachable c rows \<lparr>pr_chain = Chain_open c rows empty_stage, pr_songs = [], pr_running = True,
     pr_wake_requested = False, pr_announced = []\<rparr>"
| tx: "node_reachable c rows p \<Longrightarrow> node_reachable c rows (snd (ingest_tx c payload p))"
| song: "node_reachable c rows p \<Longrightarrow> node_reachable c rows (snd (ingest_fpsubmit c payload p))"
| body: "node_reachable c rows p \<Longrightarrow> node_reachable c rows (snd (ingest_settle_body c hex p))"
| reload: "node_reachable c rows p \<Longrightarrow> node_reachable c rows (snd (load_pending_songs c p))"
| mint: "node_reachable c rows p \<Longrightarrow> node_reachable c rows (snd (producer_pass c an now p))"
| peer: "node_reachable c rows p \<Longrightarrow>
    node_reachable c rows (p\<lparr>pr_chain := snd (connect_block c an blk (pr_chain p))\<rparr>)"
| reorg: "node_reachable c rows p \<Longrightarrow>
    node_reachable c rows (p\<lparr>pr_chain := snd (reorg_to_branch c fork_hash fh branch (pr_chain p))\<rparr>)"

definition song_entry_ok :: "hash256 \<times> PendingRegistration \<Rightarrow> bool" where
  "song_entry_ok e \<longleftrightarrow> fst e = pg_content_hash (snd e) \<and> song_fields_ok (song_of (snd e)) \<and>
     pg_retries (snd e) < 3"

definition songs_well_formed :: "(hash256 \<times> PendingRegistration) list \<Rightarrow> bool" where
  "songs_well_formed m \<longleftrightarrow> list_all song_entry_ok m \<and> sorted_wrt (<) (map fst m)"

lemma set_map_insert: "set (map_insert k v m) \<subseteq> insert (k, v) (set m)"
  by (induction k v m rule: map_insert.induct) auto

lemma keys_map_insert: "set (map fst (map_insert k v m)) = insert k (set (map fst m))"
  by (induction k v m rule: map_insert.induct) auto

lemma sorted_map_insert: "sorted_wrt (<) (map fst m) \<Longrightarrow> sorted_wrt (<) (map fst (map_insert k v m))"
proof (induction k v m rule: map_insert.induct)
  case (2 k v k' v' m)
  have "\<forall>x\<in>set (map fst (map_insert k v m)). k' < x" if "k' < k"
    unfolding keys_map_insert using that "2.prems" by auto
  with 2 show ?case by (auto dest: less_trans)
qed simp

lemma well_formed_insert:
  "songs_well_formed m \<Longrightarrow> song_entry_ok (k, r) \<Longrightarrow> songs_well_formed (map_insert k r m)"
  using set_map_insert [of k r m]
  by (auto simp: songs_well_formed_def sorted_map_insert list_all_iff)

lemma well_formed_filter: "songs_well_formed m \<Longrightarrow> songs_well_formed (filter P m)"
  by (auto simp: songs_well_formed_def list_all_iff strict_sorted_iff sorted_filter distinct_map_filter)

lemma well_formed_erase: "songs_well_formed m \<Longrightarrow> songs_well_formed (map_erase k m)"
  by (simp add: map_erase_def well_formed_filter)

lemma well_formed_load:
  assumes "songs_well_formed (pr_songs p)"
  shows "songs_well_formed (pr_songs (snd (load_pending_song c e p)))"
proof -
  have "song_entry_ok (pg_content_hash r, r)"
    if "json_parse c payload = Some env" "pending_reg_from_fpsubmit c env = Some (Some r)" for payload env r
    using parse_fpsubmit_laws [of c payload r] that by (simp add: parse_fpsubmit_def song_entry_ok_def)
  then show ?thesis
    using assms
    by (auto simp: load_pending_song_def enqueue_registration_def Let_def
        intro!: well_formed_insert split: prod.split option.split)
qed

lemma well_formed_select:
  "select_song c now m ch = (x, m', ch') \<Longrightarrow> songs_well_formed m \<Longrightarrow> songs_well_formed m'"
proof (induction m arbitrary: ch x m' ch')
  case (Cons e m)
  obtain k r where e: "e = (k, r)" by (cases e)
  have wf: "songs_well_formed m" "song_entry_ok (k, r)" "\<forall>x\<in>set (map fst m). k < x"
    using Cons.prems(2) by (simp_all add: songs_well_formed_def e)
  show ?case
  proof (cases "3 \<le> pg_retries r \<or> age_at now (pg_submit_ms r) < PROPAGATION_WINDOW_MS")
    case True
    obtain y m'' ch'' where s: "select_song c now m ch = (y, m'', ch'')" by (metis prod_cases3)
    have "set m'' \<subseteq> set m" using select_song_laws [OF s] by blast
    then have "\<forall>x\<in>set (map fst m''). k < x" using wf(3) by auto
    with Cons.IH [OF s wf(1)] wf(2) have "songs_well_formed ((k, r) # m'')"
      by (simp add: songs_well_formed_def)
    with Cons.prems(1) True s e show ?thesis by auto
  next
    case False
    then show ?thesis
    proof (cases "pg_on_chain c ch r")
      case True
      then show ?thesis using Cons.prems(1) Cons.IH [OF _ wf(1)] False e by auto
    next
      case no: False
      then show ?thesis using Cons.prems False e by auto
    qed
  qed
qed simp

lemma well_formed_retry:
  assumes "songs_well_formed (pr_songs p)"
  shows "songs_well_formed (pr_songs (retry_song c r p))"
proof (cases "map_of (pr_songs p) (pg_content_hash r)")
  case None
  then show ?thesis using assms by (simp add: retry_song_def Let_def)
next
  case (Some entry)
  then have "song_entry_ok (pg_content_hash r, entry)"
    using assms map_of_SomeD by (fastforce simp: songs_well_formed_def list_all_iff)
  then have "song_entry_ok (pg_content_hash r, entry\<lparr>pg_retries := pg_retries entry + 1\<rparr>)"
    if "\<not> 3 \<le> pg_retries entry + 1"
    using that by (simp add: song_entry_ok_def song_of_def not_le)
  with Some assms show ?thesis
    by (auto simp: retry_song_def Let_def intro!: well_formed_insert well_formed_erase)
qed

text \<open>What every stage of a pass keeps, the pass keeps.\<close>

lemma pass_keeps:
  assumes sel: "select_song c now (pr_songs p) (pr_chain p) = (reg, songs, ch1)"
    and body: "build_body c now reg ch1 = (included, ch2)"
    and start: "Q (p\<lparr>pr_songs := songs, pr_chain := ch2\<rparr>)"
    and commit: "\<And>blk q. Q q \<Longrightarrow> Q (snd (commit_block c an blk q))"
    and fail: "\<And>q. Q q \<Longrightarrow> Q (after_failure c reg included q)"
    and erase: "\<And>q k. Q q \<Longrightarrow> Q (q\<lparr>pr_songs := map_erase k (pr_songs q)\<rparr>)"
  shows "Q (snd (producer_pass c an now p))"
proof (cases "reg = None \<and> included = []")
  case True
  then show ?thesis using start body by (simp add: producer_pass_def sel)
next
  case False
  define blk where "blk = assemble_block c (tip_hash (ch_tip ch2)) (block_time reg included) reg (map sl_raw included)"
  obtain ok q where com: "commit_block c an blk (p\<lparr>pr_songs := songs, pr_chain := ch2\<rparr>) = (ok, q)" by fastforce
  have q: "Q q" using commit [OF start, of blk] com by simp
  then have "Q (if \<not> ok then after_failure c reg included q
      else (case reg of None \<Rightarrow> q | Some r \<Rightarrow> q\<lparr>pr_songs := map_erase (pg_content_hash r) (pr_songs q)\<rparr>))"
    using fail erase by (simp split: option.split)
  moreover have "snd (producer_pass c an now p) = (if \<not> ok then after_failure c reg included q
      else (case reg of None \<Rightarrow> q | Some r \<Rightarrow> q\<lparr>pr_songs := map_erase (pg_content_hash r) (pr_songs q)\<rparr>))"
    unfolding producer_pass_def sel body prod.case Let_def if_not_P [OF False]
    using com by (simp add: blk_def)
  ultimately show ?thesis by simp
qed

lemma well_formed_pass:
  assumes "songs_well_formed (pr_songs p)"
  shows "songs_well_formed (pr_songs (snd (producer_pass c an now p)))"
proof -
  obtain reg songs ch1 where sel: "select_song c now (pr_songs p) (pr_chain p) = (reg, songs, ch1)"
    by (metis prod_cases3)
  obtain included ch2 where body: "build_body c now reg ch1 = (included, ch2)" by fastforce
  have wf: "songs_well_formed songs" using well_formed_select [OF sel assms] .
  have fail: "songs_well_formed (pr_songs (after_failure c reg included q))" if "songs_well_formed (pr_songs q)" for q
    using that well_formed_retry
    by (auto simp: after_failure_def case_prod_beta Let_def split: option.split)
  show ?thesis
    by (rule pass_keeps [OF sel body])
      (simp_all add: wf fail well_formed_erase commit_block_def case_prod_beta Let_def)
qed

section \<open>The chain of a running node\<close>

lemma on_store_with: "on_store f ch = with_store (f (ch_store ch)) ch"
  by (simp add: on_store_def with_store_def ch_store_def)

lemma node_keys [simp]:
  "node_key (''p:'' @ r)" "node_key (''pt:'' @ r)" "node_key (''sp:'' @ r)" "node_key (settle_body_key x)"
  by (simp_all add: node_key_def node_tables_def key_class_def settle_body_key_def)

lemmas node_keys_simp [simp] = node_keys [simplified]

lemma with_store_twice [simp]: "with_store db (with_store db' ch) = with_store db ch" "ch_store (with_store db ch) = db"
  by (simp_all add: with_store_def ch_store_def)

lemma reachable_rows:
  assumes "reachable c rows ch"
  shows "reachable c rows (on_store (del_pending_tx h) ch)"
    and "reachable c rows (on_store (del_pending_song x) ch)"
    and "reachable c rows (on_store (put_pending_tx h raw) ch)"
    and "reachable c rows (on_store (put_pending_tx_submit_ms h ms) ch)"
    and "reachable c rows (on_store (put_pending_song x payload) ch)"
    and "reachable c rows (on_store (\<lambda>db. kv_put db (settle_body_key root) v) ch)"
proof -
  have "reachable c rows (with_store (kv_del (ch_store ch) (''pt:'' @ hex_hash h)) ch)"
    by (rule reachable.drop_row [OF assms]) simp
  from reachable.drop_row [OF this, of "''p:'' @ hex_hash h"]
  show "reachable c rows (on_store (del_pending_tx h) ch)"
    by (simp add: on_store_with del_pending_tx_def)
qed (auto simp: on_store_with del_pending_song_def put_pending_tx_def put_pending_tx_submit_ms_def
    put_pending_song_def intro!: reachable.drop_row [OF assms] reachable.put_row [OF assms])

lemma reachable_select:
  "select_song c now m ch = (x, m', ch') \<Longrightarrow> reachable c rows ch \<Longrightarrow> reachable c rows ch'"
proof (induction m arbitrary: ch x m' ch')
  case (Cons e m)
  obtain k r where e: "e = (k, r)" by (cases e)
  have step: "reachable c rows ch'"
    if "select_song c now m ch0 = y" "snd (snd y) = ch'" "reachable c rows ch0" for y ch0
    using that Cons.IH by (metis prod.collapse)
  show ?case
    using Cons.prems e
    by (auto simp: Let_def reachable_rows split: if_splits prod.splits elim!: step)
qed simp

lemma reachable_check:
  "reachable c rows ch \<Longrightarrow> reachable c rows (snd (check_mempool c txs ch))"
proof (induction txs arbitrary: ch)
  case (Cons e txs)
  obtain h raw where e: "e = (h, raw)" by (cases e)
  show ?case
    using Cons e by (auto simp: Let_def case_prod_beta reachable_rows split: option.split)
qed simp

lemma reachable_gate:
  "applicability_gate c included ch = (included', ch') \<Longrightarrow> reachable c rows ch \<Longrightarrow> reachable c rows ch'"
proof (induction c included ch rule: applicability_gate.induct)
  case (1 c included ch)
  obtain bad ch1 where p: "first_unappliable_tx c (map sl_raw included) ch = (bad, ch1)" by fastforce
  have r: "reachable c rows ch1" using reachable.probe [OF "1.prems"(2), of "map sl_raw included"] p by simp
  show ?case
  proof (cases "bad < 0")
    case True
    then show ?thesis using "1.prems"(1) p r by (simp add: applicability_gate.simps [of c included ch])
  next
    case False
    then have "applicability_gate c (erase_at (nat bad) included)
        (on_store (del_pending_tx (sl_hash (included ! nat bad))) ch1) = (included', ch')"
      using "1.prems"(1) p by (simp add: applicability_gate.simps [of c included ch])
    from "1.IH" [OF refl p [symmetric] False this] r show ?thesis by (simp add: reachable_rows)
  qed
qed

lemma reachable_commit:
  "reachable c rows (pr_chain p) \<Longrightarrow> reachable c rows (pr_chain (snd (commit_block c an blk p)))"
  using reachable.candidate [of c rows "pr_chain p" blk]
  by (auto simp: commit_block_def stamp_root_def case_prod_beta Let_def intro!: reachable.connect)

lemma reachable_pass:
  assumes "reachable c rows (pr_chain p)"
  shows "reachable c rows (pr_chain (snd (producer_pass c an now p)))"
proof -
  obtain reg songs ch1 where sel: "select_song c now (pr_songs p) (pr_chain p) = (reg, songs, ch1)"
    by (metis prod_cases3)
  obtain included ch2 where body: "build_body c now reg ch1 = (included, ch2)" by fastforce
  obtain slots ch0 where chk: "check_mempool c (get_all_pending_txs (ch_store ch1)) ch1 = (slots, ch0)"
    by fastforce
  have "applicability_gate c (cap_block reg (cap_senders (include_slots now reg (sort_slots slots)))) ch0 =
      (included, ch2)" using body chk by (simp add: build_body_def)
  from reachable_gate [OF this] reachable_check [OF reachable_select [OF sel assms], of "get_all_pending_txs (ch_store ch1)"] chk
  have r: "reachable c rows ch2" by simp
  have fail: "reachable c rows (pr_chain (after_failure c reg included q))" if q: "reachable c rows (pr_chain q)" for q
  proof -
    have retry: "reachable c rows (pr_chain (retry_song c r u))" if "reachable c rows (pr_chain u)" for r u
      using that by (auto simp: retry_song_def Let_def reachable_rows split: option.split)
    show ?thesis
      using q reachable.probe [OF q, of "map sl_raw included"]
      by (auto simp: after_failure_def case_prod_beta Let_def reachable_rows intro!: retry split: option.split)
  qed
  show ?thesis
    by (rule pass_keeps [OF sel body]) (simp_all add: r fail reachable_commit)
qed

section \<open>What a running node keeps\<close>

lemma reachable_enqueue:
  "pr_chain (enqueue_registration r p) = pr_chain p" "pr_chain (wake p) = pr_chain p" "pr_songs (wake p) = pr_songs p"
  by (simp_all add: enqueue_registration_def wake_def)

lemma reachable_load:
  assumes "reachable c rows (pr_chain p)"
  shows "reachable c rows (pr_chain (snd (load_pending_song c e p)))"
  using assms
  by (auto simp: load_pending_song_def Let_def reachable_rows reachable_enqueue
      split: prod.split option.split)

lemma node_load:
  assumes "songs_well_formed (pr_songs p)" "reachable c rows (pr_chain p)"
  shows "songs_well_formed (pr_songs (snd (load_song_rows c es p))) \<and>
    reachable c rows (pr_chain (snd (load_song_rows c es p)))"
  using assms
proof (induction es arbitrary: p)
  case (Cons e es)
  obtain ok q where e: "load_pending_song c e p = (ok, q)" by fastforce
  have "songs_well_formed (pr_songs q)" "reachable c rows (pr_chain q)"
    using well_formed_load [OF Cons.prems(1), of c e] reachable_load [OF Cons.prems(2), of e] e by simp_all
  with Cons.IH show ?case by (simp add: e split: bool.split)
qed simp

lemma node_ingest_song:
  assumes wf: "songs_well_formed (pr_songs p)" and r: "reachable c rows (pr_chain p)"
  shows "songs_well_formed (pr_songs (snd (ingest_fpsubmit c payload p)))"
    and "reachable c rows (pr_chain (snd (ingest_fpsubmit c payload p)))"
proof -
  have "songs_well_formed (pr_songs (enqueue_registration x q))"
    if "parse_fpsubmit c payload = Some x" "songs_well_formed (pr_songs q)" for x q
    using that parse_fpsubmit_laws
    by (auto simp: enqueue_registration_def song_entry_ok_def intro!: well_formed_insert)
  then show "songs_well_formed (pr_songs (snd (ingest_fpsubmit c payload p)))"
    using wf by (auto simp: ingest_fpsubmit_def split: option.split)
  show "reachable c rows (pr_chain (snd (ingest_fpsubmit c payload p)))"
    using r by (auto simp: ingest_fpsubmit_def reachable_rows reachable_enqueue split: option.split)
qed

lemma node_ingest_tx:
  assumes "songs_well_formed (pr_songs p)" "reachable c rows (pr_chain p)"
  shows "songs_well_formed (pr_songs (snd (ingest_tx c payload p))) \<and>
    reachable c rows (pr_chain (snd (ingest_tx c payload p)))"
  using assms reachable_rows(4) [OF reachable_rows(3)]
  by (auto simp: ingest_tx_def ingest_raw_tx_def Let_def reachable_enqueue split: option.split prod.split)

lemma node_ingest_body:
  assumes "songs_well_formed (pr_songs p)" "reachable c rows (pr_chain p)"
  shows "songs_well_formed (pr_songs (snd (ingest_settle_body c hex p))) \<and>
    reachable c rows (pr_chain (snd (ingest_settle_body c hex p)))"
  using assms
  by (auto simp: ingest_settle_body_def Let_def reachable_enqueue reachable_rows split: option.split)

lemma node_invariant:
  "node_reachable c rows p \<Longrightarrow> songs_well_formed (pr_songs p) \<and> reachable c rows (pr_chain p)"
proof (induction rule: node_reachable.induct)
  case boot
  then show ?case by (simp add: songs_well_formed_def reachable.opened)
next
  case (reload p)
  then show ?case using node_load [of p c rows] by (simp add: load_pending_songs_def)
next
  case (peer p an blk)
  then show ?case by (simp add: reachable.connect)
next
  case (reorg p fork_hash fh branch)
  then show ?case by (simp add: reachable.reorg)
next
  case (tx p payload)
  then show ?case using node_ingest_tx [of p c rows] by simp
next
  case (body p hex)
  then show ?case using node_ingest_body [of p c rows] by simp
next
  case (song p payload)
  then show ?case using node_ingest_song [of p c rows] by simp
next
  case (mint p an now)
  then show ?case by (simp add: well_formed_pass reachable_pass)
qed

end
