(* ===== verification/Node_Properties.thy ===== *)
theory Node_Properties
  imports Mempool_Laws Producer_Properties
begin

text \<open>
  Properties of a running node: what its song mempool always satisfies, so that minting cannot
  fail, that the two mempools converge whatever the order of arrival, and that the hash and the
  text form of an address are the standard ones.
\<close>

section \<open>The node's state\<close>

lemma reachable_kv_ok: "reachable c rows ch \<Longrightarrow> kv_ok (ch_store ch)"
  using reachable_inv by (auto simp: chain_inv_def)

text \<open>C17. In every state a node can reach, every pending song is stored under its own content hash,
  is within the limits of the wire format, has retries left, and the songs are in the order of
  their hashes; so what minting needs always holds, and a pass mints exactly when it has
  something to carry.\<close>

theorem node_state_well_formed:
  assumes "node_reachable c rows p"
  shows "list_all (\<lambda>(k, r). k = pg_content_hash r \<and> song_fields_ok (song_of r) \<and> pg_retries r < 3)
      (pr_songs p) \<and>
    sorted_wrt (<) (map fst (pr_songs p)) \<and>
    ((an \<or> tip_height (ch_tip (pr_chain p)) \<noteq> 0) \<and>
     ch_checkpoints (pr_chain p) (tip_height (ch_tip (pr_chain p)) + 1) = None \<longrightarrow>
     fst (producer_pass c an now p) =
       (let (reg, songs, ch) = select_song c now (pr_songs p) (pr_chain p)
        in reg \<noteq> None \<or> fst (build_body c now reg ch) \<noteq> []))"
proof -
  have wf: "songs_well_formed (pr_songs p)" using node_invariant [OF assms] by blast
  then have entries: "\<forall>e\<in>set (pr_songs p). song_entry_ok e"
    by (simp add: songs_well_formed_def list_all_iff)
  then have "\<forall>(k, r)\<in>set (pr_songs p). song_fields_ok (song_of r)" by (auto simp: song_entry_ok_def)
  from producer_pass_iff [OF _ _ this] wf show ?thesis
    by (auto simp: songs_well_formed_def song_entry_ok_def case_prod_beta list_all_iff)
qed

text \<open>A JSON library that reads every text as one registration, and the payloads of it.\<close>

definition sample_envelope :: json where
  "sample_envelope = JObject [(''content_hash'', JString (hex_hash 0)),
     (''compressed_fingerprint'', JString ''AQAA''), (''submit_ms'', JNumber 1000)]"

definition json_crypto :: crypto where
  "json_crypto = toy_crypto\<lparr>json_parse := (\<lambda>_. Some sample_envelope)\<rparr>"

definition empty_node :: producer where
  "empty_node = \<lparr>pr_chain = Chain_open json_crypto [] empty_stage, pr_songs = [], pr_running = True,
     pr_wake_requested = False, pr_announced = []\<rparr>"

lemma empty_node_get: "key_class k \<noteq> Some ''sr:'' \<Longrightarrow> kv_get (ch_store (pr_chain empty_node)) k = None"
  by (auto simp: empty_node_def Chain_open_def empty_stage_def db_get_def Let_def ch_store_def db_put_now_def
      kv_get_def)

lemma empty_node_reachable: "node_reachable json_crypto [] empty_node"
  unfolding empty_node_def by (rule node_reachable.boot)

lemma sample_envelope_parses:
  "\<exists>r. parse_fpsubmit json_crypto payload = Some r \<and> pg_content_hash r = 0 \<and> pg_submit_ms r = 1000"
  by (simp add: parse_fpsubmit_def json_crypto_def pending_reg_from_fpsubmit_def sample_envelope_def
      json_value_string_def json_value_int_def json_value_u64_def json_member_array_def reg_fits_def Let_def
      parse_hash256_def hex_hash_def json_object_def)

theorem node_state_well_formed_witness:
  "songs_well_formed (pr_songs (snd (ingest_fpsubmit json_crypto ''a'' empty_node))) \<and>
   sorted_wrt (<) (map fst (pr_songs (snd (ingest_fpsubmit json_crypto ''a'' empty_node))))"
proof -
  have "node_reachable json_crypto [] (snd (ingest_fpsubmit json_crypto ''a'' empty_node))"
    by (rule node_reachable.song [OF empty_node_reachable])
  from node_state_well_formed [OF this, of True 0] show ?thesis
    by (auto simp: songs_well_formed_def song_entry_ok_def list_all_iff)
qed

section \<open>Convergence of the mempools\<close>

text \<open>C18. The transaction mempool is a minimum over what was flooded: nodes that received the same
  admissible messages hold the same transactions with the same times, in whatever order and
  however often they arrived, and the time kept of each is the earliest one seen. (Which
  admissible messages there are does not depend on the mempool.)\<close>

theorem tx_mempool_converges:
  assumes "node_reachable c rows p"
    and "\<forall>(raw, ms)\<in>set msgs.
      tx_preflight_ok c (ch_stage (pr_chain p)) (tip_height (ch_tip (pr_chain p)) + 1) raw"
    and "set msgs = set msgs'"
  shows "tx_time (fold (\<lambda>m q. snd (ingest_raw_tx c m q)) msgs p) h =
      tx_time (fold (\<lambda>m q. snd (ingest_raw_tx c m q)) msgs' p) h \<and>
    tx_time (fold (\<lambda>m q. snd (ingest_raw_tx c m q)) msgs p) h =
      (let times = snd ` {m \<in> set msgs. sha256 c (fst m) = h}
       in if times = {} then tx_time p h else Some (Min (times \<union> set_option (tx_time p h))))"
proof -
  have step: "(\<lambda>m q. snd (ingest_raw_tx c m q)) = tx_step c" by (simp add: fun_eq_iff tx_step_def)
  have inv: "store_sorted p"
    using node_invariant [OF assms(1)] by (auto simp: store_sorted_def intro: reachable_kv_ok)
  have ok: "\<forall>m\<in>set msgs. tx_ok c p m" using assms(2) by (auto simp: tx_ok_def)
  show ?thesis unfolding step txs.look_fold_Min [OF inv ok, symmetric]
    by (simp add: txs.converges [OF inv ok assms(3)])
qed

lemma name_tx_preflight: "tx_preflight_ok json_crypto s n (UsernameTx_serialize name_tx)"
proof -
  have "UsernameTx_deserialize (UsernameTx_serialize name_tx) = Some name_tx"
    by (rule username.deser_ser_nil) (simp add: UsernameTx_ok_def name_tx_def)
  then show ?thesis
    by (simp add: tx_preflight_ok_def read_and_def UsernameTx_verify_signature_def name_tx_def
        verify_inline_def json_crypto_def toy_crypto_def toy_address_zero UsernameTx_serialize_def
        UsernameTx_body_def tx_type_of_def all_tx_types_def)
qed

theorem tx_mempool_converges_witness:
  "tx_time (fold (\<lambda>m q. snd (ingest_raw_tx json_crypto m q))
     [(UsernameTx_serialize name_tx, 9), (UsernameTx_serialize name_tx, 7)] empty_node)
     (sha256 json_crypto (UsernameTx_serialize name_tx)) = Some 7"
proof -
  let ?h = "sha256 json_crypto (UsernameTx_serialize name_tx)"
  let ?msgs = "[(UsernameTx_serialize name_tx, 9), (UsernameTx_serialize name_tx, 7 :: u64)]"
  have none: "tx_time empty_node ?h = None"
    using empty_node_get [of "''p:'' @ hex_hash ?h"]
    by (simp add: tx_time_def has_pending_tx_def key_class_def)
  have times: "snd ` {m \<in> set ?msgs. sha256 json_crypto (fst m) = ?h} = {9, 7}"
    by (auto simp: image_iff)
  have "\<forall>(raw, ms)\<in>set ?msgs. tx_preflight_ok json_crypto (ch_stage (pr_chain empty_node))
      (tip_height (ch_tip (pr_chain empty_node)) + 1) raw"
    by (simp add: name_tx_preflight)
  from tx_mempool_converges [OF empty_node_reachable this refl, of ?h]
  show ?thesis unfolding times none Let_def by simp
qed

text \<open>What the song mempool stores was flooded, or was there.\<close>

lemma song_rows_from:
  assumes "rows_ranked c p" and "\<forall>m\<in>set msgs. song_ok c p m"
  shows "rows_ranked c (fold (song_step c) msgs p) \<and>
    (\<forall>k m. get_pending_song (ch_store (pr_chain (fold (song_step c) msgs p))) k = Some m \<longrightarrow>
      m \<in> set msgs \<and> payload_song c m = k \<or> get_pending_song (ch_store (pr_chain p)) k = Some m)"
  using assms
proof (induction msgs arbitrary: p)
  case (Cons x msgs)
  let ?q = "song_step c x p"
  have ok: "song_ok c p x" using Cons.prems by simp
  have q: "rows_ranked c ?q" "\<forall>m\<in>set msgs. song_ok c ?q m"
    using Cons.prems songs.inv_step [OF Cons.prems(1) ok] songs.ok_step [OF Cons.prems(1) ok] by simp_all
  have "get_pending_song (ch_store (pr_chain ?q)) k = Some m \<Longrightarrow>
      m = x \<and> payload_song c m = k \<or> get_pending_song (ch_store (pr_chain p)) k = Some m" for k m
    using Cons.prems(1)
    by (cases rule: song_step_cases [OF ok Cons.prems(1)])
      (auto simp: rows_ranked_def get_put_pending_song split: if_splits)
  with Cons.IH [OF q] show ?case by auto
qed simp

lemma stored_rank_row:
  assumes "rows_ranked c p"
  shows "get_pending_song (ch_store (pr_chain p)) k = None \<longleftrightarrow> stored_rank c p k = None"
    and "get_pending_song (ch_store (pr_chain p)) k = Some m \<Longrightarrow> stored_rank c p k = Some r \<Longrightarrow>
      payload_rank c m = Some r"
  using assms by (cases "get_pending_song (ch_store (pr_chain p)) k"; fastforce simp: rows_ranked_def stored_rank_def)+

lemma payload_rank_hash: "payload_rank c m = Some r \<Longrightarrow> snd r = sha256 c (str_bytes m)"
  by (auto simp: payload_rank_def bind_eq_Some_conv)

lemma same_rank_same_row:
  assumes "rows_ranked c p" and "rows_ranked c q" and "stored_rank c p = stored_rank c q"
    and "inj_on (\<lambda>m. sha256 c (str_bytes m)) S"
    and "\<And>k m. get_pending_song (ch_store (pr_chain p)) k = Some m \<Longrightarrow> m \<in> S"
    and "\<And>k m. get_pending_song (ch_store (pr_chain q)) k = Some m \<Longrightarrow> m \<in> S"
  shows "get_pending_song (ch_store (pr_chain p)) = get_pending_song (ch_store (pr_chain q))"
proof
  fix k
  show "get_pending_song (ch_store (pr_chain p)) k = get_pending_song (ch_store (pr_chain q)) k"
  proof (cases "stored_rank c p k")
    case None
    then have "stored_rank c q k = None" using assms(3) by simp
    with None show ?thesis using stored_rank_row(1) assms(1,2) by metis
  next
    case (Some r)
    then obtain m n where m: "get_pending_song (ch_store (pr_chain p)) k = Some m"
      and n: "get_pending_song (ch_store (pr_chain q)) k = Some n"
      using stored_rank_row(1) [OF assms(1), of k] stored_rank_row(1) [OF assms(2), of k] assms(3) by auto
    have "payload_rank c m = Some r" using stored_rank_row(2) [OF assms(1) m Some] .
    moreover have "payload_rank c n = Some r" using stored_rank_row(2) [OF assms(2) n] Some assms(3) by simp
    ultimately have "sha256 c (str_bytes m) = sha256 c (str_bytes n)" using payload_rank_hash by metis
    then have "m = n" using inj_onD [OF assms(4)] assms(5) [OF m] assms(6) [OF n] by blast
    with m n show ?thesis by simp
  qed
qed

definition registers :: "crypto \<Rightarrow> string \<Rightarrow> hash256 \<Rightarrow> bool" where
  "registers c m h \<longleftrightarrow> (\<exists>r. parse_fpsubmit c m = Some r \<and> pg_content_hash r = h)"

text \<open>What a song's row is after a list of registrations.\<close>

lemma song_row_least:
  fixes c msgs p h
  defines "row \<equiv> get_pending_song (ch_store (pr_chain (fold (song_step c) msgs p))) h"
  assumes inv: "rows_ranked c p" and ok: "\<forall>m\<in>set msgs. song_ok c p m"
  shows "(\<forall>m\<in>set msgs. \<not> registers c m h) \<Longrightarrow> row = get_pending_song (ch_store (pr_chain p)) h"
    and "m \<in> set msgs \<Longrightarrow> registers c m h \<Longrightarrow> \<exists>k. row = Some k \<and>
      (k \<in> set msgs \<and> registers c k h \<or> get_pending_song (ch_store (pr_chain p)) h = Some k) \<and>
      (\<forall>x. x \<in> set msgs \<and> registers c x h \<or> get_pending_song (ch_store (pr_chain p)) h = Some x \<longrightarrow>
        the (payload_rank c k) \<le> the (payload_rank c x))"
proof -
  let ?q = "fold (song_step c) msgs p"
  let ?ranks = "(\<lambda>m. the (payload_rank c m)) ` {x \<in> set msgs. payload_song c x = h}"
  have reg: "registers c x h \<longleftrightarrow> payload_song c x = h" if "x \<in> set msgs" for x
    using ok that by (auto simp: registers_def payload_song_def song_ok_def split: option.splits)
  note from_msgs = song_rows_from [OF inv ok]
  have q: "rows_ranked c ?q" using from_msgs by blast
  have rank: "stored_rank c ?q h = (if ?ranks = {} then stored_rank c p h
      else Some (Min (?ranks \<union> set_option (stored_rank c p h))))"
    using songs.look_fold_Min [OF inv ok, of h] by (simp only: Let_def)
  show "row = get_pending_song (ch_store (pr_chain p)) h" if "\<forall>m\<in>set msgs. \<not> registers c m h"
  proof (cases row)
    case None
    then have "stored_rank c ?q h = None" using stored_rank_row(1) [OF q] by (simp add: row_def)
    moreover have "?ranks = {}" using that reg by auto
    ultimately have "stored_rank c p h = None" using rank by simp
    then show ?thesis using None stored_rank_row(1) [OF inv, of h] by auto
  next
    case (Some k)
    then show ?thesis using from_msgs that reg unfolding row_def by metis
  qed
  show "\<exists>k. row = Some k \<and>
      (k \<in> set msgs \<and> registers c k h \<or> get_pending_song (ch_store (pr_chain p)) h = Some k) \<and>
      (\<forall>x. x \<in> set msgs \<and> registers c x h \<or> get_pending_song (ch_store (pr_chain p)) h = Some x \<longrightarrow>
        the (payload_rank c k) \<le> the (payload_rank c x))" if "m \<in> set msgs" "registers c m h"
  proof -
    have "?ranks \<noteq> {}" using that reg by auto
    then have min: "stored_rank c ?q h = Some (Min (?ranks \<union> set_option (stored_rank c p h)))"
      unfolding rank by (rule if_not_P)
    then obtain k where k: "row = Some k" using stored_rank_row(1) [OF q, of h] by (auto simp: row_def)
    then have least: "the (payload_rank c k) = Min (?ranks \<union> set_option (stored_rank c p h))"
      using min by (simp add: row_def stored_rank_def)
    have "the (payload_rank c x) \<in> ?ranks \<union> set_option (stored_rank c p h)"
      if x: "x \<in> set msgs \<and> registers c x h \<or> get_pending_song (ch_store (pr_chain p)) h = Some x" for x
    proof (cases "x \<in> set msgs \<and> registers c x h")
      case True
      then show ?thesis using reg by auto
    next
      case False
      with x have stored: "get_pending_song (ch_store (pr_chain p)) h = Some x" by blast
      then obtain t where "payload_rank c x = Some t" using inv unfolding rows_ranked_def by blast
      with stored show ?thesis by (simp add: stored_rank_def)
    qed
    then have "\<forall>x. x \<in> set msgs \<and> registers c x h \<or> get_pending_song (ch_store (pr_chain p)) h = Some x \<longrightarrow>
        the (payload_rank c k) \<le> the (payload_rank c x)"
      unfolding least by (intro allI impI Min_le) simp_all
    moreover have "k \<in> set msgs \<and> registers c k h \<or> get_pending_song (ch_store (pr_chain p)) h = Some k"
      using from_msgs k reg unfolding row_def by blast
    ultimately show ?thesis using k by blast
  qed
qed

text \<open>C19. The song mempool is a minimum too. When a node ingests registrations, none of a song already
  on the chain, it keeps for every song one of them, or the one it had: the one with the least
  time and payload hash. A song that none of them registers keeps its row. So nodes that received
  the same registrations keep the same one of each song, in whatever order and however often they
  arrived (as long as no two of the texts have the same hash).\<close>

theorem song_mempool_converges:
  assumes "node_reachable c rows p" and "rows_ranked c p"
    and "\<forall>m\<in>set msgs. \<exists>r. parse_fpsubmit c m = Some r \<and> \<not> pg_on_chain c (pr_chain p) r"
    and "set msgs = set msgs'"
    and "inj_on (\<lambda>m. sha256 c (str_bytes m))
      (set msgs \<union> {m. \<exists>k. get_pending_song (ch_store (pr_chain p)) k = Some m})"
  shows "get_pending_song (ch_store (pr_chain (fold (\<lambda>m q. snd (ingest_fpsubmit c m q)) msgs p))) =
      get_pending_song (ch_store (pr_chain (fold (\<lambda>m q. snd (ingest_fpsubmit c m q)) msgs' p))) \<and>
    (\<forall>h. (\<forall>m\<in>set msgs. \<not> registers c m h) \<longrightarrow>
      get_pending_song (ch_store (pr_chain (fold (\<lambda>m q. snd (ingest_fpsubmit c m q)) msgs p))) h =
        get_pending_song (ch_store (pr_chain p)) h) \<and>
    (\<forall>h m. m \<in> set msgs \<and> registers c m h \<longrightarrow>
      (\<exists>k. get_pending_song (ch_store (pr_chain (fold (\<lambda>m q. snd (ingest_fpsubmit c m q)) msgs p))) h = Some k \<and>
        (k \<in> set msgs \<and> registers c k h \<or> get_pending_song (ch_store (pr_chain p)) h = Some k) \<and>
        (\<forall>x. x \<in> set msgs \<and> registers c x h \<or> get_pending_song (ch_store (pr_chain p)) h = Some x \<longrightarrow>
          the (payload_rank c k) \<le> the (payload_rank c x))))"
proof -
  have step: "(\<lambda>m q. snd (ingest_fpsubmit c m q)) = song_step c" by (simp add: fun_eq_iff song_step_def)
  have ok: "\<forall>m\<in>set msgs. song_ok c p m" using assms(3) by (auto simp: song_ok_def split: option.splits)
  then have ok': "\<forall>m\<in>set msgs'. song_ok c p m" using assms(4) by simp
  let ?p = "fold (song_step c) msgs p" and ?q = "fold (song_step c) msgs' p"
  have rank: "stored_rank c ?p = stored_rank c ?q" by (rule songs.converges [OF assms(2) ok assms(4)])
  note P = song_rows_from [OF assms(2) ok] and Q = song_rows_from [OF assms(2) ok']
  have "get_pending_song (ch_store (pr_chain ?p)) = get_pending_song (ch_store (pr_chain ?q))"
    by (rule same_rank_same_row [OF _ _ rank assms(5)]) (use P Q assms(4) in blast)+
  then show ?thesis unfolding step using song_row_least [OF assms(2) ok] by blast
qed

lemma empty_node_songs: "get_pending_song (ch_store (pr_chain empty_node)) k = None"
  by (simp add: get_pending_song_def empty_node_get key_class_def)

theorem song_mempool_converges_witness:
  "get_pending_song (ch_store (pr_chain (fold (\<lambda>m q. snd (ingest_fpsubmit json_crypto m q)) [''b'', ''a''] empty_node))) 0 =
     Some ''a'' \<and>
   get_pending_song (ch_store (pr_chain (fold (\<lambda>m q. snd (ingest_fpsubmit json_crypto m q)) [''a'', ''b'', ''a''] empty_node))) 0 =
     Some ''a''"
proof -
  have ranked: "rows_ranked json_crypto empty_node"
    using reachable_kv_ok node_invariant [OF empty_node_reachable]
    by (auto simp: rows_ranked_def empty_node_songs)
  have "db_get (ch_stage (pr_chain empty_node)) k = None" if "key_class k \<noteq> Some ''sr:''" for k
    using empty_node_get [OF that] by (simp add: db_get_def ch_store_def)
  then have new: "\<not> pg_on_chain json_crypto (pr_chain empty_node) r" for r
    by (simp add: pg_on_chain_def song_on_chain_def get_content_height_def get_u32_def get_fingerprint_def
        key_class_def Fingerprint_from_compressed_def json_crypto_def)
  have differ: "(mk_arr (str_bytes ''a'') :: hash256) \<noteq> mk_arr (str_bytes ''b'')"
    by (simp add: arr_eq_iff arr_bytes_mk_arr_take str_bytes_def byte_of_char_def)
  have inj: "inj_on (\<lambda>m. sha256 json_crypto (str_bytes m)) (set [''b'', ''a''] \<union>
      {m. \<exists>k. get_pending_song (ch_store (pr_chain empty_node)) k = Some m})"
    using differ by (simp add: empty_node_songs json_crypto_def toy_crypto_def)
  have reg: "registers json_crypto m 0" for m
    using sample_envelope_parses by (auto simp: registers_def)
  have rank: "payload_rank json_crypto m = Some (1000, mk_arr (str_bytes m))" for m
    by (simp add: payload_rank_def json_crypto_def sample_envelope_def json_value_u64_def json_object_def)
  have less: "\<not> (mk_arr (str_bytes ''b'') :: hash256) \<le> mk_arr (str_bytes ''a'')"
    by (simp add: less_eq_arr_def arr_bytes_mk_arr_take str_bytes_def byte_of_char_def)
  have ok: "\<forall>m\<in>set [''b'', ''a'']. \<exists>r. parse_fpsubmit json_crypto m = Some r \<and> \<not> pg_on_chain json_crypto (pr_chain empty_node) r"
    using sample_envelope_parses new by blast
  have "set [''b'', ''a''] = set [''a'', ''b'', ''a'']" by auto
  note both = song_mempool_converges [OF empty_node_reachable ranked ok this inj]
  obtain k where k: "get_pending_song (ch_store (pr_chain
      (fold (\<lambda>m q. snd (ingest_fpsubmit json_crypto m q)) [''b'', ''a''] empty_node))) 0 = Some k"
    "k = ''b'' \<or> k = ''a''" "the (payload_rank json_crypto k) \<le> the (payload_rank json_crypto ''a'')"
    using both [THEN conjunct2, THEN conjunct2, rule_format, of "''b''" 0] reg
    by (auto simp: empty_node_songs simp del: fold.simps)
  then have "k = ''a''" using less rank by auto
  with k(1) both show ?thesis by (auto simp del: fold.simps)
qed

section \<open>Hash and address forms\<close>

text \<open>C39. \<open>keccak256\<close>, with its in-place permutation and its tables of rotations and lane moves, is
  the sponge of FIPS 202: the message with the padding \<open>0x01 .. 0x80\<close> is absorbed in blocks of
  136 bytes, each followed by the 24 rounds of theta, rho, pi, chi and iota as the standard
  defines them on the coordinates \<open>(x, y)\<close>, and the first four lanes are the digest.\<close>

theorem keccak256_is_the_standard_sponge:
  "keccak256 data = mk_arr (concat (map store64_le (take 4
     (foldl (\<lambda>s b. lanes_of (fips_f (coords (xor_block b s)))) (replicate 25 0)
       (rate_blocks (data @ pad_tail (length data mod 136)))))))"
  using keccak256_sponge [of data] by (simp add: sponge_def)

text \<open>C40. The text form of an address reads back, with or without its prefix and in lower case too;
  and a text that mixes cases is read only when its capitals are those of the checksum, so a
  mistyped capital is refused.\<close>

theorem checksummed_address_round_trip:
  fixes a :: address
  shows "parse_address_checksummed (to_checksum_hex a) = Some a \<and>
    parse_address_checksummed (drop 2 (to_checksum_hex a)) = Some a \<and>
    parse_address_checksummed (to_hex (arr_bytes a)) = Some a \<and>
    \<not> (parse_address_checksummed s = Some b \<and>
       list_ex is_upper_af (strip_0x s) \<and> list_ex is_lower_af (strip_0x s) \<and>
       strip_0x s \<noteq> drop 2 (to_checksum_hex b))"
proof (intro conjI)
  note body = checksum_body [of a]
  have read: "parse_address_checksummed x = Some a" if "strip_0x x = drop 2 (to_checksum_hex a)" for x
    unfolding parse_address_checksummed_def Let_def that using body by simp
  show "parse_address_checksummed (to_checksum_hex a) = Some a" by (rule read) (rule body(2))
  show "parse_address_checksummed (drop 2 (to_checksum_hex a)) = Some a" by (rule read) (rule body(3))
  have "list_all (\<lambda>ch. is_lower_af ch \<or> is_upper_af ch \<or> is_digit_09 ch) (to_hex (arr_bytes a))"
    "\<not> list_ex is_upper_af (to_hex (arr_bytes a))"
    using to_hex_chars by (auto simp: list_all_iff list_ex_iff)
  then show "parse_address_checksummed (to_hex (arr_bytes a)) = Some a"
    by (simp add: parse_address_checksummed_def strip_0x_def Let_def from_hex_loop_to_hex)
  show "\<not> (parse_address_checksummed s = Some b \<and>
      list_ex is_upper_af (strip_0x s) \<and> list_ex is_lower_af (strip_0x s) \<and>
      strip_0x s \<noteq> drop 2 (to_checksum_hex b))"
    by (auto simp: parse_address_checksummed_def Let_def split: if_splits option.splits)
qed

end
