(* ===== verification/Sync.thy ===== *)
theory Sync
  imports Mempool "HOL-Library.AList"
begin

text \<open>
  \<open>src/bopwire/src/sync/block_propagator.cpp\<close>: how blocks travel between full nodes. The state of
  a \<open>BlockPropagator\<close> is a record with the chain it drives; what it hands to the peer-to-peer
  library (messages, DHT announcements, dials) is appended to \<open>bp_sent\<close>. The library itself, SHA-1
  and the Base64 of OpenSSL are the parameter record \<open>netlib\<close>.

  An \<open>unordered_map\<close> is an association list in its iteration order and an \<open>unordered_set\<close> a list
  without duplicates; the order is not fixed by the language, and theorems hold for every one. The
  steady clock is an argument, in milliseconds. A handler that throws is \<open>None\<close>, beside the state
  it had reached.
\<close>

section \<open>State\<close>

record netlib =
  nl_sha1 :: "bytes \<Rightarrow> bytes"
  nl_b64_encode :: "bytes \<Rightarrow> string"
  nl_b64_decode :: "string \<Rightarrow> bytes"

record node_config =
  cf_node_id :: "hash256"
  cf_sync_seeds :: "string list"
  cf_dht_bootstrap_hash :: string

datatype outgoing = Send string string json | Dht_announce string | Dial string int

record peer_state =
  ps_tip_height :: u32
  ps_tip_weight :: u64
  ps_tip_hash :: hash256
  ps_hello_received :: bool
  ps_is_full_node :: bool
  ps_node_id :: string
  ps_node_hello_at :: int
  ps_known :: "hash256 list"
  ps_in_flight :: "hash256 list"
  ps_in_flight_since :: int

definition peer_new :: peer_state where
  "peer_new = \<lparr>ps_tip_height = 0, ps_tip_weight = 0, ps_tip_hash = 0, ps_hello_received = False,
     ps_is_full_node = False, ps_node_id = [], ps_node_hello_at = 0, ps_known = [],
     ps_in_flight = [], ps_in_flight_since = 0\<rparr>"

record propagator =
  bp_chain :: chain
  bp_client :: bool
  bp_peers :: "(string \<times> peer_state) list"
  bp_pending :: "(hash256 \<times> Block) list"
  bp_pending_announce :: "hash256 list"
  bp_expected :: "hash256 list"
  bp_dht_searched :: "(hash256 \<times> int) list"
  bp_announced :: "hash256 list"
  bp_last_full_announce :: int
  bp_last_hello :: "(string \<times> int) list"
  bp_running :: bool
  bp_sent :: "outgoing list"

definition kMaxInvCount :: nat where "kMaxInvCount = 32"
definition kMaxGetdataInFlight :: nat where "kMaxGetdataInFlight = 16"
definition kGetdataStall :: int where "kGetdataStall = 20000"
definition kDhtSearchMinGap :: int where "kDhtSearchMinGap = 30000"
definition kReannounceMin :: int where "kReannounceMin = 1800000"
definition kHelloCooldown :: int where "kHelloCooldown = 15000"
definition kKnownCap :: nat where "kKnownCap = 8192"
definition kPendingAnnounceCap :: nat where "kPendingAnnounceCap = 4096"

section \<open>What is sent\<close>

definition emit :: "outgoing list \<Rightarrow> propagator \<Rightarrow> propagator" where
  "emit os p = p\<lparr>bp_sent := bp_sent p @ os\<rparr>"

definition send_request :: "string \<Rightarrow> string \<Rightarrow> json \<Rightarrow> propagator \<Rightarrow> propagator" where
  "send_request peer_id type body p =
     (if \<not> bp_client p \<or> peer_id = [] then p else emit [Send peer_id type body] p)"

definition sha1_hex :: "netlib \<Rightarrow> bytes \<Rightarrow> string" where
  "sha1_hex nl data = to_hex (nl_sha1 nl data)"

definition dht_key_for_block :: "netlib \<Rightarrow> hash256 \<Rightarrow> string" where
  "dht_key_for_block nl h = sha1_hex nl (arr_bytes h)"

definition bootstrap_key :: "netlib \<Rightarrow> node_config \<Rightarrow> string" where
  "bootstrap_key nl cfg = (if cf_dht_bootstrap_hash cfg = [] then sha1_hex nl (str_bytes ''bopwire-fullnode-mainnet'')
     else cf_dht_bootstrap_hash cfg)"

definition dht_announce :: "string \<Rightarrow> propagator \<Rightarrow> propagator" where
  "dht_announce key p = (if \<not> bp_client p then p else emit [Dht_announce key] p)"

definition hashes_json :: "string \<Rightarrow> hash256 list \<Rightarrow> json" where
  "hashes_json key hs = JObject [(key, JArray (map (\<lambda>h. JString (hex_hash h)) hs))]"

section \<open>Dialling\<close>

text \<open>\<open>std::stoi\<close>: leading blanks, a sign, digits up to the first other character.\<close>

definition is_blank :: "char \<Rightarrow> bool" where
  "is_blank ch \<longleftrightarrow> (let n = (of_char ch :: nat) in n = 32 \<or> (9 \<le> n \<and> n \<le> 13))"

definition stoi_digits :: "string \<Rightarrow> int option" where
  "stoi_digits s = (let ds = takeWhile is_digit_09 s in
     if ds = [] then None else Some (foldl (\<lambda>n ch. 10 * n + (of_char ch - 48)) 0 ds))"

definition stoi :: "string \<Rightarrow> int option" where
  "stoi s = (let s = dropWhile is_blank s;
       v = (case s of ch # r \<Rightarrow> if ch = CHR ''-'' then map_option uminus (stoi_digits r)
              else if ch = CHR ''+'' then stoi_digits r else stoi_digits s
            | [] \<Rightarrow> None)
     in case v of None \<Rightarrow> None | Some n \<Rightarrow> if - (2 ^ 31) \<le> n \<and> n < 2 ^ 31 then Some n else None)"

text \<open>Host and port at the last colon; \<open>None\<close> for an address that is not dialled.\<close>

fun split_last :: "char \<Rightarrow> string \<Rightarrow> (string \<times> string) option" where
  "split_last x [] = None"
| "split_last x (y # ys) = (case split_last x ys of Some (a, b) \<Rightarrow> Some (y # a, b)
     | None \<Rightarrow> if x = y then Some ([], ys) else None)"

definition dial_target :: "string \<Rightarrow> (string \<times> int) option" where
  "dial_target addr = (case split_last (CHR '':'') addr of None \<Rightarrow> None
     | Some (host, rest) \<Rightarrow> (case stoi rest of None \<Rightarrow> None
         | Some port \<Rightarrow> if 0 < port \<and> port < 65536 then Some (host, port) else None))"

definition dial_all :: "string list \<Rightarrow> propagator \<Rightarrow> propagator" where
  "dial_all addrs p = (if \<not> bp_client p then p
     else emit (map (\<lambda>(host, port). Dial host port) (List.map_filter dial_target addrs)) p)"

definition on_peers_found :: "string list \<Rightarrow> propagator \<Rightarrow> propagator" where
  "on_peers_found addrs p = dial_all addrs p"

definition seed_dial_pass :: "node_config \<Rightarrow> propagator \<Rightarrow> propagator" where
  "seed_dial_pass cfg p = dial_all (cf_sync_seeds cfg) p"

section \<open>Announcing\<close>

definition full_node_peer_count :: "propagator \<Rightarrow> nat" where
  "full_node_peer_count p = length (filter (\<lambda>(_, ps). ps_is_full_node ps) (bp_peers p))"

definition do_announce :: "netlib \<Rightarrow> hash256 \<Rightarrow> propagator \<Rightarrow> propagator" where
  "do_announce nl h p =
     (let p = (if bp_client p then
            let targets = map fst (filter (\<lambda>(_, ps). h \<notin> set (ps_known ps)) (bp_peers p));
                p = p\<lparr>bp_peers := map (\<lambda>(pid, ps). (pid, ps\<lparr>ps_known := List.insert h (ps_known ps)\<rparr>)) (bp_peers p)\<rparr>
            in fold (\<lambda>pid. send_request pid ''block.inv'' (hashes_json ''hashes'' [h])) targets p
          else p);
          p = p\<lparr>bp_announced := List.insert h (bp_announced p)\<rparr>
      in dht_announce (dht_key_for_block nl h) p)"

definition flush_pending_announce :: "netlib \<Rightarrow> propagator \<Rightarrow> propagator" where
  "flush_pending_announce nl p =
     fold (do_announce nl) (bp_pending_announce p) (p\<lparr>bp_pending_announce := []\<rparr>)"

definition announce_new_block :: "netlib \<Rightarrow> hash256 \<Rightarrow> propagator \<Rightarrow> propagator" where
  "announce_new_block nl h p =
     (if full_node_peer_count p = 0 then
        (if length (bp_pending_announce p) < kPendingAnnounceCap
         then p\<lparr>bp_pending_announce := bp_pending_announce p @ [h]\<rparr> else p)
      else do_announce nl h (flush_pending_announce nl p))"

section \<open>Asking for blocks\<close>

text \<open>The first loop of \<open>schedule_getdata\<close>: a peer that has the hash in flight ends it, and so does
  the first that knows the hash and has room.\<close>

datatype choice = Already_in_flight | Chosen string | No_choice

fun choose_known :: "hash256 \<Rightarrow> (string \<times> peer_state) list \<Rightarrow> choice" where
  "choose_known h [] = No_choice"
| "choose_known h ((pid, ps) # peers) =
     (if h \<in> set (ps_in_flight ps) then Already_in_flight
      else if h \<in> set (ps_known ps) \<and> length (ps_in_flight ps) < kMaxGetdataInFlight then Chosen pid
      else choose_known h peers)"

fun choose_slack :: "string \<Rightarrow> nat \<Rightarrow> (string \<times> peer_state) list \<Rightarrow> string" where
  "choose_slack best load [] = best"
| "choose_slack best load ((pid, ps) # peers) =
     (if length (ps_in_flight ps) < load then choose_slack pid (length (ps_in_flight ps)) peers
      else choose_slack best load peers)"

definition update_peer :: "string \<Rightarrow> (peer_state \<Rightarrow> peer_state) \<Rightarrow> propagator \<Rightarrow> propagator" where
  "update_peer pid f p = p\<lparr>bp_peers :=
     AList.update pid (f (value_or (map_of (bp_peers p) pid) peer_new)) (bp_peers p)\<rparr>"

definition put_in_flight :: "hash256 \<Rightarrow> int \<Rightarrow> peer_state \<Rightarrow> peer_state" where
  "put_in_flight h now ps =
     ps\<lparr>ps_in_flight := List.insert h (ps_in_flight ps), ps_in_flight_since := now\<rparr>"

definition dht_search :: "netlib \<Rightarrow> int \<Rightarrow> hash256 \<Rightarrow> propagator \<Rightarrow> propagator" where
  "dht_search nl now h p =
     (if (case map_of (bp_dht_searched p) h of None \<Rightarrow> True | Some t \<Rightarrow> kDhtSearchMinGap \<le> now - t)
      then dht_announce (dht_key_for_block nl h)
        (p\<lparr>bp_dht_searched := AList.update h now (bp_dht_searched p)\<rparr>)
      else p)"

definition ask_peer :: "hash256 \<Rightarrow> int \<Rightarrow> propagator \<Rightarrow> string \<times> propagator" where
  "ask_peer h now p =
     (let (send_to, p) = (case choose_known h (bp_peers p) of
            Chosen pid \<Rightarrow> (pid, update_peer pid (put_in_flight h now) p)
          | _ \<Rightarrow> ([], p))
      in if send_to \<noteq> [] then (send_to, p)
         else let best = choose_slack [] kMaxGetdataInFlight (bp_peers p) in
           if best = [] then ([], p) else (best, update_peer best (put_in_flight h now) p))"

definition schedule_getdata :: "netlib \<Rightarrow> int \<Rightarrow> hash256 \<Rightarrow> propagator \<Rightarrow> propagator" where
  "schedule_getdata nl now h p =
     (if get_block_height (ch_stage (bp_chain p)) h \<noteq> None then p
      else if choose_known h (bp_peers p) = Already_in_flight then p
      else
        let (send_to, p) = ask_peer h now p;
            p = (if send_to = [] then p
                 else send_request send_to ''block.getdata'' (hashes_json ''hashes'' [h]) p)
        in dht_search nl now h p)"

definition stalled :: "int \<Rightarrow> peer_state \<Rightarrow> bool" where
  "stalled now ps \<longleftrightarrow> ps_in_flight ps \<noteq> [] \<and> \<not> now - ps_in_flight_since ps < kGetdataStall"

definition stall_pass :: "netlib \<Rightarrow> int \<Rightarrow> propagator \<Rightarrow> propagator" where
  "stall_pass nl now p =
     (let to_retry = concat (map (\<lambda>(_, ps). if stalled now ps then ps_in_flight ps else []) (bp_peers p));
          p = p\<lparr>bp_peers := map (\<lambda>(pid, ps). (pid, if stalled now ps
                 then ps\<lparr>ps_in_flight := [], ps_in_flight_since := 0\<rparr> else ps)) (bp_peers p)\<rparr>
      in fold (schedule_getdata nl now) to_retry p)"

section \<open>The locator\<close>

text \<open>
  Back from the tip one by one, and in steps that double once ten hashes are out. The step is a
  32-bit word and the loop has no other bound, so whether it ends is a theorem.
\<close>

partial_function (option) locator_loop ::
    "stage \<Rightarrow> int \<Rightarrow> u32 \<Rightarrow> hash256 list \<Rightarrow> hash256 list option" where
  "locator_loop s h step out =
     (if h < 0 then Some out
      else
        let out = (case get_block_hash s (word_of_int h) of Some bh \<Rightarrow> out @ [bh] | None \<Rightarrow> out);
            step = (if 10 \<le> length out then step * 2 else step)
        in locator_loop s (h - uint step) step out)"

definition build_locator :: "chain \<Rightarrow> hash256 list option" where
  "build_locator ch =
     (let s = ch_stage ch; tip = ch_tip ch in
      if tip_height tip = 0 \<and> tip_hash tip = 0 then Some []
      else map_option (\<lambda>out. case get_block_hash s 0 of None \<Rightarrow> out
          | Some g \<Rightarrow> if out = [] \<or> last out \<noteq> g then out @ [g] else out)
        (locator_loop s (uint (tip_height tip)) 1 []))"

text \<open>The hashes that follow on this chain; the first argument is the room left in the answer.\<close>

fun hashes_from :: "stage \<Rightarrow> u32 \<Rightarrow> nat \<Rightarrow> u32 \<Rightarrow> hash256 list" where
  "hashes_from s last_h 0 hi = []"
| "hashes_from s last_h (Suc n) hi = (if hi \<le> last_h then
     (case get_block_hash s hi of Some bh \<Rightarrow> bh # hashes_from s last_h n (hi + 1) | None \<Rightarrow> [])
   else [])"

fun fork_of_locator :: "stage \<Rightarrow> hash256 list \<Rightarrow> u32 option" where
  "fork_of_locator s [] = None"
| "fork_of_locator s (h # hs) = (case get_block_height s h of Some n \<Rightarrow> Some n | None \<Rightarrow> fork_of_locator s hs)"

definition hashes_after_locator :: "chain \<Rightarrow> hash256 list \<Rightarrow> hash256 list" where
  "hashes_after_locator ch locator =
     (let s = ch_stage ch; last_h = tip_height (ch_tip ch) in
      case fork_of_locator s locator of
        None \<Rightarrow> hashes_from s last_h kMaxInvCount 1
      | Some fork_height \<Rightarrow> hashes_from s last_h kMaxInvCount (fork_height + 1))"

section \<open>Connecting and disconnecting\<close>

definition tip_members :: "ChainTip \<Rightarrow> (string \<times> json) list" where
  "tip_members t = [(''tip_height'', JNumber (uint (tip_height t))), (''tip_hash'', JString (hex_hash (tip_hash t))),
     (''timestamp_ms'', JNumber (uint (tip_timestamp_ms t))), (''tip_weight'', JNumber (uint (tip_weight t)))]"

definition on_peer_connected :: "node_config \<Rightarrow> int \<Rightarrow> string \<Rightarrow> propagator \<Rightarrow> propagator" where
  "on_peer_connected cfg now pid p =
     (let p = (if map_of (bp_peers p) pid = None then p\<lparr>bp_peers := bp_peers p @ [(pid, peer_new)]\<rparr> else p);
          p = p\<lparr>bp_last_hello := filter (\<lambda>(_, t). \<not> kHelloCooldown < now - t) (bp_last_hello p)\<rparr>
      in if (case map_of (bp_last_hello p) pid of Some t \<Rightarrow> now - t < kHelloCooldown | None \<Rightarrow> False) then p
         else
           let p = p\<lparr>bp_last_hello := AList.update pid now (bp_last_hello p)\<rparr>;
               t = ch_tip (bp_chain p);
               p = send_request pid ''block.hello'' (JObject (tip_members t)) p
           in send_request pid ''block.node_hello'' (JObject
                [(''role'', JString ''full-node''), (''node_id'', JString (hex_hash (cf_node_id cfg))),
                 (''tip_height'', JNumber (uint (tip_height t))), (''tip_hash'', JString (hex_hash (tip_hash t))),
                 (''tip_weight'', JNumber (uint (tip_weight t)))]) p)"

definition on_peer_disconnected :: "netlib \<Rightarrow> int \<Rightarrow> string \<Rightarrow> propagator \<Rightarrow> propagator" where
  "on_peer_disconnected nl now pid p =
     (let orphaned = (case map_of (bp_peers p) pid of Some ps \<Rightarrow> ps_in_flight ps | None \<Rightarrow> []);
          p = p\<lparr>bp_peers := AList.delete pid (bp_peers p), bp_last_hello := AList.delete pid (bp_last_hello p)\<rparr>
      in fold (schedule_getdata nl now) orphaned p)"

section \<open>Blocks that arrive\<close>

definition ingest_block_bytes :: "crypto \<Rightarrow> bytes \<Rightarrow> hash256 \<Rightarrow> propagator \<Rightarrow> bool \<times> propagator" where
  "ingest_block_bytes c data expected_hash p = (case Block_deserialize data of None \<Rightarrow> (False, p)
     | Some block \<Rightarrow>
         if Block_hash c block \<noteq> expected_hash then (False, p)
         else if \<not> Block_validate c block then (False, p)
         else (True, p\<lparr>
           bp_pending := (if map_of (bp_pending p) expected_hash = None
             then (expected_hash, block) # bp_pending p else bp_pending p),
           bp_expected := (if expected_hash \<in> set (bp_expected p) then bp_expected p
             else bp_expected p @ [expected_hash])\<rparr>))"

text \<open>
  The walk from a block that does not extend the tip back to a block of the chain, through the
  buffer: the fork block with its height, and the branch, oldest first.
\<close>

fun walk_back :: "nat \<Rightarrow> stage \<Rightarrow> (hash256 \<times> Block) list \<Rightarrow> hash256 \<Rightarrow> Block list \<Rightarrow>
    (hash256 \<times> u32 \<times> Block list) option" where
  "walk_back 0 s buf want branch = None"
| "walk_back (Suc n) s buf want branch = (case get_block_height s want of
       Some fh \<Rightarrow> Some (want, fh, branch)
     | None \<Rightarrow> (case map_of buf want of None \<Rightarrow> None
         | Some b \<Rightarrow> walk_back n s buf (hd_prev_hash (blk_header b)) (b # branch)))"

definition adopt_branch :: "crypto \<Rightarrow> netlib \<Rightarrow> Block \<Rightarrow> propagator \<Rightarrow> bool \<times> propagator" where
  "adopt_branch c nl blk p =
     (case walk_back 100000 (ch_stage (bp_chain p)) (bp_pending p) (hd_prev_hash (blk_header blk)) [blk] of
        None \<Rightarrow> (False, p)
      | Some (fork_hash, fork_height, branch) \<Rightarrow>
          let (err, ch) = reorg_to_branch c fork_hash fork_height branch (bp_chain p);
              p = p\<lparr>bp_chain := ch\<rparr>
          in if err \<noteq> None then (False, p)
             else (True, announce_new_block nl (tip_hash (ch_tip ch))
               (p\<lparr>bp_pending := filter (\<lambda>(h, _). h \<notin> Block_hash c ` set branch) (bp_pending p)\<rparr>)))"

text \<open>A turn of the loop that drains the expected sequence: \<open>None\<close> when the block in front is missing.\<close>

definition apply_next :: "crypto \<Rightarrow> netlib \<Rightarrow> bool \<Rightarrow> propagator \<Rightarrow> (bool \<times> propagator) option" where
  "apply_next c nl allow_new_chain p = (case bp_expected p of [] \<Rightarrow> None
     | h # rest \<Rightarrow> (case map_of (bp_pending p) h of None \<Rightarrow> None
         | Some blk \<Rightarrow>
             let p = p\<lparr>bp_pending := AList.delete h (bp_pending p), bp_expected := rest\<rparr> in
             Some (if hd_prev_hash (blk_header blk) = tip_hash (ch_tip (bp_chain p)) then
                     let (ok, ch) = connect_block c allow_new_chain blk (bp_chain p);
                         p = p\<lparr>bp_chain := ch\<rparr>
                     in (ok, if ok then announce_new_block nl (Block_hash c blk) p else p)
                   else adopt_branch c nl blk p)))"

lemma announce_keeps:
  "bp_expected (announce_new_block nl h p) = bp_expected p"
  "bp_pending (announce_new_block nl h p) = bp_pending p"
  "bp_chain (announce_new_block nl h p) = bp_chain p"
proof -
  have send: "bp_expected (fold (\<lambda>pid. send_request pid v b) pids p) = bp_expected p \<and>
      bp_pending (fold (\<lambda>pid. send_request pid v b) pids p) = bp_pending p \<and>
      bp_chain (fold (\<lambda>pid. send_request pid v b) pids p) = bp_chain p" for v b pids p
    by (induction pids arbitrary: p) (simp_all add: send_request_def emit_def)
  have one: "bp_expected (do_announce nl h p) = bp_expected p \<and> bp_pending (do_announce nl h p) = bp_pending p \<and>
      bp_chain (do_announce nl h p) = bp_chain p" for h p
    by (simp add: do_announce_def dht_announce_def emit_def send Let_def)
  have "bp_expected (fold (do_announce nl) hs p) = bp_expected p \<and>
      bp_pending (fold (do_announce nl) hs p) = bp_pending p \<and>
      bp_chain (fold (do_announce nl) hs p) = bp_chain p" for hs p
    by (induction hs arbitrary: p) (simp_all add: one)
  then show "bp_expected (announce_new_block nl h p) = bp_expected p"
    "bp_pending (announce_new_block nl h p) = bp_pending p"
    "bp_chain (announce_new_block nl h p) = bp_chain p"
    by (simp_all add: announce_new_block_def flush_pending_announce_def one)
qed

lemma adopt_branch_expected: "bp_expected (snd (adopt_branch c nl blk p)) = bp_expected p"
  by (simp add: adopt_branch_def announce_keeps Let_def case_prod_beta split: option.split)

lemma apply_next_expected:
  assumes "apply_next c nl an p = Some (b, q)"
  shows "bp_expected p = hd (bp_expected p) # bp_expected q"
proof -
  obtain h rest blk where "bp_expected p = h # rest" "map_of (bp_pending p) h = Some blk"
    using assms by (auto simp: apply_next_def split: list.splits option.splits)
  with assms show ?thesis
    by (auto simp: apply_next_def announce_keeps Let_def case_prod_beta split: if_splits)
      (metis adopt_branch_expected snd_conv propagator.select_convs(6) propagator.ext_inject
        propagator.surjective propagator.update_convs(4) propagator.update_convs(6))
qed

function apply_drain :: "crypto \<Rightarrow> netlib \<Rightarrow> bool \<Rightarrow> bool \<Rightarrow> propagator \<Rightarrow> bool \<times> propagator" where
  "apply_drain c nl an did_apply p = (case apply_next c nl an p of None \<Rightarrow> (did_apply, p)
     | Some (applied, p) \<Rightarrow> apply_drain c nl an (did_apply \<or> applied) p)"
  by pat_completeness auto
termination
  by (relation "measure (\<lambda>(c, nl, an, did, p). length (bp_expected p))")
    (auto dest!: apply_next_expected arg_cong [where f = length])

declare apply_drain.simps [simp del]

definition peer_ahead :: "ChainTip \<Rightarrow> u64 \<Rightarrow> u32 \<Rightarrow> bool" where
  "peer_ahead local weight height \<longleftrightarrow>
     tip_weight local < weight \<or> (weight = tip_weight local \<and> tip_height local < height)"

definition locator_json :: "propagator \<Rightarrow> json" where
  "locator_json p = hashes_json ''locator'' (value_or (build_locator (bp_chain p)) [])"

definition ask_followups :: "propagator \<Rightarrow> propagator" where
  "ask_followups p =
     (let followups = map fst (filter (\<lambda>(_, ps). ps_hello_received ps \<and>
            peer_ahead (ch_tip (bp_chain p)) (ps_tip_weight ps) (ps_tip_height ps) \<and> ps_in_flight ps = [])
            (bp_peers p))
      in fold (\<lambda>pid. send_request pid ''block.getblocks'' (locator_json p)) followups p)"

text \<open>A turn of \<open>apply_loop\<close> once it has been woken.\<close>

definition apply_pass :: "crypto \<Rightarrow> netlib \<Rightarrow> bool \<Rightarrow> propagator \<Rightarrow> propagator" where
  "apply_pass c nl an p = (let (did_apply, p) = apply_drain c nl an False p
     in if did_apply \<or> bp_expected p = [] then ask_followups p else p)"

section \<open>Requests of a peer\<close>

definition parse_hashes :: "json list \<Rightarrow> hash256 list" where
  "parse_hashes js = List.map_filter (\<lambda>j. case j of JString str \<Rightarrow> parse_hash256 str | _ \<Rightarrow> None) js"

definition on_hello :: "string \<Rightarrow> json \<Rightarrow> propagator \<Rightarrow> json option \<times> propagator" where
  "on_hello pid body p =
     (let p = update_peer pid id p in
      case json_value_int body ''tip_height'' 0 of None \<Rightarrow> (None, p)
      | Some th \<Rightarrow> let p = update_peer pid (\<lambda>ps. ps\<lparr>ps_tip_height := th\<rparr>) p in
      case json_value_u64 body ''tip_weight'' 0 of None \<Rightarrow> (None, p)
      | Some w \<Rightarrow> let p = update_peer pid (\<lambda>ps. ps\<lparr>ps_tip_weight := w\<rparr>) p in
      case json_value_string body ''tip_hash'' [] of None \<Rightarrow> (None, p)
      | Some hh \<Rightarrow>
          let p = update_peer pid (\<lambda>ps. ps\<lparr>ps_hello_received := True,
                ps_tip_hash := value_or (parse_hash256 hh) (ps_tip_hash ps)\<rparr>) p;
              local = ch_tip (bp_chain p);
              p = (if peer_ahead local w th then send_request pid ''block.getblocks'' (locator_json p) p else p)
          in (Some (JObject (tip_members local)), p))"

definition on_node_hello :: "netlib \<Rightarrow> node_config \<Rightarrow> int \<Rightarrow> string \<Rightarrow> json \<Rightarrow> propagator \<Rightarrow>
    json option \<times> propagator" where
  "on_node_hello nl cfg now pid body p =
     (case json_value_string body ''role'' [] of None \<Rightarrow> (None, p)
      | Some role \<Rightarrow> (case json_value_string body ''node_id'' [] of None \<Rightarrow> (None, p)
      | Some nid \<Rightarrow>
          let became_full_node = (role = ''full-node'' \<and>
                \<not> ps_is_full_node (value_or (map_of (bp_peers p) pid) peer_new));
              p = (if role = ''full-node'' then update_peer pid
                (\<lambda>ps. ps\<lparr>ps_is_full_node := True, ps_node_id := nid, ps_node_hello_at := now\<rparr>) p else p);
              p = (if became_full_node then flush_pending_announce nl p else p)
          in (Some (JObject [(''role'', JString ''full-node''), (''node_id'', JString (hex_hash (cf_node_id cfg))),
                (''accepted'', JBool True)]), p)))"

definition on_getblocks :: "string \<Rightarrow> json \<Rightarrow> propagator \<Rightarrow> json option \<times> propagator" where
  "on_getblocks pid body p =
     (let locator = parse_hashes (value_or (json_member_array body ''locator'') []);
          out = hashes_after_locator (bp_chain p) locator
      in (Some (JObject []),
          if out = [] then p else send_request pid ''block.inv'' (hashes_json ''hashes'' out) p))"

definition on_inv :: "netlib \<Rightarrow> int \<Rightarrow> string \<Rightarrow> json \<Rightarrow> propagator \<Rightarrow> json option \<times> propagator" where
  "on_inv nl now pid body p =
     (case json_member_array body ''hashes'' of None \<Rightarrow> (Some (JObject []), p)
      | Some js \<Rightarrow>
          let news = filter (\<lambda>h. get_block_height (ch_stage (bp_chain p)) h = None) (parse_hashes js);
              p = (if news = [] then p
                else
                  let p = update_peer pid (\<lambda>ps. ps\<lparr>ps_known := fold List.insert news (ps_known ps)\<rparr>) p;
                      p = p\<lparr>bp_expected := fold (\<lambda>h xs. if h \<in> set xs then xs else xs @ [h]) news (bp_expected p)\<rparr>
                  in fold (schedule_getdata nl now) news p)
          in (Some (JObject []), p))"

text \<open>The blocks asked for, as far as they are on the chain and at most 32 of them, in messages of
  their own; the answer lists which.\<close>

fun serve_blocks :: "netlib \<Rightarrow> string \<Rightarrow> nat \<Rightarrow> json list \<Rightarrow> propagator \<Rightarrow>
    json list \<times> json list \<times> propagator" where
  "serve_blocks nl pid served [] p = ([], [], p)"
| "serve_blocks nl pid served (j # js) p = (case j of
       JString h_hex \<Rightarrow>
         (case (if kMaxInvCount \<le> served then None
                else Option.bind (parse_hash256 h_hex) (get_block (ch_stage (bp_chain p)))) of
            None \<Rightarrow> (let (acc, nf, p) = serve_blocks nl pid served js p in (acc, j # nf, p))
          | Some blk \<Rightarrow>
              let data_body = JObject [(''hash'', j), (''bytes_b64'', JString (nl_b64_encode nl (Block_serialize blk)))];
                  (acc, nf, p) = serve_blocks nl pid (served + 1) js
                    (send_request pid ''block.data'' data_body p)
              in (j # acc, nf, p))
     | _ \<Rightarrow> serve_blocks nl pid served js p)"

definition on_getdata :: "netlib \<Rightarrow> string \<Rightarrow> json \<Rightarrow> propagator \<Rightarrow> json option \<times> propagator" where
  "on_getdata nl pid body p =
     (let (acc, nf, p) = serve_blocks nl pid 0 (value_or (json_member_array body ''hashes'') []) p
      in (Some (JObject [(''accepted'', JArray acc), (''notfound'', JArray nf)]), p))"

definition on_data :: "crypto \<Rightarrow> netlib \<Rightarrow> string \<Rightarrow> json \<Rightarrow> propagator \<Rightarrow> json option \<times> propagator" where
  "on_data c nl pid body p =
     (case json_value_string body ''hash'' [] of None \<Rightarrow> (None, p)
      | Some h_hex \<Rightarrow> (case json_value_string body ''bytes_b64'' [] of None \<Rightarrow> (None, p)
      | Some b64 \<Rightarrow> (Some (JObject []),
          case parse_hash256 h_hex of None \<Rightarrow> p
          | Some h \<Rightarrow>
              let data = nl_b64_decode nl b64 in
              if b64 = [] \<or> data = [] then p
              else
                let p = (if map_of (bp_peers p) pid = None then p
                  else update_peer pid (\<lambda>ps. ps\<lparr>ps_in_flight := removeAll h (ps_in_flight ps)\<rparr>) p)
                in snd (ingest_block_bytes c data h p))))"

definition handle_request :: "crypto \<Rightarrow> netlib \<Rightarrow> node_config \<Rightarrow> int \<Rightarrow> string \<Rightarrow> string \<Rightarrow> json \<Rightarrow>
    propagator \<Rightarrow> json option \<times> propagator" where
  "handle_request c nl cfg now pid type body p =
     (if type = ''block.hello'' then on_hello pid body p
      else if type = ''block.node_hello'' then on_node_hello nl cfg now pid body p
      else if type = ''block.getblocks'' then on_getblocks pid body p
      else if type = ''block.inv'' then on_inv nl now pid body p
      else if type = ''block.getdata'' then on_getdata nl pid body p
      else if type = ''block.data'' then on_data c nl pid body p
      else (Some (JObject [(''error'', JString ''unknown_block_verb'')]), p))"

section \<open>The announcing thread, start and stop\<close>

definition announce_height :: "netlib \<Rightarrow> u32 \<Rightarrow> propagator \<Rightarrow> propagator" where
  "announce_height nl h p = (case get_block_hash (ch_stage (bp_chain p)) h of None \<Rightarrow> p
     | Some bh \<Rightarrow> if bh \<in> set (bp_announced p) then p
         else dht_announce (dht_key_for_block nl bh) (p\<lparr>bp_announced := List.insert bh (bp_announced p)\<rparr>))"

definition announce_startup :: "netlib \<Rightarrow> int \<Rightarrow> propagator \<Rightarrow> propagator" where
  "announce_startup nl now p =
     (fold (announce_height nl) (map word_of_nat [0..<unat (tip_height (ch_tip (bp_chain p))) + 1]) p)
       \<lparr>bp_last_full_announce := now\<rparr>"

definition maintain_pass :: "int \<Rightarrow> propagator \<Rightarrow> propagator" where
  "maintain_pass now p = p\<lparr>
     bp_peers := map (\<lambda>(pid, ps). (pid, if kKnownCap < length (ps_known ps) then ps\<lparr>ps_known := []\<rparr> else ps))
       (bp_peers p),
     bp_dht_searched := filter (\<lambda>(_, t). \<not> kDhtSearchMinGap * 4 < now - t) (bp_dht_searched p)\<rparr>"

definition reannounce_pass :: "netlib \<Rightarrow> node_config \<Rightarrow> int \<Rightarrow> propagator \<Rightarrow> propagator" where
  "reannounce_pass nl cfg now p =
     (if now - bp_last_full_announce p < kReannounceMin then p
      else (fold (\<lambda>h. dht_announce (dht_key_for_block nl h)) (bp_announced p)
              (dht_announce (bootstrap_key nl cfg) p))\<lparr>bp_last_full_announce := now\<rparr>)"

definition propagator_new :: "chain \<Rightarrow> propagator" where
  "propagator_new ch = \<lparr>bp_chain = ch, bp_client = False, bp_peers = [], bp_pending = [], bp_pending_announce = [],
     bp_expected = [], bp_dht_searched = [], bp_announced = [], bp_last_full_announce = 0,
     bp_last_hello = [], bp_running = False, bp_sent = []\<rparr>"

definition start_propagator :: "netlib \<Rightarrow> node_config \<Rightarrow> bool \<Rightarrow> propagator \<Rightarrow> propagator" where
  "start_propagator nl cfg has_client p =
     (if bp_running p then p
      else let p = p\<lparr>bp_running := has_client, bp_client := has_client\<rparr> in
        if \<not> has_client then p else dht_announce (bootstrap_key nl cfg) p)"

definition stop_propagator :: "propagator \<Rightarrow> propagator" where
  "stop_propagator p = (if \<not> bp_running p then p else p\<lparr>bp_running := False, bp_client := False\<rparr>)"

section \<open>Runs\<close>

text \<open>
  What can happen to a propagator: its own threads, its peers, and the rest of the node, which
  mints blocks (\<open>Minted\<close>) and announces them. The thread that applies blocks gives up its lock after
  every block: \<open>Apply_turn\<close> is one block, \<open>Apply\<close> an undisturbed pass.
\<close>

datatype event = Start bool | Stop | Connected string | Disconnected string | Request string string json
  | Apply_turn | Apply | Stall | Maintain | Reannounce | Startup | Found "string list" | Seeds
  | Minted Block

fun sync_step :: "crypto \<Rightarrow> netlib \<Rightarrow> node_config \<Rightarrow> bool \<Rightarrow> int \<Rightarrow> event \<Rightarrow> propagator \<Rightarrow> propagator" where
  "sync_step c nl cfg an now (Start b) p = start_propagator nl cfg b p"
| "sync_step c nl cfg an now Stop p = stop_propagator p"
| "sync_step c nl cfg an now (Connected pid) p = on_peer_connected cfg now pid p"
| "sync_step c nl cfg an now (Disconnected pid) p = on_peer_disconnected nl now pid p"
| "sync_step c nl cfg an now (Request pid type body) p = snd (handle_request c nl cfg now pid type body p)"
| "sync_step c nl cfg an now Apply_turn p = (case apply_next c nl an p of None \<Rightarrow> p | Some (_, p) \<Rightarrow> p)"
| "sync_step c nl cfg an now Apply p = apply_pass c nl an p"
| "sync_step c nl cfg an now Stall p = stall_pass nl now p"
| "sync_step c nl cfg an now Maintain p = maintain_pass now p"
| "sync_step c nl cfg an now Reannounce p = reannounce_pass nl cfg now p"
| "sync_step c nl cfg an now Startup p = announce_startup nl now p"
| "sync_step c nl cfg an now (Found addrs) p = on_peers_found addrs p"
| "sync_step c nl cfg an now Seeds p = seed_dial_pass cfg p"
| "sync_step c nl cfg an now (Minted blk) p =
     (let (ok, ch) = connect_block c an blk (bp_chain p); p = p\<lparr>bp_chain := ch\<rparr>
      in if ok then announce_new_block nl (Block_hash c blk) p else p)"

text \<open>Between two events the hash tables may be in any order.\<close>

definition rehashed :: "propagator \<Rightarrow> propagator \<Rightarrow> bool" where
  "rehashed p q \<longleftrightarrow> (\<exists>peers pending. q = p\<lparr>bp_peers := peers, bp_pending := pending\<rparr> \<and>
     set peers = set (bp_peers p) \<and> distinct (map fst peers) \<and>
     set pending = set (bp_pending p) \<and> distinct (map fst pending))"

inductive sync_run :: "crypto \<Rightarrow> netlib \<Rightarrow> node_config \<Rightarrow> bool \<Rightarrow> chain \<Rightarrow> propagator \<Rightarrow> bool"
  for c nl cfg an ch where
  fresh: "sync_run c nl cfg an ch (propagator_new ch)"
| event: "sync_run c nl cfg an ch p \<Longrightarrow> sync_run c nl cfg an ch (sync_step c nl cfg an now e p)"
| rehash: "sync_run c nl cfg an ch p \<Longrightarrow> rehashed p q \<Longrightarrow> sync_run c nl cfg an ch q"

end
