(* ===== verification/Delivery.thy ===== *)
theory Delivery
  imports Mempool Sync
begin

text \<open>
  Deliveries: who is paid for bringing a song to a listener. A broker records a delivery
  (\<open>mint_delivery\<close>), the relay reports it, the listener acknowledges it, and the row the three
  leave names the wallets of the seeder and of the relay, which \<open>session.complete\<close> writes into the
  play proof. \<open>src/bopwire/src/api/rats_api.cpp\<close> has the rows, \<open>src/bopwire/src/api/server.cpp\<close> their
  use. The writer of JSON texts is the parameter \<open>jd\<close>; the random identifier and the clock are
  arguments. A handler that throws answers \<open>None\<close>, beside the state it had reached.
\<close>

unbundle bit_operations_syntax

section \<open>Rows\<close>

record deliveries =
  dv_store :: kv
  dv_wallets :: "string \<Rightarrow> string option"

definition kDeliveryTtlMs :: u64 where "kDeliveryTtlMs = 30 * 60 * 1000"

definition pd_key :: "string \<Rightarrow> string" where "pd_key did = ''pd:'' @ did"
definition dr_key :: "string \<Rightarrow> string" where "dr_key did = ''dr:'' @ did"

definition put_row :: "(json \<Rightarrow> string) \<Rightarrow> string \<Rightarrow> json \<Rightarrow> deliveries \<Rightarrow> deliveries" where
  "put_row jd k row s = s\<lparr>dv_store := kv_put (dv_store s) k (str_bytes (jd row))\<rparr>"

definition del_row :: "string \<Rightarrow> deliveries \<Rightarrow> deliveries" where
  "del_row k s = s\<lparr>dv_store := kv_del (dv_store s) k\<rparr>"

text \<open>A text that does not parse, or is no object, is no row.\<close>

definition parse_row :: "crypto \<Rightarrow> bytes \<Rightarrow> (string \<times> json) list option" where
  "parse_row c raw = Option.bind (json_parse c (bytes_str raw)) json_object"

definition set_member :: "string \<Rightarrow> json \<Rightarrow> (string \<times> json) list \<Rightarrow> (string \<times> json) list" where
  "set_member k v row = AList.update k v row"

definition set_flag :: "32 word \<Rightarrow> (string \<times> json) list \<Rightarrow> (string \<times> json) list option" where
  "set_flag leg row = do {
     flags \<leftarrow> json_value_int (JObject row) ''flags'' 0;
     Some (set_member ''flags'' (JNumber (sint (flags OR leg))) row)
   }"

section \<open>The broker\<close>

definition delivery_id :: "crypto \<Rightarrow> bytes option \<Rightarrow> u64 \<Rightarrow> hash256 \<Rightarrow> string" where
  "delivery_id c random nanos content_hash = to_hex (case random of Some did \<Rightarrow> did
     | None \<Rightarrow> take 16 (arr_bytes (sha256 c (arr_bytes content_hash @ le_bytes 8 nanos))))"

definition new_row :: "address \<Rightarrow> u64 \<Rightarrow> hash256 \<Rightarrow> string \<Rightarrow> string list \<Rightarrow> (string \<times> json) list" where
  "new_row broker now content_hash listener_wallet cand =
     [(''ch'', JString (hex_hash content_hash)), (''broker'', JString (hex_addr broker)),
      (''created'', JNumber (uint now)), (''mw'', JString []), (''sd'', JString []),
      (''lw'', JString listener_wallet), (''cand'', JArray (map JString cand)),
      (''relayed'', JNumber 0), (''received'', JNumber 0), (''flags'', JNumber 1)]"

definition mint_delivery :: "crypto \<Rightarrow> (json \<Rightarrow> string) \<Rightarrow> address \<Rightarrow> bytes option \<Rightarrow> u64 \<Rightarrow> u64 \<Rightarrow> hash256 \<Rightarrow>
    string \<Rightarrow> string list \<Rightarrow> deliveries \<Rightarrow> string \<times> deliveries" where
  "mint_delivery c jd broker random nanos now content_hash listener_peer candidates s =
     (let did = delivery_id c random nanos content_hash;
          listener_wallet = value_or (dv_wallets s listener_peer) [];
          cand = List.map_filter (dv_wallets s) candidates
      in (did, put_row jd (pd_key did) (JObject (new_row broker now content_hash listener_wallet cand)) s))"

section \<open>Two signed legs make a resolution\<close>

definition try_corroborate :: "crypto \<Rightarrow> (json \<Rightarrow> string) \<Rightarrow> string \<Rightarrow> deliveries \<Rightarrow> deliveries option" where
  "try_corroborate c jd did s = (case Option.bind (kv_get (dv_store s) (pd_key did)) (parse_row c) of
       None \<Rightarrow> Some s
     | Some row \<Rightarrow> do {
         flags \<leftarrow> json_value_int (JObject row) ''flags'' 0;
         if flags AND 7 \<noteq> 7 then Some s else do {
           ch \<leftarrow> json_value_string (JObject row) ''ch'' [];
           lw \<leftarrow> json_value_string (JObject row) ''lw'' [];
           sd \<leftarrow> json_value_string (JObject row) ''sd'' [];
           mw \<leftarrow> json_value_string (JObject row) ''mw'' [];
           mpk \<leftarrow> json_value_string (JObject row) ''mpk'' [];
           created \<leftarrow> json_value_u64 (JObject row) ''created'' 0;
           Some (del_row (pd_key did) (put_row jd (dr_key did) (JObject
             [(''ch'', JString ch), (''lw'', JString lw), (''sd'', JString sd), (''mw'', JString mw),
              (''mpk'', JString mpk), (''created'', JNumber (uint created))]) s))
         }
       })"

definition verify_data :: "crypto \<Rightarrow> bytes \<Rightarrow> sig64 \<Rightarrow> pubkey33 \<Rightarrow> bool" where
  "verify_data c m sig pub = verify_ecdsa c (sha256 c m) sig pub"

definition report_message :: "bool \<Rightarrow> bytes \<Rightarrow> u64 \<Rightarrow> address \<Rightarrow> u64 \<Rightarrow> string \<Rightarrow> bytes" where
  "report_message v2 did bytes_relayed mini_addr seeder_bytes seeder_pid =
     str_bytes (if v2 then ''relay.report2'' else ''relay.report'') @ did @ le_bytes 8 bytes_relayed @
     arr_bytes mini_addr @ (if v2 then le_bytes 8 seeder_bytes @ str_bytes seeder_pid else [])"

definition receipt_message :: "bytes \<Rightarrow> bytes \<Rightarrow> u64 \<Rightarrow> bytes" where
  "receipt_message did ch bytes_received = str_bytes ''relay.receipt'' @ did @ ch @ le_bytes 8 bytes_received"

definition pubkey_of_hex :: "string \<Rightarrow> pubkey33 option" where
  "pubkey_of_hex h = (let b = from_hex h in if length b = 33 then Some (mk_arr b) else None)"

definition sig_of_hex :: "string \<Rightarrow> sig64 option" where
  "sig_of_hex h = (let b = from_hex h in if length b = 64 then Some (mk_arr b) else None)"

definition wallet_of_hex :: "string \<Rightarrow> address option" where
  "wallet_of_hex h = (case parse_address_checksummed h of Some a \<Rightarrow> Some a
     | None \<Rightarrow> let b = from_hex h in if length b = 20 then Some (mk_arr b) else None)"

record relay_report =
  rl_did :: string
  rl_bytes :: u64
  rl_wallet :: string
  rl_pubkey :: string
  rl_sig :: string
  rl_sig2 :: string
  rl_seeder :: string
  rl_seeder_bytes :: u64

definition read_report :: "json \<Rightarrow> relay_report option" where
  "read_report body = do {
     did \<leftarrow> json_value_string body ''delivery_id'' [];
     n \<leftarrow> json_value_u64 body ''bytes_relayed'' 0;
     mw \<leftarrow> json_value_string body ''mini_wallet'' [];
     pk \<leftarrow> json_value_string body ''mini_pubkey'' [];
     sig \<leftarrow> json_value_string body ''sig'' [];
     sig2 \<leftarrow> json_value_string body ''sig2'' [];
     pid \<leftarrow> json_value_string body ''seeder_peer_id'' [];
     sb \<leftarrow> json_value_u64 body ''seeder_bytes'' 0;
     Some \<lparr>rl_did = did, rl_bytes = n, rl_wallet = mw, rl_pubkey = pk, rl_sig = sig, rl_sig2 = sig2,
       rl_seeder = pid, rl_seeder_bytes = sb\<rparr>
   }"

text \<open>Whether the seeder is attested, and whether the report is signed at all.\<close>

definition report_signed :: "crypto \<Rightarrow> relay_report \<Rightarrow> bytes \<Rightarrow> address \<Rightarrow> sig64 \<Rightarrow> pubkey33 \<Rightarrow> bool \<times> bool" where
  "report_signed c r did mini_addr sig pub =
     (let m2 = report_message True did (rl_bytes r) mini_addr (rl_seeder_bytes r) (rl_seeder r);
          m1 = report_message False did (rl_bytes r) mini_addr (rl_seeder_bytes r) (rl_seeder r);
          attested = rl_seeder r \<noteq> [] \<and>
            ((case sig_of_hex (rl_sig2 r) of Some s2 \<Rightarrow> verify_data c m2 s2 pub | None \<Rightarrow> False) \<or>
             verify_data c m2 sig pub)
      in (attested, attested \<or> verify_data c m1 sig pub))"

text \<open>Who may be named as seeder: a candidate of the broker's, other than the listener.\<close>

definition name_seeder :: "deliveries \<Rightarrow> string \<Rightarrow> (string \<times> json) list \<Rightarrow> (string \<times> json) list option" where
  "name_seeder s seeder_pid row =
     (let seeder_wallet = value_or (dv_wallets s seeder_pid) [];
          in_cand = seeder_wallet \<noteq> [] \<and>
            JString seeder_wallet \<in> set (value_or (json_member_array (JObject row) ''cand'') [])
      in do {
        lw \<leftarrow> json_value_string (JObject row) ''lw'' [];
        Some (if \<not> in_cand then row
          else if lw \<noteq> [] \<and> lw = seeder_wallet then row
          else set_member ''sd'' (JString seeder_wallet) row)
      })"

definition after_put :: "crypto \<Rightarrow> (json \<Rightarrow> string) \<Rightarrow> string \<Rightarrow> deliveries \<Rightarrow> bool option \<times> deliveries" where
  "after_put c jd did s = (case try_corroborate c jd did s of None \<Rightarrow> (None, s) | Some s \<Rightarrow> (Some True, s))"

definition report_row :: "deliveries \<Rightarrow> relay_report \<Rightarrow> bool \<Rightarrow> address \<Rightarrow> pubkey33 \<Rightarrow> (string \<times> json) list \<Rightarrow>
    (string \<times> json) list option" where
  "report_row s r attested mini_addr pub row =
     (let row = set_member ''mw'' (JString (hex_addr mini_addr)) row;
          row = set_member ''mpk'' (JString (to_hex (arr_bytes pub))) row;
          row = set_member ''relayed'' (JNumber (uint (rl_bytes r))) row
      in Option.bind (set_flag 2 row) (\<lambda>row.
        if attested \<and> 0 < rl_seeder_bytes r then name_seeder s (rl_seeder r) row else Some row))"

definition handle_relay_report :: "crypto \<Rightarrow> (json \<Rightarrow> string) \<Rightarrow> json \<Rightarrow> deliveries \<Rightarrow> bool option \<times> deliveries" where
  "handle_relay_report c jd body s = (case read_report body of None \<Rightarrow> (None, s)
     | Some r \<Rightarrow>
       if length (rl_did r) \<noteq> 32 then (Some False, s)
       else (case kv_get (dv_store s) (pd_key (rl_did r)) of None \<Rightarrow> (Some False, s)
     | Some raw \<Rightarrow> (case pubkey_of_hex (rl_pubkey r) of None \<Rightarrow> (Some False, s)
     | Some pub \<Rightarrow> (case wallet_of_hex (rl_wallet r) of None \<Rightarrow> (Some False, s)
     | Some mini_addr \<Rightarrow>
       if address_from_pubkey c pub \<noteq> mini_addr then (Some False, s)
       else (case sig_of_hex (rl_sig r) of None \<Rightarrow> (Some False, s)
     | Some sig \<Rightarrow>
       let did = from_hex (rl_did r); (attested, ok) = report_signed c r did mini_addr sig pub in
       if length did \<noteq> 16 \<or> \<not> ok then (Some False, s)
       else (case parse_row c raw of None \<Rightarrow> (Some False, s)
     | Some row \<Rightarrow> (case report_row s r attested mini_addr pub row of None \<Rightarrow> (None, s)
     | Some row \<Rightarrow> after_put c jd (rl_did r) (put_row jd (pd_key (rl_did r)) (JObject row) s))))))))"

record relay_receipt =
  rc_did :: string
  rc_ch :: string
  rc_bytes :: u64
  rc_player :: string
  rc_pubkey :: string
  rc_sig :: string

definition read_receipt :: "json \<Rightarrow> relay_receipt option" where
  "read_receipt body = do {
     did \<leftarrow> json_value_string body ''delivery_id'' [];
     ch \<leftarrow> json_value_string body ''content_hash'' [];
     n \<leftarrow> json_value_u64 body ''bytes_received'' 0;
     pa \<leftarrow> json_value_string body ''player_address'' [];
     pk \<leftarrow> json_value_string body ''player_pubkey'' [];
     sig \<leftarrow> json_value_string body ''sig'' [];
     Some \<lparr>rc_did = did, rc_ch = ch, rc_bytes = n, rc_player = pa, rc_pubkey = pk, rc_sig = sig\<rparr>
   }"

definition receipt_signed :: "crypto \<Rightarrow> relay_receipt \<Rightarrow> bool" where
  "receipt_signed c r \<longleftrightarrow> (case pubkey_of_hex (rc_pubkey r) of None \<Rightarrow> False
     | Some pub \<Rightarrow> (case parse_address_checksummed (rc_player r) of None \<Rightarrow> False
     | Some player \<Rightarrow> (case sig_of_hex (rc_sig r) of None \<Rightarrow> False
     | Some sig \<Rightarrow>
         let did = from_hex (rc_did r); ch = from_hex (rc_ch r) in
         address_from_pubkey c pub = player \<and> length did = 16 \<and> length ch = 32 \<and>
         verify_data c (receipt_message did ch (rc_bytes r)) sig pub)))"

definition handle_relay_receipt :: "crypto \<Rightarrow> (json \<Rightarrow> string) \<Rightarrow> json \<Rightarrow> deliveries \<Rightarrow> bool option \<times> deliveries" where
  "handle_relay_receipt c jd body s = (case read_receipt body of None \<Rightarrow> (None, s)
     | Some r \<Rightarrow>
       if length (rc_did r) \<noteq> 32 \<or> length (rc_ch r) \<noteq> 64 then (Some False, s)
       else (case Option.bind (kv_get (dv_store s) (pd_key (rc_did r))) (parse_row c) of None \<Rightarrow> (Some False, s)
     | Some row \<Rightarrow> (case json_value_string (JObject row) ''ch'' [] of None \<Rightarrow> (None, s)
     | Some ch \<Rightarrow>
       if ch \<noteq> rc_ch r \<or> \<not> receipt_signed c r then (Some False, s)
       else (case set_flag 4 (set_member ''received'' (JNumber (uint (rc_bytes r))) row) of None \<Rightarrow> (None, s)
         | Some row \<Rightarrow> after_put c jd (rc_did r) (put_row jd (pd_key (rc_did r)) (JObject row) s)))))"

section \<open>Rows that age\<close>

definition row_created :: "crypto \<Rightarrow> bytes \<Rightarrow> u64 option" where
  "row_created c raw = (case parse_row c raw of None \<Rightarrow> Some 0
     | Some row \<Rightarrow> json_value_u64 (JObject row) ''created'' 0)"

definition past_ttl :: "u64 \<Rightarrow> u64 \<Rightarrow> bool" where
  "past_ttl now created \<longleftrightarrow> created < now \<and> kDeliveryTtlMs \<le> now - created"

fun dead_rows :: "crypto \<Rightarrow> u64 \<Rightarrow> kv \<Rightarrow> string list option" where
  "dead_rows c now [] = Some []"
| "dead_rows c now ((k, raw) # rows) = do {
     created \<leftarrow> row_created c raw;
     ks \<leftarrow> dead_rows c now rows;
     Some (if past_ttl now created then k # ks else ks)
   }"

fun reap_keys :: "crypto \<Rightarrow> u64 \<Rightarrow> string list \<Rightarrow> deliveries \<Rightarrow> bool option \<times> deliveries" where
  "reap_keys c now [] s = (Some True, s)"
| "reap_keys c now (k # ks) s = (case kv_get (dv_store s) k of None \<Rightarrow> reap_keys c now ks s
     | Some raw \<Rightarrow> (case row_created c raw of None \<Rightarrow> (None, s)
         | Some created \<Rightarrow> reap_keys c now ks (if past_ttl now created then del_row k s else s)))"

definition reap_stale_deliveries :: "crypto \<Rightarrow> u64 \<Rightarrow> deliveries \<Rightarrow> bool option \<times> deliveries" where
  "reap_stale_deliveries c now s =
     (case dead_rows c now (kv_scan (dv_store s) ''dr:'' @ kv_scan (dv_store s) ''pd:'') of None \<Rightarrow> (None, s)
      | Some ks \<Rightarrow> reap_keys c now ks s)"

section \<open>The lanes of a play\<close>

record play_session =
  ss_delivery_id :: string
  ss_content_hash :: hash256
  ss_player_address :: address

definition relay_of_row :: "crypto \<Rightarrow> (string \<times> json) list \<Rightarrow> (address \<times> pubkey33) option" where
  "relay_of_row c row = do {
     mw \<leftarrow> json_value_string (JObject row) ''mw'' [];
     case parse_address mw of None \<Rightarrow> Some (0, 0)
     | Some a \<Rightarrow> if a = 0 then Some (0, 0) else do {
         mpk \<leftarrow> json_value_string (JObject row) ''mpk'' [];
         Some (a, case pubkey_of_hex mpk of None \<Rightarrow> 0
           | Some pk \<Rightarrow> if address_from_pubkey c pk = a then pk else 0)
       }
   }"

definition seeder_of_row :: "play_session \<Rightarrow> (string \<times> json) list \<Rightarrow> address option" where
  "seeder_of_row sess row = do {
     sd \<leftarrow> json_value_string (JObject row) ''sd'' [];
     Some (case parse_address sd of None \<Rightarrow> 0 | Some a \<Rightarrow> if a = ss_player_address sess then 0 else a)
   }"

definition opened_by :: "play_session \<Rightarrow> string \<Rightarrow> bool" where
  "opened_by sess lw \<longleftrightarrow> lw = [] \<or> parse_address lw = Some (ss_player_address sess)"

definition resolve_delivery_lanes :: "crypto \<Rightarrow> play_session \<Rightarrow> deliveries \<Rightarrow>
    (string + address \<times> address \<times> pubkey33) option" where
  "resolve_delivery_lanes c sess s =
     (let did = ss_delivery_id sess;
          found = (case kv_get (dv_store s) (dr_key did) of Some raw \<Rightarrow> Some raw
            | None \<Rightarrow> kv_get (dv_store s) (pd_key did)) in
      if did = [] then Some (Inl ''no delivery_id bound to session'')
      else case found of None \<Rightarrow> Some (Inl ''no delivery row (not brokered here, or expired)'')
      | Some raw \<Rightarrow> (case parse_row c raw of None \<Rightarrow> Some (Inl ''delivery row malformed'')
      | Some row \<Rightarrow> do {
          ch \<leftarrow> json_value_string (JObject row) ''ch'' [];
          if ch \<noteq> hex_hash (ss_content_hash sess) then Some (Inl ''delivery content_hash != session content_hash'')
          else do {
            lw \<leftarrow> json_value_string (JObject row) ''lw'' [];
            if \<not> opened_by sess lw then Some (Inl ''delivery was opened by a different wallet'')
            else do {
              seeder \<leftarrow> seeder_of_row sess row;
              (mini, mini_pk) \<leftarrow> relay_of_row c row;
              Some (if seeder = 0 \<and> mini = 0
                then Inl ''delivery row carries neither a corroborated seeder nor a relay''
                else Inr (seeder, mini, mini_pk))
            }
          }
        }))"

text \<open>The lanes of the proof that \<open>session.complete\<close> builds, and the end of the delivery.\<close>

definition set_lanes :: "crypto \<Rightarrow> play_session \<Rightarrow> deliveries \<Rightarrow> PlayProof \<Rightarrow> PlayProof option" where
  "set_lanes c sess s pr = map_option (\<lambda>r. case r of
       Inl why \<Rightarrow> pr\<lparr>pp_seeder_address := 0, pp_mini_node_address := 0, pp_version := 3\<rparr>
     | Inr (seeder, mini, mini_pk) \<Rightarrow> pr\<lparr>pp_seeder_address := seeder, pp_mini_node_address := mini, pp_version := 3\<rparr>)
     (resolve_delivery_lanes c sess s)"

definition consume_delivery_row :: "string \<Rightarrow> deliveries \<Rightarrow> deliveries" where
  "consume_delivery_row did s = del_row (pd_key did) (del_row (dr_key did) s)"

section \<open>Runs\<close>

datatype delivery_event = Brokered "bytes option" u64 u64 hash256 string "string list"
  | Reported json | Receipted json | Reaped u64 | Consumed string | Bound string "string option"

fun delivery_step :: "crypto \<Rightarrow> (json \<Rightarrow> string) \<Rightarrow> address \<Rightarrow> delivery_event \<Rightarrow> deliveries \<Rightarrow> deliveries" where
  "delivery_step c jd broker (Brokered random nanos now ch listener peers) s =
     snd (mint_delivery c jd broker random nanos now ch listener peers s)"
| "delivery_step c jd broker (Reported body) s = snd (handle_relay_report c jd body s)"
| "delivery_step c jd broker (Receipted body) s = snd (handle_relay_receipt c jd body s)"
| "delivery_step c jd broker (Reaped now) s = snd (reap_stale_deliveries c now s)"
| "delivery_step c jd broker (Consumed did) s = consume_delivery_row did s"
| "delivery_step c jd broker (Bound peer wallet) s = s\<lparr>dv_wallets := (dv_wallets s)(peer := wallet)\<rparr>"

inductive delivery_run :: "crypto \<Rightarrow> (json \<Rightarrow> string) \<Rightarrow> address \<Rightarrow> deliveries \<Rightarrow> bool" for c jd broker where
  start: "delivery_run c jd broker \<lparr>dv_store = [], dv_wallets = Map.empty\<rparr>"
| event: "delivery_run c jd broker s \<Longrightarrow> delivery_run c jd broker (delivery_step c jd broker e s)"

end
