(* ===== verification/Delivery_Laws.thy ===== *)
theory Delivery_Laws
  imports Delivery
begin

text \<open>
  Where the seeder of a delivery comes from. A run is the list of its events: \<open>candidate_of\<close> says that
  a wallet was bound to a candidate when the delivery was brokered, \<open>attested_seeder\<close> that it was
  bound to the peer a signed report names as seeder when that report came in. Every row of every
  run satisfies \<open>row_from\<close>: its seeder is attested, its candidates were the broker's.
\<close>

unbundle bit_operations_syntax

section \<open>Rows\<close>

text \<open>What a member of a row says.\<close>

definition str_at :: "(string \<times> json) list \<Rightarrow> string \<Rightarrow> string option" where
  "str_at row k = json_value_string (JObject row) k []"

lemma keys_differ [simp]:
  "pd_key did \<noteq> dr_key did'" "dr_key did \<noteq> pd_key did'" "pd_key did = pd_key did' \<longleftrightarrow> did = did'"
  "dr_key did = dr_key did' \<longleftrightarrow> did = did'"
  by (simp_all add: pd_key_def dr_key_def)

lemma parse_row_put:
  "json_parse c (jd (JObject row)) = Some (JObject row) \<Longrightarrow> parse_row c (str_bytes (jd (JObject row))) = Some row"
  by (simp add: parse_row_def json_object_def)

lemma put_row_fields [simp]:
  "dv_store (put_row jd k row s) = kv_put (dv_store s) k (str_bytes (jd row))"
  "dv_store (del_row k s) = kv_del (dv_store s) k"
  "dv_wallets (put_row jd k row s) = dv_wallets s" "dv_wallets (del_row k s) = dv_wallets s"
  by (simp_all add: put_row_def del_row_def)

lemma map_of_set_member: "map_of (set_member k v row) k' = (if k' = k then Some v else map_of row k')"
  by (simp add: set_member_def update_conv')

lemmas row_simps = map_of_set_member str_at_def json_value_string_def json_value_int_def json_value_u64_def json_object_def

lemma parse_hex_addr: "parse_address (hex_addr a) = Some a" "parse_address [] = None"
  by (simp_all add: hex_addr_def parse_address_to_hex) (simp add: parse_address_def from_hex_def)

section \<open>The past of a run\<close>

definition deliveries_after :: "crypto \<Rightarrow> (json \<Rightarrow> string) \<Rightarrow> address \<Rightarrow> delivery_event list \<Rightarrow> deliveries" where
  "deliveries_after c jd broker es = fold (delivery_step c jd broker) es \<lparr>dv_store = [], dv_wallets = Map.empty\<rparr>"

definition candidate_of :: "crypto \<Rightarrow> (json \<Rightarrow> string) \<Rightarrow> address \<Rightarrow> delivery_event list \<Rightarrow> string \<Rightarrow> string \<Rightarrow> bool" where
  "candidate_of c jd broker es did w \<longleftrightarrow> (\<exists>past random nanos now ch listener peers later pid.
     es = past @ Brokered random nanos now ch listener peers # later \<and> delivery_id c random nanos ch = did \<and>
     pid \<in> set peers \<and> dv_wallets (deliveries_after c jd broker past) pid = Some w)"

definition attested_seeder :: "crypto \<Rightarrow> (json \<Rightarrow> string) \<Rightarrow> address \<Rightarrow> delivery_event list \<Rightarrow> string \<Rightarrow> string \<Rightarrow> bool" where
  "attested_seeder c jd broker es did w \<longleftrightarrow> (\<exists>past body later r pub sig.
     es = past @ Reported body # later \<and> read_report body = Some r \<and> rl_did r = did \<and>
     0 < rl_seeder_bytes r \<and> pubkey_of_hex (rl_pubkey r) = Some pub \<and>
     verify_data c (report_message True (from_hex did) (rl_bytes r) (address_from_pubkey c pub)
       (rl_seeder_bytes r) (rl_seeder r)) sig pub \<and>
     dv_wallets (deliveries_after c jd broker past) (rl_seeder r) = Some w \<and> candidate_of c jd broker past did w)"

lemma deliveries_after_snoc:
  "deliveries_after c jd broker (es @ [e]) = delivery_step c jd broker e (deliveries_after c jd broker es)"
  by (simp add: deliveries_after_def)

lemma past_grows:
  "candidate_of c jd broker es did w \<Longrightarrow> candidate_of c jd broker (es @ [e]) did w"
  "attested_seeder c jd broker es did w \<Longrightarrow> attested_seeder c jd broker (es @ [e]) did w"
  unfolding candidate_of_def attested_seeder_def by (metis append.assoc append_Cons)+

lemma candidate_of_earlier:
  assumes "candidate_of c jd broker (es @ [e]) did w" and "\<And>rd n t ch l ps. e \<noteq> Brokered rd n t ch l ps"
  shows "candidate_of c jd broker es did w"
proof -
  obtain past random nanos now ch listener peers later pid where es:
      "es @ [e] = past @ Brokered random nanos now ch listener peers # later" "delivery_id c random nanos ch = did"
      "pid \<in> set peers" "dv_wallets (deliveries_after c jd broker past) pid = Some w"
    using assms(1) unfolding candidate_of_def by blast
  show ?thesis
  proof (cases later rule: rev_cases)
    case Nil
    with es(1) assms(2) show ?thesis by simp
  next
    case (snoc l x)
    with es(1) have "es = past @ Brokered random nanos now ch listener peers # l" by simp
    with es(2-4) show ?thesis unfolding candidate_of_def by blast
  qed
qed

lemma after_run: "delivery_run c jd broker (deliveries_after c jd broker es)"
proof (induction es rule: rev_induct)
  case Nil
  show ?case by (simp add: deliveries_after_def delivery_run.start)
qed (simp add: deliveries_after_snoc delivery_run.event)

section \<open>What a row may name\<close>

definition row_from :: "(string \<Rightarrow> bool) \<Rightarrow> (string \<Rightarrow> bool) \<Rightarrow> (string \<times> json) list \<Rightarrow> bool" where
  "row_from seeder cand row \<longleftrightarrow> (\<forall>sd. str_at row ''sd'' = Some sd \<longrightarrow> sd = [] \<or> seeder sd) \<and>
     (\<forall>w. JString w \<in> set (value_or (json_member_array (JObject row) ''cand'') []) \<longrightarrow> cand w)"

definition rows_from :: "crypto \<Rightarrow> (string \<Rightarrow> string \<Rightarrow> bool) \<Rightarrow> (string \<Rightarrow> string \<Rightarrow> bool) \<Rightarrow> deliveries \<Rightarrow> bool" where
  "rows_from c seeder cand s \<longleftrightarrow> kv_ok (dv_store s) \<and> (\<forall>did raw row.
     kv_get (dv_store s) (pd_key did) = Some raw \<or> kv_get (dv_store s) (dr_key did) = Some raw \<longrightarrow>
     parse_row c raw = Some row \<longrightarrow> row_from (seeder did) (cand did) row)"

lemma row_from_member:
  "k \<noteq> ''sd'' \<Longrightarrow> k \<noteq> ''cand'' \<Longrightarrow> row_from A B (set_member k v row) = row_from A B row"
  "row_from A B row \<Longrightarrow> A w \<Longrightarrow> row_from A B (set_member ''sd'' (JString w) row)"
  by (auto simp: row_from_def row_simps json_member_array_def)

lemma row_from_new: "\<forall>w\<in>set ws. B w \<Longrightarrow> row_from A B (new_row broker now ch lw ws)"
  by (auto simp: row_from_def new_row_def row_simps json_member_array_def value_or_def)

lemma rows_from_put:
  assumes "json_parse c (jd (JObject row)) = Some (JObject row)" and "rows_from c A B s"
    and "row_from (A did) (B did) row" and "k = pd_key did \<or> k = dr_key did"
  shows "rows_from c A B (put_row jd k (JObject row) s)"
  using assms(2-4) parse_row_put [of c jd row, OF assms(1)] by (auto simp: rows_from_def kv_get_put kv_ok_put)

lemma rows_from_del: "rows_from c A B s \<Longrightarrow> rows_from c A B (del_row k s)"
  by (auto simp: rows_from_def kv_get_del kv_ok_del)

lemma rows_from_row:
  "rows_from c A B s \<Longrightarrow> kv_get (dv_store s) (pd_key did) = Some raw \<Longrightarrow> parse_row c raw = Some row \<Longrightarrow>
   row_from (A did) (B did) row"
  by (auto simp: rows_from_def)

lemma rows_from_mono:
  "rows_from c A B s \<Longrightarrow> (\<And>did w. A did w \<Longrightarrow> A' did w) \<Longrightarrow> (\<And>did w. B did w \<Longrightarrow> B' did w) \<Longrightarrow> rows_from c A' B' s"
  unfolding rows_from_def row_from_def by meson

lemma rows_from_corroborate:
  assumes json: "\<And>row. json_parse c (jd (JObject row)) = Some (JObject row)" and "rows_from c A B s"
    and "try_corroborate c jd did s = Some s'"
  shows "rows_from c A B s'"
proof -
  have "rows_from c A B (del_row (pd_key did) (put_row jd (dr_key did) (JObject
      [(''ch'', JString ch), (''lw'', JString lw), (''sd'', JString sd), (''mw'', JString mw),
       (''mpk'', JString mpk), (''created'', JNumber n)]) s))"
    if "kv_get (dv_store s) (pd_key did) = Some raw" "parse_row c raw = Some row"
      "json_value_string (JObject row) ''sd'' [] = Some sd" for raw row ch lw sd mw mpk n
  proof -
    have "row_from (A did) (B did) row" by (rule rows_from_row [OF assms(2) that(1,2)])
    then have "row_from (A did) (B did) [(''ch'', JString ch), (''lw'', JString lw), (''sd'', JString sd),
        (''mw'', JString mw), (''mpk'', JString mpk), (''created'', JNumber n)]"
      using that(3) by (auto simp: row_from_def row_simps json_member_array_def value_or_def)
    from rows_from_put [where c = c and jd = jd and A = A and B = B and did = did, OF json assms(2) this, of "dr_key did"] show ?thesis by (simp add: rows_from_del)
  qed
  then show ?thesis
    using assms(2,3)
    by (auto simp: try_corroborate_def bind_eq_Some_conv Let_def split: option.splits if_splits)
qed

lemma rows_from_after_put:
  assumes "\<And>row. json_parse c (jd (JObject row)) = Some (JObject row)" and "rows_from c A B s"
  shows "rows_from c A B (snd (after_put c jd did s))"
  using rows_from_corroborate [OF assms] assms(2) by (auto simp: after_put_def split: option.split)

text \<open>A report changes the seeder only to a candidate that its signature names.\<close>

lemma row_from_report:
  assumes "row_from A B row" and "report_row s r att mini pub row = Some row'"
    and "\<And>w. att \<Longrightarrow> 0 < rl_seeder_bytes r \<Longrightarrow> dv_wallets s (rl_seeder r) = Some w \<Longrightarrow> B w \<Longrightarrow> A w"
  shows "row_from A B row'"
proof -
  let ?r = "set_member ''relayed'' (JNumber (uint (rl_bytes r)))
    (set_member ''mpk'' (JString (to_hex (arr_bytes pub))) (set_member ''mw'' (JString (hex_addr mini)) row))"
  obtain flags where f: "set_flag 2 ?r = Some (set_member ''flags'' (JNumber flags) ?r)"
    using assms(2) by (auto simp: report_row_def set_flag_def bind_eq_Some_conv Let_def)
  let ?q = "set_member ''flags'' (JNumber flags) ?r"
  have q: "row_from A B ?q" using assms(1) by (simp add: row_from_member(1))
  have "row_from A B row''" if "name_seeder s (rl_seeder r) ?q = Some row''" "att" "0 < rl_seeder_bytes r" for row''
  proof -
    let ?w = "value_or (dv_wallets s (rl_seeder r)) []"
    have "row'' = ?q \<or> ?w \<noteq> [] \<and> JString ?w \<in> set (value_or (json_member_array (JObject ?q) ''cand'') []) \<and>
        row'' = set_member ''sd'' (JString ?w) ?q"
      using that(1) by (auto simp: name_seeder_def Let_def bind_eq_Some_conv split: if_splits)
    moreover have "A ?w" if w: "?w \<noteq> []" "JString ?w \<in> set (value_or (json_member_array (JObject ?q) ''cand'') [])"
    proof -
      have "dv_wallets s (rl_seeder r) = Some ?w" using w(1) by (cases "dv_wallets s (rl_seeder r)") (simp_all add: value_or_def)
      moreover have "B ?w" using q w(2) by (auto simp: row_from_def)
      ultimately show ?thesis using assms(3) \<open>att\<close> \<open>0 < rl_seeder_bytes r\<close> by blast
    qed
    ultimately show ?thesis using q row_from_member(2) by metis
  qed
  with assms(2) f q show ?thesis by (auto simp: report_row_def Let_def split: if_splits)
qed

lemma report_signed_seeder:
  assumes "report_signed c r did mini sig pub = (att, ok)" and "att"
  shows "\<exists>s. verify_data c (report_message True did (rl_bytes r) mini (rl_seeder_bytes r) (rl_seeder r)) s pub"
  using assms by (auto simp: report_signed_def Let_def split: option.splits)

lemma rows_from_reported:
  assumes json: "\<And>row. json_parse c (jd (JObject row)) = Some (JObject row)" and s: "rows_from c A B s"
    and named: "\<And>r pub sig w. read_report body = Some r \<Longrightarrow> 0 < rl_seeder_bytes r \<Longrightarrow>
      pubkey_of_hex (rl_pubkey r) = Some pub \<Longrightarrow>
      verify_data c (report_message True (from_hex (rl_did r)) (rl_bytes r) (address_from_pubkey c pub)
        (rl_seeder_bytes r) (rl_seeder r)) sig pub \<Longrightarrow>
      dv_wallets s (rl_seeder r) = Some w \<Longrightarrow> B (rl_did r) w \<Longrightarrow> A (rl_did r) w"
  shows "rows_from c A B (snd (handle_relay_report c jd body s))"
proof -
  have "rows_from c A B (snd (after_put c jd (rl_did r) (put_row jd (pd_key (rl_did r)) (JObject row') s)))"
    if r: "read_report body = Some r" "kv_get (dv_store s) (pd_key (rl_did r)) = Some raw" "parse_row c raw = Some row"
      "pubkey_of_hex (rl_pubkey r) = Some pub"
      "report_signed c r (from_hex (rl_did r)) (address_from_pubkey c pub) sig pub = (att, ok)"
      "report_row s r att (address_from_pubkey c pub) pub row = Some row'" for r raw row pub sig att ok row'
  proof -
    have "row_from (A (rl_did r)) (B (rl_did r)) row'"
    proof (rule row_from_report [OF rows_from_row [OF s r(2,3)] r(6)])
      fix w assume "att" and w: "0 < rl_seeder_bytes r" "dv_wallets s (rl_seeder r) = Some w" "B (rl_did r) w"
      then obtain sig' where "verify_data c (report_message True (from_hex (rl_did r)) (rl_bytes r)
          (address_from_pubkey c pub) (rl_seeder_bytes r) (rl_seeder r)) sig' pub"
        using report_signed_seeder [OF r(5)] by blast
      from named [OF r(1) w(1) r(4) this w(2,3)] show "A (rl_did r) w" .
    qed
    from rows_from_put [where c = c and jd = jd and A = A and B = B and did = "rl_did r", OF json s this, of "pd_key (rl_did r)"] show ?thesis
      by (intro rows_from_after_put json) simp
  qed
  with s show ?thesis
    by (auto simp: handle_relay_report_def Let_def split: option.split prod.split)
qed

lemma rows_from_receipted:
  assumes json: "\<And>row. json_parse c (jd (JObject row)) = Some (JObject row)" and s: "rows_from c A B s"
  shows "rows_from c A B (snd (handle_relay_receipt c jd body s))"
proof -
  have "rows_from c A B (snd (after_put c jd did (put_row jd (pd_key did) (JObject row') s)))"
    if f: "Option.bind (kv_get (dv_store s) (pd_key did)) (parse_row c) = Some row"
      "set_flag 4 (set_member ''received'' (JNumber n) row) = Some row'" for did row row' n
  proof -
    obtain raw where "kv_get (dv_store s) (pd_key did) = Some raw" "parse_row c raw = Some row"
      using f(1) by (auto simp: bind_eq_Some_conv)
    from rows_from_row [OF s this] have "row_from (A did) (B did) row'"
      using f(2) by (auto simp: set_flag_def bind_eq_Some_conv row_from_member(1))
    from rows_from_put [where c = c and jd = jd and A = A and B = B and did = did, OF json s this, of "pd_key did"] show ?thesis
      by (intro rows_from_after_put json) simp
  qed
  with s show ?thesis
    by (auto simp: handle_relay_receipt_def Let_def split: option.split)
qed

lemma rows_from_reaped: "rows_from c A B s \<Longrightarrow> rows_from c A B (snd (reap_stale_deliveries c now s))"
proof -
  have "rows_from c A B s \<Longrightarrow> rows_from c A B (snd (reap_keys c now ks s))" for ks s
    by (induction c now ks s rule: reap_keys.induct) (auto simp: rows_from_del split: option.split)
  then show "rows_from c A B s \<Longrightarrow> rows_from c A B (snd (reap_stale_deliveries c now s))"
    by (simp add: reap_stale_deliveries_def split: option.split)
qed

text \<open>Every run: the seeder of a row was attested, and its candidates were the broker's.\<close>

lemma after_rows_from:
  assumes json: "\<And>row. json_parse c (jd (JObject row)) = Some (JObject row)"
  shows "rows_from c (attested_seeder c jd broker es) (candidate_of c jd broker es) (deliveries_after c jd broker es)"
proof (induction es rule: rev_induct)
  case Nil
  show ?case by (simp add: deliveries_after_def rows_from_def kv_ok_def kv_get_def)
next
  case (snoc e es)
  let ?A = "attested_seeder c jd broker (es @ [e])" and ?B = "candidate_of c jd broker (es @ [e])"
    and ?s = "deliveries_after c jd broker es"
  have s: "rows_from c ?A ?B ?s" by (rule rows_from_mono [OF snoc]) (simp_all add: past_grows)
  show ?case
  proof (cases e)
    case (Brokered random nanos now ch listener peers)
    have "?B (delivery_id c random nanos ch) w" if "w \<in> set (List.map_filter (dv_wallets ?s) peers)" for w
      using that Brokered unfolding candidate_of_def by (force simp: List.map_filter_def)
    with s show ?thesis
      by (auto simp: deliveries_after_snoc Brokered mint_delivery_def Let_def
          intro!: rows_from_put json row_from_new)
  next
    case (Reported body)
    have "rows_from c ?A ?B (snd (handle_relay_report c jd body ?s))"
    proof (rule rows_from_reported [OF json])
      show "rows_from c ?A ?B ?s" by (rule s)
    next
      fix r pub sig w
      assume "read_report body = Some r" "0 < rl_seeder_bytes r" "pubkey_of_hex (rl_pubkey r) = Some pub"
        "verify_data c (report_message True (from_hex (rl_did r)) (rl_bytes r) (address_from_pubkey c pub)
          (rl_seeder_bytes r) (rl_seeder r)) sig pub" "dv_wallets ?s (rl_seeder r) = Some w" "?B (rl_did r) w"
      moreover have "candidate_of c jd broker es (rl_did r) w"
        using candidate_of_earlier [OF \<open>?B (rl_did r) w\<close>] Reported by simp
      ultimately show "?A (rl_did r) w" using Reported unfolding attested_seeder_def by blast
    qed
    then show ?thesis by (simp add: deliveries_after_snoc Reported)
  next
    case (Receipted body)
    with rows_from_receipted [OF json s] show ?thesis by (simp add: deliveries_after_snoc)
  next
    case (Reaped now)
    with rows_from_reaped [OF s] show ?thesis by (simp add: deliveries_after_snoc)
  next
    case (Consumed did)
    with s show ?thesis by (simp add: deliveries_after_snoc consume_delivery_row_def rows_from_del)
  next
    case (Bound peer wallet)
    with s show ?thesis by (simp add: deliveries_after_snoc rows_from_def)
  qed
qed

end
