(* ===== verification/Sync_Laws.thy ===== *)
theory Sync_Laws
  imports Sync Chain_Properties
begin

text \<open>
  What the block propagator keeps and guarantees: the locator, the answer to it, the bounds of its
  tables, what an announcement does, and how the expected sequence is drained.
\<close>

section \<open>The locator\<close>

definition row_list :: "stage \<Rightarrow> int \<Rightarrow> hash256 list" where
  "row_list s h = (case get_block_hash s (word_of_int h) of Some bh \<Rightarrow> [bh] | None \<Rightarrow> [])"

definition rows_below :: "stage \<Rightarrow> int \<Rightarrow> hash256 list \<Rightarrow> bool" where
  "rows_below s h xs \<longleftrightarrow> (\<forall>x\<in>set xs. \<exists>n. 0 \<le> n \<and> n \<le> h \<and> get_block_hash s (word_of_int n) = Some x)"

lemma row_list_laws: "length (row_list s h) \<le> 1" "0 \<le> h \<Longrightarrow> rows_below s h (row_list s h)"
  by (auto simp: row_list_def rows_below_def split: option.split)

lemma rows_below_app: "rows_below s h xs \<Longrightarrow> rows_below s k ys \<Longrightarrow> k \<le> h \<Longrightarrow> rows_below s h (xs @ ys)"
  by (force simp: rows_below_def)

lemma locator_step:
  "0 \<le> h \<Longrightarrow> locator_loop s h step out =
     (let out' = out @ row_list s h; step' = (if 10 \<le> length out' then step * 2 else step)
      in locator_loop s (h - uint step') step' out')"
  by (simp add: locator_loop.simps [of s h] row_list_def Let_def split: option.split)

lemma locator_stop: "h < 0 \<Longrightarrow> locator_loop s h step out = Some out"
  by (simp add: locator_loop.simps [of s h])

text \<open>With ten hashes out the step doubles: \<open>h + 2 * step\<close> stays the same, so the step cannot wrap
  before the height is used up.\<close>

lemma locator_doubling:
  assumes "uint step = 2 ^ j" and "j \<le> 31" and "h + 2 * 2 ^ j < 2 ^ 32" and "10 \<le> length out"
  shows "\<exists>xs. locator_loop s h step out = Some (out @ xs) \<and> length xs \<le> 31 - j \<and> rows_below s h xs"
  using assms
proof (induction "31 - j" arbitrary: j h step out)
  case 0
  then have "h < 0" by (cases "j = 31") auto
  then show ?case by (intro exI [of _ "[]"]) (simp add: locator_stop rows_below_def)
next
  case (Suc m)
  show ?case
  proof (cases "h < 0")
    case True
    then show ?thesis by (intro exI [of _ "[]"]) (simp add: locator_stop rows_below_def)
  next
    case False
    have j: "j < 31" using Suc.hyps(2) by simp
    have "(2 :: int) ^ Suc j \<le> 2 ^ 31" using j by (intro power_increasing) auto
    then have st: "uint (step * 2) = 2 ^ Suc j"
      using Suc.prems(1) by (simp add: uint_mult_lem [THEN iffD1])
    have "h - uint (step * 2) + 2 * 2 ^ Suc j < 2 ^ 32" using st Suc.prems(3) by simp
    moreover have "10 \<le> length (out @ row_list s h)" using Suc.prems(4) by simp
    ultimately obtain xs where xs: "locator_loop s (h - uint (step * 2)) (step * 2) (out @ row_list s h) =
        Some ((out @ row_list s h) @ xs)" "length xs \<le> 31 - Suc j" "rows_below s (h - uint (step * 2)) xs"
      using Suc.hyps(1) [of "Suc j" "step * 2" "h - uint (step * 2)" "out @ row_list s h"] Suc.hyps(2) j st
      by (metis Suc_diff_Suc Suc_leI nat.inject)
    have "locator_loop s h step out = Some (out @ row_list s h @ xs)"
      using False xs(1) Suc.prems(4) by (simp add: locator_step Let_def)
    moreover have "rows_below s h (row_list s h @ xs)"
      using row_list_laws(2) [of h s] False xs(3) by (intro rows_below_app) auto
    moreover have "length (row_list s h @ xs) \<le> 31 - j" using row_list_laws(1) [of s h] xs(2) j by simp
    ultimately show ?thesis by blast
  qed
qed

lemma locator_single:
  assumes "h + int (length out) < 2 ^ 32" and "length out < 10"
  shows "\<exists>xs. locator_loop s h 1 out = Some (out @ row_list s h @ xs) \<and> length out + length (row_list s h @ xs) \<le> 40 \<and>
    rows_below s h (row_list s h @ xs) \<or> h < 0 \<and> locator_loop s h 1 out = Some out"
  using assms
proof (induction "nat (h + 1)" arbitrary: h out)
  case 0
  then show ?case by (simp add: locator_stop)
next
  case (Suc m)
  then have h: "0 \<le> h" by simp
  note row = row_list_laws(1) [of s h] row_list_laws(2) [OF h, of s]
  show ?case
  proof (cases "10 \<le> length (out @ row_list s h)")
    case True
    have "uint (1 * 2 :: u32) = 2 ^ 1" by simp
    moreover have "h - uint (1 * 2 :: u32) + 2 * 2 ^ 1 < 2 ^ 32" using Suc.prems True row(1) by simp
    ultimately obtain xs where xs: "locator_loop s (h - uint (1 * 2 :: u32)) (1 * 2) (out @ row_list s h) =
        Some ((out @ row_list s h) @ xs)" "length xs \<le> 30" "rows_below s (h - uint (1 * 2 :: u32)) xs"
      using locator_doubling [of "1 * 2" 1 "h - uint (1 * 2 :: u32)" "out @ row_list s h" s] True by auto
    have "rows_below s h (row_list s h @ xs)" using row(2) xs(3) by (rule rows_below_app) simp
    moreover have "length out + length (row_list s h @ xs) \<le> 40" using Suc.prems(2) row(1) xs(2) by simp
    moreover have "locator_loop s h 1 out = Some (out @ row_list s h @ xs)"
      using True xs(1) by (simp add: locator_step [OF h] Let_def)
    ultimately show ?thesis by blast
  next
    case False
    let ?out = "out @ row_list s h"
    have st: "locator_loop s h 1 out = locator_loop s (h - 1) 1 ?out"
      using False by (simp add: locator_step [OF h] Let_def)
    have "h - 1 + int (length ?out) < 2 ^ 32" using Suc.prems(1) row(1) by simp
    from Suc.hyps(1) [OF _ this] Suc.hyps(2) h False
    consider xs where "locator_loop s (h - 1) 1 ?out = Some (?out @ xs)" "length ?out + length xs \<le> 40"
        "rows_below s (h - 1) xs"
      | "locator_loop s (h - 1) 1 ?out = Some ?out"
      by fastforce
    then show ?thesis
    proof cases
      case 1
      have "rows_below s h (row_list s h @ xs)" using row(2) 1(3) by (rule rows_below_app) simp
      with 1 st show ?thesis by (intro exI [of _ xs]) auto
    next
      case 2
      with st row False show ?thesis by (intro exI [of _ "[]"]) auto
    qed
  qed
qed

lemma build_locator_laws:
  "\<exists>xs. build_locator ch = Some xs \<and> length xs \<le> 41 \<and>
    rows_below (ch_stage ch) (uint (tip_height (ch_tip ch))) xs \<and>
    (tip_hash (ch_tip ch) \<noteq> 0 \<and> get_block_hash (ch_stage ch) (tip_height (ch_tip ch)) = Some h \<longrightarrow>
       xs \<noteq> [] \<and> hd xs = h)"
proof (cases "tip_height (ch_tip ch) = 0 \<and> tip_hash (ch_tip ch) = 0")
  case True
  then show ?thesis by (simp add: build_locator_def rows_below_def)
next
  case False
  let ?s = "ch_stage ch" and ?h = "uint (tip_height (ch_tip ch))"
  have "?h < 2 ^ 32" using uint_lt2p [of "tip_height (ch_tip ch)"] by simp
  moreover have pos: "0 \<le> ?h" by simp
  ultimately obtain xs where xs: "locator_loop ?s ?h 1 [] = Some (row_list ?s ?h @ xs)"
      "length (row_list ?s ?h @ xs) \<le> 40" "rows_below ?s ?h (row_list ?s ?h @ xs)"
    using locator_single [of ?h "[]" ?s] by auto
  let ?out = "row_list ?s ?h @ xs"
  let ?r = "case get_block_hash ?s 0 of None \<Rightarrow> ?out
      | Some g \<Rightarrow> if ?out = [] \<or> last ?out \<noteq> g then ?out @ [g] else ?out"
  have "build_locator ch = Some ?r" using False xs(1) by (auto simp: build_locator_def Let_def)
  moreover have "length ?r \<le> 41" using xs(2) by (auto split: option.split)
  moreover have "rows_below ?s ?h ?r"
  proof -
    have "rows_below ?s ?h [g]" if "get_block_hash ?s 0 = Some g" for g
      using that pos by (force simp: rows_below_def intro: exI [of _ 0])
    then show ?thesis
      using xs(3) rows_below_app [OF xs(3) _ order_refl] by (auto split: option.split)
  qed
  moreover have "get_block_hash ?s (tip_height (ch_tip ch)) = Some h \<longrightarrow> ?r \<noteq> [] \<and> hd ?r = h"
    by (auto simp: row_list_def split: option.split)
  ultimately show ?thesis by blast
qed

section \<open>The answer to a locator\<close>

lemma hashes_from_nth:
  "i < length (hashes_from s last_h n hi) \<Longrightarrow> get_block_hash s (hi + of_nat i) = Some (hashes_from s last_h n hi ! i)"
proof (induction s last_h n hi arbitrary: i rule: hashes_from.induct)
  case (2 s last_h n hi)
  then show ?case by (cases i) (auto simp: algebra_simps split: if_splits option.splits)
qed simp

lemma length_hashes_from:
  assumes "\<And>h. hi \<le> h \<Longrightarrow> h \<le> last_h \<Longrightarrow> get_block_hash s h \<noteq> None" and "unat last_h + 1 < 2 ^ 32"
  shows "length (hashes_from s last_h n hi) = min n (unat last_h + 1 - unat hi)"
  using assms
proof (induction s last_h n hi rule: hashes_from.induct)
  case (2 s last_h n hi)
  show ?case
  proof (cases "hi \<le> last_h")
    case True
    obtain bh where bh: "get_block_hash s hi = Some bh" using "2.prems"(1) True by fastforce
    have next_h: "unat (hi + 1) = unat hi + 1"
      using True "2.prems"(2) by (simp add: word_le_nat_alt unat_word_ariths)
    have "length (hashes_from s last_h n (hi + 1)) = min n (unat last_h + 1 - unat (hi + 1))"
      using "2.IH" [OF True bh _ "2.prems"(2)] "2.prems"(1) next_h by (simp add: word_le_nat_alt)
    with True bh next_h show ?thesis by (simp add: word_le_nat_alt)
  next
    case False
    then show ?thesis by (simp add: word_le_nat_alt)
  qed
qed simp

lemma fork_of_locator_Some:
  "fork_of_locator s hs = Some n \<Longrightarrow>
     \<exists>as h bs. hs = as @ h # bs \<and> (\<forall>a\<in>set as. get_block_height s a = None) \<and> get_block_height s h = Some n"
proof (induction hs)
  case (Cons x hs)
  show ?case
  proof (cases "get_block_height s x")
    case None
    with Cons obtain as h bs where "hs = as @ h # bs" "\<forall>a\<in>set as. get_block_height s a = None"
      "get_block_height s h = Some n" by auto
    with None show ?thesis by (intro exI [of _ "x # as"]) auto
  next
    case (Some m)
    with Cons.prems show ?thesis by (intro exI [of _ "[]"]) auto
  qed
qed simp

section \<open>Bounds of the tables\<close>

definition peer_ok :: "peer_state \<Rightarrow> bool" where
  "peer_ok ps \<longleftrightarrow> length (ps_in_flight ps) \<le> kMaxGetdataInFlight \<and> distinct (ps_in_flight ps) \<and>
     distinct (ps_known ps)"

definition peers_ok :: "(string \<times> peer_state) list \<Rightarrow> bool" where
  "peers_ok peers \<longleftrightarrow> distinct (map fst peers) \<and> (\<forall>(pid, ps)\<in>set peers. peer_ok ps)"

definition buffer_ok :: "crypto \<Rightarrow> (hash256 \<times> Block) list \<Rightarrow> bool" where
  "buffer_ok c buf \<longleftrightarrow> distinct (map fst buf) \<and>
     (\<forall>(h, b)\<in>set buf. Block_hash c b = h \<and> Block_validate c b)"

definition sync_ok :: "crypto \<Rightarrow> propagator \<Rightarrow> bool" where
  "sync_ok c p \<longleftrightarrow> peers_ok (bp_peers p) \<and> buffer_ok c (bp_pending p) \<and> distinct (bp_expected p) \<and>
     length (bp_pending_announce p) \<le> kPendingAnnounceCap \<and> distinct (bp_announced p) \<and>
     distinct (map fst (bp_dht_searched p)) \<and> distinct (map fst (bp_last_hello p))"

lemma peer_ok_new: "peer_ok peer_new"
  by (simp add: peer_ok_def peer_new_def)

lemma peers_ok_lookup: "peers_ok peers \<Longrightarrow> map_of peers pid = Some ps \<Longrightarrow> peer_ok ps"
  by (auto simp: peers_ok_def dest!: map_of_SomeD)

lemma in_set_update: "x \<in> set (AList.update k v al) \<Longrightarrow> x = (k, v) \<or> x \<in> set al"
  by (induction al) (auto split: if_splits)

lemma peers_ok_update:
  assumes "peers_ok peers" and "peer_ok ps"
  shows "peers_ok (AList.update pid ps peers)"
  using assms by (auto simp: peers_ok_def distinct_update dest!: in_set_update)

lemma peers_ok_map:
  assumes "peers_ok peers" and "\<And>pid ps. peer_ok ps \<Longrightarrow> peer_ok (f pid ps)"
  shows "peers_ok (map (\<lambda>(pid, ps). (pid, f pid ps)) peers)"
  using assms by (auto simp: peers_ok_def comp_def case_prod_beta)

lemma update_peer_ok:
  assumes "sync_ok c p" and "\<And>ps. peer_ok ps \<Longrightarrow> peer_ok (f ps)"
  shows "sync_ok c (update_peer pid f p)"
proof -
  have "peer_ok (value_or (map_of (bp_peers p) pid) peer_new)"
    using assms(1) peer_ok_new peers_ok_lookup
    by (auto simp: sync_ok_def value_or_def split: option.split)
  then show ?thesis using assms by (simp add: sync_ok_def update_peer_def peers_ok_update)
qed

text \<open>Sending changes nothing but the log.\<close>

lemma emit_fields [simp]:
  "bp_chain (emit os p) = bp_chain p" "bp_client (emit os p) = bp_client p" "bp_peers (emit os p) = bp_peers p"
  "bp_pending (emit os p) = bp_pending p" "bp_pending_announce (emit os p) = bp_pending_announce p"
  "bp_expected (emit os p) = bp_expected p" "bp_dht_searched (emit os p) = bp_dht_searched p"
  "bp_announced (emit os p) = bp_announced p" "bp_last_hello (emit os p) = bp_last_hello p"
  "bp_sent (emit os p) = bp_sent p @ os" "sync_ok c (emit os p) = sync_ok c p"
  by (simp_all add: emit_def sync_ok_def)

lemma send_request_cases: "\<exists>os. send_request pid v b p = emit os p"
  by (cases "\<not> bp_client p \<or> pid = []") (auto simp: send_request_def emit_def intro: exI [of _ "[]"])

lemma dht_announce_cases: "\<exists>os. dht_announce k p = emit os p"
  by (cases "bp_client p") (auto simp: dht_announce_def emit_def intro: exI [of _ "[]"])

lemma emit_emit [simp]: "emit os (emit os' p) = emit (os' @ os) p" "emit [] p = p"
  by (simp_all add: emit_def)

lemma sends_cases: "\<exists>os. fold (\<lambda>pid. send_request pid v b) pids p = emit os p"
proof (induction pids arbitrary: p)
  case Nil
  show ?case by (intro exI [of _ "[]"]) simp
next
  case (Cons pid pids)
  obtain os where "send_request pid v b p = emit os p" using send_request_cases by blast
  with Cons.IH [of "emit os p"] show ?case by auto
qed

text \<open>What an operation keeps of the state: whether \<open>sync_ok\<close>, and the chain, the buffer and the
  expected sequence themselves.\<close>

definition keeps :: "crypto \<Rightarrow> propagator \<Rightarrow> propagator \<Rightarrow> bool" where
  "keeps c p q \<longleftrightarrow> (sync_ok c p \<longrightarrow> sync_ok c q) \<and> bp_chain q = bp_chain p \<and> bp_pending q = bp_pending p \<and>
     bp_expected q = bp_expected p"

lemma keeps_refl [simp]: "keeps c p p" and keeps_trans: "keeps c p q \<Longrightarrow> keeps c q r \<Longrightarrow> keeps c p r"
  by (auto simp: keeps_def)

lemma keeps_emit [simp]: "keeps c p (emit os q) = keeps c p q"
  by (simp add: keeps_def)

lemma keeps_emitted [simp]: "keeps c (emit os p) q = keeps c p q"
  by (simp add: keeps_def)

lemma keeps_sent [simp]: "keeps c (send_request pid v b p) q = keeps c p q"
  using send_request_cases [of pid v b p] by auto

lemma keeps_send [simp]: "keeps c p (send_request pid v b q) = keeps c p q"
  using send_request_cases [of pid v b q] by auto

lemma keeps_dht [simp]: "keeps c p (dht_announce k q) = keeps c p q"
  using dht_announce_cases [of k q] by auto

lemma keeps_sends [simp]: "keeps c p (fold (\<lambda>pid. send_request pid v b) pids q) = keeps c p q"
  using sends_cases [of v b pids q] by auto

lemma keeps_fold: "(\<And>x q. keeps c q (f x q)) \<Longrightarrow> keeps c p (fold f xs p)"
  by (induction xs arbitrary: p) (auto intro: keeps_trans)

lemma keeps_update_peer:
  "(\<And>ps. peer_ok ps \<Longrightarrow> peer_ok (f ps)) \<Longrightarrow> keeps c p (update_peer pid f p)"
  using update_peer_ok by (simp add: keeps_def) (simp add: update_peer_def)

lemma keeps_do_announce: "keeps c p (do_announce nl h p)"
proof -
  have known: "peers_ok peers \<Longrightarrow>
      peers_ok (map (\<lambda>(pid, ps). (pid, ps\<lparr>ps_known := List.insert h (ps_known ps)\<rparr>)) peers)" for peers
    by (rule peers_ok_map) (auto simp: peer_ok_def)
  define q where "q = (if bp_client p then
      fold (\<lambda>pid. send_request pid ''block.inv'' (hashes_json ''hashes'' [h]))
        (map fst (filter (\<lambda>(_, ps). h \<notin> set (ps_known ps)) (bp_peers p)))
        (p\<lparr>bp_peers := map (\<lambda>(pid, ps). (pid, ps\<lparr>ps_known := List.insert h (ps_known ps)\<rparr>)) (bp_peers p)\<rparr>)
      else p)"
  have "keeps c p q" by (simp add: q_def) (simp add: keeps_def sync_ok_def known)
  then have "keeps c p (q\<lparr>bp_announced := List.insert h (bp_announced q)\<rparr>)"
    by (simp add: keeps_def sync_ok_def)
  moreover have "do_announce nl h p = dht_announce (dht_key_for_block nl h)
      (q\<lparr>bp_announced := List.insert h (bp_announced q)\<rparr>)"
    by (simp add: do_announce_def q_def Let_def)
  ultimately show ?thesis by simp
qed

lemma keeps_flush: "keeps c p (flush_pending_announce nl p)"
proof -
  have "keeps c p (p\<lparr>bp_pending_announce := []\<rparr>)" by (simp add: keeps_def sync_ok_def)
  from keeps_trans [OF this keeps_fold [OF keeps_do_announce]] show ?thesis
    unfolding flush_pending_announce_def .
qed

lemma keeps_announce: "keeps c p (announce_new_block nl h p)"
proof -
  have "keeps c p (if length (bp_pending_announce p) < kPendingAnnounceCap
      then p\<lparr>bp_pending_announce := bp_pending_announce p @ [h]\<rparr> else p)"
    by (simp add: keeps_def sync_ok_def)
  with keeps_trans [OF keeps_flush keeps_do_announce] show ?thesis by (simp add: announce_new_block_def)
qed

lemma choose_known_room:
  "distinct (map fst peers) \<Longrightarrow> choose_known h peers = Chosen pid \<Longrightarrow>
   \<exists>ps. map_of peers pid = Some ps \<and> length (ps_in_flight ps) < kMaxGetdataInFlight"
proof (induction h peers rule: choose_known.induct)
  case (2 h pid' ps peers)
  then show ?case by (force split: if_splits dest!: map_of_SomeD)
qed simp

lemma choose_slack_room:
  assumes "distinct (map fst peers)"
  shows "choose_slack best room peers = best \<or>
    (\<exists>ps. map_of peers (choose_slack best room peers) = Some ps \<and> length (ps_in_flight ps) < room)"
  using assms
proof (induction best room peers rule: choose_slack.induct)
  case (2 best room pid ps peers)
  let ?b = "choose_slack pid (length (ps_in_flight ps)) peers" and ?c = "choose_slack best room peers"
  have out: "map_of peers x = Some y \<Longrightarrow> x \<noteq> pid" for x y
    using "2.prems" by (force dest!: map_of_SomeD)
  show ?case
  proof (cases "length (ps_in_flight ps) < room")
    case True
    with "2.IH"(1) "2.prems" have "?b = pid \<or> (\<exists>x. map_of peers ?b = Some x \<and> length (ps_in_flight x) < room)"
      by fastforce
    with True out show ?thesis by (auto dest: out)
  next
    case False
    with "2.IH"(2) "2.prems" out show ?thesis by auto
  qed
qed simp

lemma keeps_put_in_flight:
  assumes "map_of (bp_peers p) pid = Some ps" and "length (ps_in_flight ps) < kMaxGetdataInFlight"
  shows "keeps c p (update_peer pid (put_in_flight h now) p)"
proof -
  have "peer_ok (put_in_flight h now ps)" if "peer_ok ps"
    using that assms(2) by (auto simp: peer_ok_def put_in_flight_def List.insert_def)
  moreover have "peers_ok (bp_peers p) \<Longrightarrow> peer_ok ps" using assms(1) peers_ok_lookup by blast
  ultimately show ?thesis using assms(1)
    by (auto simp: keeps_def update_peer_def sync_ok_def value_or_def intro!: peers_ok_update)
qed

lemma keeps_dht_search: "keeps c p (dht_search nl now h p)"
proof -
  have "keeps c p (p\<lparr>bp_dht_searched := AList.update h now (bp_dht_searched p)\<rparr>)"
    by (simp add: keeps_def sync_ok_def distinct_update)
  then show ?thesis by (simp add: dht_search_def)
qed

lemma keeps_ask_peer: "sync_ok c p \<Longrightarrow> keeps c p (snd (ask_peer h now p))"
proof -
  assume ok: "sync_ok c p"
  then have d: "distinct (map fst (bp_peers p))" by (simp add: sync_ok_def peers_ok_def)
  have known: "keeps c p (update_peer pid (put_in_flight h now) p)" if "choose_known h (bp_peers p) = Chosen pid" for pid
    using choose_known_room [OF d that] keeps_put_in_flight by blast
  have slack: "keeps c q (update_peer (choose_slack [] kMaxGetdataInFlight (bp_peers q)) (put_in_flight h now) q)"
    if "choose_slack [] kMaxGetdataInFlight (bp_peers q) \<noteq> []" "distinct (map fst (bp_peers q))" for q
    using choose_slack_room [OF that(2), of "[]" kMaxGetdataInFlight] that(1) keeps_put_in_flight by blast
  obtain pid q where q: "(case choose_known h (bp_peers p) of
      Chosen pid \<Rightarrow> (pid, update_peer pid (put_in_flight h now) p) | _ \<Rightarrow> ([], p)) = (pid, q)"
    by fastforce
  have first: "keeps c p q" using q known by (auto split: choice.splits)
  then have "distinct (map fst (bp_peers q))" using ok by (simp add: keeps_def sync_ok_def peers_ok_def)
  note second = keeps_trans [OF first slack [OF _ this]]
  show ?thesis
    unfolding ask_peer_def Let_def q prod.case
    using first second by (cases "pid = []"; cases "choose_slack [] kMaxGetdataInFlight (bp_peers q) = []") simp_all
qed

lemma keeps_weaken: "(sync_ok c p \<Longrightarrow> keeps c p q) \<Longrightarrow> bp_chain q = bp_chain p \<Longrightarrow> bp_pending q = bp_pending p \<Longrightarrow>
    bp_expected q = bp_expected p \<Longrightarrow> keeps c p q"
  by (auto simp: keeps_def)

lemma update_peer_fields [simp]:
  "bp_chain (update_peer pid f p) = bp_chain p" "bp_pending (update_peer pid f p) = bp_pending p"
  "bp_expected (update_peer pid f p) = bp_expected p" "bp_client (update_peer pid f p) = bp_client p"
  "bp_pending_announce (update_peer pid f p) = bp_pending_announce p" "bp_sent (update_peer pid f p) = bp_sent p"
  by (simp_all add: update_peer_def)

lemma ask_peer_fields:
  "bp_chain (snd (ask_peer h now p)) = bp_chain p" "bp_pending (snd (ask_peer h now p)) = bp_pending p"
  "bp_expected (snd (ask_peer h now p)) = bp_expected p"
  by (simp_all add: ask_peer_def Let_def split: choice.split)

lemma keeps_schedule: "keeps c p (schedule_getdata nl now h p)"
proof -
  have ask: "keeps c p (snd (ask_peer h now p))"
    by (rule keeps_weaken) (simp_all add: keeps_ask_peer ask_peer_fields)
  obtain pid q where q: "ask_peer h now p = (pid, q)" by fastforce
  define r where "r = (if pid = [] then q else send_request pid ''block.getdata'' (hashes_json ''hashes'' [h]) q)"
  have "keeps c p r" using ask q by (simp add: r_def)
  then have "keeps c p (dht_search nl now h r)" by (rule keeps_trans) (rule keeps_dht_search)
  then show ?thesis by (simp add: schedule_getdata_def q Let_def flip: r_def)
qed

lemma keeps_stall: "keeps c p (stall_pass nl now p)"
proof -
  have "keeps c p (p\<lparr>bp_peers := map (\<lambda>(pid, ps). (pid, if stalled now ps
      then ps\<lparr>ps_in_flight := [], ps_in_flight_since := 0\<rparr> else ps)) (bp_peers p)\<rparr>)"
    by (auto simp: keeps_def sync_ok_def peer_ok_def intro!: peers_ok_map)
  from keeps_trans [OF this keeps_fold [OF keeps_schedule]] show ?thesis by (simp add: stall_pass_def Let_def)
qed

lemma keeps_maintain: "keeps c p (maintain_pass now p)"
  by (auto simp: keeps_def sync_ok_def maintain_pass_def peer_ok_def distinct_map_filter intro!: peers_ok_map)

lemma keeps_dials: "keeps c p (dial_all addrs p)"
  by (simp add: dial_all_def)

lemma keeps_full_announce [simp]: "keeps c p (q\<lparr>bp_last_full_announce := t\<rparr>) = keeps c p q"
  by (simp add: keeps_def sync_ok_def)

lemma keeps_startup: "keeps c p (announce_startup nl now p)"
proof -
  have "keeps c q (announce_height nl h q)" for h q
    by (simp add: announce_height_def split: option.split) (simp add: keeps_def sync_ok_def)
  from keeps_fold [OF this] show ?thesis by (simp only: announce_startup_def keeps_full_announce)
qed

lemma keeps_reannounce: "keeps c p (reannounce_pass nl cfg now p)"
proof -
  have "keeps c p (fold (\<lambda>h. dht_announce (dht_key_for_block nl h)) hs (dht_announce k p))" for hs k
    using keeps_fold [of c "\<lambda>h. dht_announce (dht_key_for_block nl h)"] keeps_trans keeps_dht keeps_refl by metis
  then show ?thesis by (simp add: reannounce_pass_def)
qed

lemma keeps_connected: "keeps c p (on_peer_connected cfg now pid p)"
proof -
  have peers: "keeps c p (if map_of (bp_peers p) pid = None then p\<lparr>bp_peers := bp_peers p @ [(pid, peer_new)]\<rparr> else p)"
    by (auto simp: keeps_def sync_ok_def peers_ok_def peer_ok_new map_of_eq_None_iff)
  define q where "q = (if map_of (bp_peers p) pid = None then p\<lparr>bp_peers := bp_peers p @ [(pid, peer_new)]\<rparr> else p)
      \<lparr>bp_last_hello := filter (\<lambda>(_, t). \<not> kHelloCooldown < now - t) (bp_last_hello p)\<rparr>"
  have "keeps c p q" using peers by (auto simp: keeps_def sync_ok_def q_def distinct_map_filter)
  then have "keeps c p (q\<lparr>bp_last_hello := AList.update pid now (bp_last_hello q)\<rparr>)"
    by (simp add: keeps_def sync_ok_def distinct_update)
  with \<open>keeps c p q\<close> show ?thesis
    unfolding q_def by (cases "map_of (bp_peers p) pid") (simp_all add: on_peer_connected_def Let_def)
qed

lemma set_delete: "set (AList.delete k al) \<subseteq> set al"
  by (auto simp: AList.delete_eq)

lemma keeps_disconnected: "keeps c p (on_peer_disconnected nl now pid p)"
proof -
  have "keeps c p (p\<lparr>bp_peers := AList.delete pid (bp_peers p), bp_last_hello := AList.delete pid (bp_last_hello p)\<rparr>)"
    using set_delete by (fastforce simp: keeps_def sync_ok_def peers_ok_def distinct_delete)
  from keeps_trans [OF this keeps_fold [OF keeps_schedule]] show ?thesis
    by (simp add: on_peer_disconnected_def Let_def)
qed

section \<open>Requests and blocks\<close>

lemma keeps_on_hello: "keeps c p (snd (on_hello pid body p))"
proof -
  have upd: "keeps c p (update_peer pid f q)" if "keeps c p q" "\<And>ps. peer_ok ps \<Longrightarrow> peer_ok (f ps)" for f q
    using keeps_trans [OF that(1) keeps_update_peer] that(2) .
  show ?thesis
    by (auto simp: on_hello_def Let_def peer_ok_def intro!: upd split: option.split)
qed

lemma keeps_on_node_hello: "keeps c p (snd (on_node_hello nl cfg now pid body p))"
proof -
  have upd: "keeps c p (update_peer pid (\<lambda>ps. ps\<lparr>ps_is_full_node := True, ps_node_id := nid, ps_node_hello_at := now\<rparr>) p)" for nid
    by (rule keeps_update_peer) (simp add: peer_ok_def)
  show ?thesis
    by (auto simp: on_node_hello_def Let_def intro: keeps_flush upd keeps_trans [OF upd keeps_flush] split: option.split)
qed

lemma keeps_on_getblocks: "keeps c p (snd (on_getblocks pid body p))"
  by (simp add: on_getblocks_def Let_def)

lemma keeps_serve: "keeps c p (snd (snd (serve_blocks nl pid served js p)))"
proof (induction nl pid served js p rule: serve_blocks.induct)
  case (2 nl pid served j js p)
  then show ?case
    by (auto simp: Let_def case_prod_beta split: json.split option.split)
qed simp

lemma keeps_on_getdata: "keeps c p (snd (on_getdata nl pid body p))"
  using keeps_serve by (simp add: on_getdata_def case_prod_beta Let_def)

lemma distinct_push: "distinct xs \<Longrightarrow> distinct (fold (\<lambda>h xs. if h \<in> set xs then xs else xs @ [h]) hs xs)"
  by (induction hs arbitrary: xs) auto

lemma distinct_inserts: "distinct xs \<Longrightarrow> distinct (fold List.insert hs xs)"
  by (induction hs arbitrary: xs) auto

text \<open>What an \<open>inv\<close> does: unknown hashes are appended to the expected sequence.\<close>

definition news_of :: "json \<Rightarrow> chain \<Rightarrow> hash256 list" where
  "news_of body ch = (case json_member_array body ''hashes'' of None \<Rightarrow> []
     | Some js \<Rightarrow> filter (\<lambda>h. get_block_height (ch_stage ch) h = None) (parse_hashes js))"

definition push_all :: "hash256 list \<Rightarrow> hash256 list \<Rightarrow> hash256 list" where
  "push_all = fold (\<lambda>h xs. if h \<in> set xs then xs else xs @ [h])"

lemma on_inv_laws:
  fixes nl now pid body p
  defines "q \<equiv> snd (on_inv nl now pid body p)"
  shows "sync_ok c p \<Longrightarrow> sync_ok c q" and "bp_chain q = bp_chain p" and "bp_pending q = bp_pending p"
    and "bp_expected q = push_all (news_of body (bp_chain p)) (bp_expected p)"
proof -
  let ?news = "news_of body (bp_chain p)"
  define r where "r = (update_peer pid (\<lambda>ps. ps\<lparr>ps_known := fold List.insert ?news (ps_known ps)\<rparr>) p)
      \<lparr>bp_expected := push_all ?news (bp_expected p)\<rparr>"
  have r: "sync_ok c r" if "sync_ok c p" for c
  proof -
    have "sync_ok c (update_peer pid (\<lambda>ps. ps\<lparr>ps_known := fold List.insert ?news (ps_known ps)\<rparr>) p)"
      by (rule update_peer_ok [OF that]) (auto simp: peer_ok_def distinct_inserts)
    with that show ?thesis by (simp add: sync_ok_def r_def push_all_def distinct_push)
  qed
  have "keeps c r (fold (schedule_getdata nl now) ?news r)" for c by (rule keeps_fold) (rule keeps_schedule)
  moreover have "q = (if ?news = [] then p else fold (schedule_getdata nl now) ?news r)"
    by (auto simp: q_def on_inv_def news_of_def r_def push_all_def Let_def split: option.split)
  ultimately show "sync_ok c p \<Longrightarrow> sync_ok c q" "bp_chain q = bp_chain p" "bp_pending q = bp_pending p"
    "bp_expected q = push_all ?news (bp_expected p)"
    using r by (auto simp: keeps_def) (auto simp: r_def push_all_def)
qed

lemma ingest_laws:
  fixes c data h p
  defines "q \<equiv> snd (ingest_block_bytes c data h p)"
  shows "sync_ok c p \<Longrightarrow> sync_ok c q" and "bp_chain q = bp_chain p" and "bp_peers q = bp_peers p"
    and "q = p \<or> (\<exists>b. Block_deserialize data = Some b \<and> Block_hash c b = h \<and> Block_validate c b \<and>
      bp_expected q = push_all [h] (bp_expected p) \<and>
      bp_pending q = (if map_of (bp_pending p) h = None then (h, b) # bp_pending p else bp_pending p))"
  by (auto simp: q_def ingest_block_bytes_def sync_ok_def buffer_ok_def push_all_def map_of_eq_None_iff
      split: option.split)

text \<open>The block a message carries, and the note that it was delivered.\<close>

definition data_of :: "netlib \<Rightarrow> json \<Rightarrow> (hash256 \<times> bytes) option" where
  "data_of nl body = do {
     h_hex \<leftarrow> json_value_string body ''hash'' [];
     b64 \<leftarrow> json_value_string body ''bytes_b64'' [];
     h \<leftarrow> parse_hash256 h_hex;
     if b64 = [] \<or> nl_b64_decode nl b64 = [] then None else Some (h, nl_b64_decode nl b64)
   }"

definition delivered :: "string \<Rightarrow> hash256 \<Rightarrow> propagator \<Rightarrow> propagator" where
  "delivered pid h p = (if map_of (bp_peers p) pid = None then p
     else update_peer pid (\<lambda>ps. ps\<lparr>ps_in_flight := removeAll h (ps_in_flight ps)\<rparr>) p)"

lemma on_data_eq: "snd (on_data c nl pid body p) = (case data_of nl body of None \<Rightarrow> p
    | Some (h, data) \<Rightarrow> snd (ingest_block_bytes c data h (delivered pid h p)))"
  by (auto simp: on_data_def data_of_def delivered_def Let_def split: option.split)

lemma keeps_delivered: "keeps c p (delivered pid h p)"
proof -
  have "peer_ok (ps\<lparr>ps_in_flight := removeAll h (ps_in_flight ps)\<rparr>)" if "peer_ok ps" for ps
    using that le_trans [OF length_filter_le [of "(\<noteq>) h" "ps_in_flight ps"], of kMaxGetdataInFlight]
    by (simp add: peer_ok_def distinct_removeAll removeAll_filter_not_eq)
  then show ?thesis using keeps_update_peer by (simp add: delivered_def)
qed

lemma sync_ok_on_data:
  "sync_ok c p \<Longrightarrow> sync_ok c (snd (on_data c nl pid body p))"
  "bp_chain (snd (on_data c nl pid body p)) = bp_chain p"
proof -
  have "sync_ok c p \<Longrightarrow> sync_ok c (delivered pid h p)" "bp_chain (delivered pid h p) = bp_chain p" for h
    using keeps_delivered [of c p pid h] by (simp_all add: keeps_def)
  then show "sync_ok c p \<Longrightarrow> sync_ok c (snd (on_data c nl pid body p))"
    "bp_chain (snd (on_data c nl pid body p)) = bp_chain p"
    using ingest_laws(1,2) by (simp_all add: on_data_eq split: option.split)
qed

section \<open>Draining the expected sequence\<close>

lemma adopt_branch_laws:
  shows "sync_ok c p \<Longrightarrow> sync_ok c (snd (adopt_branch c nl blk p))"
    and "set (bp_pending (snd (adopt_branch c nl blk p))) \<subseteq> set (bp_pending p)"
proof -
  have "sync_ok c (p\<lparr>bp_chain := ch, bp_pending := filter P (bp_pending p)\<rparr>)" if "sync_ok c p" for ch P
    using that by (auto simp: sync_ok_def buffer_ok_def distinct_map_filter)
  moreover have "sync_ok c (p\<lparr>bp_chain := ch\<rparr>)" if "sync_ok c p" for ch
    using that by (simp add: sync_ok_def)
  ultimately show "sync_ok c p \<Longrightarrow> sync_ok c (snd (adopt_branch c nl blk p))"
    using keeps_announce [of c]
    by (auto simp: adopt_branch_def Let_def case_prod_beta keeps_def split: option.split)
  show "set (bp_pending (snd (adopt_branch c nl blk p))) \<subseteq> set (bp_pending p)"
    by (auto simp: adopt_branch_def Let_def case_prod_beta announce_keeps split: option.split)
qed

lemma sync_ok_apply_next:
  assumes "sync_ok c p" and "apply_next c nl an p = Some (b, q)"
  shows "sync_ok c q"
proof -
  obtain h rest blk where f: "bp_expected p = h # rest" "map_of (bp_pending p) h = Some blk"
    using assms(2) by (auto simp: apply_next_def split: list.splits option.splits)
  let ?p = "p\<lparr>bp_pending := AList.delete h (bp_pending p), bp_expected := rest\<rparr>"
  have ok: "sync_ok c ?p"
    using assms(1) f(1) set_delete by (fastforce simp: sync_ok_def buffer_ok_def distinct_delete)
  then have "sync_ok c (?p\<lparr>bp_chain := ch\<rparr>)" for ch by (simp add: sync_ok_def)
  then have "sync_ok c (announce_new_block nl x (?p\<lparr>bp_chain := ch\<rparr>))" for ch x
    using keeps_announce by (simp add: keeps_def)
  with \<open>\<And>ch. sync_ok c (?p\<lparr>bp_chain := ch\<rparr>)\<close> adopt_branch_laws(1) [OF ok, of nl blk] assms(2) f show ?thesis
    by (auto simp: apply_next_def Let_def case_prod_beta split: if_splits)
qed

lemma sync_ok_drain: "sync_ok c p \<Longrightarrow> sync_ok c (snd (apply_drain c nl an did p))"
proof (induction c nl an did p rule: apply_drain.induct)
  case (1 c nl an did p)
  then show ?case
    by (subst apply_drain.simps) (auto dest: sync_ok_apply_next split: option.split prod.split)
qed

lemma sync_ok_pass: "sync_ok c p \<Longrightarrow> sync_ok c (apply_pass c nl an p)"
proof -
  have "keeps c q (ask_followups q)" for q by (simp add: ask_followups_def Let_def)
  then show "sync_ok c p \<Longrightarrow> sync_ok c (apply_pass c nl an p)"
    using sync_ok_drain [of c p nl an False] by (auto simp: apply_pass_def case_prod_beta Let_def keeps_def)
qed

section \<open>Runs\<close>

lemma sync_ok_request: "sync_ok c p \<Longrightarrow> sync_ok c (snd (handle_request c nl cfg now pid type body p))"
proof -
  assume ok: "sync_ok c p"
  have "sync_ok c q" if "keeps c p q" for q using that ok by (simp add: keeps_def)
  then show ?thesis
    using ok keeps_on_hello keeps_on_node_hello keeps_on_getblocks on_inv_laws(1) keeps_on_getdata sync_ok_on_data(1)
    by (simp add: handle_request_def)
qed

lemma sync_ok_step: "sync_ok c p \<Longrightarrow> sync_ok c (sync_step c nl cfg an now e p)"
proof (cases e)
  case (Minted blk)
  assume ok: "sync_ok c p"
  then have "sync_ok c (p\<lparr>bp_chain := ch\<rparr>)" for ch by (simp add: sync_ok_def)
  with Minted show ?thesis
    using keeps_announce by (auto simp: keeps_def Let_def case_prod_beta)
next
  case Apply_turn
  assume "sync_ok c p"
  with Apply_turn sync_ok_apply_next show ?thesis by (auto split: option.split)
next
  case (Start b)
  assume "sync_ok c p"
  then have "sync_ok c (p\<lparr>bp_running := b, bp_client := b\<rparr>)" by (simp add: sync_ok_def)
  then have "sync_ok c (dht_announce k (p\<lparr>bp_running := b, bp_client := b\<rparr>))" for k
    using dht_announce_cases [of k "p\<lparr>bp_running := b, bp_client := b\<rparr>"] by auto
  with Start \<open>sync_ok c p\<close> \<open>sync_ok c (p\<lparr>bp_running := b, bp_client := b\<rparr>)\<close> show ?thesis
    by (cases b) (simp_all add: start_propagator_def Let_def)
next
  case Stop
  assume "sync_ok c p"
  with Stop show ?thesis by (simp add: stop_propagator_def sync_ok_def)
qed (use keeps_connected keeps_disconnected sync_ok_request sync_ok_pass keeps_stall keeps_maintain keeps_reannounce
    keeps_startup keeps_dials in \<open>auto simp: keeps_def on_peers_found_def seed_dial_pass_def\<close>)

lemma sync_ok_run: "sync_run c nl cfg an ch p \<Longrightarrow> sync_ok c p"
proof (induction rule: sync_run.induct)
  case fresh
  show ?case by (simp add: sync_ok_def propagator_new_def peers_ok_def buffer_ok_def)
next
  case (event p now e)
  then show ?case by (simp add: sync_ok_step)
next
  case (rehash p q)
  then show ?case by (auto simp: rehashed_def sync_ok_def peers_ok_def buffer_ok_def)
qed

end
