(* ===== verification/Sync_Round.thy ===== *)
theory Sync_Round
  imports Sync_Laws
begin

text \<open>
  A round of sync, leg by leg: what a node asks for after an announcement (\<open>schedule_getdata\<close>, one
  request per block and at most 16 in flight with a peer), what the other answers, and what the
  blocks that arrive do to the buffer, the expected sequence and the chain.
\<close>

section \<open>Messages, served and applied blocks\<close>

lemma parse_hashes_json: "json_member_array (hashes_json k hs) k = Some (map (\<lambda>h. JString (hex_hash h)) hs)"
    "parse_hashes (map (\<lambda>h. JString (hex_hash h)) hs) = hs"
proof -
  show "json_member_array (hashes_json k hs) k = Some (map (\<lambda>h. JString (hex_hash h)) hs)"
    by (simp add: json_member_array_def hashes_json_def json_object_def)
  have "parse_hash256 (hex_hash h) = Some h" for h
    using parse_hash256_to_hex by (simp add: hex_hash_def)
  then show "parse_hashes (map (\<lambda>h. JString (hex_hash h)) hs) = hs"
    by (induction hs) (simp_all add: parse_hashes_def List.map_filter_simps)
qed

fun connect_all :: "crypto \<Rightarrow> bool \<Rightarrow> Block list \<Rightarrow> chain \<Rightarrow> chain option" where
  "connect_all c an [] ch = Some ch"
| "connect_all c an (b # bs) ch = (let (ok, ch) = connect_block c an b ch
     in if ok then connect_all c an bs ch else None)"

lemma connect_all_tip:
  "connect_all c an bs ch = Some ch' \<Longrightarrow> bs \<noteq> [] \<Longrightarrow> tip_hash (ch_tip ch') = Block_hash c (last bs)"
proof (induction bs arbitrary: ch)
  case (Cons b bs)
  obtain ch1 where b: "connect_block c an b ch = (True, ch1)" "connect_all c an bs ch1 = Some ch'"
    using Cons.prems(1) by (auto simp: Let_def split: prod.splits if_splits)
  show ?case
  proof (cases "bs = []")
    case True
    with b show ?thesis by (auto simp: connect_block_def refused_def Let_def case_prod_beta split: if_splits)
  next
    case False
    with Cons.IH [OF b(2)] show ?thesis by simp
  qed
qed simp

lemma connect_block_needs:
  "fst (connect_block c an b ch) \<Longrightarrow> Block_validate c b \<and> hd_prev_hash (blk_header b) = tip_hash (ch_tip ch)"
  by (auto simp: connect_block_iff admissible_def validate_block_def split: if_splits)

lemma connect_all_valid: "connect_all c an bs ch = Some ch' \<Longrightarrow> b \<in> set bs \<Longrightarrow> Block_validate c b"
proof (induction bs arbitrary: ch)
  case (Cons x bs)
  then show ?case
    using connect_block_needs [of c an x ch]
    by (auto simp: Let_def case_prod_beta split: if_splits)
qed simp

text \<open>Blocks that extend the tip in the order in which they are expected are all connected.\<close>

definition peer_view :: "propagator \<Rightarrow> string \<Rightarrow> (hash256 list \<times> bool \<times> u64 \<times> u32) option" where
  "peer_view p pid = map_option (\<lambda>ps. (ps_in_flight ps, ps_hello_received ps, ps_tip_weight ps, ps_tip_height ps))
     (map_of (bp_peers p) pid)"

lemma peer_view_simps [simp]:
  "peer_view (p\<lparr>bp_pending_announce := x\<rparr>) = peer_view p" "peer_view (p\<lparr>bp_pending := buf\<rparr>) = peer_view p"
  "peer_view (p\<lparr>bp_expected := e\<rparr>) = peer_view p" "peer_view (p\<lparr>bp_chain := ch\<rparr>) = peer_view p"
  "peer_view (emit os p) = peer_view p"
  by (simp_all add: fun_eq_iff peer_view_def)

text \<open>The log of what was sent only grows.\<close>

definition sends_more :: "propagator \<Rightarrow> propagator \<Rightarrow> bool" where
  "sends_more p q \<longleftrightarrow> (\<exists>os. bp_sent q = bp_sent p @ os)"

lemma sends_more_emit [simp]: "sends_more p p" "sends_more p q \<Longrightarrow> sends_more p (emit os q)"
  by (auto simp: sends_more_def)

lemma sends_more_trans: "sends_more p q \<Longrightarrow> sends_more q r \<Longrightarrow> sends_more p r"
  by (auto simp: sends_more_def)

lemma announce_view:
  "peer_view (announce_new_block nl h p) = peer_view p" "bp_client (announce_new_block nl h p) = bp_client p"
  "sends_more p (announce_new_block nl h p)"
proof -
  have known: "map_of (map (\<lambda>(pid, ps). (pid, ps\<lparr>ps_known := f ps\<rparr>)) peers) x =
      map_option (\<lambda>ps. ps\<lparr>ps_known := f ps\<rparr>) (map_of peers x)" for f x peers
    by (induction peers) auto
  have one: "peer_view (do_announce nl h p) = peer_view p \<and> bp_client (do_announce nl h p) = bp_client p \<and>
      sends_more p (do_announce nl h p)" for h p
  proof -
    obtain os where os: "fold (\<lambda>pid. send_request pid ''block.inv'' (hashes_json ''hashes'' [h]))
        (map fst (filter (\<lambda>(_, ps). h \<notin> set (ps_known ps)) (bp_peers p)))
        (p\<lparr>bp_peers := map (\<lambda>(pid, ps). (pid, ps\<lparr>ps_known := List.insert h (ps_known ps)\<rparr>)) (bp_peers p)\<rparr>) =
        emit os (p\<lparr>bp_peers := map (\<lambda>(pid, ps). (pid, ps\<lparr>ps_known := List.insert h (ps_known ps)\<rparr>)) (bp_peers p)\<rparr>)"
      using sends_cases by blast
    show ?thesis
      by (auto simp: do_announce_def dht_announce_def os Let_def peer_view_def known option.map_comp comp_def
          fun_eq_iff sends_more_def)
  qed
  have all: "peer_view (fold (do_announce nl) hs p) = peer_view p \<and> bp_client (fold (do_announce nl) hs p) = bp_client p \<and>
      sends_more p (fold (do_announce nl) hs p)" for hs p
  proof (induction hs arbitrary: p)
    case (Cons h hs)
    then show ?case using one [of h p] sends_more_trans by fastforce
  qed simp
  let ?q = "p\<lparr>bp_pending_announce := []\<rparr>"
  have "sends_more p (fold (do_announce nl) hs ?q)" for hs using all [of hs ?q] by (simp add: sends_more_def)
  then have "sends_more p (do_announce nl h (fold (do_announce nl) hs ?q))" for hs
    using one sends_more_trans by blast
  then show "sends_more p (announce_new_block nl h p)"
    by (simp add: announce_new_block_def flush_pending_announce_def) (simp add: sends_more_def)
  show "peer_view (announce_new_block nl h p) = peer_view p" "bp_client (announce_new_block nl h p) = bp_client p"
    by (auto simp: announce_new_block_def flush_pending_announce_def one all)
qed

lemma drain_connects:
  assumes "bp_expected p = map (Block_hash c) bs @ rest" and "distinct (map (Block_hash c) bs)"
    and "\<forall>b\<in>set bs. map_of (bp_pending p) (Block_hash c b) = Some b"
    and "rest = [] \<or> map_of (bp_pending p) (hd rest) = None"
    and "connect_all c an bs (bp_chain p) = Some ch'"
  shows "bp_chain (snd (apply_drain c nl an d p)) = ch' \<and> bp_expected (snd (apply_drain c nl an d p)) = rest \<and>
    set (bp_pending (snd (apply_drain c nl an d p))) = {e \<in> set (bp_pending p). fst e \<notin> Block_hash c ` set bs} \<and>
    fst (apply_drain c nl an d p) = (d \<or> bs \<noteq> []) \<and>
    peer_view (snd (apply_drain c nl an d p)) = peer_view p \<and> bp_client (snd (apply_drain c nl an d p)) = bp_client p \<and>
    sends_more p (snd (apply_drain c nl an d p))"
  using assms
proof (induction bs arbitrary: p d)
  case Nil
  then show ?case by (auto simp: apply_drain.simps [of c nl an d p] apply_next_def split: list.split)
next
  case (Cons b bs)
  let ?h = "Block_hash c b"
  let ?q = "p\<lparr>bp_pending := AList.delete ?h (bp_pending p), bp_expected := map (Block_hash c) bs @ rest\<rparr>"
  obtain ch1 where con: "connect_block c an b (bp_chain p) = (True, ch1)" and tail: "connect_all c an bs ch1 = Some ch'"
    using Cons.prems(5) by (auto simp: Let_def split: prod.splits if_splits)
  let ?r = "announce_new_block nl ?h (?q\<lparr>bp_chain := ch1\<rparr>)"
  have next_p: "apply_next c nl an p = Some (True, ?r)"
    using Cons.prems(1,3) con connect_block_needs [of c an b "bp_chain p"] by (simp add: apply_next_def)
  have del: "map_of (AList.delete ?h (bp_pending p)) x = (if x = ?h then None else map_of (bp_pending p) x)" for x
    by (simp add: delete_conv)
  have "bp_chain (snd (apply_drain c nl an (d \<or> True) ?r)) = ch' \<and>
      bp_expected (snd (apply_drain c nl an (d \<or> True) ?r)) = rest \<and>
      set (bp_pending (snd (apply_drain c nl an (d \<or> True) ?r))) =
        {e \<in> set (bp_pending ?r). fst e \<notin> Block_hash c ` set bs} \<and>
      fst (apply_drain c nl an (d \<or> True) ?r) = ((d \<or> True) \<or> bs \<noteq> []) \<and>
      peer_view (snd (apply_drain c nl an (d \<or> True) ?r)) = peer_view ?r \<and>
      bp_client (snd (apply_drain c nl an (d \<or> True) ?r)) = bp_client ?r \<and>
      sends_more ?r (snd (apply_drain c nl an (d \<or> True) ?r))"
  proof (rule Cons.IH)
    show "bp_expected ?r = map (Block_hash c) bs @ rest" by (simp add: announce_keeps)
    show "distinct (map (Block_hash c) bs)" using Cons.prems(2) by simp
    show "connect_all c an bs (bp_chain ?r) = Some ch'" using tail by (simp add: announce_keeps)
    show "rest = [] \<or> map_of (bp_pending ?r) (hd rest) = None" using Cons.prems(4) by (auto simp: announce_keeps del)
    have "Block_hash c y \<noteq> ?h" if "y \<in> set bs" for y
      using Cons.prems(2) that by (auto simp: image_iff)
    then show "\<forall>b\<in>set bs. map_of (bp_pending ?r) (Block_hash c b) = Some b"
      using Cons.prems(3) by (simp add: announce_keeps del)
  qed
  moreover have "apply_drain c nl an d p = apply_drain c nl an (d \<or> True) ?r"
    by (simp add: apply_drain.simps [of c nl an d p] next_p)
  moreover have "{e \<in> set (bp_pending ?r). fst e \<notin> Block_hash c ` set bs} =
      {e \<in> set (bp_pending p). fst e \<notin> Block_hash c ` set (b # bs)}"
    by (auto simp: announce_keeps AList.delete_eq)
  moreover have "peer_view ?r = peer_view p" "bp_client ?r = bp_client p"
    by (simp_all add: announce_view)
  moreover have "sends_more p ?r" using announce_view(3) [of "?q\<lparr>bp_chain := ch1\<rparr>"] by (simp add: sends_more_def)
  ultimately show ?case using sends_more_trans by auto
qed

definition data_json :: "netlib \<Rightarrow> hash256 \<times> Block \<Rightarrow> json" where
  "data_json nl = (\<lambda>(h, b). JObject [(''hash'', JString (hex_hash h)),
     (''bytes_b64'', JString (nl_b64_encode nl (Block_serialize b)))])"

text \<open>Asked for blocks it has, a node sends each in a message of its own.\<close>

lemma serve_sends:
  assumes "list_all2 (\<lambda>h b. get_block s h = Some b) hs bs" and "ch_stage (bp_chain p) = s"
    and "served + length hs \<le> 32" and "bp_client p" and "pid \<noteq> []"
  shows "snd (snd (serve_blocks nl pid served (map (\<lambda>h. JString (hex_hash h)) hs) p)) =
    emit (map (\<lambda>e. Send pid ''block.data'' (data_json nl e)) (zip hs bs)) p"
  using assms
proof (induction hs bs arbitrary: served p rule: list_all2_induct)
  case (Cons h hs b bs)
  have h: "parse_hash256 (hex_hash h) = Some h" using parse_hash256_to_hex by (simp add: hex_hash_def)
  have b: "get_block (ch_stage (bp_chain p)) h = Some b" using Cons.hyps Cons.prems(1) by simp
  have room: "\<not> kMaxInvCount \<le> served" using Cons.prems(2) by (simp add: kMaxInvCount_def)
  let ?p = "emit [Send pid ''block.data'' (data_json nl (h, b))] p"
  have "snd (snd (serve_blocks nl pid (served + 1) (map (\<lambda>h. JString (hex_hash h)) hs) ?p)) =
      emit (map (\<lambda>e. Send pid ''block.data'' (data_json nl e)) (zip hs bs)) ?p"
    using Cons.prems by (intro Cons.IH) (simp_all add: emit_def)
  moreover have "snd (snd (serve_blocks nl pid served (map (\<lambda>h. JString (hex_hash h)) (h # hs)) p)) =
      snd (snd (serve_blocks nl pid (served + 1) (map (\<lambda>h. JString (hex_hash h)) hs) ?p))"
    using h b room Cons.prems(3,4) by (simp add: Let_def case_prod_beta send_request_def data_json_def)
  ultimately show ?case by simp
qed simp

lemma Block_serialize_nonempty: "Block_serialize b \<noteq> []"
  by (cases "blk_song b") (simp_all add: Block_serialize_def)

lemma deliver_all:
  assumes lib: "\<And>x. nl_b64_decode nl (nl_b64_encode nl x) = x" "\<And>x. x \<noteq> [] \<Longrightarrow> nl_b64_encode nl x \<noteq> []"
    and zs: "\<forall>(h, b)\<in>set zs. Block_hash c b = h \<and> Block_validate c b" "set ds \<subseteq> set zs"
    and p: "fst ` set zs \<subseteq> set (bp_expected p)" "set (bp_pending p) \<subseteq> set zs"
  shows "bp_chain (fold (\<lambda>m q. snd (on_data c nl pid m q)) (map (data_json nl) ds) p) = bp_chain p \<and>
    bp_expected (fold (\<lambda>m q. snd (on_data c nl pid m q)) (map (data_json nl) ds) p) = bp_expected p \<and>
    set (bp_pending (fold (\<lambda>m q. snd (on_data c nl pid m q)) (map (data_json nl) ds) p)) \<subseteq> set zs \<and>
    fst ` set ds \<subseteq> fst ` set (bp_pending (fold (\<lambda>m q. snd (on_data c nl pid m q)) (map (data_json nl) ds) p)) \<and>
    set (bp_pending p) \<subseteq> set (bp_pending (fold (\<lambda>m q. snd (on_data c nl pid m q)) (map (data_json nl) ds) p))"
  using zs(2) p
proof (induction ds arbitrary: p)
  case (Cons d ds)
  obtain h b where d: "d = (h, b)" by (cases d)
  then have b: "Block_hash c b = h" "Block_validate c b" "(h, b) \<in> set zs" using Cons.prems(1) zs(1) by auto
  let ?q = "snd (on_data c nl pid (data_json nl d) p)"
  have "parse_hash256 (hex_hash h) = Some h" using parse_hash256_to_hex by (simp add: hex_hash_def)
  then have "data_of nl (data_json nl d) = Some (h, Block_serialize b)"
    using lib Block_serialize_nonempty
    by (simp add: data_of_def data_json_def json_value_string_def json_object_def d)
  moreover have "Block_deserialize (Block_serialize b) = Some b"
    using Block_roundtrip [OF Block_validate_ok [OF b(2)], of "[]"] by simp
  moreover have "bp_chain (delivered pid h p) = bp_chain p" "bp_expected (delivered pid h p) = bp_expected p"
    "bp_pending (delivered pid h p) = bp_pending p"
    using keeps_delivered [of c p pid h] by (simp_all add: keeps_def)
  moreover have "h \<in> set (bp_expected p)" using b(3) Cons.prems(2) by force
  ultimately have q: "bp_chain ?q = bp_chain p" "bp_expected ?q = bp_expected p"
    "bp_pending ?q = (if map_of (bp_pending p) h = None then (h, b) # bp_pending p else bp_pending p)"
    using b by (simp_all add: on_data_eq ingest_block_bytes_def)
  have sub: "set (bp_pending ?q) \<subseteq> set zs" "set (bp_pending p) \<subseteq> set (bp_pending ?q)" "h \<in> fst ` set (bp_pending ?q)"
    using q(3) b(3) Cons.prems(3) by (auto simp: map_of_eq_None_iff)
  have IH: "bp_chain (fold (\<lambda>m q. snd (on_data c nl pid m q)) (map (data_json nl) ds) ?q) = bp_chain ?q \<and>
    bp_expected (fold (\<lambda>m q. snd (on_data c nl pid m q)) (map (data_json nl) ds) ?q) = bp_expected ?q \<and>
    set (bp_pending (fold (\<lambda>m q. snd (on_data c nl pid m q)) (map (data_json nl) ds) ?q)) \<subseteq> set zs \<and>
    fst ` set ds \<subseteq> fst ` set (bp_pending (fold (\<lambda>m q. snd (on_data c nl pid m q)) (map (data_json nl) ds) ?q)) \<and>
    set (bp_pending ?q) \<subseteq> set (bp_pending (fold (\<lambda>m q. snd (on_data c nl pid m q)) (map (data_json nl) ds) ?q))"
    using Cons.prems q(2) sub by (intro Cons.IH) auto
  then have "fst d \<in> fst ` set (bp_pending (fold (\<lambda>m q. snd (on_data c nl pid m q)) (map (data_json nl) ds) ?q))"
    using sub(3) d by (metis fst_conv image_mono subsetD)
  with IH q sub(2) show ?case by simp (meson order_trans)
qed simp

lemma followups_keep:
  "bp_chain (ask_followups p) = bp_chain p \<and> bp_expected (ask_followups p) = bp_expected p \<and>
   bp_pending (ask_followups p) = bp_pending p"
proof -
  obtain os where "ask_followups p = emit os p"
    using sends_cases unfolding ask_followups_def Let_def by blast
  then show ?thesis by simp
qed

lemma push_all_fresh: "distinct hs \<Longrightarrow> set hs \<inter> set xs = {} \<Longrightarrow> push_all hs xs = xs @ hs"
proof (induction hs arbitrary: xs)
  case (Cons h hs)
  then have "push_all hs (xs @ [h]) = (xs @ [h]) @ hs" by (intro Cons.IH) auto
  with Cons.prems show ?case by (simp add: push_all_def)
qed (simp add: push_all_def)

lemma map_of_within:
  assumes "set al \<subseteq> set zs" and "distinct (map fst zs)" and "(h, b) \<in> set zs" and "h \<in> fst ` set al"
  shows "map_of al h = Some b"
proof -
  obtain b' where b': "map_of al h = Some b'" using assms(4) by (force simp: weak_map_of_SomeI dest: weak_map_of_SomeI)
  then have "(h, b') \<in> set zs" using assms(1) map_of_SomeD by fastforce
  with assms(2,3) have "b' = b" by (meson eq_key_imp_eq_value)
  with b' show ?thesis by simp
qed

lemma in_image_map: "set ms \<subseteq> f ` A \<Longrightarrow> \<exists>ds. ms = map f ds \<and> set ds \<subseteq> A"
proof (induction ms)
  case (Cons m ms)
  then obtain d ds where "d \<in> A" "m = f d" "ms = map f ds" "set ds \<subseteq> A" by auto
  then show ?case by (intro exI [of _ "d # ds"]) simp
qed simp

lemma value_or_Some: "value_or (Some x) d = x"
  by (simp add: value_or_def)

lemma data_json_fst: "data_json nl d = data_json nl e \<Longrightarrow> fst d = fst e"
proof -
  assume "data_json nl d = data_json nl e"
  then have "hex_hash (fst d) = hex_hash (fst e)" by (cases d, cases e) (simp add: data_json_def)
  then have "parse_hash256 (hex_hash (fst d)) = parse_hash256 (hex_hash (fst e))" by simp
  then show ?thesis by (simp add: hex_hash_def parse_hash256_to_hex)
qed

lemma length_hashes_le: "length (hashes_from s last_h n hi) \<le> n"
  by (induction s last_h n hi rule: hashes_from.induct) (auto split: option.split)

lemma sends_all:
  "bp_client p \<Longrightarrow> [] \<notin> set pids \<Longrightarrow>
   fold (\<lambda>pid. send_request pid v b) pids p = emit (map (\<lambda>pid. Send pid v b) pids) p"
proof (induction pids arbitrary: p)
  case (Cons pid pids)
  have "send_request pid v b p = emit [Send pid v b] p" using Cons.prems by (auto simp: send_request_def)
  with Cons.IH [of "emit [Send pid v b] p"] Cons.prems show ?case by simp
qed simp

section \<open>What is asked for\<close>

text \<open>The messages of one kind that a step sends to a peer.\<close>

definition picks :: "string \<Rightarrow> string \<Rightarrow> outgoing list \<Rightarrow> json list" where
  "picks pid type os = List.map_filter (\<lambda>out. case out of
     Send to v body \<Rightarrow> if to = pid \<and> v = type then Some body else None | _ \<Rightarrow> None) os"

definition sent_to :: "string \<Rightarrow> string \<Rightarrow> propagator \<Rightarrow> propagator \<Rightarrow> json list" where
  "sent_to pid type p q = picks pid type (drop (length (bp_sent p)) (bp_sent q))"

lemma picks_simps [simp]:
  "picks pid type [] = []" "picks pid type (os @ os') = picks pid type os @ picks pid type os'"
  "picks pid type [Send to v body] = (if to = pid \<and> v = type then [body] else [])"
  "picks pid type (Send to v body # os) = (if to = pid \<and> v = type then [body] else []) @ picks pid type os"
  "picks pid type (Dht_announce k # os) = picks pid type os"
  by (simp_all add: picks_def List.map_filter_def)

lemma sent_to_emit: "bp_sent q = bp_sent p @ os \<Longrightarrow> sent_to pid type p q = picks pid type os"
  by (simp add: sent_to_def)

lemma put_in_flight_simps [simp]:
  "ps_known (put_in_flight h now ps) = ps_known ps"
  "ps_in_flight (put_in_flight h now ps) = List.insert h (ps_in_flight ps)"
  "ps_hello_received (put_in_flight h now ps) = ps_hello_received ps"
  "ps_tip_weight (put_in_flight h now ps) = ps_tip_weight ps"
  "ps_tip_height (put_in_flight h now ps) = ps_tip_height ps"
  by (simp_all add: put_in_flight_def)

lemma choose_known_only:
  assumes "distinct (map fst peers)" and "(pid, ps) \<in> set peers" and "h \<in> set (ps_known ps)"
    and "h \<notin> set (ps_in_flight ps)"
    and "\<forall>(x, qs)\<in>set peers. x \<noteq> pid \<longrightarrow> h \<notin> set (ps_known qs) \<and> h \<notin> set (ps_in_flight qs)"
  shows "choose_known h peers = (if length (ps_in_flight ps) < kMaxGetdataInFlight then Chosen pid else No_choice)"
proof -
  have none: "choose_known h peers = No_choice"
    if "\<forall>(x, qs)\<in>set peers. h \<notin> set (ps_known qs) \<and> h \<notin> set (ps_in_flight qs)" for peers
    using that by (induction peers) auto
  show ?thesis
    using assms
  proof (induction peers)
    case (Cons e peers)
    show ?case
    proof (cases "fst e = pid")
      case True
      then have e: "e = (pid, ps)" using Cons.prems(1,2) by (cases e) (force simp: image_iff)
      have "\<forall>(x, qs)\<in>set peers. h \<notin> set (ps_known qs) \<and> h \<notin> set (ps_in_flight qs)"
        using Cons.prems(1,5) e by (force simp: image_iff)
      with none [of peers] show ?thesis using Cons.prems(3,4) e by simp
    next
      case False
      then show ?thesis using Cons.IH Cons.prems by (cases e) auto
    qed
  qed simp
qed

text \<open>Where the table is large enough: the peers that have no part in a round neither know its blocks
  nor have one of those still to be asked for in flight.\<close>

definition others_apart :: "string \<Rightarrow> hash256 set \<Rightarrow> hash256 set \<Rightarrow> (string \<times> peer_state) list \<Rightarrow> bool" where
  "others_apart pid H todo peers \<longleftrightarrow> (\<forall>(x, qs)\<in>set peers. x \<noteq> pid \<longrightarrow>
     H \<inter> set (ps_known qs) = {} \<and> todo \<inter> set (ps_in_flight qs) = {})"

lemma schedule_asks:
  assumes p: "bp_client p" "distinct (map fst (bp_peers p))" "pid \<noteq> []"
    and ps: "map_of (bp_peers p) pid = Some ps" "h \<in> set (ps_known ps)" "h \<notin> set (ps_in_flight ps)"
    and new: "get_block_height (ch_stage (bp_chain p)) h = None"
    and others: "others_apart pid H todo (bp_peers p)" "h \<in> H" "h \<in> todo"
  obtains (asked) os where "length (ps_in_flight ps) < kMaxGetdataInFlight"
      "bp_peers (schedule_getdata nl now h p) = AList.update pid (put_in_flight h now ps) (bp_peers p)"
      "bp_sent (schedule_getdata nl now h p) = bp_sent p @ Send pid ''block.getdata'' (hashes_json ''hashes'' [h]) # os"
      "picks pid ''block.getdata'' os = []"
  | (full) os x where "\<not> length (ps_in_flight ps) < kMaxGetdataInFlight" "x \<noteq> pid"
      "bp_peers (schedule_getdata nl now h p) = bp_peers p \<or>
       (\<exists>qs. map_of (bp_peers p) x = Some qs \<and>
         bp_peers (schedule_getdata nl now h p) = AList.update x (put_in_flight h now qs) (bp_peers p))"
      "bp_sent (schedule_getdata nl now h p) = bp_sent p @ os" "picks pid ''block.getdata'' os = []"
proof -
  have mem: "(pid, ps) \<in> set (bp_peers p)" using ps(1) by (rule map_of_SomeD)
  have "\<forall>(x, qs)\<in>set (bp_peers p). x \<noteq> pid \<longrightarrow> h \<notin> set (ps_known qs) \<and> h \<notin> set (ps_in_flight qs)"
    using others by (fastforce simp: others_apart_def)
  note known = choose_known_only [OF p(2) mem ps(2,3) this]
  have dht: "\<exists>os. bp_peers (dht_search nl now h q) = bp_peers q \<and> bp_sent (dht_search nl now h q) = bp_sent q @ os \<and>
      picks pid ''block.getdata'' os = []" for q
    by (auto simp: dht_search_def dht_announce_def intro: exI [of _ "[]"])
  have sched: "schedule_getdata nl now h p = (let (to, q) = ask_peer h now p in dht_search nl now h
      (if to = [] then q else send_request to ''block.getdata'' (hashes_json ''hashes'' [h]) q))"
    using known new by (simp add: schedule_getdata_def Let_def split: if_splits)
  show thesis
  proof (cases "length (ps_in_flight ps) < kMaxGetdataInFlight")
    case True
    let ?q = "send_request pid ''block.getdata'' (hashes_json ''hashes'' [h]) (update_peer pid (put_in_flight h now) p)"
    have "ask_peer h now p = (pid, update_peer pid (put_in_flight h now) p)"
      using known True p(3) by (simp add: ask_peer_def)
    then have s: "schedule_getdata nl now h p = dht_search nl now h ?q" using sched p(3) by simp
    obtain os where os: "bp_peers (dht_search nl now h ?q) = bp_peers ?q" "bp_sent (dht_search nl now h ?q) = bp_sent ?q @ os"
      "picks pid ''block.getdata'' os = []" using dht by blast
    show thesis
      by (rule asked [OF True _ _ os(3)])
        (use os(1,2) p(1,3) ps(1) in \<open>simp_all add: s send_request_def update_peer_def value_or_def\<close>)
  next
    case False
    let ?x = "choose_slack [] kMaxGetdataInFlight (bp_peers p)"
    have none: "choose_known h (bp_peers p) = No_choice" using known False by simp
    show thesis
    proof (cases "?x = []")
      case True
      then have s: "schedule_getdata nl now h p = dht_search nl now h p" using sched none by (simp add: ask_peer_def)
      obtain os where "bp_peers (dht_search nl now h p) = bp_peers p" "bp_sent (dht_search nl now h p) = bp_sent p @ os"
        "picks pid ''block.getdata'' os = []" using dht by blast
      then show thesis using full [OF False, of "[]" os] p(3) by (simp add: s)
    next
      case slack: False
      obtain qs where qs: "map_of (bp_peers p) ?x = Some qs" "length (ps_in_flight qs) < kMaxGetdataInFlight"
        using choose_slack_room [OF p(2), of "[]" kMaxGetdataInFlight] slack by auto
      with False ps(1) have x: "?x \<noteq> pid" by auto
      let ?q = "send_request ?x ''block.getdata'' (hashes_json ''hashes'' [h]) (update_peer ?x (put_in_flight h now) p)"
      have s: "schedule_getdata nl now h p = dht_search nl now h ?q"
        using sched none slack by (simp add: ask_peer_def Let_def)
      obtain os where os: "bp_peers (dht_search nl now h ?q) = bp_peers ?q" "bp_sent (dht_search nl now h ?q) = bp_sent ?q @ os"
        "picks pid ''block.getdata'' os = []" using dht by blast
      show thesis
        by (rule full [OF False x, of "Send ?x ''block.getdata'' (hashes_json ''hashes'' [h]) # os"])
          (use os p(1) slack x qs(1) in \<open>simp_all add: s send_request_def update_peer_def value_or_def\<close>)
    qed
  qed
qed

text \<open>How far the requests have got: \<open>got\<close> has been gone through, and the first 16 of it are asked for.\<close>

definition asking :: "string \<Rightarrow> hash256 list \<Rightarrow> hash256 list \<Rightarrow> propagator \<Rightarrow> propagator \<Rightarrow> bool" where
  "asking pid hs got p0 p \<longleftrightarrow> bp_client p \<and> distinct (map fst (bp_peers p)) \<and> bp_chain p = bp_chain p0 \<and>
     others_apart pid (set hs) (set hs - set got) (bp_peers p) \<and>
     (\<exists>ps os. map_of (bp_peers p) pid = Some ps \<and> set hs \<subseteq> set (ps_known ps) \<and>
        set (ps_in_flight ps) = set (take 16 got) \<and> distinct (ps_in_flight ps) \<and>
        peer_view p0 pid = Some ([], ps_hello_received ps, ps_tip_weight ps, ps_tip_height ps) \<and>
        bp_sent p = bp_sent p0 @ os \<and>
        picks pid ''block.getdata'' os = map (\<lambda>h. hashes_json ''hashes'' [h]) (take 16 got))"

lemma asking_result:
  assumes "asking pid hs got p0 p"
  shows "sent_to pid ''block.getdata'' p0 p = map (\<lambda>h. hashes_json ''hashes'' [h]) (take 16 got)"
    and "bp_client p"
    and "\<exists>fl more. peer_view p pid = Some (fl, more) \<and> set fl = set (take 16 got) \<and> peer_view p0 pid = Some ([], more)"
proof -
  obtain ps os where "map_of (bp_peers p) pid = Some ps" "set (ps_in_flight ps) = set (take 16 got)"
      "peer_view p0 pid = Some ([], ps_hello_received ps, ps_tip_weight ps, ps_tip_height ps)"
      "bp_sent p = bp_sent p0 @ os"
      "picks pid ''block.getdata'' os = map (\<lambda>h. hashes_json ''hashes'' [h]) (take 16 got)"
    using assms unfolding asking_def by blast
  then show "sent_to pid ''block.getdata'' p0 p = map (\<lambda>h. hashes_json ''hashes'' [h]) (take 16 got)"
    "\<exists>fl more. peer_view p pid = Some (fl, more) \<and> set fl = set (take 16 got) \<and> peer_view p0 pid = Some ([], more)"
    by (simp_all add: sent_to_emit peer_view_def)
qed (use assms in \<open>simp add: asking_def\<close>)

lemma others_apart_update:
  assumes "others_apart pid H todo peers" and "h \<notin> todo'" and "todo' \<subseteq> todo"
    and "x = pid \<or> map_of peers x = Some qs \<and> ps = put_in_flight h now qs"
  shows "others_apart pid H todo' (AList.update x ps peers)"
proof -
  have "H \<inter> set (ps_known rs) = {} \<and> todo' \<inter> set (ps_in_flight rs) = {}"
    if y: "(y, rs) \<in> set (AList.update x ps peers)" "y \<noteq> pid" for y rs
  proof (cases "(y, rs) \<in> set peers")
    case True
    then show ?thesis using assms(1,3) y(2) by (fastforce simp: others_apart_def)
  next
    case False
    then have "y = x" "rs = ps" using in_set_update [OF y(1)] by auto
    with y(2) assms(4) have "(x, qs) \<in> set peers" "rs = put_in_flight h now qs" by (auto dest: map_of_SomeD)
    with assms(1-3) y(2) \<open>y = x\<close> show ?thesis by (fastforce simp: others_apart_def)
  qed
  then show ?thesis by (auto simp: others_apart_def)
qed

lemma others_apart_less: "others_apart pid H todo peers \<Longrightarrow> todo' \<subseteq> todo \<Longrightarrow> others_apart pid H todo' peers"
  by (fastforce simp: others_apart_def)

lemma schedule_client: "bp_client (schedule_getdata nl now h p) = bp_client p"
proof -
  have "bp_client (snd (ask_peer h now q)) = bp_client q" for q
    by (simp add: ask_peer_def Let_def split: choice.split)
  then show ?thesis
    by (simp add: schedule_getdata_def dht_search_def dht_announce_def send_request_def Let_def case_prod_beta)
qed

lemma asking_step:
  assumes a: "asking pid hs got p0 p" and h: "h \<in> set hs" "h \<notin> set got" and d: "distinct got"
    and new: "get_block_height (ch_stage (bp_chain p0)) h = None" and pid: "pid \<noteq> []"
  shows "asking pid hs (got @ [h]) p0 (schedule_getdata nl now h p)"
proof -
  let ?q = "schedule_getdata nl now h p"
  have p: "bp_client p" "distinct (map fst (bp_peers p))" "bp_chain p = bp_chain p0"
      "others_apart pid (set hs) (set hs - set got) (bp_peers p)"
    using a by (simp_all add: asking_def)
  obtain ps os where ps: "map_of (bp_peers p) pid = Some ps" "set hs \<subseteq> set (ps_known ps)"
      "set (ps_in_flight ps) = set (take 16 got)" "distinct (ps_in_flight ps)"
      "peer_view p0 pid = Some ([], ps_hello_received ps, ps_tip_weight ps, ps_tip_height ps)"
      "bp_sent p = bp_sent p0 @ os"
      "picks pid ''block.getdata'' os = map (\<lambda>h. hashes_json ''hashes'' [h]) (take 16 got)"
    using a unfolding asking_def by blast
  have len: "length (ps_in_flight ps) = min 16 (length got)"
    using distinct_card [OF ps(4)] distinct_card [OF distinct_take [OF d, of 16]] ps(3) by simp
  have fresh: "h \<notin> set (ps_in_flight ps)" using h(2) ps(3) by (auto dest: in_set_takeD)
  have chain: "bp_chain ?q = bp_chain p0" "bp_client ?q"
    using p(1,3) keeps_schedule [of undefined p nl now h] by (simp_all add: schedule_client keeps_def)
  have k: "h \<in> set (ps_known ps)" using h(1) ps(2) by blast
  have todo: "set hs - set (got @ [h]) \<subseteq> set hs - set got" "h \<notin> set hs - set (got @ [h])" by auto
  have here: "get_block_height (ch_stage (bp_chain p)) h = None" "h \<in> set hs - set got" using new p(3) h by simp_all
  show ?thesis
    using p(1,2) pid ps(1) k fresh here(1) p(4) h(1) here(2)
  proof (cases rule: schedule_asks [where nl = nl and now = now])
    case (asked os')
    then have "length got < 16" using len by (simp add: kMaxGetdataInFlight_def)
    with asked(2-4) ps fresh chain p(2) others_apart_update [OF p(4) todo(2,1), of pid] show ?thesis
      by (auto simp: asking_def distinct_update update_conv' simp del: map_of_eq_Some_iff)
  next
    case (full os' x)
    then have "take 16 (got @ [h]) = take 16 got" using len by (simp add: kMaxGetdataInFlight_def)
    moreover have "others_apart pid (set hs) (set hs - set (got @ [h])) (bp_peers ?q)"
      using full(3)
    proof (elim disjE exE conjE)
      fix qs assume "map_of (bp_peers p) x = Some qs"
        and "bp_peers ?q = AList.update x (put_in_flight h now qs) (bp_peers p)"
      then show ?thesis using others_apart_update [OF p(4) todo(2,1), of x qs "put_in_flight h now qs" now] by simp
    qed (use others_apart_less [OF p(4) todo(1)] in simp)
    moreover have "map_of (bp_peers ?q) pid = Some ps" using full(2,3) ps(1) by (auto simp: update_conv')
    moreover have "distinct (map fst (bp_peers ?q))" using full(3) p(2) by (auto simp: distinct_update)
    ultimately show ?thesis
      using full(4,5) ps chain by (auto simp: asking_def)
  qed
qed

lemma asking_all:
  assumes "asking pid hs got p0 p" and "set rest \<subseteq> set hs" and "distinct (got @ rest)"
    and "\<forall>h\<in>set hs. get_block_height (ch_stage (bp_chain p0)) h = None" and "pid \<noteq> []"
  shows "asking pid hs (got @ rest) p0 (fold (schedule_getdata nl now) rest p)"
  using assms
proof (induction rest arbitrary: got p)
  case (Cons h rest)
  have "asking pid hs (got @ [h]) p0 (schedule_getdata nl now h p)"
    using Cons.prems by (intro asking_step [OF Cons.prems(1)]) auto
  from Cons.IH [OF this] Cons.prems show ?case by simp
qed simp

text \<open>After an announcement of unknown blocks, each of the first 16 is asked for from the peer that
  announced them, in a request of its own.\<close>

lemma on_inv_asks:
  fixes hs pid nl now p
  defines "q \<equiv> snd (on_inv nl now pid (hashes_json ''hashes'' hs) p)"
  assumes p: "bp_client p" "distinct (map fst (bp_peers p))" "pid \<noteq> []"
    and hs: "distinct hs" "hs \<noteq> []" "\<forall>h\<in>set hs. get_block_height (ch_stage (bp_chain p)) h = None"
    and ps: "map_of (bp_peers p) pid = Some ps" "ps_in_flight ps = []"
    and others: "others_apart pid (set hs) (set hs) (bp_peers p)"
  shows "asking pid hs hs p q"
proof -
  have news: "filter (\<lambda>h. get_block_height (ch_stage (bp_chain p)) h = None) hs = hs" using hs(3) by simp
  define r where "r = (update_peer pid (\<lambda>ps. ps\<lparr>ps_known := fold List.insert hs (ps_known ps)\<rparr>) p)
      \<lparr>bp_expected := push_all hs (bp_expected p)\<rparr>"
  have q: "q = fold (schedule_getdata nl now) hs r"
    using hs(2) by (simp add: q_def on_inv_def parse_hashes_json news r_def push_all_def Let_def)
  let ?ps = "ps\<lparr>ps_known := fold List.insert hs (ps_known ps)\<rparr>"
  have peers: "bp_peers r = AList.update pid ?ps (bp_peers p)" by (simp add: r_def update_peer_def ps(1) value_or_def)
  have same: "bp_client r = bp_client p" "bp_chain r = bp_chain p" "bp_sent r = bp_sent p" by (simp_all add: r_def)
  have known: "set hs \<subseteq> set (fold List.insert hs xs)" for xs
  proof -
    have "set (fold List.insert hs xs) = set hs \<union> set xs" by (induction hs arbitrary: xs) auto
    then show ?thesis by simp
  qed
  have "others_apart pid (set hs) (set hs - set []) (bp_peers r)"
    using others by (auto simp: peers others_apart_def dest!: in_set_update)
  then have "asking pid hs [] p r"
    using p(1,2) known ps same by (auto simp: asking_def peers distinct_update peer_view_def update_conv')
  from asking_all [OF this, of hs nl now] show ?thesis using hs(1,3) p(3) by (simp add: q)
qed

section \<open>What is answered, and what arrives\<close>

text \<open>Each request for one block is answered with that block.\<close>

lemma serve_each:
  assumes "list_all2 (\<lambda>h b. get_block s h = Some b) hs bs" and "ch_stage (bp_chain p) = s"
    and "bp_client p" and "pid \<noteq> []"
  shows "fold (\<lambda>body q. snd (on_getdata nl pid body q)) (map (\<lambda>h. hashes_json ''hashes'' [h]) hs) p =
    emit (map (\<lambda>e. Send pid ''block.data'' (data_json nl e)) (zip hs bs)) p"
  using assms
proof (induction hs bs arbitrary: p rule: list_all2_induct)
  case (Cons h hs b bs)
  have "snd (on_getdata nl pid (hashes_json ''hashes'' [h]) p) = emit [Send pid ''block.data'' (data_json nl (h, b))] p"
    using serve_sends [of s "[h]" "[b]" p 0 pid nl] Cons.hyps Cons.prems
    by (simp add: on_getdata_def parse_hashes_json value_or_Some case_prod_beta Let_def)
  with Cons.IH [of "emit [Send pid ''block.data'' (data_json nl (h, b))] p"] Cons.prems show ?case by simp
qed simp

lemma data_json_of:
  assumes "nl_b64_decode nl (nl_b64_encode nl (Block_serialize (snd d))) = Block_serialize (snd d)"
    and "nl_b64_encode nl (Block_serialize (snd d)) \<noteq> []"
  shows "data_of nl (data_json nl d) = Some (fst d, Block_serialize (snd d))"
proof -
  have "parse_hash256 (hex_hash h) = Some h" for h using parse_hash256_to_hex by (simp add: hex_hash_def)
  then show ?thesis
    using assms Block_serialize_nonempty
    by (cases d) (simp add: data_of_def data_json_def json_value_string_def json_object_def)
qed

text \<open>What is delivered is no longer in flight.\<close>

lemma deliver_view:
  assumes lib: "\<And>x. nl_b64_decode nl (nl_b64_encode nl x) = x" "\<And>x. x \<noteq> [] \<Longrightarrow> nl_b64_encode nl x \<noteq> []"
  shows "peer_view (fold (\<lambda>m q. snd (on_data c nl pid m q)) (map (data_json nl) ds) p) pid =
      map_option (\<lambda>(fl, more). (filter (\<lambda>h. h \<notin> fst ` set ds) fl, more)) (peer_view p pid) \<and>
    bp_client (fold (\<lambda>m q. snd (on_data c nl pid m q)) (map (data_json nl) ds) p) = bp_client p"
proof (induction ds arbitrary: p)
  case Nil
  show ?case by (cases "peer_view p pid") auto
next
  case (Cons d ds)
  let ?q = "snd (on_data c nl pid (data_json nl d) p)"
  have q: "?q = snd (ingest_block_bytes c (Block_serialize (snd d)) (fst d) (delivered pid (fst d) p))"
    using lib Block_serialize_nonempty by (simp add: on_data_eq data_json_of)
  have "bp_client (snd (ingest_block_bytes c x h r)) = bp_client r" for x h r
    by (simp add: ingest_block_bytes_def split: option.split)
  then have client: "bp_client ?q = bp_client p" by (simp add: q delivered_def)
  have "peer_view (snd (ingest_block_bytes c x h r)) = peer_view r" for x h r
    using ingest_laws(3) [of c x h r] by (simp add: peer_view_def fun_eq_iff)
  then have "peer_view ?q pid = map_option (\<lambda>(fl, more). (removeAll (fst d) fl, more)) (peer_view p pid)"
    by (cases "map_of (bp_peers p) pid")
      (simp_all add: q delivered_def peer_view_def update_peer_def value_or_def update_conv')
  with client Cons.IH [of ?q] show ?case
    by (cases "peer_view p pid") (auto simp: removeAll_filter_not_eq intro: filter_cong)
qed

text \<open>A peer that is still ahead, and has nothing in flight, is asked to go on.\<close>

lemma followup_sent:
  assumes "peer_view p pid = Some ([], True, w, th)" and "peer_ahead (ch_tip (bp_chain p)) w th"
    and "bp_client p" and "pid \<noteq> []"
  shows "locator_json p \<in> set (sent_to pid ''block.getblocks'' p (ask_followups p))"
proof -
  have send: "\<exists>os. fold (\<lambda>pid. send_request pid v b) pids q = emit os q \<and>
      (pid \<in> set pids \<and> bp_client q \<longrightarrow> b \<in> set (picks pid v os))" for v b pids q
  proof (induction pids arbitrary: q)
    case Nil
    show ?case by (intro exI [of _ "[]"]) simp
  next
    case (Cons x pids)
    show ?case
    proof (cases "bp_client q \<and> x \<noteq> []")
      case True
      obtain os where os: "fold (\<lambda>pid. send_request pid v b) pids (emit [Send x v b] q) = emit os (emit [Send x v b] q)"
        "pid \<in> set pids \<and> bp_client q \<longrightarrow> b \<in> set (picks pid v os)" using Cons.IH [of "emit [Send x v b] q"] by auto
      moreover have "send_request x v b q = emit [Send x v b] q" using True by (simp add: send_request_def)
      ultimately show ?thesis by (intro exI [of _ "Send x v b # os"]) auto
    next
      case False
      then have "send_request x v b q = q" by (auto simp: send_request_def)
      then show ?thesis using Cons.IH [of q] assms(4) False by auto
    qed
  qed
  obtain ps where ps: "map_of (bp_peers p) pid = Some ps" "ps_in_flight ps = []" "ps_hello_received ps"
      "ps_tip_weight ps = w" "ps_tip_height ps = th" using assms(1) by (auto simp: peer_view_def)
  let ?pids = "map fst (filter (\<lambda>(_, ps). ps_hello_received ps \<and>
      peer_ahead (ch_tip (bp_chain p)) (ps_tip_weight ps) (ps_tip_height ps) \<and> ps_in_flight ps = []) (bp_peers p))"
  have "pid \<in> set ?pids" using ps assms(2) by (force dest!: map_of_SomeD)
  moreover obtain os where os: "fold (\<lambda>pid. send_request pid ''block.getblocks'' (locator_json p)) ?pids p = emit os p"
      "pid \<in> set ?pids \<and> bp_client p \<longrightarrow> locator_json p \<in> set (picks pid ''block.getblocks'' os)"
    using send by blast
  moreover have "ask_followups p = emit os p" using os(1) by (simp add: ask_followups_def Let_def)
  ultimately show ?thesis using assms(3) by (simp add: sent_to_emit)
qed

lemma push_all_prefix: "distinct hs \<Longrightarrow> push_all hs (take m hs) = hs"
proof -
  assume d: "distinct hs"
  have known: "push_all xs ys = ys" if "set xs \<subseteq> set ys" for xs ys
    using that by (induction xs) (auto simp: push_all_def)
  have "set (drop m hs) \<inter> set (take m hs) = {}"
    using d set_take_disj_set_drop_if_distinct [of hs m m] by (simp add: Int_commute)
  then have "push_all (drop m hs) (take m hs) = take m hs @ drop m hs"
    using d by (intro push_all_fresh) simp_all
  moreover have "push_all (take m hs @ drop m hs) (take m hs) = push_all (drop m hs) (push_all (take m hs) (take m hs))"
    by (simp only: push_all_def fold_append comp_def)
  ultimately show ?thesis using known [of "take m hs" "take m hs"] by simp
qed

lemma zip_hashes:
  "map f bs = hs \<Longrightarrow> map fst (zip hs bs) = hs \<and> (\<forall>(h, b)\<in>set (zip hs bs). f b = h \<and> b \<in> set bs)"
  by (auto simp: zip_map1 zip_same_conv_map)

lemma delivered_hashes:
  assumes "data_json nl ` set ds = data_json nl ` set zs"
  shows "fst ` set ds = fst ` set zs"
proof -
  have sub: "fst ` A \<subseteq> fst ` B" if "data_json nl ` A = data_json nl ` B" for A B
  proof
    fix h assume "h \<in> fst ` A"
    then obtain e where e: "e \<in> A" "h = fst e" by blast
    have "data_json nl e \<in> data_json nl ` B" unfolding that [symmetric] using e(1) by (rule imageI)
    then obtain d where "data_json nl e = data_json nl d" "d \<in> B" by (rule imageE)
    with e(2) data_json_fst show "h \<in> fst ` B" by (metis imageI)
  qed
  show ?thesis by (rule subset_antisym [OF sub [OF assms] sub [OF assms [symmetric]]])
qed

text \<open>The pass of the apply loop after a round: the blocks that arrived are connected, and a peer that
  is still ahead is sent the next locator.\<close>

lemma pass_applies:
  fixes p c nl an
  defines "q \<equiv> apply_pass c nl an p"
  assumes expected: "bp_expected p = map (Block_hash c) bs @ rest" "distinct (map (Block_hash c) bs @ rest)" "bs \<noteq> []"
    and buffer: "set (bp_pending p) \<subseteq> set (zip (map (Block_hash c) bs) bs)"
      "Block_hash c ` set bs \<subseteq> fst ` set (bp_pending p)"
    and good: "connect_all c an bs (bp_chain p) = Some ch"
    and view: "peer_view p pid = Some ([], hello, w, th)" "bp_client p" "pid \<noteq> []"
  shows "bp_chain q = ch \<and> bp_expected q = rest \<and> bp_pending q = [] \<and>
    (hello \<and> peer_ahead (ch_tip ch) w th \<longrightarrow> locator_json q \<in> set (sent_to pid ''block.getblocks'' p q))"
proof -
  let ?d = "snd (apply_drain c nl an False p)"
  have keys: "fst ` set (bp_pending p) \<subseteq> Block_hash c ` set bs" using buffer(1) by (auto dest!: set_zip_leftD)
  have pend: "\<forall>b\<in>set bs. map_of (bp_pending p) (Block_hash c b) = Some b"
  proof
    fix b assume b: "b \<in> set bs"
    then have "(Block_hash c b, b) \<in> set (zip (map (Block_hash c) bs) bs)" by (auto simp: in_set_zip in_set_conv_nth)
    with buffer b expected(2) show "map_of (bp_pending p) (Block_hash c b) = Some b"
      by (intro map_of_within [of _ "zip (map (Block_hash c) bs) bs"]) auto
  qed
  have "rest = [] \<or> map_of (bp_pending p) (hd rest) = None"
  proof (cases rest)
    case (Cons h _)
    then have "h \<notin> Block_hash c ` set bs" using expected(2) by auto
    with keys Cons show ?thesis by (auto simp: map_of_eq_None_iff)
  qed simp
  note d = drain_connects [OF expected(1) _ pend this good, of nl False]
  have q: "q = ask_followups ?d" using d expected(2,3) by (simp add: q_def apply_pass_def case_prod_beta)
  have "{e \<in> set (bp_pending p). fst e \<notin> Block_hash c ` set bs} = {}" using keys by blast
  with d expected(2) followups_keep have fin: "bp_chain q = ch \<and> bp_expected q = rest \<and> bp_pending q = []"
    by (simp add: q)
  have "locator_json q \<in> set (sent_to pid ''block.getblocks'' p q)" if "hello" "peer_ahead (ch_tip ch) w th"
  proof -
    obtain os where os: "bp_sent ?d = bp_sent p @ os" using d expected(2) by (auto simp: sends_more_def)
    obtain os' where os': "ask_followups ?d = emit os' ?d"
      using sends_cases unfolding ask_followups_def Let_def by blast
    have "locator_json ?d \<in> set (sent_to pid ''block.getblocks'' ?d (ask_followups ?d))"
      by (rule followup_sent) (use d expected(2) that view in simp_all)
    moreover have "locator_json q = locator_json ?d" using fin d expected(2) by (simp add: locator_json_def)
    ultimately show ?thesis using os os' by (simp add: q sent_to_emit)
  qed
  with fin show ?thesis by blast
qed

end
