(* ===== verification/Sync_Properties.thy ===== *)
theory Sync_Properties
  imports Sync_Round Node_Properties
begin

text \<open>
  Properties of block distribution: what its state satisfies in every run, that the locator ends and
  what it is answered with, that a round of sync catches up, that an isolated node is silent, and
  two ways in which blocks are lost.
\<close>

section \<open>Every run\<close>

text \<open>C20. In every run of a block propagator, whatever its peers send and in whatever order its tables
  are walked: a peer has at most 16 blocks in flight, the held announcements are at most 4096,
  nothing is listed twice in any table, and every block in the buffer is valid and stored under its
  own hash. A maintenance pass leaves no peer with more than 8192 known hashes. Those are all the
  bounds there are: between two passes the known hashes, and at all times the expected sequence and
  the buffer, grow with what peers send, and the announced hashes with the chain.\<close>

theorem sync_state_well_formed:
  assumes "sync_run c nl cfg an ch p"
  shows "(\<forall>(pid, ps)\<in>set (bp_peers p). length (ps_in_flight ps) \<le> 16 \<and> distinct (ps_in_flight ps) \<and>
      distinct (ps_known ps)) \<and>
    distinct (map fst (bp_peers p)) \<and>
    (\<forall>(h, b)\<in>set (bp_pending p). Block_hash c b = h \<and> Block_validate c b) \<and>
    distinct (map fst (bp_pending p)) \<and> distinct (bp_expected p) \<and>
    length (bp_pending_announce p) \<le> 4096 \<and>
    distinct (bp_announced p) \<and> distinct (map fst (bp_dht_searched p)) \<and> distinct (map fst (bp_last_hello p)) \<and>
    (\<forall>(pid, ps)\<in>set (bp_peers (sync_step c nl cfg an now Maintain p)). length (ps_known ps) \<le> 8192)"
  using sync_ok_run [OF assms]
  by (auto simp: sync_ok_def peers_ok_def peer_ok_def buffer_ok_def kMaxGetdataInFlight_def
      kPendingAnnounceCap_def maintain_pass_def kKnownCap_def)

text \<open>What no code bounds: one peer makes the expected sequence as long as it likes, with hashes of
  blocks that need not exist.\<close>

lemma expected_grows:
  assumes "\<forall>h\<in>set hs. get_block_height (ch_stage (bp_chain p)) h = None" and "distinct (bp_expected p @ hs)"
  shows "length (bp_expected (snd (on_inv nl now pid (hashes_json ''hashes'' hs) p))) = length (bp_expected p) + length hs"
proof -
  have "news_of (hashes_json ''hashes'' hs) (bp_chain p) = hs"
    using assms(1) by (simp add: news_of_def parse_hashes_json)
  then show ?thesis
    using on_inv_laws(4) [of nl now pid "hashes_json ''hashes'' hs" p] push_all_fresh [of hs "bp_expected p"] assms(2)
    by (simp add: Int_commute)
qed

definition toy_netlib :: netlib where
  "toy_netlib = \<lparr>nl_sha1 = id, nl_b64_encode = bytes_str, nl_b64_decode = str_bytes\<rparr>"

definition toy_config :: node_config where
  "toy_config = \<lparr>cf_node_id = 0, cf_sync_seeds = [''example.org:7777''], cf_dht_bootstrap_hash = []\<rparr>"

definition synced :: "chain \<Rightarrow> event list \<Rightarrow> propagator" where
  "synced ch es = fold (sync_step toy_crypto toy_netlib toy_config True 0) es (propagator_new ch)"

lemma synced_run: "sync_run toy_crypto toy_netlib toy_config True ch (synced ch es)"
proof -
  have "sync_run toy_crypto toy_netlib toy_config True ch (fold (sync_step toy_crypto toy_netlib toy_config True 0) es p)"
    if "sync_run toy_crypto toy_netlib toy_config True ch p" for p
    using that by (induction es arbitrary: p) (auto intro: sync_run.event)
  then show ?thesis unfolding synced_def by (simp add: sync_run.fresh)
qed

theorem sync_state_well_formed_witness:
  "distinct (bp_expected (synced genesis [Start True, Connected ''a'', Request ''a'' ''block.inv''
     (hashes_json ''hashes'' [mk_arr [1], mk_arr [1], mk_arr [2]]), Stall]))"
  using sync_state_well_formed [OF synced_run] by blast

section \<open>Locators\<close>

text \<open>C32. The locator loop, whose step is a 32-bit word that doubles and could wrap to zero, ends for
  every chain; it lists at most 41 hashes, each of a block at some height up to the tip, and
  starts with the tip.\<close>

theorem locator_ends:
  "\<exists>locator. build_locator ch = Some locator \<and> length locator \<le> 41 \<and>
    (\<forall>x\<in>set locator. \<exists>n\<le>tip_height (ch_tip ch). get_block_hash (ch_stage ch) n = Some x) \<and>
    (tip_hash (ch_tip ch) \<noteq> 0 \<and> get_block_hash (ch_stage ch) (tip_height (ch_tip ch)) = Some h \<longrightarrow>
       locator \<noteq> [] \<and> hd locator = h)"
proof -
  obtain xs where xs: "build_locator ch = Some xs" "length xs \<le> 41"
      "rows_below (ch_stage ch) (uint (tip_height (ch_tip ch))) xs"
      "tip_hash (ch_tip ch) \<noteq> 0 \<and> get_block_hash (ch_stage ch) (tip_height (ch_tip ch)) = Some h \<longrightarrow>
       xs \<noteq> [] \<and> hd xs = h"
    using build_locator_laws by blast
  have "\<exists>n\<le>tip_height (ch_tip ch). get_block_hash (ch_stage ch) n = Some x" if x: "x \<in> set xs" for x
  proof -
    obtain n where n: "0 \<le> n" "n \<le> uint (tip_height (ch_tip ch))" "get_block_hash (ch_stage ch) (word_of_int n) = Some x"
      using bspec [OF xs(3) [unfolded rows_below_def] x] by blast
    have "n < 2 ^ 32" using n(2) uint_lt2p [of "tip_height (ch_tip ch)"] by simp
    then have "uint (word_of_int n :: u32) = n"
      using n(1) by (simp add: unsigned_of_int take_bit_int_eq_self)
    with n show ?thesis by (intro exI [of _ "word_of_int n"]) (simp add: word_le_def)
  qed
  with xs show ?thesis by blast
qed


text \<open>A chain of nine blocks of which the rows of the last two are at hand.\<close>

definition nine_rows :: "(string \<times> bytes) list" where
  "nine_rows = [(height_key 8, arr_bytes (mk_arr [8] :: hash256)), (height_key 9, arr_bytes (mk_arr [9] :: hash256)),
     (block_height_key (mk_arr [8]), le_bytes 4 (8 :: u32)), (block_height_key (mk_arr [9]), le_bytes 4 (9 :: u32))]"

definition nine_chain :: chain where
  "nine_chain = (genesis_with nine_rows)\<lparr>ch_tip :=
     \<lparr>tip_hash = mk_arr [9], tip_height = 9, tip_timestamp_ms = 5, tip_weight = 7\<rparr>\<rparr>"

lemma nine_get: "key_class k \<noteq> Some ''sr:'' \<Longrightarrow> db_get (ch_stage nine_chain) k = map_of (rev nine_rows) k"
  using genesis_with_get [of k nine_rows] by (simp add: nine_chain_def db_get_def ch_store_def)

lemma nine_tip: "get_block_hash (ch_stage nine_chain) 9 = Some (mk_arr [9])"
  by (simp add: get_block_hash_def read_hash_row_def nine_get key_class_def height_key_def nine_rows_def
      block_height_key_def)

theorem locator_ends_witness:
  "\<exists>locator. build_locator nine_chain = Some locator \<and> locator \<noteq> [] \<and> hd locator = mk_arr [9]"
proof -
  have "(mk_arr [9] :: hash256) \<noteq> 0" by (rule mk_arr_nonzero) simp_all
  then have "tip_hash (ch_tip nine_chain) \<noteq> 0 \<and>
      get_block_hash (ch_stage nine_chain) (tip_height (ch_tip nine_chain)) = Some (mk_arr [9])"
    using nine_tip by (simp add: nine_chain_def)
  with locator_ends [of nine_chain "mk_arr [9]"] show ?thesis by blast
qed

text \<open>The blocks of the chain after a height, as many as an answer has room for.\<close>

definition blocks_after :: "chain \<Rightarrow> u32 \<Rightarrow> hash256 option list" where
  "blocks_after ch n = map (\<lambda>i. get_block_hash (ch_stage ch) (n + 1 + word_of_nat i))
     [0..<min 32 (unat (tip_height (ch_tip ch)) - unat n)]"

lemma hashes_from_blocks:
  assumes "rows_upto (ch_store ch) (tip_height (ch_tip ch))" and "unat (tip_height (ch_tip ch)) + 1 < 2 ^ 32"
    and "unat f + 1 < 2 ^ 32"
  shows "map Some (hashes_from (ch_stage ch) (tip_height (ch_tip ch)) 32 (f + 1)) = blocks_after ch f"
proof -
  let ?top = "tip_height (ch_tip ch)"
  have f1: "unat (f + 1) = unat f + 1" using assms(3) by (simp add: unat_word_ariths)
  have rows: "get_block_hash (ch_stage ch) h \<noteq> None" if "f + 1 \<le> h" "h \<le> ?top" for h
  proof -
    have "1 \<le> h" using that(1) f1 by (simp add: word_le_nat_alt)
    with that(2) assms(1) show ?thesis by (force simp: rows_upto_def get_block_hash_at ch_store_def)
  qed
  let ?hs = "hashes_from (ch_stage ch) ?top 32 (f + 1)"
  have len: "length ?hs = min 32 (unat ?top - unat f)"
    using length_hashes_from [OF rows assms(2)] f1 by simp
  show ?thesis
  proof (rule nth_equalityI)
    fix i assume "i < length (map Some ?hs)"
    then have i: "i < length ?hs" by simp
    from hashes_from_nth [OF this] i len show "map Some ?hs ! i = blocks_after ch f ! i"
      by (simp add: blocks_after_def)
  qed (simp add: len blocks_after_def)
qed

text \<open>C31. What a locator is answered with, on every chain a node reaches that is not marked as half
  replayed. When none of its hashes is known: the blocks from height 1. When the first that is
  known is on this chain, so that it is the fork: exactly the blocks that follow it, in order,
  without a gap, up to the tip or 32 of them. But a block that a reorganisation abandoned is still
  known: when the first known hash is such a block, the answer starts after its height all the
  same, and the blocks of this chain from the fork, deeper in the locator, up to that height are
  left out. (A comment of the header says that the fork point is a hash on the node's own chain.)\<close>

theorem answer_follows_the_fork:
  assumes "reachable c rows ch" and "kv_get (ch_store ch) sr_dirty_key = None"
    and "unat (tip_height (ch_tip ch)) + 1 < 2 ^ 32" and "unat f + 1 < 2 ^ 32"
    and "\<forall>x\<in>set newer. get_block_height (ch_stage ch) x = None"
  shows "map Some (hashes_after_locator ch newer) = blocks_after ch 0 \<and>
    (get_block_height (ch_stage ch) h = Some f \<and> get_block_hash (ch_stage ch) f = Some h \<longrightarrow>
       map Some (hashes_after_locator ch (newer @ h # older)) = blocks_after ch f) \<and>
    (get_block_height (ch_stage ch) h = Some f \<and> get_block_hash (ch_stage ch) f \<noteq> Some h \<and>
       x \<in> set older \<and> get_block_height (ch_stage ch) x = Some g \<and> get_block_hash (ch_stage ch) g = Some x \<and>
       g < f \<and> f < tip_height (ch_tip ch) \<longrightarrow>
       map Some (hashes_after_locator ch (newer @ h # older)) = blocks_after ch f \<and>
       hd (blocks_after ch f) = get_block_hash (ch_stage ch) (f + 1) \<and>
       hd (blocks_after ch g) = get_block_hash (ch_stage ch) (g + 1))"
proof -
  have inv: "healthy c ch" using reachable_inv [OF assms(1)] assms(2) by (simp add: chain_inv_def marked_def)
  then have rows: "rows_upto (ch_store ch) (tip_height (ch_tip ch))" by (simp add: healthy_def)
  have none: "fork_of_locator (ch_stage ch) newer = None"
    using assms(5) by (induction newer) simp_all
  have some: "fork_of_locator (ch_stage ch) (newer @ h # older) = Some f" if "get_block_height (ch_stage ch) h = Some f"
    using assms(5) that by (induction newer) simp_all
  have hd_after: "hd (blocks_after ch n) = get_block_hash (ch_stage ch) (n + 1)" if "n < tip_height (ch_tip ch)" for n
    using that by (simp add: blocks_after_def hd_map word_less_nat_alt)
  have zero: "unat (0 :: u32) + 1 < 2 ^ 32" by simp
  have from_start: "map Some (hashes_after_locator ch newer) = blocks_after ch 0"
    using hashes_from_blocks [OF rows assms(3) zero] none by (simp add: hashes_after_locator_def kMaxInvCount_def)
  have from_fork: "map Some (hashes_after_locator ch (newer @ h # older)) = blocks_after ch f"
    if "get_block_height (ch_stage ch) h = Some f"
    using hashes_from_blocks [OF rows assms(3,4)] some [OF that] by (simp add: hashes_after_locator_def kMaxInvCount_def)
  have "g < tip_height (ch_tip ch)" if "g < f" "f < tip_height (ch_tip ch)" using that by (rule order_less_trans)
  with from_start from_fork hd_after show ?thesis by blast
qed

lemma connect_tip:
  "connect_block c an b ch = (True, ch') \<Longrightarrow>
   tip_hash (ch_tip ch') = Block_hash c b \<and> tip_height (ch_tip ch') = tip_height (ch_tip ch) + 1"
  by (auto simp: connect_block_def refused_def Let_def case_prod_beta split: if_splits)

definition one_block :: chain where
  "one_block = snd (connect_block toy_crypto True (next_block genesis []) genesis)"

lemma one_block_connects: "connect_block toy_crypto True (next_block genesis []) genesis = (True, one_block)"
proof -
  have "ch_checkpoints genesis = Map.empty"
    using genesis_with_store(3) [of "[]"] by (simp add: genesis_with_def with_store_def)
  then show ?thesis unfolding one_block_def by (rule next_block_connects [rotated 2]) simp_all
qed

lemma one_block_height: "tip_height (ch_tip one_block) = 1"
  using connect_tip [OF one_block_connects] by (simp add: genesis_parts)

definition two_blocks :: chain where
  "two_blocks = snd (connect_block toy_crypto True (next_block one_block []) one_block)"

lemma two_blocks_connects: "connect_block toy_crypto True (next_block one_block []) one_block = (True, two_blocks)"
proof -
  have "ch_checkpoints genesis = Map.empty"
    using genesis_with_store(3) [of "[]"] by (simp add: genesis_with_def with_store_def)
  moreover have "blk_song (next_block genesis []) = None" by (simp add: next_block_def sample_block_def)
  ultimately have "ch_checkpoints one_block = Map.empty" by (intro plain_block_pins [OF one_block_connects]) simp_all
  then show ?thesis unfolding two_blocks_def by (rule next_block_connects [rotated 2]) simp_all
qed

definition block_one :: Block where
  "block_one = next_block genesis []"

definition block_two :: Block where
  "block_two = next_block one_block []"

lemma short_arr_eq:
  "(mk_arr xs :: hash256) = mk_arr ys \<longleftrightarrow>
     take 32 (xs @ replicate 32 0) = take 32 (ys @ replicate 32 0)"
proof -
  have "(mk_arr xs :: hash256) = mk_arr ys \<longleftrightarrow> arr_bytes (mk_arr xs :: hash256) = arr_bytes (mk_arr ys :: hash256)"
    by (metis mk_arr_arr_bytes)
  then show ?thesis by (simp add: arr_bytes_mk_arr_take)
qed

lemma connect_reads:
  assumes "kv_ok (ch_store ch)" and "connect_block c an blk ch = (True, ch')"
  shows "get_block (ch_stage ch') (Block_hash c blk) = Some blk \<and>
    get_block_hash (ch_stage ch') (next_height ch) = Some (Block_hash c blk) \<and>
    get_block_height (ch_stage ch') (Block_hash c blk) = Some (next_height ch)"
proof -
  obtain b t where r: "run_block c blk ch = (b, t)" by fastforce
  with assms(2) have b: "b" and ch': "ch' = connected c blk t ch"
    by (auto simp: connect_block_cases split: if_splits)
  show ?thesis
    using connected_reads(1-3) [OF assms(1) r [unfolded eqTrueI [OF b]] _ ch'] connect_block_needs [of c an blk ch]
      assms(2) by simp
qed

lemma height_connected:
  assumes "kv_ok (ch_store ch)" and "connect_block c an blk ch = (True, ch')"
  shows "get_block_height (ch_stage ch') x =
    (if x = Block_hash c blk then Some (next_height ch) else get_block_height (ch_stage ch) x)"
proof -
  obtain b t where r: "run_block c blk ch = (b, t)" by fastforce
  with assms(2) have ch': "ch' = connected c blk t ch"
    by (auto simp: connect_block_cases split: if_splits)
  have "db_get (ch_stage ch') (block_height_key x) =
      (if x = Block_hash c blk then Some (le_bytes 4 (next_height ch)) else db_get (ch_stage ch) (block_height_key x))"
    using connected_rows [OF assms(1) r, of "block_height_key x"] assms(1)
    by (simp add: db_get_def ch' flip: ch_store_def)
      (simp add: block_rows_def kv_write_def kv_get_put kv_ok_put block_key_def block_height_key_def weight_key_def
        height_key_def full_hash_key_def tip_key_def sr_vec_key_def)
  then show ?thesis by (simp add: get_block_height_def get_u32_def)
qed

lemma next_block_hash:
  "Block_hash toy_crypto (next_block ch []) = mk_arr ([4, 0, 0, 0] @ take 28 (arr_bytes (tip_hash (ch_tip ch))))"
proof -
  have "write_u32le 4 = [4, 0, 0, 0]" by code_simp
  then show ?thesis
    by (simp add: Block_hash_def BlockHeader_hash_def BlockHeader_serialize_def next_block_def sample_block_def mk_arr_def)
qed

lemma block_hashes:
  "Block_hash toy_crypto block_one = mk_arr [4]" "Block_hash toy_crypto block_two = mk_arr [4, 0, 0, 0, 4]"
proof -
  show one: "Block_hash toy_crypto block_one = mk_arr [4]"
    by (simp add: block_one_def next_block_hash genesis_parts arr_bytes_zero short_arr_eq eval_nat_numeral)
  have "tip_hash (ch_tip one_block) = mk_arr [4]"
    using connect_tip [OF one_block_connects] one by (simp add: block_one_def)
  then show "Block_hash toy_crypto block_two = mk_arr [4, 0, 0, 0, 4]"
    by (simp add: block_two_def next_block_hash arr_bytes_mk_arr_take short_arr_eq)
qed

lemma genesis_heights: "get_block_height (ch_stage genesis) h = None"
  using genesis_get [of "block_height_key h"]
  by (simp add: get_block_height_def get_u32_def db_get_def ch_store_def key_class_def block_height_key_def)

lemma two_blocks_reads:
  "tip_height (ch_tip two_blocks) = 2" "get_block_hash (ch_stage two_blocks) 1 = Some (mk_arr [4])"
  "get_block_hash (ch_stage two_blocks) 2 = Some (mk_arr [4, 0, 0, 0, 4])"
  "get_block_height (ch_stage two_blocks) x = (if x = mk_arr [4, 0, 0, 0, 4] then Some 2
     else if x = mk_arr [4] then Some 1 else None)"
proof -
  have kv: "kv_ok (ch_store one_block)"
    using reachable_kv_ok [of toy_crypto "[]"] unfolding one_block_def genesis_def
    by (blast intro: reachable.connect reachable.opened)
  note r1 = connect_reads [OF genesis_ok one_block_connects, folded block_one_def, unfolded block_hashes]
    and r2 = connect_reads [OF kv two_blocks_connects, folded block_two_def, unfolded block_hashes]
    and h1 = height_connected [OF genesis_ok one_block_connects, folded block_one_def, unfolded block_hashes]
    and h2 = height_connected [OF kv two_blocks_connects, folded block_two_def, unfolded block_hashes]
  have n: "next_height genesis = 1" "next_height one_block = 2"
    by (simp_all add: next_height_def genesis_parts one_block_height)
  show "tip_height (ch_tip two_blocks) = 2" using connect_tip [OF two_blocks_connects] one_block_height by simp
  show "get_block_hash (ch_stage two_blocks) 2 = Some (mk_arr [4, 0, 0, 0, 4])" using r2 n by simp
  show "get_block_height (ch_stage two_blocks) x = (if x = mk_arr [4, 0, 0, 0, 4] then Some 2
     else if x = mk_arr [4] then Some 1 else None)" using h1 h2 n genesis_heights by simp
  obtain ok t where run: "run_block toy_crypto block_two one_block = (ok, t)" by fastforce
  then have t: "two_blocks = connected toy_crypto block_two t one_block"
    using two_blocks_connects by (auto simp: block_two_def connect_block_cases split: if_splits)
  have "Block_ok block_two"
    using connect_block_needs [of toy_crypto True block_two one_block] two_blocks_connects
    by (auto simp: block_two_def intro: Block_validate_ok)
  then have "get_block_hash (ch_stage two_blocks) 1 = get_block_hash (ch_stage one_block) 1"
    using at_connected(2) [OF kv run, of 1] n(2) by (simp add: t get_block_hash_at ch_store_def)
  then show "get_block_hash (ch_stage two_blocks) 1 = Some (mk_arr [4])" using r1 n by simp
qed

text \<open>A chain of two blocks, asked with a locator of which it knows the second hash, its first block.\<close>

theorem answer_follows_the_fork_witness:
  "hashes_after_locator two_blocks [mk_arr [9], mk_arr [4]] = [Block_hash toy_crypto block_two]"
proof -
  have "reachable toy_crypto [] two_blocks"
    unfolding two_blocks_def one_block_def genesis_def by (intro reachable.connect reachable.opened)
  moreover have "kv_get (ch_store two_blocks) sr_dirty_key = None"
  proof -
    have kv: "kv_ok (ch_store one_block)"
      using reachable_kv_ok [of toy_crypto "[]"] unfolding one_block_def genesis_def
      by (blast intro: reachable.connect reachable.opened)
    show ?thesis
      using connect_mark [OF genesis_ok, of toy_crypto True "next_block genesis []"]
        connect_mark [OF kv, of toy_crypto True "next_block one_block []"] genesis_unmarked
      by (simp add: marked_def two_blocks_def one_block_def)
  qed
  moreover have "(mk_arr [9] :: hash256) \<noteq> mk_arr [4]" "(mk_arr [9] :: hash256) \<noteq> mk_arr [4, 0, 0, 0, 4]"
    by (simp_all add: short_arr_eq)
  moreover have "(mk_arr [4] :: hash256) \<noteq> mk_arr [4, 0, 0, 0, 4]"
    by (auto simp: short_arr_eq dest!: arg_cong [where f = "\<lambda>xs. xs ! 3"])
  ultimately have "map Some (hashes_after_locator two_blocks ([mk_arr [9]] @ mk_arr [4] # [])) = blocks_after two_blocks 1"
    using answer_follows_the_fork [of toy_crypto "[]" two_blocks 1 "[mk_arr [9]]" "mk_arr [4]" "[]"]
    by (simp add: two_blocks_reads)
  also have "\<dots> = [Some (Block_hash toy_crypto block_two)]"
    by (simp add: blocks_after_def two_blocks_reads block_hashes)
  finally show ?thesis by (simp add: map_eq_Cons_conv)
qed

text \<open>After a reorganisation from \<open>A1, A2\<close> to \<open>B1, B2, B3\<close>: the rows of the heights are those of the new
  branch, the rows of the hashes those of both. The answer to the old branch skips two blocks.\<close>

definition reorganised_rows :: "(string \<times> bytes) list" where
  "reorganised_rows =
     [(height_key 1, arr_bytes (mk_arr [1] :: hash256)), (height_key 2, arr_bytes (mk_arr [2] :: hash256)),
      (height_key 3, arr_bytes (mk_arr [3] :: hash256)),
      (block_height_key (mk_arr [65]), le_bytes 4 (1 :: u32)), (block_height_key (mk_arr [66]), le_bytes 4 (2 :: u32))]"

definition reorganised :: chain where
  "reorganised = (genesis_with reorganised_rows)\<lparr>ch_tip :=
     \<lparr>tip_hash = mk_arr [3], tip_height = 3, tip_timestamp_ms = 5, tip_weight = 7\<rparr>\<rparr>"

lemma stale_fork_skips: "hashes_after_locator reorganised [mk_arr [66], mk_arr [65]] = [mk_arr [3]]"
proof -
  have get: "db_get (ch_stage reorganised) k = map_of (rev reorganised_rows) k" if "key_class k \<noteq> Some ''sr:''" for k
    using genesis_with_get [OF that, of reorganised_rows] by (simp add: reorganised_def db_get_def ch_store_def)
  have "get_block_height (ch_stage reorganised) (mk_arr [66]) = Some 2"
    by (simp add: get_block_height_def get_u32_def get key_class_def block_height_key_def reorganised_rows_def)
  moreover have "get_block_hash (ch_stage reorganised) 3 = Some (mk_arr [3])"
    by (simp add: get_block_hash_def read_hash_row_def get key_class_def block_height_key_def height_key_def
        reorganised_rows_def)
  moreover have "tip_height (ch_tip reorganised) = 3" by (simp add: reorganised_def)
  moreover have "\<not> (4 :: u32) \<le> 3" by (simp add: word_le_nat_alt)
  ultimately show ?thesis
    by (simp add: hashes_after_locator_def kMaxInvCount_def eval_nat_numeral Let_def)
qed

section \<open>A round of sync\<close>

text \<open>C21. A round of sync between two connected nodes, message by message. The one ahead answers the
  locator of the other with the blocks that follow, at most 32. The one behind asks for them,
  in requests it really makes: one for each of the first 16, the room it allows a peer. Each
  request is answered with its block; and whatever the order in which the answers arrive, and
  however often, the next pass of the apply loop leaves the chain as if those blocks had been
  connected one after the other. Nothing is left in the buffer, what is still expected is what
  there was no room to ask for, and if the peer is still ahead it is sent the locator of the
  new chain, which begins the next round.\<close>

theorem sync_round_catches_up:
  fixes a b :: propagator and pid_a pid_b :: string and bs :: "Block list" and c nl ms now an
  defines "hs \<equiv> hashes_after_locator (bp_chain a) (value_or (build_locator (bp_chain b)) [])"
  defines "b1 \<equiv> snd (on_inv nl now pid_a (hashes_json ''hashes'' hs) b)"
  defines "a1 \<equiv> fold (\<lambda>body q. snd (on_getdata nl pid_b body q)) (sent_to pid_a ''block.getdata'' b b1) a"
  defines "b2 \<equiv> fold (\<lambda>body q. snd (on_data c nl pid_a body q)) ms b1"
  defines "b3 \<equiv> apply_pass c nl an b2"
  assumes lib: "\<And>x. nl_b64_decode nl (nl_b64_encode nl x) = x" "\<And>x. x \<noteq> [] \<Longrightarrow> nl_b64_encode nl x \<noteq> []"
    and has: "list_all2 (\<lambda>h blk. get_block (ch_stage (bp_chain a)) h = Some blk \<and> Block_hash c blk = h) hs bs"
    and hs: "distinct hs" "hs \<noteq> []" "\<forall>h\<in>set hs. get_block_height (ch_stage (bp_chain b)) h = None"
    and up: "bp_client a" "pid_b \<noteq> []" "bp_client b" "pid_a \<noteq> []"
    and peers: "distinct (map fst (bp_peers b))" "map_of (bp_peers b) pid_a = Some pa" "ps_in_flight pa = []"
      "\<forall>(pid, ps)\<in>set (bp_peers b). pid \<noteq> pid_a \<longrightarrow> set hs \<inter> (set (ps_known ps) \<union> set (ps_in_flight ps)) = {}"
    and idle: "bp_expected b = take m hs" "bp_pending b = []"
    and good: "connect_all c an (take 16 bs) (bp_chain b) = Some ch"
    and arrive: "set ms = set (sent_to pid_b ''block.data'' a a1)"
  shows "sent_to pid_b ''block.inv'' a (snd (on_getblocks pid_b (locator_json b) a)) = [hashes_json ''hashes'' hs] \<and>
    sent_to pid_a ''block.getdata'' b b1 = map (\<lambda>h. hashes_json ''hashes'' [h]) (take 16 hs) \<and>
    bp_chain b3 = ch \<and> tip_hash (ch_tip ch) = last (take 16 hs) \<and>
    bp_expected b3 = drop 16 hs \<and> bp_pending b3 = [] \<and>
    (ps_hello_received pa \<and> peer_ahead (ch_tip ch) (ps_tip_weight pa) (ps_tip_height pa) \<longrightarrow>
       locator_json b3 \<in> set (sent_to pid_a ''block.getblocks'' b2 b3))"
proof -
  let ?hs = "take 16 hs" and ?bs = "take 16 bs"
  let ?zs = "zip ?hs ?bs"
  have map_bs: "map (Block_hash c) ?bs = ?hs"
    and get: "list_all2 (\<lambda>h blk. get_block (ch_stage (bp_chain a)) h = Some blk) ?hs ?bs"
    using has list_all2_takeI [OF has, of 16]
    by (auto simp: list_all2_conv_all_nth list_eq_iff_nth_eq)
  have zs: "map fst ?zs = ?hs" "\<forall>(h, blk)\<in>set ?zs. Block_hash c blk = h \<and> Block_validate c blk"
    using zip_hashes [OF map_bs] connect_all_valid [OF good] by fastforce+
  have inv: "sent_to pid_b ''block.inv'' a (snd (on_getblocks pid_b (locator_json b) a)) = [hashes_json ''hashes'' hs]"
    using hs(2) up(1,2)
    by (simp add: on_getblocks_def locator_json_def parse_hashes_json value_or_Some send_request_def Let_def
        sent_to_def emit_def flip: hs_def)
  have "others_apart pid_a (set hs) (set hs) (bp_peers b)" using peers(4) by (fastforce simp: others_apart_def)
  from on_inv_asks [OF up(3) peers(1) up(4) hs peers(2,3) this, of nl now]
  have asking: "asking pid_a hs hs b b1" by (simp add: b1_def)
  note asked = asking_result(1) [OF asking] and client1 = asking_result(2) [OF asking]
  have view1: "\<exists>fl. peer_view b1 pid_a = Some (fl, ps_hello_received pa, ps_tip_weight pa, ps_tip_height pa) \<and>
      set fl = set ?hs"
    using asking_result(3) [OF asking] peers(2) by (fastforce simp: peer_view_def)
  have answered: "sent_to pid_b ''block.data'' a a1 = map (data_json nl) ?zs"
  proof -
    have "a1 = emit (map (\<lambda>e. Send pid_b ''block.data'' (data_json nl e)) ?zs) a"
      using serve_each [OF get refl up(1,2)] by (simp add: a1_def asked)
    moreover have "picks pid_b ''block.data'' (map (\<lambda>e. Send pid_b ''block.data'' (data_json nl e)) es) =
        map (data_json nl) es" for es by (induction es) simp_all
    ultimately show ?thesis by (simp add: sent_to_emit)
  qed
  then obtain ds where ds: "ms = map (data_json nl) ds" "set ds \<subseteq> set ?zs" "set ms = data_json nl ` set ?zs"
    using arrive in_image_map [of ms "data_json nl" "set ?zs"] by auto
  have "news_of (hashes_json ''hashes'' hs) (bp_chain b) = hs"
    using hs(3) by (simp add: news_of_def parse_hashes_json)
  then have q: "bp_chain b1 = bp_chain b" "bp_pending b1 = []" "bp_expected b1 = hs"
    using on_inv_laws(2-4) [of nl now pid_a "hashes_json ''hashes'' hs" b] idle push_all_prefix [OF hs(1), of m]
    by (simp_all add: b1_def)
  have "fst ` set ?zs \<subseteq> set (bp_expected b1)"
    using q(3) set_take_subset [of 16 hs] by (auto dest!: set_zip_leftD)
  with deliver_all [OF lib zs(2) ds(2), of b1 pid_a] q ds(1)
  have b2: "bp_chain b2 = bp_chain b" "bp_expected b2 = hs" "set (bp_pending b2) \<subseteq> set ?zs"
    "fst ` set ds \<subseteq> fst ` set (bp_pending b2)"
    by (simp_all add: b2_def)
  have all: "fst ` set ds = set ?hs"
    using delivered_hashes [of nl ds ?zs] ds(1,3) arg_cong [OF zs(1), of set] by simp
  have view2: "peer_view b2 pid_a = Some ([], ps_hello_received pa, ps_tip_weight pa, ps_tip_height pa)"
    and client2: "bp_client b2"
    using deliver_view [OF lib, where ds = ds and p = b1 and pid = pid_a and c = c] view1 client1 ds(1) all
    by (auto simp: b2_def)
  have some: "?bs \<noteq> []" using map_bs hs(2) by auto
  have keys: "Block_hash c ` set ?bs = set ?hs" unfolding map_bs [symmetric] by simp
  have "bp_expected b2 = map (Block_hash c) ?bs @ drop 16 hs" "distinct (map (Block_hash c) ?bs @ drop 16 hs)"
    "set (bp_pending b2) \<subseteq> set (zip (map (Block_hash c) ?bs) ?bs)"
    "Block_hash c ` set ?bs \<subseteq> fst ` set (bp_pending b2)" "connect_all c an ?bs (bp_chain b2) = Some ch"
    using b2 map_bs hs(1) good all unfolding keys by simp_all
  note fin = pass_applies [OF this(1,2) some this(3-5) view2 client2 up(4), of nl]
  have "tip_hash (ch_tip ch) = last ?hs"
    using connect_all_tip [OF good some] last_map [OF some, of "Block_hash c"] map_bs by simp
  with inv asked fin show ?thesis by (simp add: b3_def)
qed

definition node_a :: propagator where
  "node_a = (propagator_new one_block)\<lparr>bp_client := True\<rparr>"

lemma block_one_reads:
  "get_block (ch_stage one_block) (Block_hash toy_crypto block_one) = Some block_one"
  "hashes_after_locator one_block [] = [Block_hash toy_crypto block_one]"
  "get_block_height (ch_stage genesis) h = None"
proof -
  note reads = connect_reads [OF genesis_ok one_block_connects, folded block_one_def]
  show "get_block (ch_stage one_block) (Block_hash toy_crypto block_one) = Some block_one"
    using reads by simp
  have "next_height genesis = 1" by (simp add: next_height_def genesis_parts)
  moreover have not_le: "\<not> (2 :: u32) \<le> 1" by (simp add: word_le_nat_alt)
  ultimately show "hashes_after_locator one_block [] = [Block_hash toy_crypto block_one]"
    using reads by (simp add: hashes_after_locator_def kMaxInvCount_def one_block_height eval_nat_numeral Let_def not_le)
  show "get_block_height (ch_stage genesis) h = None"
    using genesis_get [of "block_height_key h"]
    by (simp add: get_block_height_def get_u32_def db_get_def ch_store_def key_class_def block_height_key_def)
qed

lemma toy_netlib_laws:
  "nl_b64_decode toy_netlib (nl_b64_encode toy_netlib x) = x" "x \<noteq> [] \<Longrightarrow> nl_b64_encode toy_netlib x \<noteq> []"
  by (simp_all add: toy_netlib_def) (simp add: bytes_str_def)

text \<open>A node at the start, connected to the first, which said that it is at height 2.\<close>

definition node_b :: propagator where
  "node_b = (propagator_new genesis)\<lparr>bp_client := True,
     bp_peers := [(''a'', peer_new\<lparr>ps_hello_received := True, ps_tip_height := 2\<rparr>)]\<rparr>"

definition asked_of_a :: propagator where
  "asked_of_a = snd (on_inv toy_netlib 0 ''a'' (hashes_json ''hashes'' [Block_hash toy_crypto block_one]) node_b)"

definition answers_of_a :: "json list" where
  "answers_of_a = sent_to ''b'' ''block.data'' node_a
     (fold (\<lambda>body q. snd (on_getdata toy_netlib ''b'' body q)) (sent_to ''a'' ''block.getdata'' node_b asked_of_a) node_a)"

lemma genesis_weight: "tip_weight (ch_tip genesis) = 0"
  by (simp add: genesis_def Chain_open_def empty_stage_def db_get_def Let_def ChainTip_empty_def)

theorem sync_round_catches_up_witness:
  fixes b2 b3
  defines "b2 \<equiv> fold (\<lambda>body q. snd (on_data toy_crypto toy_netlib ''a'' body q)) (answers_of_a @ answers_of_a) asked_of_a"
  defines "b3 \<equiv> apply_pass toy_crypto toy_netlib True b2"
  shows "sent_to ''a'' ''block.getdata'' node_b asked_of_a = [hashes_json ''hashes'' [Block_hash toy_crypto block_one]] \<and>
    bp_chain b3 = one_block \<and> bp_expected b3 = [] \<and> bp_pending b3 = [] \<and>
    locator_json b3 \<in> set (sent_to ''a'' ''block.getblocks'' b2 b3)"
proof -
  let ?h = "Block_hash toy_crypto block_one"
  have "value_or (build_locator genesis) [] = []" by (simp add: build_locator_def genesis_parts value_or_Some)
  then have hs: "hashes_after_locator (bp_chain node_a) (value_or (build_locator (bp_chain node_b)) []) = [?h]"
    using block_one_reads(2) by (simp add: node_a_def node_b_def propagator_new_def)
  have ahead: "peer_ahead (ch_tip one_block) 0 2"
  proof -
    have "tip_weight (ch_tip one_block) = 0"
      using restart_after_connect [OF genesis_ok one_block_connects, of "[]"] genesis_weight
      by (simp add: count_plays_def)
    then show ?thesis by (simp add: peer_ahead_def one_block_height)
  qed
  show ?thesis
    using sync_round_catches_up [where nl = toy_netlib and a = node_a and b = node_b and c = toy_crypto
        and bs = "[block_one]" and pid_a = "''a''" and pid_b = "''b''" and an = True and ch = one_block and now = 0
        and pa = "peer_new\<lparr>ps_hello_received := True, ps_tip_height := 2\<rparr>" and m = 0
        and ms = "answers_of_a @ answers_of_a", unfolded hs, folded asked_of_a_def, folded answers_of_a_def b2_def b3_def]
      toy_netlib_laws block_one_reads one_block_connects ahead
    unfolding block_one_def [symmetric]
    by (simp add: node_a_def node_b_def propagator_new_def peer_new_def)
qed

section \<open>Blocks that are lost\<close>

definition without :: "hash256 set \<Rightarrow> propagator \<Rightarrow> propagator" where
  "without hs p = p\<lparr>bp_pending := filter (\<lambda>e. fst e \<notin> hs) (bp_pending p), bp_expected := []\<rparr>"

lemma without_delete:
  "without hs (p\<lparr>bp_pending := AList.delete h (bp_pending p), bp_expected := e\<rparr>) = without (insert h hs) p"
proof -
  have "filter (\<lambda>e. fst e \<notin> hs) (AList.delete h xs) = filter (\<lambda>e. fst e \<notin> insert h hs) xs" for xs :: "(hash256 \<times> Block) list"
    by (induction xs) auto
  then show ?thesis by (simp add: without_def)
qed

text \<open>A block whose parent is neither on the chain nor in the buffer is dropped, and so are its
  descendants when they are expected after it.\<close>

lemma descendants_dropped:
  assumes "bp_expected p = map (Block_hash c) bs" and "distinct (map (Block_hash c) bs)"
    and "\<forall>b\<in>set bs. map_of (bp_pending p) (Block_hash c b) = Some b"
    and "check_links c x bs = None"
    and "\<forall>h\<in>insert x (Block_hash c ` set bs). h \<noteq> tip_hash (ch_tip (bp_chain p)) \<and>
      get_block_height (ch_stage (bp_chain p)) h = None"
    and "map_of (bp_pending p) x = None"
  shows "apply_drain c nl an d p = (d, without (Block_hash c ` set bs) p)"
  using assms
proof (induction bs arbitrary: p x)
  case Nil
  then show ?case by (simp add: apply_drain.simps [of c nl an d p] apply_next_def without_def)
next
  case (Cons b bs)
  let ?h = "Block_hash c b"
  let ?q = "p\<lparr>bp_pending := AList.delete ?h (bp_pending p), bp_expected := map (Block_hash c) bs\<rparr>"
  have b: "hd_prev_hash (blk_header b) = x" "check_links c ?h bs = None"
    using Cons.prems(4) by (auto split: if_splits)
  have del: "map_of (AList.delete ?h (bp_pending p)) y = (if y = ?h then None else map_of (bp_pending p) y)" for y
    by (simp add: delete_conv)
  have "walk_back 100000 (ch_stage (bp_chain p)) (AList.delete ?h (bp_pending p)) x [b] = None"
    using walk_back.simps(2) [of 99999] Cons.prems(5,6) by (simp add: del)
  then have "apply_next c nl an p = Some (False, ?q)"
    using Cons.prems(1,3,5) b(1) by (simp add: apply_next_def adopt_branch_def)
  moreover have "apply_drain c nl an d ?q = (d, without (Block_hash c ` set bs) ?q)"
  proof (rule Cons.IH [where x = ?h])
    have "Block_hash c y \<noteq> ?h" if "y \<in> set bs" for y
      using Cons.prems(2) that by (auto simp: image_iff)
    then show "\<forall>b\<in>set bs. map_of (bp_pending ?q) (Block_hash c b) = Some b"
      using Cons.prems(3) by (simp add: del)
  qed (use Cons.prems(2,5) b(2) in \<open>simp_all add: del\<close>)
  moreover have "without (Block_hash c ` set bs) ?q = without (Block_hash c ` set (b # bs)) p"
    by (simp add: without_delete)
  ultimately show ?case by (simp add: apply_drain.simps [of c nl an d p])
qed

text \<open>C22. A branch announced in the order of its blocks is lost, however heavy it is. The fork block is
  on the chain and not its tip, the branch is contiguous and valid, and all of it has arrived.
  But the apply loop takes each block out of the buffer before it looks at it, and tries its
  branch as far as that block: if the first block alone does not beat the tip, no block of the
  branch is adopted, all are discarded, and the loop asks the peers for the same blocks again.\<close>

theorem in_order_fork_is_lost:
  assumes "bp_expected p = map (Block_hash c) bs" and "bs \<noteq> []" and "distinct (map (Block_hash c) bs)"
    and "\<forall>b\<in>set bs. map_of (bp_pending p) (Block_hash c b) = Some b"
    and "check_links c fork bs = None"
    and "get_block_height (ch_stage (bp_chain p)) fork = Some fh" and "fork \<noteq> tip_hash (ch_tip (bp_chain p))"
    and "\<forall>b\<in>set bs. Block_hash c b \<noteq> tip_hash (ch_tip (bp_chain p)) \<and>
      get_block_height (ch_stage (bp_chain p)) (Block_hash c b) = None"
    and "\<not> tip_is_better (branch_tip c fh (get_weight (ch_stage (bp_chain p)) fork) [hd bs]) (ch_tip (bp_chain p))"
  shows "apply_pass c nl an p = ask_followups (p\<lparr>
    bp_pending := filter (\<lambda>e. fst e \<notin> Block_hash c ` set bs) (bp_pending p), bp_expected := []\<rparr>)"
proof -
  obtain b rest where bs: "bs = b # rest" using assms(2) by (cases bs) auto
  let ?h = "Block_hash c b"
  let ?q = "p\<lparr>bp_pending := AList.delete ?h (bp_pending p), bp_expected := map (Block_hash c) rest\<rparr>"
  have b: "hd_prev_hash (blk_header b) = fork" "check_links c ?h rest = None"
    using assms(5) by (auto simp: bs split: if_splits)
  have del: "map_of (AList.delete ?h (bp_pending p)) y = (if y = ?h then None else map_of (bp_pending p) y)" for y
    by (simp add: delete_conv)
  have "walk_back 100000 (ch_stage (bp_chain p)) (AList.delete ?h (bp_pending p)) fork [b] = Some (fork, fh, [b])"
    using walk_back.simps(2) [of 99999] assms(6) by simp
  moreover obtain e where "reorg_to_branch c fork fh [b] (bp_chain p) = (Some e, bp_chain p)"
    by (cases rule: reorg_cases [of c fork fh "[b]" "bp_chain p"]) (use assms(9) in \<open>auto simp: acceptable_def bs\<close>)
  ultimately have "apply_next c nl an p = Some (False, ?q)"
    using assms(1,4,7) b(1) by (simp add: apply_next_def adopt_branch_def bs)
  moreover have "apply_drain c nl an False ?q = (False, without (Block_hash c ` set rest) ?q)"
  proof (rule descendants_dropped [where x = ?h])
    have "Block_hash c y \<noteq> ?h" if "y \<in> set rest" for y
      using assms(3) that by (auto simp: image_iff bs)
    then show "\<forall>b\<in>set rest. map_of (bp_pending ?q) (Block_hash c b) = Some b"
      using assms(4) by (simp add: del bs)
  qed (use assms(3,8) b(2) in \<open>simp_all add: del bs\<close>)
  moreover have "without (Block_hash c ` set rest) ?q = without (Block_hash c ` set bs) p"
    by (simp add: without_delete bs)
  ultimately have "apply_drain c nl an False p = (False, without (Block_hash c ` set bs) p)"
    by (simp add: apply_drain.simps [of c nl an False p])
  then show ?thesis by (simp add: apply_pass_def without_def)
qed

definition fork_block :: "hash256 \<Rightarrow> Block" where
  "fork_block h = (sample_block [])\<lparr>blk_header := (blk_header (sample_block []))\<lparr>hd_prev_hash := h\<rparr>\<rparr>"

text \<open>Two blocks of a branch off the last but one of nine.\<close>

definition forked :: propagator where
  "forked = (let b1 = fork_block (mk_arr [8]); b2 = fork_block (Block_hash toy_crypto b1);
       hs = map (Block_hash toy_crypto) [b1, b2]
     in (propagator_new nine_chain)\<lparr>bp_expected := hs, bp_pending := zip hs [b1, b2]\<rparr>)"

lemma fork_block_laws: "Block_validate toy_crypto (fork_block h)" "hd_prev_hash (blk_header (fork_block h)) = h"
    "Block_hash toy_crypto (fork_block h) = mk_arr ([4, 0, 0, 0] @ take 28 (arr_bytes h))"
proof -
  have four: "write_u32le 4 = [4, 0, 0, 0]" by code_simp
  show "Block_validate toy_crypto (fork_block h)"
    using sample_block_valid [of "[]"]
    by (simp add: Block_validate_iff fork_block_def)
      (simp add: sample_block_def Block_serialize_def BlockHeader_serialize_def length_simps
        Block_compute_song_body_hash_def)
  show "hd_prev_hash (blk_header (fork_block h)) = h" by (simp add: fork_block_def)
  show "Block_hash toy_crypto (fork_block h) = mk_arr ([4, 0, 0, 0] @ take 28 (arr_bytes h))"
    by (simp add: Block_hash_def BlockHeader_hash_def BlockHeader_serialize_def fork_block_def sample_block_def
        four mk_arr_def)
qed

lemma nine_height:
  "get_block_height (ch_stage nine_chain) h =
     (if h = mk_arr [9] then Some 9 else if h = mk_arr [8] then Some 8 else None)"
  by (auto simp: get_block_height_def get_u32_def nine_get key_class_def block_height_key_def nine_rows_def
      height_key_def)

lemma nine_weight: "get_weight (ch_stage nine_chain) h = 0"
  by (simp add: get_weight_def get_u64_def nine_get key_class_def weight_key_def nine_rows_def
      height_key_def block_height_key_def value_or_def)

lemma fork_hashes:
  "Block_hash toy_crypto (fork_block (mk_arr [8])) = mk_arr [4, 0, 0, 0, 8]"
  "Block_hash toy_crypto (fork_block (mk_arr [4, 0, 0, 0, 8])) = mk_arr [4, 0, 0, 0, 4, 0, 0, 0, 8]"
  by (simp_all add: fork_block_laws(3) arr_bytes_mk_arr_take) (simp_all add: mk_arr_def)

theorem in_order_fork_is_lost_witness:
  "bp_chain (apply_pass toy_crypto toy_netlib True forked) = nine_chain \<and>
   bp_pending (apply_pass toy_crypto toy_netlib True forked) = []"
proof -
  let ?b1 = "fork_block (mk_arr [8])"
  let ?bs = "[?b1, fork_block (Block_hash toy_crypto ?b1)]"
  have ne: "(mk_arr [4, 0, 0, 0, 8] :: hash256) \<noteq> mk_arr [8]" "(mk_arr [4, 0, 0, 0, 8] :: hash256) \<noteq> mk_arr [9]"
      "(mk_arr [4, 0, 0, 0, 4, 0, 0, 0, 8] :: hash256) \<noteq> mk_arr [8]" "(mk_arr [4, 0, 0, 0, 4, 0, 0, 0, 8] :: hash256) \<noteq> mk_arr [9]"
      "(mk_arr [4, 0, 0, 0, 8] :: hash256) \<noteq> mk_arr [4, 0, 0, 0, 4, 0, 0, 0, 8]" "(mk_arr [8] :: hash256) \<noteq> mk_arr [9]"
    by (simp_all add: short_arr_eq)
  have tip9: "tip_hash (ch_tip nine_chain) = mk_arr [9]" by (simp add: nine_chain_def)
  have chain: "bp_chain forked = nine_chain" by (simp add: forked_def propagator_new_def Let_def)
  have "apply_pass toy_crypto toy_netlib True forked = ask_followups (forked\<lparr>
      bp_pending := filter (\<lambda>e. fst e \<notin> Block_hash toy_crypto ` set ?bs) (bp_pending forked), bp_expected := []\<rparr>)"
  proof (rule in_order_fork_is_lost [where fork = "mk_arr [8]" and fh = 8])
    show "\<not> tip_is_better (branch_tip toy_crypto 8 (get_weight (ch_stage (bp_chain forked)) (mk_arr [8])) [hd ?bs])
        (ch_tip (bp_chain forked))"
      by (simp add: chain nine_weight branch_tip_def tip_is_better_def count_plays_def)
        (simp add: nine_chain_def fork_block_def sample_block_def branch_weight_def count_plays_def)
  qed (use ne in \<open>simp_all add: forked_def propagator_new_def fork_block_laws(1,2) fork_hashes nine_height tip9 Let_def\<close>)
  moreover have "filter (\<lambda>e. fst e \<notin> Block_hash toy_crypto ` set ?bs) (bp_pending forked) = []"
    by (simp add: forked_def Let_def)
  ultimately show ?thesis by (simp add: followups_keep chain)
qed

text \<open>The sequence of expected blocks is worked off from the front: as long as the block in front does
  not come, nothing behind it is looked at.\<close>

definition wedged :: "hash256 \<Rightarrow> propagator \<Rightarrow> bool" where
  "wedged h p \<longleftrightarrow> (\<exists>rest. bp_expected p = h # rest) \<and> map_of (bp_pending p) h = None"

lemma push_all_extends: "\<exists>zs. push_all hs xs = xs @ zs"
proof (induction hs arbitrary: xs)
  case (Cons h hs)
  obtain zs where "push_all hs (if h \<in> set xs then xs else xs @ [h]) = (if h \<in> set xs then xs else xs @ [h]) @ zs"
    using Cons.IH by blast
  then show ?case by (auto simp: push_all_def)
qed (simp add: push_all_def)

definition same_tables :: "propagator \<Rightarrow> propagator \<Rightarrow> bool" where
  "same_tables p q \<longleftrightarrow> bp_chain q = bp_chain p \<and> bp_pending q = bp_pending p \<and> bp_expected q = bp_expected p"

lemma same_tables_keeps: "keeps c p q \<Longrightarrow> same_tables p q"
  by (simp add: keeps_def same_tables_def)

lemma wedged_same: "wedged h p \<Longrightarrow> same_tables p q \<Longrightarrow> wedged h q \<and> bp_chain q = bp_chain p"
  by (simp add: same_tables_def wedged_def)

lemma wedged_inv:
  assumes "wedged h p"
  shows "wedged h (snd (on_inv nl now pid body p)) \<and> bp_chain (snd (on_inv nl now pid body p)) = bp_chain p"
proof -
  obtain zs where "push_all (news_of body (bp_chain p)) (bp_expected p) = bp_expected p @ zs"
    using push_all_extends by blast
  with assms show ?thesis by (auto simp: wedged_def on_inv_laws)
qed

lemma wedged_data:
  assumes "wedged h p" and "\<forall>b. Block_hash c b = h \<longrightarrow> \<not> Block_validate c b"
  shows "wedged h (snd (on_data c nl pid body p)) \<and> bp_chain (snd (on_data c nl pid body p)) = bp_chain p"
proof (cases "data_of nl body")
  case None
  with assms(1) show ?thesis by (simp add: on_data_eq)
next
  case (Some e)
  obtain h' data where e: "e = (h', data)" by (cases e)
  let ?q = "delivered pid h' p"
  have q: "wedged h ?q" "bp_chain ?q = bp_chain p"
    using wedged_same [OF assms(1) same_tables_keeps [OF keeps_delivered]] by simp_all
  obtain zs where "push_all [h'] (bp_expected ?q) = bp_expected ?q @ zs"
    using push_all_extends by blast
  with ingest_laws(2,4) [where c = c and data = data and h = h' and p = ?q] q assms(2) show ?thesis
    by (auto simp: on_data_eq Some e wedged_def)
qed

lemma wedged_request:
  assumes "wedged h p" and "\<forall>b. Block_hash c b = h \<longrightarrow> \<not> Block_validate c b"
  shows "wedged h (snd (handle_request c nl cfg now pid type body p)) \<and>
    bp_chain (snd (handle_request c nl cfg now pid type body p)) = bp_chain p"
  using wedged_inv [OF assms(1)] wedged_data [OF assms]
    wedged_same [OF assms(1) same_tables_keeps [OF keeps_on_hello]]
    wedged_same [OF assms(1) same_tables_keeps [OF keeps_on_node_hello]]
    wedged_same [OF assms(1) same_tables_keeps [OF keeps_on_getblocks]]
    wedged_same [OF assms(1) same_tables_keeps [OF keeps_on_getdata]] assms(1)
  by (simp add: handle_request_def)

lemma wedged_apply:
  assumes "wedged h p"
  shows "apply_next c nl an p = None" and "apply_pass c nl an p = p"
  using assms by (auto simp: wedged_def apply_next_def apply_pass_def apply_drain.simps [of c nl an False p])

lemma wedged_step:
  assumes "wedged h p" and "\<forall>b. Block_hash c b = h \<longrightarrow> \<not> Block_validate c b"
  shows "wedged h (sync_step c nl cfg an now e p) \<and> bp_chain (sync_step c nl cfg an now e p) =
    (case e of Minted b \<Rightarrow> snd (connect_block c an b (bp_chain p)) | _ \<Rightarrow> bp_chain p)"
proof -
  have same: "wedged h q \<and> bp_chain q = bp_chain p" if "keeps c p q" for q
    using wedged_same [OF assms(1) same_tables_keeps [OF that]] .
  show ?thesis
  proof (cases e)
    case (Minted b)
    with assms(1) show ?thesis by (simp add: Let_def case_prod_beta wedged_def announce_keeps)
  next
    case (Start b)
    have "same_tables p (start_propagator nl cfg b p)"
      using dht_announce_cases [of "bootstrap_key nl cfg" "p\<lparr>bp_running := b, bp_client := b\<rparr>"]
      by (auto simp: start_propagator_def same_tables_def Let_def)
    with Start wedged_same [OF assms(1)] show ?thesis by simp
  next
    case Stop
    have "same_tables p (stop_propagator p)" by (simp add: stop_propagator_def same_tables_def)
    with Stop wedged_same [OF assms(1)] show ?thesis by simp
  qed (use wedged_request [OF assms] wedged_apply [OF assms(1)] assms(1) same [OF keeps_connected]
      same [OF keeps_disconnected] same [OF keeps_stall] same [OF keeps_maintain] same [OF keeps_reannounce]
      same [OF keeps_startup] same [OF keeps_dials] in \<open>simp_all add: on_peers_found_def seed_dial_pass_def\<close>)
qed

definition minted_blocks :: "(int \<times> event) list \<Rightarrow> Block list" where
  "minted_blocks es = concat (map (\<lambda>(_, e). case e of Minted b \<Rightarrow> [b] | _ \<Rightarrow> []) es)"

text \<open>C23. One bogus announcement stops a node from following the network for good. When a peer
  announces a hash that no valid block has, the node expects it for ever: whatever happens
  afterwards, including honest announcements and deliveries, stalls, disconnections and a
  restart of the propagator, the only blocks that change its chain are those it mints itself.\<close>

theorem bogus_announcement_wedges_sync:
  fixes nl now pid h p
  defines "q \<equiv> snd (on_inv nl now pid (hashes_json ''hashes'' [h]) p)"
  assumes "bp_expected p = []" and "map_of (bp_pending p) h = None"
    and "get_block_height (ch_stage (bp_chain p)) h = None"
    and "\<forall>b. Block_hash c b = h \<longrightarrow> \<not> Block_validate c b"
  shows "bp_chain (fold (\<lambda>(now, e). sync_step c nl cfg an now e) es q) =
    fold (\<lambda>b ch. snd (connect_block c an b ch)) (minted_blocks es) (bp_chain p)"
proof -
  have "wedged h q" and "bp_chain q = bp_chain p"
    using assms(2-4) parse_hashes_json(2) [of "[h]"]
    by (simp_all add: q_def wedged_def on_inv_laws news_of_def parse_hashes_json(1) push_all_def)
  then show ?thesis
  proof (induction es arbitrary: p q)
    case (Cons e es)
    obtain t ev where e: "e = (t, ev)" by (cases e)
    note st = wedged_step [OF Cons.prems(1) assms(5), of nl cfg an t ev]
    have "bp_chain (fold (\<lambda>(now, e). sync_step c nl cfg an now e) es (sync_step c nl cfg an t ev q)) =
        fold (\<lambda>b ch. snd (connect_block c an b ch)) (minted_blocks es) (bp_chain (sync_step c nl cfg an t ev q))"
      using st by (intro Cons.IH) simp_all
    with st Cons.prems(2) show ?case by (cases ev) (simp_all add: e minted_blocks_def)
  qed (simp add: minted_blocks_def)
qed

theorem bogus_announcement_wedges_sync_witness:
  "bp_chain (fold (\<lambda>(now, e). sync_step toy_crypto toy_netlib toy_config True now e)
     [(1, Request ''b'' ''block.inv'' (hashes_json ''hashes'' [Block_hash toy_crypto block_one])),
      (2, Request ''b'' ''block.data'' (data_json toy_netlib (Block_hash toy_crypto block_one, block_one))), (3, Apply)]
     (snd (on_inv toy_netlib 0 ''a'' (hashes_json ''hashes'' [mk_arr [1]]) (propagator_new genesis)))) = genesis"
proof -
  have no_block: "\<not> Block_validate toy_crypto b" if "Block_hash toy_crypto b = mk_arr [1]" for b
  proof
    assume "Block_validate toy_crypto b"
    then have "hd_version (blk_header b) = 4" by (simp add: Block_validate_iff BLOCK_VERSION_def)
    moreover have "write_u32le 4 = [4, 0, 0, 0]" by code_simp
    ultimately have "hd (arr_bytes (Block_hash toy_crypto b)) = 4"
      by (simp add: Block_hash_def BlockHeader_hash_def BlockHeader_serialize_def arr_bytes_mk_arr_take)
    with that show False by (simp add: arr_bytes_mk_arr_take)
  qed
  let ?es = "[(1, Request ''b'' ''block.inv'' (hashes_json ''hashes'' [Block_hash toy_crypto block_one])),
      (2, Request ''b'' ''block.data'' (data_json toy_netlib (Block_hash toy_crypto block_one, block_one))), (3, Apply)]"
  have "bp_chain (fold (\<lambda>(now, e). sync_step toy_crypto toy_netlib toy_config True now e) ?es
     (snd (on_inv toy_netlib 0 ''a'' (hashes_json ''hashes'' [mk_arr [1]]) (propagator_new genesis)))) =
     fold (\<lambda>b ch. snd (connect_block toy_crypto True b ch)) (minted_blocks ?es) (bp_chain (propagator_new genesis))"
    by (rule bogus_announcement_wedges_sync)
      (use no_block block_one_reads(3) in \<open>simp_all add: propagator_new_def\<close>)
  also have "\<dots> = genesis" by (simp add: minted_blocks_def propagator_new_def)
  finally show ?thesis .
qed

text \<open>A block that is in flight is asked for again when a peer that knows it comes earlier in the table.\<close>

lemma in_flight_elsewhere_is_asked_again:
  "choose_known h [(''a'', peer_new\<lparr>ps_known := [h]\<rparr>), (''b'', peer_new\<lparr>ps_in_flight := [h]\<rparr>)] = Chosen ''a''"
  by (simp add: peer_new_def kMaxGetdataInFlight_def)

section \<open>Announcements held back\<close>

definition announcement :: "netlib \<Rightarrow> (string \<times> peer_state) list \<Rightarrow> hash256 \<Rightarrow> outgoing list" where
  "announcement nl peers h =
     map (\<lambda>e. Send (fst e) ''block.inv'' (hashes_json ''hashes'' [h])) (filter (\<lambda>(_, ps). h \<notin> set (ps_known ps)) peers) @
     [Dht_announce (dht_key_for_block nl h)]"

definition learns :: "hash256 \<Rightarrow> (string \<times> peer_state) list \<Rightarrow> (string \<times> peer_state) list" where
  "learns h peers = map (\<lambda>(pid, ps). (pid, ps\<lparr>ps_known := List.insert h (ps_known ps)\<rparr>)) peers"

lemma do_announce_laws:
  assumes "bp_client p" and "[] \<notin> fst ` set (bp_peers p)"
  shows "bp_sent (do_announce nl h p) = bp_sent p @ announcement nl (bp_peers p) h \<and>
    bp_peers (do_announce nl h p) = learns h (bp_peers p) \<and> bp_client (do_announce nl h p) \<and>
    bp_pending_announce (do_announce nl h p) = bp_pending_announce p"
proof -
  let ?ts = "map fst (filter (\<lambda>(_, ps). h \<notin> set (ps_known ps)) (bp_peers p))"
  let ?q = "p\<lparr>bp_peers := learns h (bp_peers p)\<rparr>"
  have "[] \<notin> set ?ts" using assms(2) by auto
  with assms(1) have "fold (\<lambda>pid. send_request pid ''block.inv'' (hashes_json ''hashes'' [h])) ?ts ?q =
      emit (map (\<lambda>pid. Send pid ''block.inv'' (hashes_json ''hashes'' [h])) ?ts) ?q"
    by (intro sends_all) simp_all
  with assms(1) show ?thesis
    by (simp add: do_announce_def dht_announce_def announcement_def comp_def learns_def emit_def)
qed

lemma announcement_learns: "x \<noteq> h \<Longrightarrow> announcement nl (learns h peers) x = announcement nl peers x"
  by (induction peers) (auto simp: announcement_def learns_def)

lemma announces_laws:
  assumes "bp_client p" and "[] \<notin> fst ` set (bp_peers p)" and "distinct hs"
  shows "bp_sent (fold (do_announce nl) hs p) = bp_sent p @ concat (map (announcement nl (bp_peers p)) hs) \<and>
    bp_pending_announce (fold (do_announce nl) hs p) = bp_pending_announce p"
  using assms
proof (induction hs arbitrary: p)
  case (Cons h hs)
  note one = do_announce_laws [OF Cons.prems(1,2), of nl h]
  have "[] \<notin> fst ` set (learns h (bp_peers p))" using Cons.prems(2) by (force simp: learns_def)
  with Cons.IH [of "do_announce nl h p"] one Cons.prems(3)
  have "bp_sent (fold (do_announce nl) (h # hs) p) = bp_sent p @ announcement nl (bp_peers p) h @
      concat (map (announcement nl (learns h (bp_peers p))) hs) \<and>
      bp_pending_announce (fold (do_announce nl) (h # hs) p) = bp_pending_announce p" by simp
  moreover have "map (announcement nl (learns h (bp_peers p))) hs = map (announcement nl (bp_peers p)) hs"
    using Cons.prems(3) by (intro map_cong refl announcement_learns) auto
  ultimately show ?case by simp
qed simp

lemma held_back:
  assumes "full_node_peer_count p = 0" and "length (bp_pending_announce p) + length hs \<le> 4096"
  shows "fold (announce_new_block nl) hs p = p\<lparr>bp_pending_announce := bp_pending_announce p @ hs\<rparr>"
  using assms
proof (induction hs arbitrary: p)
  case (Cons h hs)
  have "announce_new_block nl h p = p\<lparr>bp_pending_announce := bp_pending_announce p @ [h]\<rparr>"
    using Cons.prems by (simp add: announce_new_block_def kPendingAnnounceCap_def)
  with Cons show ?case by (simp add: full_node_peer_count_def)
qed simp

lemma announcement_update:
  "ps_known ps = ps_known ps' \<Longrightarrow>
   announcement nl (AList.update pid ps peers) h = announcement nl (AList.update pid ps' peers) h"
  by (induction peers) (auto simp: announcement_def)

text \<open>C33. A node that no full node is connected to keeps its new blocks to itself, up to 4096 of them,
  in order. The first hello of a full node releases them all: each is announced, in the order
  in which they were made, to every peer that does not know it and to the DHT, and nothing is
  held any longer.\<close>

theorem isolated_blocks_are_released_in_order:
  fixes p :: propagator and hs :: "hash256 list" and nl :: netlib and cfg now pid nid
  defines "q \<equiv> fold (announce_new_block nl) hs p"
  defines "r \<equiv> snd (on_node_hello nl cfg now pid
      (JObject [(''role'', JString ''full-node''), (''node_id'', JString nid)]) q)"
  assumes "full_node_peer_count p = 0" and "bp_pending_announce p = []" and "distinct hs" and "length hs \<le> 4096"
    and "bp_client p" and "pid \<noteq> []" and "[] \<notin> fst ` set (bp_peers p)"
  shows "bp_sent q = bp_sent p \<and> bp_pending_announce q = hs \<and>
    bp_sent r = bp_sent p @ concat (map (announcement nl (bp_peers (update_peer pid id p))) hs) \<and>
    bp_pending_announce r = []"
proof -
  let ?f = "\<lambda>ps. ps\<lparr>ps_is_full_node := True, ps_node_id := nid, ps_node_hello_at := now\<rparr>"
  have q: "q = p\<lparr>bp_pending_announce := hs\<rparr>"
    using held_back [of p hs nl] assms(3-6) by (simp add: q_def)
  have not_full: "\<not> ps_is_full_node (value_or (map_of (bp_peers p) pid) peer_new)"
    using assms(3) map_of_SomeD [of "bp_peers p" pid]
    by (auto simp: full_node_peer_count_def filter_empty_conv value_or_def peer_new_def split: option.split)
  let ?u = "(update_peer pid ?f q)\<lparr>bp_pending_announce := []\<rparr>"
  have "r = fold (do_announce nl) hs ?u"
    using not_full by (simp add: r_def on_node_hello_def json_value_string_def json_object_def
        flush_pending_announce_def q)
  moreover have "[] \<notin> fst ` set (bp_peers ?u)"
    using assms(8,9) by (auto simp: update_peer_def q dest!: in_set_update)
  moreover have "announcement nl (bp_peers ?u) = announcement nl (bp_peers (update_peer pid id p))"
    by (rule ext, simp add: update_peer_def q) (rule announcement_update, simp)
  ultimately show ?thesis
    using announces_laws [of ?u hs nl] assms(5,7) q by simp
qed

theorem isolated_blocks_are_released_in_order_witness:
  "bp_sent (snd (on_node_hello toy_netlib toy_config 0 ''a''
      (JObject [(''role'', JString ''full-node''), (''node_id'', JString ''x'')])
      (fold (announce_new_block toy_netlib) [mk_arr [1], mk_arr [2]] node_a))) =
   [Send ''a'' ''block.inv'' (hashes_json ''hashes'' [mk_arr [1]]), Dht_announce (dht_key_for_block toy_netlib (mk_arr [1])),
    Send ''a'' ''block.inv'' (hashes_json ''hashes'' [mk_arr [2]]), Dht_announce (dht_key_for_block toy_netlib (mk_arr [2]))]"
proof -
  have "(mk_arr [1] :: hash256) \<noteq> mk_arr [2]" by (simp add: short_arr_eq)
  then show ?thesis
    using isolated_blocks_are_released_in_order [of node_a "[mk_arr [1], mk_arr [2]]" "''a''" toy_netlib toy_config 0 "''x''"]
    by (simp add: node_a_def propagator_new_def full_node_peer_count_def update_peer_def announcement_def
        value_or_def peer_new_def)
qed

end
