(* ===== verification/Delivery_Properties.thy ===== *)
theory Delivery_Properties
  imports Delivery_Laws Sync_Properties "HOL-Library.Countable"
begin

text \<open>
  Properties of deliveries: that a lane is paid only for a signed report, that a resolution has all
  its legs, that a delivery pays once, and that a listener can be paid as its own relay.
\<close>

unbundle bit_operations_syntax

section \<open>Rows and signatures\<close>

definition reported :: "crypto \<Rightarrow> string \<Rightarrow> pubkey33 \<Rightarrow> bool" where
  "reported c did pub \<longleftrightarrow> (\<exists>v2 n sb pid sig.
     verify_data c (report_message v2 (from_hex did) n (address_from_pubkey c pub) sb pid) sig pub)"

definition seeder_attested :: "crypto \<Rightarrow> string \<Rightarrow> bool" where
  "seeder_attested c did \<longleftrightarrow> (\<exists>pub n sb pid sig. 0 < sb \<and> pid \<noteq> [] \<and>
     verify_data c (report_message True (from_hex did) n (address_from_pubkey c pub) sb pid) sig pub)"

definition receipted :: "crypto \<Rightarrow> string \<Rightarrow> string \<Rightarrow> bool" where
  "receipted c did ch \<longleftrightarrow> (\<exists>pub n sig. verify_data c (receipt_message (from_hex did) (from_hex ch) n) sig pub)"

definition relay_named :: "crypto \<Rightarrow> string \<Rightarrow> string \<Rightarrow> bool" where
  "relay_named c did mw \<longleftrightarrow> mw = [] \<or> (\<exists>pub. mw = hex_addr (address_from_pubkey c pub) \<and> reported c did pub)"

definition row_ok :: "crypto \<Rightarrow> string \<Rightarrow> (string \<times> json) list \<Rightarrow> bool" where
  "row_ok c did row \<longleftrightarrow> (\<exists>ch lw sd mw mpk created flags.
     str_at row ''ch'' = Some ch \<and> str_at row ''lw'' = Some lw \<and> str_at row ''sd'' = Some sd \<and>
     str_at row ''mw'' = Some mw \<and> str_at row ''mpk'' = Some mpk \<and>
     json_value_u64 (JObject row) ''created'' 0 = Some created \<and>
     json_value_int (JObject row) ''flags'' 0 = Some flags \<and>
     relay_named c did mw \<and>
     (sd = [] \<or> (seeder_attested c did \<and> (lw = [] \<or> sd \<noteq> lw))) \<and>
     (flags AND 2 \<noteq> 0 \<longrightarrow> mw \<noteq> []) \<and> (flags AND 4 \<noteq> 0 \<longrightarrow> receipted c did ch))"

definition resolved_ok :: "crypto \<Rightarrow> string \<Rightarrow> (string \<times> json) list \<Rightarrow> bool" where
  "resolved_ok c did row \<longleftrightarrow> row_ok c did row \<and>
     (\<exists>ch mw. str_at row ''ch'' = Some ch \<and> str_at row ''mw'' = Some mw \<and> mw \<noteq> [] \<and> receipted c did ch)"

definition delivery_ok :: "crypto \<Rightarrow> deliveries \<Rightarrow> bool" where
  "delivery_ok c s \<longleftrightarrow> kv_ok (dv_store s) \<and>
     (\<forall>did raw. kv_get (dv_store s) (pd_key did) = Some raw \<longrightarrow> (\<exists>row. parse_row c raw = Some row \<and> row_ok c did row)) \<and>
     (\<forall>did raw. kv_get (dv_store s) (dr_key did) = Some raw \<longrightarrow> (\<exists>row. parse_row c raw = Some row \<and> resolved_ok c did row))"

lemma delivery_ok_put:
  assumes "delivery_ok c s" and "json_parse c (jd (JObject row)) = Some (JObject row)" and "row_ok c did row"
  shows "delivery_ok c (put_row jd (pd_key did) (JObject row) s)"
  using assms parse_row_put [of c jd row, OF assms(2)]
  by (auto simp: delivery_ok_def kv_get_put kv_ok_put)

lemma delivery_ok_resolve:
  assumes "delivery_ok c s" and "json_parse c (jd (JObject row)) = Some (JObject row)" and "resolved_ok c did row"
  shows "delivery_ok c (put_row jd (dr_key did) (JObject row) s)"
  using assms parse_row_put [of c jd row, OF assms(2)]
  by (auto simp: delivery_ok_def kv_get_put kv_ok_put)

lemma delivery_ok_del: "delivery_ok c s \<Longrightarrow> delivery_ok c (del_row k s)"
  by (auto simp: delivery_ok_def kv_get_del kv_ok_del)

lemma flag_bits:
  fixes f :: "32 word"
  shows "(f OR 2) AND 4 = f AND 4" and "(f OR 4) AND 2 = f AND 2"
    and "f AND 7 = 7 \<Longrightarrow> f AND 2 \<noteq> 0 \<and> f AND 4 \<noteq> 0"
proof -
  show "(f OR 2) AND 4 = f AND 4" "(f OR 4) AND 2 = f AND 2" by (simp_all add: word_ao_dist)
  assume f: "f AND 7 = 7"
  have "f AND (7 AND 2) = 7 AND 2" "f AND (7 AND 4) = 7 AND 4"
    unfolding and.assoc [symmetric] f by (rule refl)+
  then have "f AND 2 = 2" "f AND 4 = 4" by simp_all
  then show "f AND 2 \<noteq> 0 \<and> f AND 4 \<noteq> 0" by simp
qed

section \<open>Every step keeps the rows\<close>

lemma new_row_ok: "row_ok c did (new_row broker now ch lw cand)"
  by (simp add: row_ok_def new_row_def row_simps relay_named_def)

lemma mint_ok:
  assumes "\<And>row. json_parse c (jd (JObject row)) = Some (JObject row)" and "delivery_ok c s"
  shows "delivery_ok c (snd (mint_delivery c jd broker random nanos now ch listener peers s))"
  by (auto simp: mint_delivery_def Let_def intro!: delivery_ok_put assms new_row_ok)

lemma pd_row:
  assumes "delivery_ok c s" and "Option.bind (kv_get (dv_store s) (pd_key did)) (parse_row c) = Some row"
  shows "row_ok c did row"
proof -
  obtain raw where "kv_get (dv_store s) (pd_key did) = Some raw" "parse_row c raw = Some row"
    using assms(2) by (auto simp: bind_eq_Some_conv)
  with assms(1) show ?thesis by (fastforce simp: delivery_ok_def)
qed

lemma corroborate_ok:
  assumes "\<And>row. json_parse c (jd (JObject row)) = Some (JObject row)" and "delivery_ok c s"
    and "try_corroborate c jd did s = Some s'"
  shows "delivery_ok c s'"
proof (cases "Option.bind (kv_get (dv_store s) (pd_key did)) (parse_row c)")
  case None
  with assms(2,3) show ?thesis by (simp add: try_corroborate_def)
next
  case (Some row)
  from pd_row [OF assms(2) this] obtain ch lw sd mw mpk created flags where row:
    "str_at row ''ch'' = Some ch" "str_at row ''lw'' = Some lw" "str_at row ''sd'' = Some sd"
    "str_at row ''mw'' = Some mw" "str_at row ''mpk'' = Some mpk"
    "json_value_u64 (JObject row) ''created'' 0 = Some created"
    "json_value_int (JObject row) ''flags'' 0 = Some flags"
    "relay_named c did mw"
    "sd = [] \<or> (seeder_attested c did \<and> (lw = [] \<or> sd \<noteq> lw))"
    "flags AND 2 \<noteq> 0 \<longrightarrow> mw \<noteq> []" "flags AND 4 \<noteq> 0 \<longrightarrow> receipted c did ch"
    unfolding row_ok_def by blast
  show ?thesis
  proof (cases "flags AND 7 = 7")
    case False
    with Some row(7) assms(2,3) show ?thesis by (simp add: try_corroborate_def)
  next
    case True
    let ?row = "[(''ch'', JString ch), (''lw'', JString lw), (''sd'', JString sd), (''mw'', JString mw),
      (''mpk'', JString mpk), (''created'', JNumber (uint created))]"
    have "s' = del_row (pd_key did) (put_row jd (dr_key did) (JObject ?row) s)"
      using Some row(1-7) True assms(3) by (simp add: try_corroborate_def str_at_def)
    moreover have "resolved_ok c did ?row"
      using row(8-11) flag_bits(3) [OF True] by (simp add: resolved_ok_def row_ok_def row_simps)
    ultimately show ?thesis
      using assms(1,2) by (simp add: delivery_ok_del delivery_ok_resolve)
  qed
qed

lemma after_put_ok:
  assumes "\<And>row. json_parse c (jd (JObject row)) = Some (JObject row)" and "delivery_ok c s"
  shows "delivery_ok c (snd (after_put c jd did s))"
  using corroborate_ok [OF assms] assms(2) by (auto simp: after_put_def split: option.split)

lemma report_signed_laws:
  assumes "report_signed c r (from_hex did) (address_from_pubkey c pub) sig pub = (att, True)"
  shows "reported c did pub" and "att \<Longrightarrow> 0 < rl_seeder_bytes r \<Longrightarrow> seeder_attested c did"
proof -
  let ?m = "\<lambda>v. report_message v (from_hex did) (rl_bytes r) (address_from_pubkey c pub) (rl_seeder_bytes r) (rl_seeder r)"
  have att: "\<exists>s. verify_data c (?m True) s pub" "rl_seeder r \<noteq> []" if att
    using assms that by (auto simp: report_signed_def Let_def split: option.splits)
  have "att \<or> verify_data c (?m False) sig pub"
    using assms by (auto simp: report_signed_def Let_def)
  with att(1) show "reported c did pub" unfolding reported_def by blast
  show "seeder_attested c did" if "att" "0 < rl_seeder_bytes r"
    using att that unfolding seeder_attested_def by blast
qed

lemma set_sd_ok:
  assumes "row_ok c did row" and "seeder_attested c did" and "str_at row ''lw'' = Some lw" and "lw = [] \<or> lw \<noteq> w"
  shows "row_ok c did (set_member ''sd'' (JString w) row)"
  using assms by (auto simp: row_ok_def row_simps)

lemma report_row_ok:
  assumes "row_ok c did row" and "report_row s r att (address_from_pubkey c pub) pub row = Some row'"
    and "reported c did pub" and "att \<Longrightarrow> 0 < rl_seeder_bytes r \<Longrightarrow> seeder_attested c did"
  shows "row_ok c did row'"
proof -
  let ?a = "address_from_pubkey c pub"
  obtain ch lw sd mw mpk created flags where row:
    "str_at row ''ch'' = Some ch" "str_at row ''lw'' = Some lw" "str_at row ''sd'' = Some sd"
    "json_value_u64 (JObject row) ''created'' 0 = Some created"
    "json_value_int (JObject row) ''flags'' 0 = Some flags"
    "sd = [] \<or> (seeder_attested c did \<and> (lw = [] \<or> sd \<noteq> lw))" "flags AND 4 \<noteq> 0 \<longrightarrow> receipted c did ch"
    using assms(1) unfolding row_ok_def by blast
  let ?r = "set_member ''flags'' (JNumber (sint (flags OR 2))) (set_member ''relayed'' (JNumber (uint (rl_bytes r)))
    (set_member ''mpk'' (JString (to_hex (arr_bytes pub))) (set_member ''mw'' (JString (hex_addr ?a)) row)))"
  have "length (hex_addr ?a) = 40" by (simp add: hex_addr_def)
  then have "hex_addr ?a \<noteq> []" by auto
  moreover have "relay_named c did (hex_addr ?a)" using assms(3) unfolding relay_named_def by blast
  ultimately have "row_ok c did ?r"
    using row flag_bits(1) [of flags] by (simp add: row_ok_def row_simps)
  have eq: "set_flag 2 (set_member ''relayed'' (JNumber (uint (rl_bytes r)))
    (set_member ''mpk'' (JString (to_hex (arr_bytes pub))) (set_member ''mw'' (JString (hex_addr ?a)) row))) = Some ?r"
    using row(5) by (simp add: set_flag_def row_simps)
  have lw: "str_at ?r ''lw'' = Some lw" using row(2) by (simp add: row_simps)
  show ?thesis
    using assms(2,4) \<open>row_ok c did ?r\<close> lw set_sd_ok [OF \<open>row_ok c did ?r\<close> _ lw]
    by (auto simp: report_row_def eq name_seeder_def str_at_def Let_def split: if_splits)
qed

lemma report_ok:
  assumes json: "\<And>row. json_parse c (jd (JObject row)) = Some (JObject row)" and "delivery_ok c s"
  shows "delivery_ok c (snd (handle_relay_report c jd body s))"
proof -
  have "delivery_ok c (snd (after_put c jd (rl_did r) (put_row jd (pd_key (rl_did r)) (JObject row') s)))"
    if "kv_get (dv_store s) (pd_key (rl_did r)) = Some raw" "parse_row c raw = Some row"
      "report_signed c r (from_hex (rl_did r)) (address_from_pubkey c pub) sig pub = (att, True)"
      "report_row s r att (address_from_pubkey c pub) pub row = Some row'" for r raw row pub sig att row'
  proof -
    have "row_ok c (rl_did r) row" using pd_row [OF assms(2)] that(1,2) by simp
    from report_row_ok [OF this that(4) report_signed_laws [OF that(3)]]
    have "row_ok c (rl_did r) row'" .
    then show ?thesis by (intro after_put_ok json delivery_ok_put assms(2))
  qed
  with assms(2) show ?thesis
    by (auto simp: handle_relay_report_def Let_def split: option.split prod.split)
qed

lemma receipt_ok:
  assumes json: "\<And>row. json_parse c (jd (JObject row)) = Some (JObject row)" and "delivery_ok c s"
  shows "delivery_ok c (snd (handle_relay_receipt c jd body s))"
proof -
  have "delivery_ok c (snd (after_put c jd (rc_did r) (put_row jd (pd_key (rc_did r)) (JObject row') s)))"
    if "Option.bind (kv_get (dv_store s) (pd_key (rc_did r))) (parse_row c) = Some row"
      "json_value_string (JObject row) ''ch'' [] = Some (rc_ch r)" "receipt_signed c r"
      "set_flag 4 (set_member ''received'' (JNumber (uint (rc_bytes r))) row) = Some row'" for r row row'
  proof -
    have "receipted c (rc_did r) (rc_ch r)"
      using that(3) by (auto simp: receipt_signed_def receipted_def Let_def split: option.splits)
    moreover have "row_ok c (rc_did r) row" using pd_row [OF assms(2) that(1)] .
    ultimately have "row_ok c (rc_did r) row'"
      using that(2,4) flag_bits(2) by (auto simp: row_ok_def set_flag_def row_simps)
    then show ?thesis by (intro after_put_ok json delivery_ok_put assms(2))
  qed
  with assms(2) show ?thesis
    by (auto simp: handle_relay_receipt_def Let_def split: option.split)
qed

lemma reap_ok: "delivery_ok c s \<Longrightarrow> delivery_ok c (snd (reap_stale_deliveries c now s))"
proof -
  have "delivery_ok c s \<Longrightarrow> delivery_ok c (snd (reap_keys c now ks s))" for ks s
    by (induction c now ks s rule: reap_keys.induct) (auto simp: delivery_ok_del split: option.split)
  then show "delivery_ok c s \<Longrightarrow> delivery_ok c (snd (reap_stale_deliveries c now s))"
    by (simp add: reap_stale_deliveries_def split: option.split)
qed

lemma delivery_run_ok:
  assumes "\<And>row. json_parse c (jd (JObject row)) = Some (JObject row)" and "delivery_run c jd broker s"
  shows "delivery_ok c s"
  using assms(2)
proof (induction rule: delivery_run.induct)
  case start
  show ?case by (simp add: delivery_ok_def kv_ok_def kv_get_def)
next
  case (event s e)
  note steps = mint_ok [OF assms(1) event.IH] report_ok [OF assms(1) event.IH] receipt_ok [OF assms(1) event.IH]
    reap_ok [OF event.IH] delivery_ok_del [OF delivery_ok_del [OF event.IH]]
  have "delivery_ok c (s\<lparr>dv_wallets := w\<rparr>)" for w using event.IH by (simp add: delivery_ok_def)
  with steps show ?case by (cases e) (simp_all add: consume_delivery_row_def)
qed

section \<open>What a lane says\<close>

lemma resolve_reads:
  assumes "resolve_delivery_lanes c sess s = Some (Inr (seeder, mini, pk))"
  obtains raw row ch lw where "kv_get (dv_store s) (dr_key (ss_delivery_id sess)) = Some raw \<or>
      kv_get (dv_store s) (pd_key (ss_delivery_id sess)) = Some raw" "parse_row c raw = Some row"
    "str_at row ''ch'' = Some ch" "str_at row ''lw'' = Some lw" "opened_by sess lw"
    "ch = hex_hash (ss_content_hash sess)" "seeder_of_row sess row = Some seeder" "relay_of_row c row = Some (mini, pk)"
  using assms
  by (auto simp: resolve_delivery_lanes_def Let_def str_at_def bind_eq_Some_conv split: option.splits if_splits)

text \<open>C24. Whatever events led to it, a lane is paid only for a signature. The relay of a resolved
  delivery holds the key of a report signed over this very delivery. The seeder is not the
  listener, and its wallet is tied to an event of this run: a signed report of a positive number of
  bytes for this delivery named a peer as its seeder, the wallet is the one bound to that peer when
  the report came in, and it was bound to one of the candidates when the broker opened the
  delivery. A public key handed on is the relay's own.\<close>

theorem lanes_are_signed_for:
  assumes "\<And>row. json_parse c (jd (JObject row)) = Some (JObject row)"
    and "resolve_delivery_lanes c sess (deliveries_after c jd broker es) = Some (Inr (seeder, mini, pk))"
  shows "(mini \<noteq> 0 \<longrightarrow> (\<exists>pub. address_from_pubkey c pub = mini \<and> reported c (ss_delivery_id sess) pub)) \<and>
    (seeder \<noteq> 0 \<longrightarrow> seeder \<noteq> ss_player_address sess \<and>
       (\<exists>w. parse_address w = Some seeder \<and> attested_seeder c jd broker es (ss_delivery_id sess) w)) \<and>
    (pk \<noteq> 0 \<longrightarrow> address_from_pubkey c pk = mini)"
proof -
  let ?did = "ss_delivery_id sess" and ?s = "deliveries_after c jd broker es"
  obtain raw row ch lw where row: "kv_get (dv_store ?s) (dr_key ?did) = Some raw \<or>
      kv_get (dv_store ?s) (pd_key ?did) = Some raw" "parse_row c raw = Some row"
    "seeder_of_row sess row = Some seeder" "relay_of_row c row = Some (mini, pk)"
    using resolve_reads [OF assms(2)] by metis
  have "row_ok c ?did row"
    using delivery_run_ok [OF assms(1) after_run] row(1,2) by (fastforce simp: delivery_ok_def resolved_ok_def)
  then obtain mw sd where named: "str_at row ''mw'' = Some mw" "relay_named c ?did mw" "str_at row ''sd'' = Some sd"
    unfolding row_ok_def by blast
  have from_run: "sd = [] \<or> attested_seeder c jd broker es ?did sd"
    using after_rows_from [OF assms(1), of broker es] row(1,2) named(3) unfolding rows_from_def row_from_def by blast
  have "\<exists>pub. address_from_pubkey c pub = mini \<and> reported c ?did pub" if m: "mini \<noteq> 0"
  proof -
    have "parse_address mw = Some mini"
      using row(4) named(1) m
      by (auto simp: relay_of_row_def str_at_def bind_eq_Some_conv split: option.splits if_splits)
    with named(2) show ?thesis using parse_hex_addr by (auto simp: relay_named_def)
  qed
  moreover have "seeder \<noteq> ss_player_address sess \<and> (\<exists>w. parse_address w = Some seeder \<and>
      attested_seeder c jd broker es ?did w)" if n: "seeder \<noteq> 0"
  proof -
    have "parse_address sd = Some seeder" "seeder \<noteq> ss_player_address sess"
      using row(3) named(3) n by (auto simp: seeder_of_row_def str_at_def split: option.splits if_splits)
    with from_run show ?thesis using parse_hex_addr(2) by auto
  qed
  moreover have "pk \<noteq> 0 \<longrightarrow> address_from_pubkey c pk = mini"
    using row(4) by (auto simp: relay_of_row_def bind_eq_Some_conv split: option.splits if_splits)
  ultimately show ?thesis by blast
qed

text \<open>C34. A delivery is resolved only when all its legs are in: the row that replaces the broker's
  carries the song the broker recorded, the wallet of a relay that signed a report of this
  delivery, and was written only after a receipt for this delivery and song was signed.\<close>

theorem resolution_has_all_legs:
  assumes "\<And>row. json_parse c (jd (JObject row)) = Some (JObject row)" and "delivery_run c jd broker s"
    and "kv_get (dv_store s) (dr_key did) = Some raw"
  shows "\<exists>row ch pub. parse_row c raw = Some row \<and> str_at row ''ch'' = Some ch \<and> receipted c did ch \<and>
    str_at row ''mw'' = Some (hex_addr (address_from_pubkey c pub)) \<and> reported c did pub"
proof -
  obtain row where row: "parse_row c raw = Some row" "resolved_ok c did row"
    using delivery_run_ok [OF assms(1,2)] assms(3) by (fastforce simp: delivery_ok_def)
  then obtain ch mw where "str_at row ''ch'' = Some ch" "str_at row ''mw'' = Some mw" "mw \<noteq> []" "receipted c did ch"
    unfolding resolved_ok_def by blast
  moreover have "relay_named c did mw" using row(2) calculation(2) by (auto simp: resolved_ok_def row_ok_def)
  ultimately show ?thesis using row(1) unfolding relay_named_def by blast
qed

section \<open>A delivery pays once\<close>

definition gone :: "string \<Rightarrow> deliveries \<Rightarrow> bool" where
  "gone did s \<longleftrightarrow> kv_ok (dv_store s) \<and> kv_get (dv_store s) (pd_key did) = None \<and> kv_get (dv_store s) (dr_key did) = None"

lemma gone_put: "gone did s \<Longrightarrow> did' \<noteq> did \<Longrightarrow> gone did (put_row jd (pd_key did') row s)"
    "gone did s \<Longrightarrow> did' \<noteq> did \<Longrightarrow> gone did (put_row jd (dr_key did') row s)" "gone did s \<Longrightarrow> gone did (del_row k s)"
  by (simp_all add: gone_def kv_get_put kv_ok_put kv_get_del kv_ok_del)

lemma gone_after_put:
  assumes "gone did s" and "did' \<noteq> did"
  shows "gone did (snd (after_put c jd did' (put_row jd (pd_key did') row s)))"
proof -
  have s: "gone did (put_row jd (pd_key did') row s)" using assms by (rule gone_put)
  have "gone did s'" if "try_corroborate c jd did' (put_row jd (pd_key did') row s) = Some s'" for s'
    using that s assms(2)
    by (auto simp: try_corroborate_def gone_put bind_eq_Some_conv split: option.splits if_splits)
  with s show ?thesis by (simp add: after_put_def split: option.split)
qed

lemma gone_report: "gone did s \<Longrightarrow> gone did (snd (handle_relay_report c jd body s))"
proof -
  assume g: "gone did s"
  have "gone did (snd (after_put c jd d (put_row jd (pd_key d) row s)))"
    if "kv_get (dv_store s) (pd_key d) = Some raw" for d row raw
    using gone_after_put [OF g] that g by (cases "d = did") (simp_all add: gone_def)
  with g show ?thesis by (auto simp: handle_relay_report_def Let_def split: option.split prod.split)
qed

lemma gone_receipt: "gone did s \<Longrightarrow> gone did (snd (handle_relay_receipt c jd body s))"
proof -
  assume g: "gone did s"
  have "gone did (snd (after_put c jd d (put_row jd (pd_key d) row s)))"
    if "Option.bind (kv_get (dv_store s) (pd_key d)) (parse_row c) = Some r" for d row r
    using gone_after_put [OF g] that g by (cases "d = did") (simp_all add: gone_def)
  with g show ?thesis by (auto simp: handle_relay_receipt_def Let_def split: option.split)
qed

lemma gone_reap: "gone did s \<Longrightarrow> gone did (snd (reap_stale_deliveries c now s))"
proof -
  have "gone did s \<Longrightarrow> gone did (snd (reap_keys c now ks s))" for ks s
    by (induction c now ks s rule: reap_keys.induct) (auto simp: gone_put split: option.split)
  then show "gone did s \<Longrightarrow> gone did (snd (reap_stale_deliveries c now s))"
    by (simp add: reap_stale_deliveries_def split: option.split)
qed

lemma gone_step:
  assumes "gone did s" and "\<And>random nanos now ch l ps. e = Brokered random nanos now ch l ps \<Longrightarrow> delivery_id c random nanos ch \<noteq> did"
  shows "gone did (delivery_step c jd broker e s)"
proof (cases e)
  case (Brokered random nanos now ch l ps)
  with assms show ?thesis by (simp add: mint_delivery_def Let_def gone_put)
next
  case (Bound peer wallet)
  with assms(1) show ?thesis by (simp add: gone_def)
qed (use gone_report [OF assms(1)] gone_receipt [OF assms(1)] gone_reap [OF assms(1)] in
    \<open>simp_all add: consume_delivery_row_def gone_put assms(1)\<close>)

text \<open>C26. A delivery pays one play: once consumed it never resolves again for any session, whatever
  reports, receipts and other deliveries follow, unless the broker draws the same 128-bit
  identifier a second time.\<close>

theorem delivery_pays_once:
  assumes "kv_ok (dv_store s)" and "did \<noteq> []" and "ss_delivery_id sess = did"
    and "\<forall>random nanos now ch l ps. Brokered random nanos now ch l ps \<in> set es \<longrightarrow> delivery_id c random nanos ch \<noteq> did"
  shows "resolve_delivery_lanes c sess (fold (delivery_step c jd broker) es (consume_delivery_row did s)) =
    Some (Inl ''no delivery row (not brokered here, or expired)'')"
proof -
  have "gone did (consume_delivery_row did s)"
    using assms(1) by (simp add: gone_def consume_delivery_row_def kv_get_del kv_ok_del)
  moreover have "gone did t \<Longrightarrow> gone did (fold (delivery_step c jd broker) es t)" for t
    using assms(4)
  proof (induction es arbitrary: t)
    case (Cons e es)
    have "gone did (delivery_step c jd broker e t)"
      using Cons.prems by (intro gone_step) auto
    moreover have "\<forall>random nanos now ch l ps. Brokered random nanos now ch l ps \<in> set es \<longrightarrow>
        delivery_id c random nanos ch \<noteq> did" using Cons.prems(2) by auto
    ultimately show ?case using Cons.IH by simp
  qed simp
  ultimately show ?thesis using assms(2,3) by (simp add: resolve_delivery_lanes_def gone_def)
qed

section \<open>The listener as its own relay\<close>

lemma hex_addr_reads: "parse_address_checksummed (hex_addr a) = Some a" "wallet_of_hex (hex_addr a) = Some a"
proof -
  have "length (hex_addr a) = 40" by (simp add: hex_addr_def)
  then have "strip_0x (hex_addr a) = hex_addr a" by (simp add: strip_0x_def)
  moreover have "list_all (\<lambda>ch. is_lower_af ch \<or> is_upper_af ch \<or> is_digit_09 ch) (hex_addr a)"
    using to_hex_chars(1) by (auto simp: list_all_iff hex_addr_def)
  moreover have "\<not> list_ex is_upper_af (hex_addr a)"
    using to_hex_chars(2) by (auto simp: list_ex_iff hex_addr_def)
  moreover have "from_hex_loop (hex_addr a) = Some (arr_bytes a)"
    by (simp add: hex_addr_def from_hex_loop_to_hex)
  ultimately show "parse_address_checksummed (hex_addr a) = Some a"
    using \<open>length (hex_addr a) = 40\<close> by (simp add: parse_address_checksummed_def Let_def)
  then show "wallet_of_hex (hex_addr a) = Some a" by (simp add: wallet_of_hex_def)
qed

lemma hex_reads: "pubkey_of_hex (to_hex (arr_bytes pub)) = Some pub" "sig_of_hex (to_hex (arr_bytes sig)) = Some sig"
  by (simp_all add: pubkey_of_hex_def sig_of_hex_def)

definition own_report :: "bytes \<Rightarrow> u64 \<Rightarrow> address \<Rightarrow> pubkey33 \<Rightarrow> sig64 \<Rightarrow> json" where
  "own_report did n wallet pub sig = JObject [(''delivery_id'', JString (to_hex did)),
     (''bytes_relayed'', JNumber (uint n)), (''mini_wallet'', JString (hex_addr wallet)),
     (''mini_pubkey'', JString (to_hex (arr_bytes pub))), (''sig'', JString (to_hex (arr_bytes sig)))]"

lemma read_own_report:
  "read_report (own_report did n wallet pub sig) = Some \<lparr>rl_did = to_hex did, rl_bytes = n, rl_wallet = hex_addr wallet,
     rl_pubkey = to_hex (arr_bytes pub), rl_sig = to_hex (arr_bytes sig), rl_sig2 = [], rl_seeder = [], rl_seeder_bytes = 0\<rparr>"
  by (simp add: read_report_def own_report_def json_value_string_def json_value_u64_def json_object_def)

text \<open>What the row says after such a report.\<close>

definition own_row :: "address \<Rightarrow> u64 \<Rightarrow> hash256 \<Rightarrow> string \<Rightarrow> string list \<Rightarrow> u64 \<Rightarrow> address \<Rightarrow> pubkey33 \<Rightarrow> (string \<times> json) list" where
  "own_row broker now ch lw cand n wallet pub =
     set_member ''flags'' (JNumber 3) (set_member ''relayed'' (JNumber (uint n))
       (set_member ''mpk'' (JString (to_hex (arr_bytes pub))) (set_member ''mw'' (JString (hex_addr wallet))
         (new_row broker now ch lw cand))))"

lemma own_report_row:
  fixes c jd broker nanos now ch listener peers s did n pub sig
  defines "player \<equiv> address_from_pubkey c pub" and "lw \<equiv> value_or (dv_wallets s listener) []"
    and "cand \<equiv> List.map_filter (dv_wallets s) peers"
  assumes json: "\<And>row. json_parse c (jd (JObject row)) = Some (JObject row)"
    and "kv_ok (dv_store s)" and "length did = 16" and "verify_data c (report_message False did n player 0 []) sig pub"
  shows "snd (handle_relay_report c jd (own_report did n player pub sig)
      (snd (mint_delivery c jd broker (Some did) nanos now ch listener peers s))) =
    put_row jd (pd_key (to_hex did)) (JObject (own_row broker now ch lw cand n player pub))
      (put_row jd (pd_key (to_hex did)) (JObject (new_row broker now ch lw cand)) s)"
proof -
  let ?did = "to_hex did" and ?new = "new_row broker now ch lw cand" and ?row = "own_row broker now ch lw cand n player pub"
  let ?s = "put_row jd (pd_key ?did) (JObject ?new) s" and ?t = "put_row jd (pd_key ?did) (JObject ?row)"
  have row: "parse_row c (str_bytes (jd (JObject ?new))) = Some ?new" "parse_row c (str_bytes (jd (JObject ?row))) = Some ?row"
    by (rule parse_row_put, rule json)+
  have mint: "snd (mint_delivery c jd broker (Some did) nanos now ch listener peers s) = ?s"
    by (simp add: mint_delivery_def delivery_id_def Let_def lw_def cand_def)
  have "report_row ?s \<lparr>rl_did = to_hex did, rl_bytes = n, rl_wallet = hex_addr player, rl_pubkey = to_hex (arr_bytes pub),
      rl_sig = to_hex (arr_bytes sig), rl_sig2 = [], rl_seeder = [], rl_seeder_bytes = 0\<rparr> False player pub ?new = Some ?row"
    by (simp add: report_row_def set_flag_def row_simps new_row_def own_row_def)
  moreover have "try_corroborate c jd ?did (?t ?s) = Some (?t ?s)"
    using assms(5) row(2) by (simp add: try_corroborate_def kv_get_put kv_ok_put row_simps new_row_def own_row_def)
  ultimately show ?thesis
    using assms(5-7) row(1)
    by (simp add: mint handle_relay_report_def read_own_report hex_reads hex_addr_reads
        kv_get_put report_signed_def after_put_def player_def)
qed

text \<open>C25. A listener can be paid as the relay of its own play, and no receipt is needed. It opens a
  delivery and signs, with its own key, one report that it relayed any number of bytes: the
  delivery then resolves to its own wallet and key as the relay, from the broker's row, although
  the other legs never arrived and nobody else has signed anything.\<close>

theorem listener_can_be_its_own_relay:
  fixes c jd broker nanos now ch listener peers s did n pub sig
  defines "player \<equiv> address_from_pubkey c pub"
  defines "t \<equiv> snd (handle_relay_report c jd (own_report did n player pub sig)
      (snd (mint_delivery c jd broker (Some did) nanos now ch listener peers s)))"
  assumes json: "\<And>row. json_parse c (jd (JObject row)) = Some (JObject row)"
    and "kv_ok (dv_store s)" and "length did = 16" and "kv_get (dv_store s) (dr_key (to_hex did)) = None"
    and "player \<noteq> 0" and "dv_wallets s listener \<in> {None, Some (hex_addr player)}"
    and "verify_data c (report_message False did n player 0 []) sig pub"
  shows "resolve_delivery_lanes c
    \<lparr>ss_delivery_id = to_hex did, ss_content_hash = ch, ss_player_address = player\<rparr> t = Some (Inr (0, player, pub))"
proof -
  let ?did = "to_hex did" and ?lw = "value_or (dv_wallets s listener) []"
  let ?row = "own_row broker now ch ?lw (List.map_filter (dv_wallets s) peers) n player pub"
  have row: "parse_row c (str_bytes (jd (JObject ?row))) = Some ?row" by (rule parse_row_put) (rule json)
  have "kv_get (dv_store t) (dr_key ?did) = None" "kv_get (dv_store t) (pd_key ?did) = Some (str_bytes (jd (JObject ?row)))"
    using own_report_row [OF json assms(4,5), of n pub sig broker nanos now ch listener peers] assms(4,6,9)
    by (simp_all add: t_def player_def kv_get_put kv_ok_put)
  moreover have "length ?did = 32" using assms(5) by simp
  then have "?did \<noteq> []" by fastforce
  moreover have "opened_by \<lparr>ss_delivery_id = ?did, ss_content_hash = ch, ss_player_address = player\<rparr> ?lw"
    using assms(8) by (auto simp: opened_by_def value_or_def parse_hex_addr)
  moreover have "seeder_of_row \<lparr>ss_delivery_id = ?did, ss_content_hash = ch, ss_player_address = player\<rparr> ?row = Some 0"
    by (simp add: seeder_of_row_def row_simps new_row_def own_row_def parse_hex_addr)
  moreover have "relay_of_row c ?row = Some (player, pub)"
    using assms(7) by (simp add: relay_of_row_def row_simps new_row_def own_row_def parse_hex_addr hex_reads player_def)
  ultimately show ?thesis
    using row assms(7) by (simp add: resolve_delivery_lanes_def row_simps new_row_def own_row_def)
qed

text \<open>A JSON library that reads what it writes: a value is written as a text of as many letters as its
  number in an enumeration of all values.\<close>

instance json :: countable by countable_datatype

definition unary_json :: "json \<Rightarrow> string" where
  "unary_json j = replicate (to_nat j) (CHR ''x'')"

definition unary_crypto :: crypto where
  "unary_crypto = toy_crypto\<lparr>json_parse := (\<lambda>t. Some (from_nat (length t)))\<rparr>"

lemma unary_law: "json_parse unary_crypto (unary_json j) = Some j"
  by (simp add: unary_crypto_def unary_json_def)

lemma unary_verify: "verify_data unary_crypto m sig pub"
  by (simp add: verify_data_def unary_crypto_def)

definition no_deliveries :: deliveries where
  "no_deliveries = \<lparr>dv_store = [], dv_wallets = Map.empty\<rparr>"

definition opened :: deliveries where
  "opened = snd (mint_delivery unary_crypto unary_json 0 (Some (replicate 16 1)) 0 5 (mk_arr [7]) ''p'' [] no_deliveries)"

definition self_relayed :: deliveries where
  "self_relayed = snd (handle_relay_report unary_crypto unary_json
     (own_report (replicate 16 1) 9 (address_from_pubkey unary_crypto (mk_arr [3])) (mk_arr [3]) 0) opened)"

definition listening :: play_session where
  "listening = \<lparr>ss_delivery_id = to_hex (replicate 16 1), ss_content_hash = mk_arr [7],
     ss_player_address = address_from_pubkey unary_crypto (mk_arr [3])\<rparr>"

theorem listener_can_be_its_own_relay_witness:
  "resolve_delivery_lanes unary_crypto listening self_relayed =
     Some (Inr (0, address_from_pubkey unary_crypto (mk_arr [3]), mk_arr [3]))"
proof -
  have "address_from_pubkey unary_crypto (mk_arr [3]) \<noteq> 0"
    by (simp add: unary_crypto_def) (rule mk_arr_nonzero, simp_all add: arr_bytes_mk_arr_take)
  then show ?thesis
    unfolding self_relayed_def opened_def listening_def
    by (intro listener_can_be_its_own_relay)
      (simp_all add: unary_law unary_verify no_deliveries_def kv_ok_def kv_get_def)
qed

lemma opened_run: "delivery_run unary_crypto unary_json 0 opened"
  using delivery_run.event [OF delivery_run.start, of unary_crypto unary_json 0
      "Brokered (Some (replicate 16 1)) 0 5 (mk_arr [7]) ''p'' []"]
  by (simp add: opened_def no_deliveries_def)

lemma self_relayed_run: "delivery_run unary_crypto unary_json 0 self_relayed"
  using delivery_run.event [OF opened_run, of "Reported (own_report (replicate 16 1) 9
      (address_from_pubkey unary_crypto (mk_arr [3])) (mk_arr [3]) 0)"]
  by (simp add: self_relayed_def)

definition receipt_json :: json where
  "receipt_json = JObject [(''delivery_id'', JString (to_hex (replicate 16 1))), (''content_hash'', JString (hex_hash (mk_arr [7]))),
     (''player_address'', JString (hex_addr (address_from_pubkey unary_crypto (mk_arr [3])))),
     (''player_pubkey'', JString (to_hex (arr_bytes (mk_arr [3] :: pubkey33)))), (''sig'', JString (to_hex (arr_bytes (0 :: sig64))))]"

definition all_legs :: deliveries where
  "all_legs = snd (handle_relay_receipt unary_crypto unary_json receipt_json self_relayed)"

definition resolution :: "(string \<times> json) list" where
  "resolution = [(''ch'', JString (hex_hash (mk_arr [7]))), (''lw'', JString []), (''sd'', JString []),
     (''mw'', JString (hex_addr (address_from_pubkey unary_crypto (mk_arr [3])))),
     (''mpk'', JString (to_hex (arr_bytes (mk_arr [3] :: pubkey33)))), (''created'', JNumber 5)]"

lemma all_legs_run: "delivery_run unary_crypto unary_json 0 all_legs"
  using delivery_run.event [OF self_relayed_run, of "Receipted receipt_json"] by (simp add: all_legs_def)

lemma all_legs_row:
  "kv_get (dv_store all_legs) (dr_key (to_hex (replicate 16 1))) = Some (str_bytes (unary_json (JObject resolution)))"
proof -
  let ?did = "to_hex (replicate 16 1)"
  let ?row = "own_row 0 5 (mk_arr [7]) [] [] 9 (address_from_pubkey unary_crypto (mk_arr [3])) (mk_arr [3])"
  have law: "json_parse unary_crypto (unary_json (JObject row)) = Some (JObject row)" for row by (rule unary_law)
  have parse: "parse_row unary_crypto (str_bytes (unary_json (JObject row))) = Some row" for row
    by (rule parse_row_put) (rule law)
  have sr: "self_relayed = put_row unary_json (pd_key ?did) (JObject ?row)
      (put_row unary_json (pd_key ?did) (JObject (new_row 0 5 (mk_arr [7]) [] [])) no_deliveries)"
    unfolding self_relayed_def opened_def
    by (subst own_report_row [OF law]) (simp_all add: unary_verify no_deliveries_def kv_ok_def value_or_def List.map_filter_simps)
  have "kv_ok (dv_store no_deliveries)" by (simp add: no_deliveries_def kv_ok_def)
  then have s: "kv_ok (dv_store self_relayed)"
      "kv_get (dv_store self_relayed) (pd_key ?did) = Some (str_bytes (unary_json (JObject ?row)))"
    by (simp_all add: sr kv_get_put kv_ok_put)
  let ?r = "\<lparr>rc_did = ?did, rc_ch = hex_hash (mk_arr [7]), rc_bytes = 0,
      rc_player = hex_addr (address_from_pubkey unary_crypto (mk_arr [3])), rc_pubkey = to_hex (arr_bytes (mk_arr [3] :: pubkey33)),
      rc_sig = to_hex (arr_bytes (0 :: sig64))\<rparr>"
  have "read_receipt receipt_json = Some ?r"
    by (simp add: read_receipt_def receipt_json_def json_value_string_def json_value_u64_def json_object_def)
  moreover have "receipt_signed unary_crypto ?r"
    by (simp add: receipt_signed_def hex_reads hex_addr_reads hex_hash_def unary_verify)
  moreover let ?full = "set_member ''flags'' (JNumber 7) (set_member ''received'' (JNumber 0) ?row)"
  have "set_flag 4 (set_member ''received'' (JNumber 0) ?row) = Some ?full"
    by (simp add: set_flag_def row_simps own_row_def)
  moreover have "json_value_string (JObject ?row) ''ch'' [] = Some (hex_hash (mk_arr [7]))"
    by (simp add: row_simps own_row_def new_row_def)
  ultimately have "all_legs = snd (after_put unary_crypto unary_json ?did (put_row unary_json (pd_key ?did) (JObject ?full) self_relayed))"
    using s(2) by (simp add: all_legs_def handle_relay_receipt_def parse hex_hash_def)
  moreover have "try_corroborate unary_crypto unary_json ?did (put_row unary_json (pd_key ?did) (JObject ?full) self_relayed) =
      Some (del_row (pd_key ?did) (put_row unary_json (dr_key ?did) (JObject resolution)
        (put_row unary_json (pd_key ?did) (JObject ?full) self_relayed)))"
    using s(1) by (simp add: try_corroborate_def kv_get_put parse row_simps own_row_def new_row_def resolution_def)
  ultimately have "dv_store all_legs = dv_store (del_row (pd_key ?did) (put_row unary_json (dr_key ?did) (JObject resolution)
        (put_row unary_json (pd_key ?did) (JObject ?full) self_relayed)))"
    by (simp add: after_put_def)
  then show ?thesis using s(1) by (simp add: kv_get_put kv_get_del kv_ok_put)
qed

theorem resolution_has_all_legs_witness:
  "\<exists>pub. reported unary_crypto (to_hex (replicate 16 1)) pub"
  using resolution_has_all_legs [of unary_crypto unary_json 0, OF unary_law all_legs_run all_legs_row] by blast

text \<open>A delivery with a seeder: peer \<open>s\<close> is the broker's candidate, and a signed report names it.\<close>

definition seeded_report :: json where
  "seeded_report = JObject [(''delivery_id'', JString (to_hex (replicate 16 1))), (''bytes_relayed'', JNumber 9),
     (''mini_wallet'', JString (hex_addr (address_from_pubkey unary_crypto (mk_arr [3])))),
     (''mini_pubkey'', JString (to_hex (arr_bytes (mk_arr [3] :: pubkey33)))),
     (''sig'', JString (to_hex (arr_bytes (0 :: sig64)))),
     (''seeder_peer_id'', JString ''s''), (''seeder_bytes'', JNumber 9)]"

definition seeded_events :: "delivery_event list" where
  "seeded_events = [Bound ''s'' (Some (hex_addr (mk_arr [6]))),
     Brokered (Some (replicate 16 1)) 0 5 (mk_arr [7]) ''p'' [''s''], Reported seeded_report]"

lemma seeded_row:
  fixes row
  defines "row \<equiv> set_member ''sd'' (JString (hex_addr (mk_arr [6]))) (own_row 0 5 (mk_arr [7]) [] [hex_addr (mk_arr [6])] 9
    (address_from_pubkey unary_crypto (mk_arr [3])) (mk_arr [3]))"
  shows "kv_get (dv_store (deliveries_after unary_crypto unary_json 0 seeded_events)) (pd_key (to_hex (replicate 16 1))) =
      Some (str_bytes (unary_json (JObject row)))"
    and "kv_get (dv_store (deliveries_after unary_crypto unary_json 0 seeded_events)) (dr_key (to_hex (replicate 16 1))) = None"
proof -
  let ?did = "to_hex (replicate 16 1)" and ?a = "address_from_pubkey unary_crypto (mk_arr [3])" and ?w = "hex_addr (mk_arr [6])"
  let ?new = "new_row 0 5 (mk_arr [7]) [] [?w]"
  define s :: deliveries where "s = \<lparr>dv_store = [], dv_wallets = [''s'' \<mapsto> ?w]\<rparr>"
  have s: "kv_ok (dv_store s)" "kv_get (dv_store s) k = None" "dv_wallets s = [''s'' \<mapsto> ?w]" for k
    by (simp_all add: s_def kv_ok_def kv_get_def)
  let ?t = "put_row unary_json (pd_key ?did) (JObject ?new) s"
  let ?r = "\<lparr>rl_did = ?did, rl_bytes = 9, rl_wallet = hex_addr ?a, rl_pubkey = to_hex (arr_bytes (mk_arr [3] :: pubkey33)),
      rl_sig = to_hex (arr_bytes (0 :: sig64)), rl_sig2 = [], rl_seeder = ''s'', rl_seeder_bytes = 9\<rparr>"
  have law: "json_parse unary_crypto (unary_json (JObject row)) = Some (JObject row)" for row by (rule unary_law)
  have parse: "parse_row unary_crypto (str_bytes (unary_json (JObject row))) = Some row" for row
    by (rule parse_row_put) (rule law)
  have run: "deliveries_after unary_crypto unary_json 0 seeded_events = snd (handle_relay_report unary_crypto unary_json seeded_report ?t)"
    by (simp add: deliveries_after_def seeded_events_def mint_delivery_def delivery_id_def value_or_def
        List.map_filter_simps Let_def s_def)
  have "read_report seeded_report = Some ?r"
    by (simp add: read_report_def seeded_report_def json_value_string_def json_value_u64_def json_object_def)
  moreover have "length ?w = 40" by (simp add: hex_addr_def)
  then have "?w \<noteq> []" by fastforce
  then have "report_row ?t ?r True ?a (mk_arr [3]) ?new = Some row"
    by (simp add: report_row_def set_flag_def row_simps name_seeder_def json_member_array_def new_row_def own_row_def
        row_def value_or_def s(3))
  moreover have store: "kv_ok (dv_store ?t)" "kv_get (dv_store ?t) (pd_key ?did) = Some (str_bytes (unary_json (JObject ?new)))"
    "kv_get (dv_store ?t) (dr_key ?did) = None"
    by (simp_all add: kv_ok_put kv_get_put s)
  moreover have "try_corroborate unary_crypto unary_json ?did (put_row unary_json (pd_key ?did) (JObject row) ?t) =
      Some (put_row unary_json (pd_key ?did) (JObject row) ?t)"
    using store(1) by (simp add: try_corroborate_def kv_get_put parse row_simps row_def own_row_def)
  ultimately have "deliveries_after unary_crypto unary_json 0 seeded_events = put_row unary_json (pd_key ?did) (JObject row) ?t"
    by (simp add: run handle_relay_report_def hex_reads hex_addr_reads report_signed_def unary_verify parse after_put_def)
  with store show "kv_get (dv_store (deliveries_after unary_crypto unary_json 0 seeded_events)) (pd_key ?did) =
      Some (str_bytes (unary_json (JObject row)))"
    "kv_get (dv_store (deliveries_after unary_crypto unary_json 0 seeded_events)) (dr_key ?did) = None"
    by (simp_all add: kv_get_put)
qed

theorem lanes_are_signed_for_witness:
  "resolve_delivery_lanes unary_crypto listening (deliveries_after unary_crypto unary_json 0 seeded_events) =
     Some (Inr (mk_arr [6], address_from_pubkey unary_crypto (mk_arr [3]), mk_arr [3])) \<and>
   (\<exists>w. parse_address w = Some (mk_arr [6]) \<and>
      attested_seeder unary_crypto unary_json 0 seeded_events (ss_delivery_id listening) w)"
proof -
  let ?a = "address_from_pubkey unary_crypto (mk_arr [3])" and ?d = "deliveries_after unary_crypto unary_json 0 seeded_events"
  have a: "?a \<noteq> 0" "(mk_arr [6] :: address) \<noteq> 0"
    by (simp_all add: unary_crypto_def) (rule mk_arr_nonzero, simp_all add: arr_bytes_mk_arr_take)+
  have other: "(mk_arr [6] :: address) \<noteq> ?a"
    by (auto simp: unary_crypto_def arr_eq_iff arr_bytes_mk_arr_take dest: arg_cong [where f = hd])
  have parse: "parse_row unary_crypto (str_bytes (unary_json (JObject row))) = Some row" for row
    by (rule parse_row_put) (rule unary_law)
  have "length (to_hex (replicate 16 1)) = 32" by simp
  then have "to_hex (replicate 16 1) \<noteq> []" by fastforce
  then have lanes: "resolve_delivery_lanes unary_crypto listening ?d = Some (Inr (mk_arr [6], ?a, mk_arr [3]))"
    using seeded_row a other parse
    by (simp add: resolve_delivery_lanes_def listening_def row_simps own_row_def new_row_def opened_by_def
        seeder_of_row_def relay_of_row_def parse_hex_addr hex_reads)
  from lanes_are_signed_for [OF unary_law this] a(2) lanes show ?thesis by blast
qed

theorem delivery_pays_once_witness:
  "resolve_delivery_lanes unary_crypto listening
     (fold (delivery_step unary_crypto unary_json 0) [Receipted receipt_json, Reaped 9]
       (consume_delivery_row (to_hex (replicate 16 1)) all_legs)) =
   Some (Inl ''no delivery row (not brokered here, or expired)'')"
proof -
  have "kv_ok (dv_store all_legs)"
    using delivery_run_ok [OF unary_law all_legs_run] by (simp add: delivery_ok_def)
  moreover have "length (to_hex (replicate 16 1)) = 32" by simp
  then have "to_hex (replicate 16 1) \<noteq> []" by fastforce
  ultimately show ?thesis by (intro delivery_pays_once) (simp_all add: listening_def)
qed

end
