(* ===== verification/Spec2Isabelle.thy ===== *)
theory Spec2Isabelle
  imports Wire_Properties Chain_Properties Tx_Properties Money_Properties Rule_Properties
    Producer_Properties Node_Properties Delivery_Properties
begin

text \<open>
  A verification development for the consensus core of Bopwire, a blockchain that records songs
  and pays for plays: the C++ under \<open>src/bopwire/src\<close>.

  \<^bold>\<open>The program.\<close> A node keeps a chain of blocks in a key-value store (\<open>storage/database.cpp\<close>). A
  block carries at most one song and a list of transactions (\<open>core/block.cpp\<close>,
  \<open>core/transaction.cpp\<close>). \<open>Chain::connect_block\<close> (\<open>core/chain.cpp\<close>) validates a block on the tip,
  collects all its writes in one \<open>WriteBatch\<close>, runs every transaction through the handler of its
  type, compares the state root of the header with a running accumulator
  (\<open>storage/accumulator.cpp\<close>), and then writes the batch. Balances go through a block-scoped
  overlay (\<open>tokens/ledger.cpp\<close>); the amounts of a play and its validity are in \<open>tokens/mint.cpp\<close>;
  duplicates of songs are found by fingerprint (\<open>audio/fingerprint.cpp\<close>); equivocation evidence is
  checked by \<open>consensus/slashing.cpp\<close>. \<open>reorg_to_branch\<close> adopts a better branch by replaying the
  chain into cleared state (\<open>rebuild_derived_state\<close>). Transactions and songs reach a node by flooding and
  wait in two mempools (\<open>api/rats_api.cpp\<close>); \<open>CandidateManager\<close> (\<open>consensus/candidate.cpp\<close>) turns them into
  blocks of its own. \<open>BlockPropagator\<close> (\<open>sync/block_propagator.cpp\<close>) announces blocks to other full
  nodes, asks them for the blocks they have, and feeds those that arrive to \<open>connect_block\<close> or
  \<open>reorg_to_branch\<close>. Which wallets are paid as seeder and relay of a play is settled by signed
  messages about its delivery (\<open>rats_api.cpp\<close>, \<open>server.cpp\<close>).

  \<^bold>\<open>The model.\<close> Machine integers are words of their width, \<open>std::array<uint8_t, N>\<close> is the type
  \<open>'n arr\<close> of byte lists of length N ordered lexicographically, \<open>std::string\<close> is \<open>string\<close>. Errors are
  values: \<open>None\<close> of a reader, an error constructor, or \<open>False\<close> with the state the handler had
  reached (the code too leaves partial writes in a batch it then drops). The store is an ordered
  list of entries; a batch is the list of its writes; reads see the committed store only, as in
  LevelDB. A chain is the record \<open>chain\<close>: the stage (store, batch, accumulator hook, ledger
  overlay, per-block staging), the committed accumulator, the tip and the checkpoints. SHA-256,
  ECDSA verification, the address of a public key, Chromaprint and the JSON parser are code
  outside the sources: the record \<open>crypto\<close> of functions, a parameter of every definition that
  uses them, as \<open>netlib\<close> is for SHA-1 and Base64 and \<open>jd\<close> for the writer of JSON texts; no law of
  theirs is assumed, except where a theorem states that a hash does not collide on the strings
  it names, that Base64 decodes what it encoded, or that the JSON library reads what it wrote.
  What the propagator hands to the peer-to-peer library is appended to a list in its state; its
  threads are passes, and \<open>sync_run\<close> interleaves them with the requests of peers in any order, the
  hash tables being reordered at will in between. \<open>delivery_run\<close> does the same for the messages
  about deliveries, and \<open>deliveries_after\<close> is the run of a list of events, whose past can be asked
  about. \<open>reachable\<close> and \<open>node_reachable\<close> are the chains and nodes that operations lead to; both admit
  every reorganisation, also those the code should refuse.

  \<^bold>\<open>Theories.\<close>
  \<^item> \<open>Prelude\<close>, \<open>Wire\<close>: arrays, the parameter record, little-endian readers and writers with the
    locale of a codec.
  \<^item> \<open>Transactions\<close>, \<open>Tx_Registry\<close>, \<open>Tx_Rating\<close>, \<open>Tx_Settlement\<close>: the twelve records of
    \<open>transaction.h\<close> with \<open>sign_message\<close>, \<open>serialize\<close>, \<open>deserialize\<close>, \<open>tx_hash\<close> and
    \<open>verify_signature\<close>; the locale \<open>tx_format\<close> is the contract of a format.
  \<^item> \<open>Block\<close>, \<open>Hash\<close>: \<open>block.cpp\<close>, \<open>merkle.cpp\<close>, \<open>hash.cpp\<close>.
  \<^item> \<open>Kv_Store\<close>, \<open>Accumulator\<close>, \<open>Database\<close>, \<open>Db_Ratings\<close>, \<open>Catalog\<close>: the store (locale \<open>kv_store\<close>), the
    state accumulator and its prefixes, the accessors of \<open>database.cpp\<close>; \<open>Db_Frame\<close> and
    \<open>Batch_Frame\<close> hold what every writer keeps.
  \<^item> \<open>Ledger\<close>, \<open>Ledger_Laws\<close>: \<open>ledger.cpp\<close>; the locale \<open>token_ledger\<close> gives conservation.
  \<^item> \<open>Fingerprint\<close>, \<open>Mint\<close>, \<open>Slashing\<close>: \<open>fingerprint.cpp\<close>, \<open>mint.cpp\<close>, \<open>slashing.cpp\<close>.
  \<^item> \<open>Chain_Tx\<close>, \<open>Governance\<close>, \<open>Chain\<close>, \<open>Reorg\<close>: \<open>chain.cpp\<close>, the handlers first, then block
    connection, then replay, reorganisation, start-up.
  \<^item> \<open>Producer\<close>: \<open>candidate.cpp\<close>, one pass of \<open>heartbeat_loop\<close> stage by stage; \<open>Keccak\<close>, \<open>Address\<close>:
    \<open>keccak256.cpp\<close> with the standard it implements, and the address texts of \<open>keys.cpp\<close>; \<open>Mempool\<close>:
    the three \<open>ingest_\<close> functions of \<open>rats_api.cpp\<close> and the reload at start; \<open>Sync\<close>:
    \<open>block_propagator.cpp\<close>, its handlers and the passes of its threads; \<open>Delivery\<close>: the delivery rows of
    \<open>rats_api.cpp\<close> and what \<open>server.cpp\<close> makes of them, with the runs of both.
  \<^item> \<open>Handler_Laws\<close>, \<open>Handler_Laws2\<close>: the locale \<open>tx_handler\<close>, interpreted for all eleven handlers,
    for the dispatcher and for lists of transactions: the invariant of a block under application.
  \<^item> \<open>Footprint\<close>, \<open>Replay_Laws\<close>, \<open>Pay_Laws\<close>, \<open>Block_Effects\<close>, \<open>Row_Laws\<close>: which tables a transaction writes
    (locale \<open>footprint\<close>), nonces (locale \<open>nonced\<close>), what mints and settlements pay and for which
    sessions, and what a block leaves in the store.
  \<^item> \<open>Chain_Laws\<close>, \<open>Reorg_Laws\<close>, \<open>Rebuild_Laws\<close>: what connecting, replaying and reorganising keep; which
    blocks a replay keeps and why it stops; the invariant \<open>chain_inv\<close>, which holds unless the store
    carries \<open>sr:dirty\<close>, the program's mark of a replay that did not finish.
  \<^item> \<open>Producer_Laws\<close>: what each stage of a pass keeps and guarantees; \<open>Mempool_Laws\<close>: the locale
    \<open>min_merge\<close> of a mempool that keeps the least rank, interpreted for transactions and songs, and
    the invariant of a running node (\<open>node_reachable\<close>); \<open>Sync_Laws\<close>: the locator, and what every
    operation of the propagator keeps (\<open>keeps\<close>, \<open>sync_ok\<close>); \<open>Sync_Round\<close>: the legs of a round of sync,
    from the requests a node makes to the pass that connects the answers; \<open>Delivery_Laws\<close>: where the
    seeder of a delivery row comes from.
  \<^item> \<open>Samples\<close>, \<open>Tx_Samples\<close>: concrete values for the witnesses.
  \<^item> \<open>Wire_Properties\<close>, \<open>Chain_Properties\<close>, \<open>Tx_Properties\<close>, \<open>Money_Properties\<close>,
    \<open>Rule_Properties\<close>, \<open>Producer_Properties\<close>, \<open>Node_Properties\<close>, \<open>Sync_Properties\<close>,
    \<open>Delivery_Properties\<close>: the properties.

  \<^bold>\<open>What is shown.\<close> Reachable chains, unless marked as half replayed, conserve tokens and stay under
  the cap, and their accumulator is the one a full scan computes; the header of an accepted block
  commits to the store it leaves; producer and validator agree; a refused block leaves no trace; a
  restart finds the same tip; replay heals, keeps a valid chain and gives up only blocks that would
  be refused; fork choice is a total order and finality is respected. Transactions
  are not replayed, sessions are paid once by mints and settlements together, founders and names
  are permanent; a transfer moves its amount, a mint credits every wallet with what is recomputed, the burn curve is exact and monotone; every type of
  transaction writes only its own tables, the founder's powers are the founder's, appointments
  are unanimous. A node that ingests, mints, connects and reorganises keeps its song mempool well
  formed, so a pass of the producer that has something to carry always mints an acceptable block;
  its loop ends; the order and the caps of a block are canonical; both mempools are minima over
  the set of messages, whatever the order of arrival. \<open>keccak256\<close> is the sponge of the standard and
  address texts read back. The formats round-trip, and two malleabilities are shown as findings.
  The requests in flight and the held announcements of the propagator are bounded and its buffer
  holds valid blocks (its other tables are not bounded); its locator ends; a locator is answered
  with the blocks that follow the fork, or, when its first known hash is an abandoned block, with
  those after that block's height; a round of announcement, requests and answers connects the first
  16 blocks and begins the next; blocks held while alone are released in order. Two ways in which
  sync fails are theorems too: a fork announced oldest block first is lost, and a hash that no
  block has stops the node from following the network. The lanes of a play are paid only for
  signatures over its delivery, to the wallet of a peer the signature names and the broker chose,
  and once; a listener can however be the relay of its own play.

  \<^bold>\<open>Bounds.\<close> No fuel is used: every loop of the modelled code is structural over a list or has a
  measure (the decimal printer, the Merkle levels, the producer's gate, the absorbing loop of Keccak,
  the draining of expected blocks), except the locator loop, a partial function that is shown to be
  total. The 100000 steps of the walk to a fork block are the code's own bound. Heights are 32-bit and nonces 64-bit words and wrap
  as in the code; that a reorganisation leaves no mark is shown for branches that end below \<open>2 ^ 32\<close>.

  \<^bold>\<open>Not modelled.\<close> Locks, logging, wall-clock time, file and socket I/O, the HTTP API, the transport
  between peers and the credit of relays, caches for audio and art, the wallets and key files, third-party code under
  \<open>deps/\<close>, and the player applications. The cache that a ledger read fills is left out: a filled
  entry equals what the store holds. Exceptions of LevelDB and allocation failures have no
  branch.
\<close>

end
